(* ===== verification/Go_Prelude.thy ===== *)
theory Go_Prelude
  imports Main "HOL-Library.Word"
begin

text \<open>
  The prelude of the development: the fragments of Go that every component uses.
  \<^item> byte slices are lists of 8-bit words, and a fixed-size array \<open>[n]byte\<close> is such a list
    of length \<open>n\<close>;
  \<^item> a Go call either returns a value, returns an error, or panics: \<open>outcome\<close>, sequenced
    by \<open>obind\<close>;
  \<^item> slicing out of range panics (\<open>slice\<close>, \<open>slice_from\<close>), \<open>copy\<close> overwrites a prefix
    (\<open>go_copy\<close>), and \<open>binary.BigEndian\<close> is \<open>be_put\<close> and \<open>be_get\<close>;
  \<^item> the helpers of \<open>src/core/utils\<close> that the components share.
  Sizes (Go \<open>int\<close>) are naturals; where the code subtracts sizes the model says what happens
  when the result would be negative.
\<close>

unbundle bit_operations_syntax

named_theorems go_simps \<open>when a sequence of Go calls returns, fails or panics\<close>

type_synonym byte = "8 word"
type_synonym bytes = "byte list"

section \<open>Outcomes of a Go call\<close>

datatype ('e, 'a) outcome = Ok 'a | Err 'e | Panic

fun obind :: "('e, 'a) outcome \<Rightarrow> ('a \<Rightarrow> ('e, 'b) outcome) \<Rightarrow> ('e, 'b) outcome" where
  "obind (Ok x) f = f x"
| "obind (Err e) f = Err e"
| "obind Panic f = Panic"

fun of_option :: "'a option \<Rightarrow> ('e, 'a) outcome" where
  "of_option None = Panic"
| "of_option (Some x) = Ok x"

definition guard_err :: "bool \<Rightarrow> 'e \<Rightarrow> ('e, unit) outcome" where
  "guard_err c e = (if c then Err e else Ok ())"

definition is_ok :: "('e, 'a) outcome \<Rightarrow> bool" where
  "is_ok r = (case r of Ok _ \<Rightarrow> True | _ \<Rightarrow> False)"

lemma obind_eq_Ok [go_simps]: "obind m f = Ok y \<longleftrightarrow> (\<exists>x. m = Ok x \<and> f x = Ok y)"
  by (cases m) auto

lemma obind_eq_Panic [go_simps]: "obind m f = Panic \<longleftrightarrow> m = Panic \<or> (\<exists>x. m = Ok x \<and> f x = Panic)"
  by (cases m) auto

lemma obind_eq_Err [go_simps]: "obind m f = Err e \<longleftrightarrow> m = Err e \<or> (\<exists>x. m = Ok x \<and> f x = Err e)"
  by (cases m) auto

lemma obind_assoc: "obind (obind m f) g = obind m (\<lambda>x. obind (f x) g)"
  by (cases m) auto

lemma guard_err_eq_Ok [simp]: "guard_err c e = Ok u \<longleftrightarrow> \<not> c"
  by (auto simp: guard_err_def)

lemma guard_err_simps [simp]: "guard_err True e = Err e" "guard_err False e = Ok ()"
  by (simp_all add: guard_err_def)

lemma guard_err_no_panic [simp]: "guard_err c e \<noteq> Panic"
  by (simp add: guard_err_def)

lemma is_ok_iff: "is_ok r \<longleftrightarrow> (\<exists>x. r = Ok x)"
  by (cases r) (auto simp: is_ok_def)

lemma of_option_eq_Ok [simp]: "of_option m = Ok x \<longleftrightarrow> m = Some x"
  by (cases m) auto

section \<open>Slices\<close>

text \<open>\<open>b[i:j]\<close> and \<open>b[i:]\<close> on a slice whose capacity is its length.\<close>

definition slice :: "bytes \<Rightarrow> nat \<Rightarrow> nat \<Rightarrow> ('e, bytes) outcome" where
  "slice b i j = (if i \<le> j \<and> j \<le> length b then Ok (take (j - i) (drop i b)) else Panic)"

definition slice_from :: "bytes \<Rightarrow> nat \<Rightarrow> ('e, bytes) outcome" where
  "slice_from b i = slice b i (length b)"

text \<open>\<open>copy(dst, src)\<close>: overwrites the first \<open>min(len(dst), len(src))\<close> elements.\<close>

definition go_copy :: "'a list \<Rightarrow> 'a list \<Rightarrow> 'a list" where
  "go_copy dst src = take (length dst) src @ drop (length src) dst"

definition zeros :: "nat \<Rightarrow> bytes" where
  "zeros n = replicate n 0"

lemma length_zeros [simp]: "length (zeros n) = n"
  by (simp add: zeros_def)

lemma zeros_append: "zeros m @ zeros n = zeros (m + n)"
  by (simp add: zeros_def replicate_add)

lemma take_zeros [simp]: "take m (zeros n) = zeros (min m n)"
  by (simp add: zeros_def)

lemma drop_zeros [simp]: "drop m (zeros n) = zeros (n - m)"
  by (simp add: zeros_def)

lemma zeros_0 [simp]: "zeros 0 = []"
  by (simp add: zeros_def)

lemma length_go_copy [simp]: "length (go_copy dst src) = length dst"
  by (simp add: go_copy_def)

lemma go_copy_same_length: "length src = length dst \<Longrightarrow> go_copy dst src = src"
  by (simp add: go_copy_def)

lemma go_copy_longer: "length dst \<le> length src \<Longrightarrow> go_copy dst src = take (length dst) src"
  by (simp add: go_copy_def)

lemma slice_eq_Ok: "slice b i j = Ok r \<longleftrightarrow> i \<le> j \<and> j \<le> length b \<and> r = take (j - i) (drop i b)"
  by (auto simp: slice_def)

lemma slice_from_eq_Ok: "slice_from b i = Ok r \<longleftrightarrow> i \<le> length b \<and> r = drop i b"
  by (auto simp: slice_from_def slice_def)

lemma slice_from_Ok [simp]: "i \<le> length b \<Longrightarrow> slice_from b i = Ok (drop i b)"
  by (simp add: slice_from_def slice_def)

lemma slice_Ok: "i \<le> j \<Longrightarrow> j \<le> length b \<Longrightarrow> slice b i j = Ok (take (j - i) (drop i b))"
  by (simp add: slice_def)

text \<open>The three slices of \<open>x @ y @ z\<close> that the parsers take.\<close>

lemma slice_middle: "i = length x \<Longrightarrow> j = length x + length y \<Longrightarrow> slice (x @ y @ z) i j = Ok y"
  by (simp add: slice_def)

lemma slice_prefix: "j = length x \<Longrightarrow> slice (x @ z) 0 j = Ok x"
  by (simp add: slice_def)

lemma slice_not_Err [simp]: "slice b i j \<noteq> Err e" "slice_from b i \<noteq> Err e"
  by (simp_all add: slice_def slice_from_def)

section \<open>Big-endian integers (encoding/binary)\<close>

fun be_put :: "nat \<Rightarrow> nat \<Rightarrow> bytes" where
  "be_put 0 v = []"
| "be_put (Suc n) v = be_put n (v div 256) @ [of_nat v]"

definition be_get :: "bytes \<Rightarrow> nat" where
  "be_get bs = foldl (\<lambda>a b. a * 256 + unat b) 0 bs"

definition PutUint16 :: "16 word \<Rightarrow> bytes" where
  "PutUint16 w = be_put 2 (unat w)"

definition Uint16 :: "bytes \<Rightarrow> 16 word" where
  "Uint16 bs = of_nat (be_get bs)"

definition PutUint32 :: "32 word \<Rightarrow> bytes" where
  "PutUint32 w = be_put 4 (unat w)"

definition Uint32 :: "bytes \<Rightarrow> 32 word" where
  "Uint32 bs = of_nat (be_get bs)"

definition PutUint64 :: "64 word \<Rightarrow> bytes" where
  "PutUint64 w = be_put 8 (unat w)"

definition Uint64 :: "bytes \<Rightarrow> 64 word" where
  "Uint64 bs = of_nat (be_get bs)"

lemma length_be_put [simp]: "length (be_put n v) = n"
  by (induction n arbitrary: v) auto

lemma be_put_0 [simp]: "be_put n 0 = zeros n"
  by (induction n) (simp_all add: zeros_def replicate_append_same)

lemma be_get_Nil [simp]: "be_get [] = 0"
  by (simp add: be_get_def)

lemma be_get_snoc [simp]: "be_get (bs @ [b]) = be_get bs * 256 + unat b"
  by (simp add: be_get_def)

lemma be_get_put: "be_get (be_put n v) = v mod 256 ^ n"
proof (induction n arbitrary: v)
  case (Suc n)
  have "be_get (be_put (Suc n) v) = (v div 256 mod 256 ^ n) * 256 + v mod 256"
    by (simp add: Suc.IH unat_of_nat)
  also have "\<dots> = v mod 256 ^ Suc n"
    by (simp add: mod_mult2_eq mult.commute)
  finally show ?case .
qed simp

lemma be_get_less: "be_get bs < 256 ^ length bs"
proof (induction bs rule: rev_induct)
  case (snoc b bs)
  have "unat b < 256" using unsigned_less [of b] by simp
  with snoc show ?case by simp
qed simp

lemma be_put_get: "be_put (length bs) (be_get bs) = bs"
proof (induction bs rule: rev_induct)
  case (snoc b bs)
  have b: "unat b < 256" using unsigned_less [of b] by simp
  have "(be_get bs * 256 + unat b) div 256 = be_get bs" using b by simp
  moreover have "word_of_nat (be_get bs * 256 + unat b) = b"
  proof -
    have "(word_of_nat (be_get bs * 256 + unat b) :: byte) = of_nat (be_get bs) * 256 + b"
      by simp
    also have "(256 :: byte) = 0" by simp
    finally show ?thesis by simp
  qed
  ultimately show ?case using snoc by simp
qed simp

lemma length_PutUint [simp]: "length (PutUint32 w) = 4" "length (PutUint64 v) = 8"
  by (simp_all add: PutUint32_def PutUint64_def)

lemma PutUint_nonempty [simp]: "PutUint32 w \<noteq> []" "PutUint64 v \<noteq> []"
  by (metis length_PutUint(1) list.size(3) zero_neq_numeral)
    (metis length_PutUint(2) list.size(3) zero_neq_numeral)

lemma PutUint_0 [simp]: "PutUint32 0 = zeros 4" "PutUint64 0 = zeros 8"
  by (simp_all add: PutUint32_def PutUint64_def)

lemma Uint32_PutUint32 [simp]: "Uint32 (PutUint32 w) = w"
proof -
  have "unat w < 256 ^ 4" using unsigned_less [of w] by simp
  then show ?thesis by (simp add: Uint32_def PutUint32_def be_get_put)
qed

lemma Uint64_PutUint64 [simp]: "Uint64 (PutUint64 w) = w"
proof -
  have "unat w < 256 ^ 8" using unsigned_less [of w] by simp
  then show ?thesis by (simp add: Uint64_def PutUint64_def be_get_put)
qed

lemma length_PutUint16 [simp]: "length (PutUint16 w) = 2"
  by (simp add: PutUint16_def)

lemma Uint16_PutUint16 [simp]: "Uint16 (PutUint16 w) = w"
proof -
  have "unat w < 256 ^ 2" using unsigned_less [of w] by simp
  then show ?thesis by (simp add: Uint16_def PutUint16_def be_get_put)
qed

lemma PutUint16_Uint16: "length bs = 2 \<Longrightarrow> PutUint16 (Uint16 bs) = bs"
  using be_put_get [of bs] be_get_less [of bs] by (simp add: PutUint16_def Uint16_def unat_of_nat)

lemma PutUint32_bytes:
  "PutUint32 w = [of_nat (unat w div 256 div 256 div 256), of_nat (unat w div 256 div 256), of_nat (unat w div 256),
     of_nat (unat w)]"
proof -
  have "be_put (Suc (Suc (Suc (Suc 0)))) v =
      [of_nat (v div 256 div 256 div 256), of_nat (v div 256 div 256), of_nat (v div 256), of_nat v]" for v
    by simp
  moreover have "(4 :: nat) = Suc (Suc (Suc (Suc 0)))" by simp
  ultimately show ?thesis unfolding PutUint32_def by metis
qed

lemma unat_Uint32: "length bs = 4 \<Longrightarrow> unat (Uint32 bs) = be_get bs"
  using be_get_less [of bs] by (simp add: Uint32_def unat_of_nat)

lemma unat_Uint64: "length bs = 8 \<Longrightarrow> unat (Uint64 bs) = be_get bs"
  using be_get_less [of bs] by (simp add: Uint64_def unat_of_nat)

lemma PutUint32_Uint32: "length bs = 4 \<Longrightarrow> PutUint32 (Uint32 bs) = bs"
  using be_put_get [of bs] by (simp add: PutUint32_def unat_Uint32)

lemma PutUint64_Uint64: "length bs = 8 \<Longrightarrow> PutUint64 (Uint64 bs) = bs"
  using be_put_get [of bs] by (simp add: PutUint64_def unat_Uint64)

section \<open>src/core/utils\<close>

text \<open>\<open>CtIsZero\<close> ORs all bytes together and compares the sum with 0.\<close>

definition CtIsZero :: "bytes \<Rightarrow> bool" where
  "CtIsZero b = (foldl (\<lambda>s v. s OR v) 0 b = 0)"

definition ExplicitBzero :: "bytes \<Rightarrow> bytes" where
  "ExplicitBzero b = map (\<lambda>_. 0) b"

lemma foldl_or_eq_0: "foldl (\<lambda>s v. s OR v) (a :: byte) b = 0 \<longleftrightarrow> a = 0 \<and> (\<forall>x\<in>set b. x = 0)"
proof (induction b arbitrary: a)
  case (Cons x b)
  have "a OR x = 0 \<longleftrightarrow> a = 0 \<and> x = 0"
    by (metis or.right_idem or.right_neutral or.left_neutral)
  with Cons show ?case by auto
qed simp

lemma CtIsZero_iff: "CtIsZero b \<longleftrightarrow> b = zeros (length b)"
proof -
  have "CtIsZero b \<longleftrightarrow> (\<forall>x\<in>set b. x = 0)"
    by (simp add: CtIsZero_def foldl_or_eq_0)
  then show ?thesis
    by (metis in_set_replicate replicate_eqI zeros_def)
qed

lemma CtIsZero_zeros [simp]: "CtIsZero (zeros n)"
  by (simp add: CtIsZero_iff)

lemma ExplicitBzero_zeros: "ExplicitBzero b = zeros (length b)"
  by (simp add: ExplicitBzero_def zeros_def map_replicate_const)

end
