(* ===== verification/Sphinx_Crypto.thy ===== *)
theory Sphinx_Crypto
  imports Go_Prelude
begin

text \<open>
  \<open>src/core/sphinx/internal/crypto\<close> and \<open>src/core/sphinx/constants\<close>: the Sphinx
  parameterisation of the cryptographic primitives.

  The primitives themselves (HKDF, AES-CTR, HMAC, AEZ, SHA-512/256) and the NIKE and KEM schemes
  live in other packages. They are parameters: \<open>prims\<close> holds the symmetric ones,
  \<open>nike_scheme\<close> and \<open>kem_scheme\<close> the interfaces \<open>nike.Scheme\<close> and \<open>kem.Scheme\<close>
  of hpqc with the methods the code calls. \<open>prims_ok\<close>, \<open>nike_ok\<close> and \<open>kem_ok\<close> name
  what the code relies on: output lengths, that AEZ with \<open>tau = 0\<close> is a length-preserving
  permutation, that the NIKE commutes with itself and with blinding, and that decapsulation
  inverts encapsulation.
\<close>

section \<open>Constants\<close>

definition NodeIDLength :: nat where "NodeIDLength = 32"
definition RecipientIDLength :: nat where "RecipientIDLength = 32"
definition SURBIDLength :: nat where "SURBIDLength = 16"
definition CommandTagLength :: nat where "CommandTagLength = 1"

definition MACKeyLength :: nat where "MACKeyLength = 32"
definition MACLength :: nat where "MACLength = 32"
definition StreamKeyLength :: nat where "StreamKeyLength = 32"
definition StreamIVLength :: nat where "StreamIVLength = 16"
definition SPRPKeyLength :: nat where "SPRPKeyLength = 48"
definition SPRPIVLength :: nat where "SPRPIVLength = StreamIVLength"
definition privateKeySeedSize :: nat where "privateKeySeedSize = 32"

lemmas sphinx_consts [simp] =
  NodeIDLength_def RecipientIDLength_def SURBIDLength_def CommandTagLength_def MACKeyLength_def
  MACLength_def StreamKeyLength_def StreamIVLength_def SPRPKeyLength_def SPRPIVLength_def
  privateKeySeedSize_def

definition bytes_of_string :: "string \<Rightarrow> bytes" where
  "bytes_of_string s = map of_char s"

definition kdfInfo :: bytes where
  "kdfInfo = bytes_of_string ''katzenpost-kdf-v0-hkdf-sha256''"

section \<open>The primitives, as parameters\<close>

record prims =
  hkdf_expand :: "bytes \<Rightarrow> bytes \<Rightarrow> nat \<Rightarrow> bytes"
  ctr_stream :: "bytes \<Rightarrow> bytes \<Rightarrow> nat \<Rightarrow> bytes"
  hmac_sha256 :: "bytes \<Rightarrow> bytes \<Rightarrow> bytes"
  aez_encrypt :: "bytes \<Rightarrow> bytes \<Rightarrow> bytes \<Rightarrow> bytes"
  aez_decrypt :: "bytes \<Rightarrow> bytes \<Rightarrow> bytes \<Rightarrow> bytes option"
  sha512_256 :: "bytes \<Rightarrow> bytes"

record ('sk, 'pk) nike_scheme =
  nike_Name :: string
  nike_PublicKeySize :: nat
  nike_DeriveSecret :: "'sk \<Rightarrow> 'pk \<Rightarrow> bytes"
  nike_DerivePublicKey :: "'sk \<Rightarrow> 'pk"
  nike_Blind :: "'pk \<Rightarrow> 'sk \<Rightarrow> 'pk"
  nike_UnmarshalBinaryPublicKey :: "bytes \<Rightarrow> 'pk option"
  nike_GeneratePrivateKey :: "bytes \<Rightarrow> 'sk option"
  pk_Bytes :: "'pk \<Rightarrow> bytes"
  pk_FromBytes :: "bytes \<Rightarrow> 'pk option"
  pk_Blind :: "'pk \<Rightarrow> 'sk \<Rightarrow> 'pk option"

record ('sk, 'pk) kem_scheme =
  kem_Name :: string
  kem_CiphertextSize :: nat
  kem_PublicKey :: "'sk \<Rightarrow> 'pk"
  kem_Encapsulate :: "'pk \<Rightarrow> bytes \<Rightarrow> (bytes \<times> bytes) option"
  kem_Decapsulate :: "'sk \<Rightarrow> bytes \<Rightarrow> bytes option"

definition prims_ok :: "prims \<Rightarrow> bool" where
  "prims_ok p \<longleftrightarrow>
     (\<forall>ikm info n. length (hkdf_expand p ikm info n) = n) \<and>
     (\<forall>k iv n. length (ctr_stream p k iv n) = n) \<and>
     (\<forall>k m. length (hmac_sha256 p k m) = MACLength) \<and>
     (\<forall>k iv m. length (aez_encrypt p k iv m) = length m) \<and>
     (\<forall>k iv m. aez_decrypt p k iv (aez_encrypt p k iv m) = Some m) \<and>
     (\<forall>k iv c. \<exists>m. aez_decrypt p k iv c = Some m \<and> aez_encrypt p k iv m = c)"

definition nike_ok :: "('sk, 'pk) nike_scheme \<Rightarrow> bool" where
  "nike_ok N \<longleftrightarrow>
     (\<forall>P. length (pk_Bytes N P) = nike_PublicKeySize N) \<and>
     (\<forall>P. nike_UnmarshalBinaryPublicKey N (pk_Bytes N P) = Some P) \<and>
     (\<forall>P. pk_FromBytes N (pk_Bytes N P) = Some P) \<and>
     (\<forall>s. \<exists>x. nike_GeneratePrivateKey N s = Some x) \<and>
     (\<forall>P b. pk_Blind N P b = Some (nike_Blind N P b)) \<and>
     (\<forall>x y. nike_DeriveSecret N x (nike_DerivePublicKey N y) =
            nike_DeriveSecret N y (nike_DerivePublicKey N x)) \<and>
     (\<forall>x P. \<exists>Q. nike_DeriveSecret N x P = pk_Bytes N Q \<and>
            (\<forall>b. nike_DeriveSecret N x (nike_Blind N P b) = pk_Bytes N (nike_Blind N Q b)))"

definition kem_ok :: "('sk, 'pk) kem_scheme \<Rightarrow> bool" where
  "kem_ok K \<longleftrightarrow>
     (\<forall>sk r. \<exists>ct ss. kem_Encapsulate K (kem_PublicKey K sk) r = Some (ct, ss) \<and>
        length ct = kem_CiphertextSize K \<and> kem_Decapsulate K sk ct = Some ss)"

section \<open>crypto.go\<close>

text \<open>The stream cipher: CTR mode XORs the key stream of the whole buffer.\<close>

definition XORKeyStream :: "prims \<Rightarrow> bytes \<Rightarrow> bytes \<Rightarrow> bytes \<Rightarrow> bytes" where
  "XORKeyStream p key iv src = map2 (XOR) src (ctr_stream p key iv (length src))"

definition KeyStream :: "prims \<Rightarrow> bytes \<Rightarrow> bytes \<Rightarrow> nat \<Rightarrow> bytes" where
  "KeyStream p key iv n = XORKeyStream p key iv (zeros n)"

definition sphinx_Hash :: "prims \<Rightarrow> bytes \<Rightarrow> bytes" where
  "sphinx_Hash p msg = sha512_256 p msg"

text \<open>The MAC object: the concatenation of what was written, summed at the end.\<close>

definition mac_sum :: "prims \<Rightarrow> bytes \<Rightarrow> bytes list \<Rightarrow> bytes" where
  "mac_sum p key written = hmac_sha256 p key (concat written)"

definition SPRPEncrypt :: "prims \<Rightarrow> bytes \<Rightarrow> bytes \<Rightarrow> bytes \<Rightarrow> bytes" where
  "SPRPEncrypt p key iv msg = aez_encrypt p key iv msg"

text \<open>\<open>SPRPDecrypt\<close> and \<open>KDF\<close> return no error: \<open>None\<close> is the panic of the Go code.\<close>

definition SPRPDecrypt :: "prims \<Rightarrow> bytes \<Rightarrow> bytes \<Rightarrow> bytes \<Rightarrow> bytes option" where
  "SPRPDecrypt p key iv msg = aez_decrypt p key iv msg"

record 'sk PacketKeys =
  HeaderMAC :: bytes
  HeaderEncryption :: bytes
  HeaderEncryptionIV :: bytes
  PayloadEncryption :: bytes
  BlindingFactor :: "'sk option"

definition KDF :: "prims \<Rightarrow> bytes \<Rightarrow> ('sk, 'pk) nike_scheme option \<Rightarrow> 'sk PacketKeys option" where
  "KDF p ikm scheme =
     (let okmLength = MACKeyLength + StreamKeyLength + StreamIVLength + SPRPKeyLength + privateKeySeedSize;
          okm = hkdf_expand p ikm kdfInfo okmLength
      in if length okm \<noteq> okmLength then None
         else
           let ptr0 = okm;
               ptr1 = drop MACKeyLength ptr0;
               ptr2 = drop StreamKeyLength ptr1;
               ptr3 = drop StreamIVLength ptr2;
               ptr4 = drop SPRPKeyLength ptr3;
               k = \<lparr>HeaderMAC = take MACKeyLength ptr0,
                    HeaderEncryption = take StreamKeyLength ptr1,
                    HeaderEncryptionIV = take StreamIVLength ptr2,
                    PayloadEncryption = take SPRPKeyLength ptr3,
                    BlindingFactor = None\<rparr>
           in case scheme of
                None \<Rightarrow> Some k
              | Some s \<Rightarrow>
                  (case nike_GeneratePrivateKey s (take privateKeySeedSize ptr4) of
                     None \<Rightarrow> None
                   | Some bf \<Rightarrow> Some (k\<lparr>BlindingFactor := Some bf\<rparr>)))"

definition PacketKeys_Reset :: "('sk \<Rightarrow> 'sk) \<Rightarrow> 'sk PacketKeys \<Rightarrow> 'sk PacketKeys" where
  "PacketKeys_Reset reset_key k =
     k\<lparr>HeaderMAC := ExplicitBzero (HeaderMAC k),
       HeaderEncryption := ExplicitBzero (HeaderEncryption k),
       HeaderEncryptionIV := ExplicitBzero (HeaderEncryptionIV k),
       PayloadEncryption := ExplicitBzero (PayloadEncryption k),
       BlindingFactor := map_option reset_key (BlindingFactor k)\<rparr>"

section \<open>XOR of byte strings\<close>

definition xor_bytes :: "bytes \<Rightarrow> bytes \<Rightarrow> bytes" where
  "xor_bytes a b = map2 (XOR) a b"

lemma length_xor_bytes [simp]: "length (xor_bytes a b) = min (length a) (length b)"
  by (simp add: xor_bytes_def)

lemma xor_bytes_append:
  "length a = length c \<Longrightarrow> xor_bytes (a @ b) (c @ d) = xor_bytes a c @ xor_bytes b d"
  by (simp add: xor_bytes_def)

lemma xor_bytes_cancel: "length a = length b \<Longrightarrow> xor_bytes (xor_bytes a b) b = a"
proof (induction a b rule: list_induct2)
  case (Cons x xs y ys)
  then show ?case by (simp add: xor_bytes_def xor.assoc)
qed (simp add: xor_bytes_def)

lemma xor_bytes_commute: "xor_bytes a b = xor_bytes b a"
proof (induction a arbitrary: b)
  case (Cons x a)
  then show ?case by (cases b) (simp_all add: xor_bytes_def xor.commute)
qed (simp add: xor_bytes_def)

lemma xor_bytes_zeros_left [simp]: "length b = n \<Longrightarrow> xor_bytes (zeros n) b = b"
proof (induction b arbitrary: n)
  case (Cons x b)
  then show ?case by (cases n) (simp_all add: xor_bytes_def zeros_def)
qed (simp add: xor_bytes_def)

lemma xor_bytes_split:
  assumes "length b = length (x @ y)"
  shows "xor_bytes (x @ y) b = xor_bytes x (take (length x) b) @ xor_bytes y (drop (length x) b)"
  using assms xor_bytes_append [of x "take (length x) b" y "drop (length x) b"] by simp

section \<open>Consequences of the laws\<close>

lemma prims_okD [simp]:
  assumes "prims_ok p"
  shows "length (hkdf_expand p ikm info n) = n"
    and "length (ctr_stream p k iv n) = n"
    and "length (hmac_sha256 p k m) = 32"
    and "length (aez_encrypt p k iv m) = length m"
    and "aez_decrypt p k iv (aez_encrypt p k iv m) = Some m"
  using assms by (simp_all add: prims_ok_def)

lemma SPRPEncrypt_length [simp]: "prims_ok p \<Longrightarrow> length (SPRPEncrypt p k iv m) = length m"
  by (simp add: SPRPEncrypt_def)

lemma SPRPDecrypt_SPRPEncrypt [simp]: "prims_ok p \<Longrightarrow> SPRPDecrypt p k iv (SPRPEncrypt p k iv m) = Some m"
  by (simp add: SPRPEncrypt_def SPRPDecrypt_def)

lemma SPRPDecrypt_total:
  assumes "prims_ok p"
  obtains m where "SPRPDecrypt p k iv c = Some m" and "SPRPEncrypt p k iv m = c"
    and "length m = length c"
proof -
  from assms obtain m where m: "aez_decrypt p k iv c = Some m" "aez_encrypt p k iv m = c"
    unfolding prims_ok_def by blast
  with prims_okD(4) [OF assms, of k iv m] have "length m = length c" by simp
  with m that show thesis by (simp add: SPRPDecrypt_def SPRPEncrypt_def)
qed

lemma KeyStream_length [simp]: "prims_ok p \<Longrightarrow> length (KeyStream p k iv n) = n"
  by (simp add: KeyStream_def XORKeyStream_def)

lemma XORKeyStream_xor:
  "prims_ok p \<Longrightarrow> length src = n \<Longrightarrow> XORKeyStream p k iv src = xor_bytes src (KeyStream p k iv n)"
  by (simp add: KeyStream_def XORKeyStream_def flip: xor_bytes_def)

lemma mac_sum_length [simp]: "prims_ok p \<Longrightarrow> length (mac_sum p k ws) = 32"
  by (simp add: mac_sum_def)

text \<open>The lengths of derived packet keys.\<close>

definition keys_wf :: "'sk PacketKeys \<Rightarrow> bool" where
  "keys_wf k \<longleftrightarrow> length (HeaderMAC k) = MACKeyLength \<and> length (HeaderEncryption k) = StreamKeyLength \<and>
     length (HeaderEncryptionIV k) = StreamIVLength \<and> length (PayloadEncryption k) = SPRPKeyLength"

lemma KDF_None_ok:
  assumes "prims_ok p"
  obtains k where "KDF p ikm None = Some k" and "keys_wf k"
proof (rule that)
  show "KDF p ikm None = Some (the (KDF p ikm None))"
    using assms by (simp add: KDF_def Let_def)
  show "keys_wf (the (KDF p ikm None))"
    using assms by (simp add: KDF_def Let_def keys_wf_def)
qed

lemma KDF_Some_ok:
  assumes "prims_ok p" and "nike_ok N"
  obtains k bf where "KDF p ikm (Some N) = Some k" and "keys_wf k" and "BlindingFactor k = Some bf"
proof -
  from assms(2) have "\<exists>x. nike_GeneratePrivateKey N s = Some x" for s
    by (simp add: nike_ok_def)
  then obtain f where f: "\<And>s. nike_GeneratePrivateKey N s = Some (f s)"
    by metis
  show thesis
  proof (rule that)
    let ?k = "the (KDF p ikm (Some N))"
    show "KDF p ikm (Some N) = Some ?k"
      using assms(1) by (simp add: KDF_def Let_def f)
    show "keys_wf ?k"
      using assms(1) by (simp add: KDF_def Let_def f keys_wf_def)
    show "BlindingFactor ?k = Some (the (BlindingFactor ?k))"
      using assms(1) by (simp add: KDF_def Let_def f)
  qed
qed

section \<open>A concrete instance\<close>

text \<open>
  Small schemes that meet the laws, so that theorems which assume them can be applied to concrete
  packets: multiplication of bytes as the group operation, addition of the key sum as the cipher.
\<close>

definition toy_prims :: prims where
  "toy_prims =
     \<lparr>hkdf_expand = (\<lambda>ikm info n. replicate n (sum_list ikm)),
      ctr_stream = (\<lambda>k iv n. replicate n (sum_list k)),
      hmac_sha256 = (\<lambda>k m. replicate 32 (sum_list (k @ m))),
      aez_encrypt = (\<lambda>k iv m. map (\<lambda>b. b + sum_list k) m),
      aez_decrypt = (\<lambda>k iv c. Some (map (\<lambda>b. b - sum_list k) c)),
      sha512_256 = (\<lambda>m. replicate 32 (sum_list m))\<rparr>"

definition toy_nike :: "(byte, byte) nike_scheme" where
  "toy_nike =
     \<lparr>nike_Name = ''toy'', nike_PublicKeySize = 1, nike_DeriveSecret = (\<lambda>x P. [x * P]),
      nike_DerivePublicKey = (\<lambda>x. x), nike_Blind = (\<lambda>P b. P * b),
      nike_UnmarshalBinaryPublicKey = (\<lambda>b. if length b = 1 then Some (hd b) else None),
      nike_GeneratePrivateKey = (\<lambda>s. Some (sum_list s)),
      pk_Bytes = (\<lambda>P. [P]), pk_FromBytes = (\<lambda>b. if length b = 1 then Some (hd b) else None),
      pk_Blind = (\<lambda>P b. Some (P * b))\<rparr>"

definition toy_kem :: "(byte, byte) kem_scheme" where
  "toy_kem =
     \<lparr>kem_Name = ''toy'', kem_CiphertextSize = 1, kem_PublicKey = (\<lambda>x. x),
      kem_Encapsulate = (\<lambda>P r. let c = take 1 (r @ [0]) in Some (c, P # c)),
      kem_Decapsulate = (\<lambda>x c. Some (x # c))\<rparr>"

lemma toy_prims_ok: "prims_ok toy_prims"
proof -
  have "\<exists>m. map (\<lambda>b. b - s) c = m \<and> map (\<lambda>b. b + s) m = c" for s :: byte and c
    by (simp add: comp_def)
  then show ?thesis by (auto simp: prims_ok_def toy_prims_def comp_def)
qed

lemma toy_nike_ok: "nike_ok toy_nike"
  by (simp add: nike_ok_def toy_nike_def mult.commute mult.assoc)

lemma toy_kem_ok: "kem_ok toy_kem"
  by (auto simp: kem_ok_def toy_kem_def Let_def)

lemma toy_nike_simps [simp]:
  "nike_PublicKeySize toy_nike = 1" "nike_DerivePublicKey toy_nike x = x" "nike_Name toy_nike = ''toy''"
  by (simp_all add: toy_nike_def)

lemma toy_kem_simps [simp]:
  "kem_CiphertextSize toy_kem = 1" "kem_PublicKey toy_kem x = x" "kem_Name toy_kem = ''toy''"
  by (simp_all add: toy_kem_def)

end
