(* ===== verification/Sphinx_Geo.thy ===== *)
theory Sphinx_Geo
  imports Sphinx_Crypto
begin

text \<open>
  \<open>src/core/sphinx/geo/geo.go\<close>: the geometry (all the lengths) of a Sphinx packet, the factory
  that computes it from a payload length, and its validation. The registries
  \<open>schemes.ByName\<close> and \<open>kemschemes.ByName\<close> of hpqc are arguments.
\<close>

section \<open>The geometry\<close>

definition surbReplyLength :: nat where "surbReplyLength = CommandTagLength + SURBIDLength"
definition sphinxPlaintextHeaderLength :: nat where "sphinxPlaintextHeaderLength = 1 + 1"
definition adLength :: nat where "adLength = 2"
definition payloadTagLength :: nat where "payloadTagLength = 32"

lemmas geo_consts [simp] =
  surbReplyLength_def sphinxPlaintextHeaderLength_def adLength_def payloadTagLength_def

record Geometry =
  PacketLength :: nat
  NrHops :: nat
  HeaderLength :: nat
  RoutingInfoLength :: nat
  PerHopRoutingInfoLength :: nat
  SURBLength :: nat
  SphinxPlaintextHeaderLength :: nat
  PayloadTagLength :: nat
  ForwardPayloadLength :: nat
  UserForwardPayloadLength :: nat
  NextNodeHopLength :: nat
  SPRPKeyMaterialLength :: nat
  NIKEName :: string
  KEMName :: string

datatype geo_error =
    GeoNil
  | GeoNoScheme
  | GeoBothSchemes
  | GeoInvalidNIKE string
  | GeoInvalidKEM string
  | GeoZeroPacketLength
  | GeoZeroNrHops
  | GeoZeroHeaderLength
  | GeoZeroRoutingInfoLength
  | GeoZeroPerHopRoutingInfoLength

definition Validate ::
  "(string \<Rightarrow> 'n option) \<Rightarrow> (string \<Rightarrow> 'k option) \<Rightarrow> Geometry option \<Rightarrow> (geo_error, unit) outcome" where
  "Validate nikeByName kemByName og =
     (case og of
        None \<Rightarrow> Err GeoNil
      | Some g \<Rightarrow>
          if NIKEName g = [] \<and> KEMName g = [] then Err GeoNoScheme
          else if NIKEName g \<noteq> [] \<and> KEMName g \<noteq> [] then Err GeoBothSchemes
          else if NIKEName g \<noteq> [] \<and> nikeByName (NIKEName g) = None then Err (GeoInvalidNIKE (NIKEName g))
          else if NIKEName g = [] \<and> kemByName (KEMName g) = None then Err (GeoInvalidKEM (KEMName g))
          else if PacketLength g = 0 then Err GeoZeroPacketLength
          else if NrHops g = 0 then Err GeoZeroNrHops
          else if HeaderLength g = 0 then Err GeoZeroHeaderLength
          else if RoutingInfoLength g = 0 then Err GeoZeroRoutingInfoLength
          else if PerHopRoutingInfoLength g = 0 then Err GeoZeroPerHopRoutingInfoLength
          else Ok ())"

definition Scheme ::
  "(string \<Rightarrow> 'n option) \<Rightarrow> (string \<Rightarrow> 'k option) \<Rightarrow> Geometry \<Rightarrow> ('e, 'n option \<times> 'k option) outcome" where
  "Scheme nikeByName kemByName g =
     (let s = nikeByName (NIKEName g); k = kemByName (KEMName g)
      in if s = None \<and> k = None then Panic else Ok (s, k))"

section \<open>The factory\<close>

record ('nsk, 'npk, 'ksk, 'kpk) geometryFactory =
  f_nike :: "('nsk, 'npk) nike_scheme option"
  f_kem :: "('ksk, 'kpk) kem_scheme option"
  f_nrHops :: nat
  f_forwardPayloadLength :: nat
  f_sprpKeyMaterialLength :: nat
  f_nextNodeHopLength :: nat

definition perHopRoutingInfoLength ::
  "('nsk, 'npk, 'ksk, 'kpk) geometryFactory \<Rightarrow> ('e, nat) outcome" where
  "perHopRoutingInfoLength f =
     (case f_nike f of
        None \<Rightarrow> (case f_kem f of
                  None \<Rightarrow> Panic
                | Some k \<Rightarrow> Ok (f_nextNodeHopLength f + surbReplyLength + kem_CiphertextSize k))
      | Some n \<Rightarrow> Ok (f_nextNodeHopLength f + surbReplyLength))"

definition routingInfoLength ::
  "('nsk, 'npk, 'ksk, 'kpk) geometryFactory \<Rightarrow> ('e, nat) outcome" where
  "routingInfoLength f = obind (perHopRoutingInfoLength f) (\<lambda>ph. Ok (ph * f_nrHops f))"

definition headerLength ::
  "('nsk, 'npk, 'ksk, 'kpk) geometryFactory \<Rightarrow> ('e, nat) outcome" where
  "headerLength f =
     (case (f_nike f, f_kem f) of
        (None, None) \<Rightarrow> Panic
      | (Some n, Some k) \<Rightarrow> Panic
      | (Some n, None) \<Rightarrow>
          obind (routingInfoLength f) (\<lambda>ri. Ok (adLength + nike_PublicKeySize n + ri + MACLength))
      | (None, Some k) \<Rightarrow>
          obind (routingInfoLength f) (\<lambda>ri. Ok (adLength + kem_CiphertextSize k + ri + MACLength)))"

definition packetLength ::
  "('nsk, 'npk, 'ksk, 'kpk) geometryFactory \<Rightarrow> ('e, nat) outcome" where
  "packetLength f = obind (headerLength f) (\<lambda>h. Ok (h + payloadTagLength + f_forwardPayloadLength f))"

definition surbLength ::
  "('nsk, 'npk, 'ksk, 'kpk) geometryFactory \<Rightarrow> ('e, nat) outcome" where
  "surbLength f = obind (headerLength f) (\<lambda>h. Ok (h + NodeIDLength + f_sprpKeyMaterialLength f))"

definition deriveForwardPayloadLength ::
  "('nsk, 'npk, 'ksk, 'kpk) geometryFactory \<Rightarrow> nat \<Rightarrow> ('e, nat) outcome" where
  "deriveForwardPayloadLength f userForwardPayloadLength =
     obind (surbLength f) (\<lambda>s. Ok (userForwardPayloadLength + (sphinxPlaintextHeaderLength + s)))"

definition GeometryFromUserForwardPayloadLength ::
  "('nsk, 'npk) nike_scheme \<Rightarrow> nat \<Rightarrow> bool \<Rightarrow> nat \<Rightarrow> ('e, Geometry) outcome" where
  "GeometryFromUserForwardPayloadLength nike userForwardPayloadLength withSURB nrHops =
     (let f0 = \<lparr>f_nike = Some nike, f_kem = (None :: (unit, unit) kem_scheme option), f_nrHops = nrHops,
               f_forwardPayloadLength = 0,
               f_sprpKeyMaterialLength = SPRPKeyLength + SPRPIVLength,
               f_nextNodeHopLength = CommandTagLength + NodeIDLength + MACLength\<rparr>
      in obind (if withSURB then deriveForwardPayloadLength f0 userForwardPayloadLength
                else Ok userForwardPayloadLength) (\<lambda>fwd.
         let f = f0\<lparr>f_forwardPayloadLength := fwd\<rparr>
         in obind (headerLength f) (\<lambda>h. obind (packetLength f) (\<lambda>pl. obind (surbLength f) (\<lambda>sl.
            obind (routingInfoLength f) (\<lambda>ri. obind (perHopRoutingInfoLength f) (\<lambda>ph.
            Ok \<lparr>PacketLength = pl, NrHops = nrHops, HeaderLength = h, RoutingInfoLength = ri,
                PerHopRoutingInfoLength = ph, SURBLength = sl,
                SphinxPlaintextHeaderLength = sphinxPlaintextHeaderLength,
                PayloadTagLength = payloadTagLength, ForwardPayloadLength = fwd,
                UserForwardPayloadLength = userForwardPayloadLength,
                NextNodeHopLength = f_nextNodeHopLength f,
                SPRPKeyMaterialLength = f_sprpKeyMaterialLength f,
                NIKEName = nike_Name nike, KEMName = []\<rparr>)))))))"

definition KEMGeometryFromUserForwardPayloadLength ::
  "('ksk, 'kpk) kem_scheme \<Rightarrow> nat \<Rightarrow> bool \<Rightarrow> nat \<Rightarrow> ('e, Geometry) outcome" where
  "KEMGeometryFromUserForwardPayloadLength kem userForwardPayloadLength withSURB nrHops =
     (let f0 = \<lparr>f_nike = (None :: (unit, unit) nike_scheme option), f_kem = Some kem, f_nrHops = nrHops,
               f_forwardPayloadLength = 0,
               f_sprpKeyMaterialLength = SPRPKeyLength + SPRPIVLength,
               f_nextNodeHopLength = CommandTagLength + NodeIDLength + MACLength\<rparr>
      in obind (if withSURB then deriveForwardPayloadLength f0 userForwardPayloadLength
                else Ok userForwardPayloadLength) (\<lambda>fwd.
         let f = f0\<lparr>f_forwardPayloadLength := fwd\<rparr>
         in obind (headerLength f) (\<lambda>h. obind (packetLength f) (\<lambda>pl. obind (surbLength f) (\<lambda>sl.
            obind (routingInfoLength f) (\<lambda>ri. obind (perHopRoutingInfoLength f) (\<lambda>ph.
            Ok \<lparr>PacketLength = pl, NrHops = nrHops, HeaderLength = h, RoutingInfoLength = ri,
                PerHopRoutingInfoLength = ph, SURBLength = sl,
                SphinxPlaintextHeaderLength = sphinxPlaintextHeaderLength,
                PayloadTagLength = payloadTagLength, ForwardPayloadLength = fwd,
                UserForwardPayloadLength = userForwardPayloadLength,
                NextNodeHopLength = f_nextNodeHopLength f,
                SPRPKeyMaterialLength = f_sprpKeyMaterialLength f,
                NIKEName = [], KEMName = kem_Name kem\<rparr>)))))))"

section \<open>What the factories promise\<close>

text \<open>
  \<open>geo_consistent g e ct\<close>: the relations between the lengths that packet building and unwrapping
  depend on, for a public element (group element or KEM ciphertext) of \<open>e\<close> bytes and \<open>ct\<close>
  bytes of KEM ciphertext in every hop's routing information (0 for a NIKE).
\<close>

definition geo_consistent :: "Geometry \<Rightarrow> nat \<Rightarrow> nat \<Rightarrow> bool" where
  "geo_consistent g e ct \<longleftrightarrow>
     NextNodeHopLength g = 65 \<and>
     PerHopRoutingInfoLength g = 82 + ct \<and>
     RoutingInfoLength g = PerHopRoutingInfoLength g * NrHops g \<and>
     HeaderLength g = 2 + e + RoutingInfoLength g + 32 \<and>
     PayloadTagLength g = 32 \<and>
     PacketLength g = HeaderLength g + 32 + ForwardPayloadLength g \<and>
     SURBLength g = HeaderLength g + 32 + 64"

lemmas factory_defs =
  perHopRoutingInfoLength_def routingInfoLength_def headerLength_def packetLength_def surbLength_def
  deriveForwardPayloadLength_def Let_def

lemma nike_geometry:
  "GeometryFromUserForwardPayloadLength N u w n =
     Ok \<lparr>PacketLength = 2 + nike_PublicKeySize N + 82 * n + 32 + 32 + (if w then u + (2 + (2 + nike_PublicKeySize N + 82 * n + 32 + 32 + 64)) else u),
         NrHops = n,
         HeaderLength = 2 + nike_PublicKeySize N + 82 * n + 32,
         RoutingInfoLength = 82 * n, PerHopRoutingInfoLength = 82,
         SURBLength = 2 + nike_PublicKeySize N + 82 * n + 32 + 32 + 64,
         SphinxPlaintextHeaderLength = 2, PayloadTagLength = 32,
         ForwardPayloadLength = (if w then u + (2 + (2 + nike_PublicKeySize N + 82 * n + 32 + 32 + 64)) else u),
         UserForwardPayloadLength = u, NextNodeHopLength = 65, SPRPKeyMaterialLength = 64,
         NIKEName = nike_Name N, KEMName = []\<rparr>"
  by (simp add: GeometryFromUserForwardPayloadLength_def factory_defs)

lemma kem_geometry:
  "KEMGeometryFromUserForwardPayloadLength K u w n =
     Ok \<lparr>PacketLength = 2 + kem_CiphertextSize K + (82 + kem_CiphertextSize K) * n + 32 + 32 +
           (if w then u + (2 + (2 + kem_CiphertextSize K + (82 + kem_CiphertextSize K) * n + 32 + 32 + 64)) else u),
         NrHops = n,
         HeaderLength = 2 + kem_CiphertextSize K + (82 + kem_CiphertextSize K) * n + 32,
         RoutingInfoLength = (82 + kem_CiphertextSize K) * n,
         PerHopRoutingInfoLength = 82 + kem_CiphertextSize K,
         SURBLength = 2 + kem_CiphertextSize K + (82 + kem_CiphertextSize K) * n + 32 + 32 + 64,
         SphinxPlaintextHeaderLength = 2, PayloadTagLength = 32,
         ForwardPayloadLength = (if w then u + (2 + (2 + kem_CiphertextSize K + (82 + kem_CiphertextSize K) * n + 32 + 32 + 64)) else u),
         UserForwardPayloadLength = u, NextNodeHopLength = 65, SPRPKeyMaterialLength = 64,
         NIKEName = [], KEMName = kem_Name K\<rparr>"
  by (simp add: KEMGeometryFromUserForwardPayloadLength_def factory_defs)

lemma nike_geometry_consistent:
  "GeometryFromUserForwardPayloadLength N u w n = Ok g \<Longrightarrow> geo_consistent g (nike_PublicKeySize N) 0"
  by (auto simp: nike_geometry geo_consistent_def)

lemma kem_geometry_consistent:
  "KEMGeometryFromUserForwardPayloadLength K u w n = Ok g \<Longrightarrow>
     geo_consistent g (kem_CiphertextSize K) (kem_CiphertextSize K)"
  by (auto simp: kem_geometry geo_consistent_def)

end
