(* ===== verification/Sphinx_Commands.thy ===== *)
theory Sphinx_Commands
  imports Sphinx_Geo
begin

text \<open>
  \<open>src/core/sphinx/commands/commands.go\<close>: the per-hop routing commands and their serialisation.
  \<open>FromBytes\<close> returns a command (or none, for the terminal null command), the remaining bytes
  (or none), or an error, as the Go function's three results do. Locale \<open>prefix_codec\<close> is the
  interface that packet building and unwrapping rely on: an encoder and a decoder that splits one
  encoded command off the front of a buffer and leaves the rest. It is interpreted below on the
  code's own \<open>ToBytes\<close> and \<open>FromBytes\<close>.
\<close>

section \<open>Commands\<close>

datatype RoutingCommand =
    NextNodeHop (nnh_ID: bytes) (nnh_MAC: bytes)
  | Recipient (recipient_ID: bytes)
  | SURBReply (surbReply_ID: bytes)
  | NodeDelay (Delay: "32 word")

datatype rc_error = errInvalidRoutingCommand

definition rc_null :: byte where "rc_null = 0x00"
definition rc_nextNodeHop :: byte where "rc_nextNodeHop = 0x01"
definition rc_recipient :: byte where "rc_recipient = 0x02"
definition rc_surbReply :: byte where "rc_surbReply = 0x03"
definition rc_nodeDelay :: byte where "rc_nodeDelay = 0x80"

lemmas rc_ids [simp] = rc_null_def rc_nextNodeHop_def rc_recipient_def rc_surbReply_def rc_nodeDelay_def

text \<open>The array types \<open>[32]byte\<close> and \<open>[16]byte\<close> of the Go structs.\<close>

fun rc_wf :: "RoutingCommand \<Rightarrow> bool" where
  "rc_wf (NextNodeHop i m) = (length i = NodeIDLength \<and> length m = MACLength)"
| "rc_wf (Recipient i) = (length i = RecipientIDLength)"
| "rc_wf (SURBReply i) = (length i = SURBIDLength)"
| "rc_wf (NodeDelay d) = True"

fun rc_ToBytes :: "RoutingCommand \<Rightarrow> bytes \<Rightarrow> bytes" where
  "rc_ToBytes (NextNodeHop i m) b = ((b @ [rc_nextNodeHop]) @ i) @ m"
| "rc_ToBytes (Recipient i) b = (b @ [rc_recipient]) @ i"
| "rc_ToBytes (SURBReply i) b = (b @ [rc_surbReply]) @ i"
| "rc_ToBytes (NodeDelay d) b = (b @ [rc_nodeDelay]) @ PutUint32 d"

type_synonym rc_parse = "(rc_error, RoutingCommand option \<times> bytes option) outcome"

definition nextNodeHopFromBytes :: "bytes \<Rightarrow> Geometry \<Rightarrow> rc_parse" where
  "nextNodeHopFromBytes b g =
     (if NextNodeHopLength g = 0 then Panic
      else if length b < NextNodeHopLength g - 1 then Err errInvalidRoutingCommand
      else obind (slice_from b (NextNodeHopLength g - 1)) (\<lambda>rest.
           obind (slice b 0 NodeIDLength) (\<lambda>i.
           obind (slice_from b NodeIDLength) (\<lambda>m.
           Ok (Some (NextNodeHop (go_copy (zeros NodeIDLength) i) (go_copy (zeros MACLength) m)), Some rest)))))"

definition recipeientFromBytes :: "bytes \<Rightarrow> rc_parse" where
  "recipeientFromBytes b =
     (if length b < RecipientIDLength then Err errInvalidRoutingCommand
      else obind (slice_from b RecipientIDLength) (\<lambda>rest.
           obind (slice b 0 RecipientIDLength) (\<lambda>i.
           Ok (Some (Recipient (go_copy (zeros RecipientIDLength) i)), Some rest))))"

definition surbReplyFromBytes :: "bytes \<Rightarrow> rc_parse" where
  "surbReplyFromBytes b =
     (if length b < SURBIDLength then Err errInvalidRoutingCommand
      else obind (slice_from b SURBIDLength) (\<lambda>rest.
           obind (slice b 0 SURBIDLength) (\<lambda>i.
           Ok (Some (SURBReply (go_copy (zeros SURBIDLength) i)), Some rest))))"

definition nodeDelayFromBytes :: "bytes \<Rightarrow> rc_parse" where
  "nodeDelayFromBytes b =
     (if length b < 4 then Err errInvalidRoutingCommand
      else obind (slice_from b 4) (\<lambda>rest.
           obind (slice b 0 4) (\<lambda>d.
           Ok (Some (NodeDelay (Uint32 d)), Some rest))))"

fun rc_FromBytes :: "bytes \<Rightarrow> Geometry \<Rightarrow> rc_parse" where
  "rc_FromBytes [] g = Ok (None, None)"
| "rc_FromBytes [i] g = (if i \<noteq> rc_null then Err errInvalidRoutingCommand else Ok (None, None))"
| "rc_FromBytes (i # b) g =
     (if i = rc_null then
        (if length b > 0 \<and> \<not> CtIsZero b then Err errInvalidRoutingCommand else Ok (None, None))
      else if i = rc_nextNodeHop then nextNodeHopFromBytes b g
      else if i = rc_recipient then recipeientFromBytes b
      else if i = rc_surbReply then surbReplyFromBytes b
      else if i = rc_nodeDelay then nodeDelayFromBytes b
      else Err errInvalidRoutingCommand)"

section \<open>The codec interface\<close>

text \<open>
  A prefix codec: decoding the encoding of a well-formed value gives it back with the bytes that
  follow it, whatever they are, and encodings are not empty. Its clients parse whole sequences.
\<close>

locale prefix_codec =
  fixes enc :: "'c \<Rightarrow> bytes"
    and dec :: "bytes \<Rightarrow> ('c \<times> bytes) option"
    and wf :: "'c \<Rightarrow> bool"
  assumes dec_enc: "wf c \<Longrightarrow> dec (enc c @ rest) = Some (c, rest)"
    and enc_nonempty: "wf c \<Longrightarrow> enc c \<noteq> []"
    and dec_sound: "dec b = Some (c, rest) \<Longrightarrow> b = enc c @ rest \<and> wf c"
begin

lemma enc_prefix_free:
  assumes "wf c" and "wf d" and "enc c @ r = enc d @ s"
  shows "c = d \<and> r = s"
proof -
  have "Some (c, r) = dec (enc c @ r)" by (simp only: dec_enc [OF assms(1)])
  also have "\<dots> = Some (d, s)" by (simp only: assms(3) dec_enc [OF assms(2)])
  finally show ?thesis by simp
qed

lemma concat_enc_inj:
  assumes "list_all wf cs" and "list_all wf ds" and "concat (map enc cs) = concat (map enc ds)"
  shows "cs = ds"
  using assms
proof (induction cs arbitrary: ds)
  case Nil
  then show ?case by (cases ds) (auto dest: enc_nonempty)
next
  case (Cons c cs)
  then obtain d ds' where ds: "ds = d # ds'"
    by (cases ds) (auto dest: enc_nonempty)
  with Cons.prems have "c = d \<and> concat (map enc cs) = concat (map enc ds')"
    by (intro enc_prefix_free) auto
  with Cons.IH [of ds'] Cons.prems ds show ?case by auto
qed

lemma dec_shorter: "dec b = Some (c, rest) \<Longrightarrow> length rest < length b"
  using dec_sound [of b c rest] enc_nonempty [of c] by auto

end

text \<open>The code's parser as a decoder: the command it found, if it found one.\<close>

definition rc_decode :: "Geometry \<Rightarrow> bytes \<Rightarrow> (RoutingCommand \<times> bytes) option" where
  "rc_decode g b =
     (case rc_FromBytes b g of Ok (Some c, Some rest) \<Rightarrow> Some (c, rest) | _ \<Rightarrow> None)"

lemmas rc_parsers = nextNodeHopFromBytes_def recipeientFromBytes_def surbReplyFromBytes_def
  nodeDelayFromBytes_def

lemma rc_ToBytes_append: "rc_ToBytes c b = b @ rc_ToBytes c []"
  by (cases c) simp_all

lemma rc_ToBytes_length:
  "rc_wf c \<Longrightarrow> length (rc_ToBytes c []) =
     (case c of NextNodeHop _ _ \<Rightarrow> 65 | Recipient _ \<Rightarrow> 33 | SURBReply _ \<Rightarrow> 17 | NodeDelay _ \<Rightarrow> 5)"
  by (cases c) simp_all

lemma rc_FromBytes_Cons2:
  "b \<noteq> [] \<Longrightarrow> rc_FromBytes (i # b) g =
     (if i = rc_null then
        (if \<not> CtIsZero b then Err errInvalidRoutingCommand else Ok (None, None))
      else if i = rc_nextNodeHop then nextNodeHopFromBytes b g
      else if i = rc_recipient then recipeientFromBytes b
      else if i = rc_surbReply then surbReplyFromBytes b
      else if i = rc_nodeDelay then nodeDelayFromBytes b
      else Err errInvalidRoutingCommand)"
  by (cases b) auto

lemma rc_FromBytes_ToBytes:
  assumes "rc_wf c" and "NextNodeHopLength g = 65"
  shows "rc_FromBytes (rc_ToBytes c [] @ rest) g = Ok (Some c, Some rest)"
proof (cases c)
  case (NextNodeHop i m)
  then have "i @ m @ rest \<noteq> []" and "length i = 32" and "length m = 32"
    using assms(1) by auto
  then show ?thesis
    using NextNodeHop assms(2)
    by (simp add: rc_FromBytes_Cons2 rc_parsers slice_def go_copy_same_length go_copy_longer)
next
  case (Recipient i)
  then have "i @ rest \<noteq> []" and "length i = 32" using assms(1) by auto
  then show ?thesis
    using Recipient by (simp add: rc_FromBytes_Cons2 rc_parsers slice_def go_copy_same_length)
next
  case (SURBReply i)
  then have "i @ rest \<noteq> []" and "length i = 16" using assms(1) by auto
  then show ?thesis
    using SURBReply by (simp add: rc_FromBytes_Cons2 rc_parsers slice_def go_copy_same_length)
next
  case (NodeDelay d)
  have "PutUint32 d @ rest \<noteq> []" by simp
  then show ?thesis
    using NodeDelay by (simp add: rc_FromBytes_Cons2 rc_parsers slice_def)
qed

lemma rc_FromBytes_null: "rc_FromBytes (zeros n) g = Ok (None, None)"
proof (cases n)
  case (Suc m)
  then show ?thesis
    by (cases m) (simp_all add: zeros_def CtIsZero_zeros [unfolded zeros_def, of "Suc k" for k, simplified])
qed simp

lemma rc_FromBytes_sound:
  assumes "rc_FromBytes b g = Ok (Some c, r)" and g: "NextNodeHopLength g = 65"
  shows "\<exists>rest. r = Some rest \<and> b = rc_ToBytes c [] @ rest \<and> rc_wf c"
proof -
  obtain i d where b: "b = i # d" and d: "d \<noteq> []"
    using assms(1) by (cases b; cases "tl b") (auto split: if_splits)
  note run = assms(1) [unfolded b rc_FromBytes_Cons2 [OF d]]
  consider "i = rc_nextNodeHop" "nextNodeHopFromBytes d g = Ok (Some c, r)"
    | "i = rc_recipient" "recipeientFromBytes d = Ok (Some c, r)"
    | "i = rc_surbReply" "surbReplyFromBytes d = Ok (Some c, r)"
    | "i = rc_nodeDelay" "nodeDelayFromBytes d = Ok (Some c, r)"
    using run by (auto split: if_splits)
  then show ?thesis
  proof cases
    case 1
    then have l: "64 \<le> length d"
      and c: "c = NextNodeHop (take 32 d) (take 32 (drop 32 d))" and r: "r = Some (drop 64 d)"
      by (auto simp: rc_parsers g slice_def go_copy_longer obind_eq_Ok min_def split: if_splits)
    have "d = take 32 d @ take 32 (drop 32 d) @ drop 64 d"
      by (metis append_take_drop_id drop_drop numeral_Bit0)
    with 1 c r l b show ?thesis by simp
  next
    case 2
    then show ?thesis
      using b by (auto simp: rc_parsers slice_def go_copy_longer split: if_splits)
  next
    case 3
    then show ?thesis
      using b by (auto simp: rc_parsers slice_def go_copy_longer split: if_splits)
  next
    case 4
    then show ?thesis
      using b by (auto simp: rc_parsers slice_def PutUint32_Uint32 split: if_splits)
  qed
qed

lemma rc_FromBytes_no_panic:
  assumes "NextNodeHopLength g = 65"
  shows "rc_FromBytes b g \<noteq> Panic"
proof (cases b)
  case (Cons i d)
  with assms show ?thesis
    by (cases d) (auto simp: rc_parsers slice_def)
qed simp

text \<open>The remaining bytes are always shorter: what makes the parsing loop of \<open>Unwrap\<close> terminate.\<close>

lemma rc_FromBytes_shorter:
  assumes "rc_FromBytes b g = Ok (Some c, r)"
  shows "\<exists>rest. r = Some rest \<and> length rest < length b"
proof -
  obtain i d where b: "b = i # d" and d: "d \<noteq> []"
    using assms by (cases b; cases "tl b") (auto split: if_splits)
  show ?thesis
    using assms unfolding b rc_FromBytes_Cons2 [OF d]
    by (auto simp: rc_parsers obind_eq_Ok slice_from_eq_Ok split: if_splits)
qed

interpretation rc: prefix_codec "\<lambda>c. rc_ToBytes c []" "rc_decode (g\<lparr>NextNodeHopLength := 65\<rparr>)" rc_wf
  for g
proof unfold_locales
  fix c rest assume "rc_wf c"
  then show "rc_decode (g\<lparr>NextNodeHopLength := 65\<rparr>) (rc_ToBytes c [] @ rest) = Some (c, rest)"
    by (simp add: rc_decode_def rc_FromBytes_ToBytes)
  show "rc_ToBytes c [] \<noteq> []" by (cases c) simp_all
next
  fix b c rest
  assume "rc_decode (g\<lparr>NextNodeHopLength := 65\<rparr>) b = Some (c, rest)"
  then show "b = rc_ToBytes c [] @ rest \<and> rc_wf c"
    by (auto simp: rc_decode_def dest: rc_FromBytes_sound split: outcome.splits option.splits prod.splits)
qed

end
