(* ===== verification/Sphinx_Packet.thy ===== *)
theory Sphinx_Packet
  imports Sphinx_Commands
begin

text \<open>
  The parts of \<open>src/core/sphinx/sphinx.go\<close> that the NIKE and the KEM packet formats have in
  common: path hops, the SPRP key vector, the serialisation of a hop's commands, the key-stream and
  padding loop, the routing-information loop, the loop of \<open>Unwrap\<close> that parses the commands of one
  hop, and the lemma that one unwrapped layer is exactly the layer below it with fresh padding.
\<close>

section \<open>Errors and data\<close>

datatype sphinx_error =
    errInvalidPath
  | errGenerateKeyPair
  | errNextNodeHopCommand
  | errOversizedCommands
  | errInsufficientCapacity
  | errEntropy
  | errPayloadLength nat nat
  | errTruncatedPacket
  | errUnknownVersion
  | errUnmarshalGroupElement
  | errDecapsulate
  | errMACMismatch
  | errRoutingCommand rc_error
  | errNullCommandHadRest
  | errMultipleNextNode
  | errMultipleSURBReply
  | errTruncatedPayload
  | errInvalidTag
  | errTruncatedSURB
  | errInvalidSURBKeys
  | errLookupNIKE string
  | errLookupKEM string

definition v0AD :: bytes where "v0AD = [0x00, 0x00]"

lemma length_v0AD [simp]: "length v0AD = 2"
  by (simp add: v0AD_def)

record ('npk, 'kpk) PathHop =
  hop_ID :: bytes
  hop_NIKEPublicKey :: "'npk option"
  hop_KEMPublicKey :: "'kpk option"
  hop_Commands :: "RoutingCommand list"

record sprpKey =
  sprp_key :: bytes
  sprp_iv :: bytes

definition sprpKey_Reset :: "sprpKey \<Rightarrow> sprpKey" where
  "sprpKey_Reset k = k\<lparr>sprp_key := ExplicitBzero (sprp_key k), sprp_iv := ExplicitBzero (sprp_iv k)\<rparr>"

section \<open>Building a header\<close>

fun append_commands :: "RoutingCommand list \<Rightarrow> bytes \<Rightarrow> (sphinx_error, bytes) outcome" where
  "append_commands [] b = Ok b"
| "append_commands (v # vs) b =
     (case v of NextNodeHop _ _ \<Rightarrow> Err errNextNodeHopCommand | _ \<Rightarrow> append_commands vs (rc_ToBytes v b))"

text \<open>
  \<open>cap(b)\<close> is still \<open>PerHopRoutingInfoLength\<close> at the last check: an append reallocates only when the
  length exceeds the capacity, and that is the error before it.
\<close>

definition commandsToBytes ::
  "Geometry \<Rightarrow> RoutingCommand list \<Rightarrow> bool \<Rightarrow> (sphinx_error, bytes) outcome" where
  "commandsToBytes g cmds isTerminal =
     obind (append_commands cmds []) (\<lambda>b.
       if length b > PerHopRoutingInfoLength g then Err errOversizedCommands
       else if \<not> isTerminal \<and> PerHopRoutingInfoLength g - length b < NextNodeHopLength g
            then Err errInsufficientCapacity
       else Ok b)"

definition xorBytes :: "bytes \<Rightarrow> bytes \<Rightarrow> ('e, bytes) outcome" where
  "xorBytes a b = (if length a \<noteq> length b then Panic else Ok (xor_bytes a b))"

text \<open>
  The loop over the hops' keys: the part of each key stream that encrypts the routing information,
  and the padding that the earlier hops will have appended by then. \<open>i\<close> is the loop index and
  \<open>prevPad\<close> is \<open>riPadding[i-1]\<close>.
\<close>

fun ri_streams ::
  "prims \<Rightarrow> Geometry \<Rightarrow> nat \<Rightarrow> bytes \<Rightarrow> 'sk PacketKeys list \<Rightarrow> ('e, (bytes \<times> bytes) list) outcome" where
  "ri_streams p g i prevPad [] = Ok []"
| "ri_streams p g i prevPad (k # ks) =
     (let keyStream = KeyStream p (HeaderEncryption k) (HeaderEncryptionIV k)
                        (RoutingInfoLength g + PerHopRoutingInfoLength g)
      in if (i + 1) * PerHopRoutingInfoLength g > length keyStream then Panic
         else
           let ksLen = length keyStream - (i + 1) * PerHopRoutingInfoLength g;
               riKeyStream = take ksLen keyStream;
               pad = drop ksLen keyStream
           in obind (if i > 0
                     then obind (slice pad 0 (length prevPad)) (\<lambda>hd.
                          obind (xorBytes hd prevPad) (\<lambda>x. Ok (x @ drop (length prevPad) pad)))
                     else Ok pad) (\<lambda>riPadding.
              obind (ri_streams p g (Suc i) riPadding ks) (\<lambda>rest.
              Ok ((riKeyStream, riPadding) # rest))))"

text \<open>The random routing information that stands in for the hops a short path does not use.\<close>

definition skipped_ri :: "Geometry \<Rightarrow> (nat \<Rightarrow> bytes option) \<Rightarrow> nat \<Rightarrow> bytes option" where
  "skipped_ri g rnd nrHops =
     (if NrHops g > nrHops then rnd ((NrHops g - nrHops) * PerHopRoutingInfoLength g) else Some [])"

definition sprp_of_keys :: "'sk PacketKeys \<Rightarrow> sprpKey" where
  "sprp_of_keys v =
     \<lparr>sprp_key = go_copy (zeros SPRPKeyLength) (PayloadEncryption v),
      sprp_iv = go_copy (zeros SPRPIVLength) (HeaderEncryptionIV v)\<rparr>"

text \<open>The payload is encrypted from the last hop to the first.\<close>

definition encrypt_payload :: "prims \<Rightarrow> sprpKey list \<Rightarrow> bytes \<Rightarrow> bytes" where
  "encrypt_payload p ks b = foldr (\<lambda>k b. SPRPEncrypt p (sprp_key k) (sprp_iv k) b) ks b"

section \<open>Unwrapping: the commands of a hop\<close>

type_synonym parsed_cmds = "RoutingCommand list \<times> RoutingCommand option \<times> RoutingCommand option"

definition rest_bytes :: "bytes option \<Rightarrow> bytes" where
  "rest_bytes r = (case r of None \<Rightarrow> [] | Some b \<Rightarrow> b)"

lemma rest_bytes_simps [simp]: "rest_bytes (Some b) = b" "rest_bytes None = []"
  by (simp_all add: rest_bytes_def)

function parse_commands ::
  "Geometry \<Rightarrow> bytes \<Rightarrow> RoutingCommand list \<Rightarrow> RoutingCommand option \<Rightarrow> RoutingCommand option
     \<Rightarrow> (sphinx_error, parsed_cmds) outcome" where
  "parse_commands g cmdBuf cmds nextNode surbReply =
     (case rc_FromBytes cmdBuf g of
        Panic \<Rightarrow> Panic
      | Err e \<Rightarrow> Err (errRoutingCommand e)
      | Ok (None, rest) \<Rightarrow>
          if rest \<noteq> None then Err errNullCommandHadRest else Ok (cmds, nextNode, surbReply)
      | Ok (Some c, rest) \<Rightarrow>
          (case c of
             NextNodeHop _ _ \<Rightarrow>
               if nextNode \<noteq> None then Err errMultipleNextNode
               else parse_commands g (rest_bytes rest) (cmds @ [c]) (Some c) surbReply
           | SURBReply _ \<Rightarrow>
               if surbReply \<noteq> None then Err errMultipleSURBReply
               else parse_commands g (rest_bytes rest) (cmds @ [c]) nextNode (Some c)
           | _ \<Rightarrow> parse_commands g (rest_bytes rest) (cmds @ [c]) nextNode surbReply))"
  by pat_completeness auto
termination
  by (relation "measure (\<lambda>(g, b, _). length b)")
    (auto dest!: rc_FromBytes_shorter simp: rest_bytes_def)

declare parse_commands.simps [simp del]

text \<open>\<open>copy(dst[i:j], src)\<close>\<close>

definition copy_range :: "bytes \<Rightarrow> nat \<Rightarrow> nat \<Rightarrow> bytes \<Rightarrow> ('e, bytes) outcome" where
  "copy_range dst i j src =
     obind (slice dst i j) (\<lambda>d. Ok (take i dst @ go_copy d src @ drop j dst))"

text \<open>
  The results of \<open>Unwrap\<close>: payload (nil when the packet is to be forwarded), replay tag, commands,
  and the packet buffer as the call leaves it. Errors carry the replay tag the Go function returns
  with them.
\<close>

type_synonym unwrap_ok = "bytes option \<times> bytes \<times> RoutingCommand list \<times> bytes"
type_synonym unwrap = "(sphinx_error \<times> bytes option, unwrap_ok) outcome"

definition with_tag :: "bytes option \<Rightarrow> (sphinx_error, 'a) outcome \<Rightarrow> (sphinx_error \<times> bytes option, 'a) outcome" where
  "with_tag tag r = (case r of Ok x \<Rightarrow> Ok x | Err e \<Rightarrow> Err (e, tag) | Panic \<Rightarrow> Panic)"

lemma with_tag_simps [simp]:
  "with_tag t (Ok x) = Ok x" "with_tag t (Err e) = Err (e, t)" "with_tag t Panic = Panic"
  by (simp_all add: with_tag_def)

text \<open>The payload checks at the last hop.\<close>

definition terminal_payload ::
  "Geometry \<Rightarrow> RoutingCommand option \<Rightarrow> bytes \<Rightarrow> (sphinx_error, bytes) outcome" where
  "terminal_payload g surbReply payload =
     (if length payload < PayloadTagLength g then Err errTruncatedPayload
      else if surbReply = None then
        (if \<not> CtIsZero (take (PayloadTagLength g) payload) then Err errInvalidTag
         else Ok (drop (PayloadTagLength g) payload))
      else Ok payload)"

section \<open>Serialised commands parse back\<close>

definition ser_commands :: "RoutingCommand list \<Rightarrow> bytes" where
  "ser_commands cmds = concat (map (\<lambda>c. rc_ToBytes c []) cmds)"

lemma ser_commands_simps [simp]:
  "ser_commands [] = []"
  "ser_commands (c # cs) = rc_ToBytes c [] @ ser_commands cs"
  "ser_commands (cs @ ds) = ser_commands cs @ ser_commands ds"
  by (simp_all add: ser_commands_def)

text \<open>
  What a caller may put in a hop's command vector: well-formed commands, no \<open>NextNodeHop\<close> and at most
  one \<open>SURBReply\<close>.
\<close>

definition hop_commands_wf :: "RoutingCommand list \<Rightarrow> bool" where
  "hop_commands_wf cmds \<longleftrightarrow>
     list_all (\<lambda>c. rc_wf c \<and> \<not> is_NextNodeHop c) cmds \<and> length (filter is_SURBReply cmds) \<le> 1"

lemma append_commands_ok:
  "list_all (\<lambda>c. \<not> is_NextNodeHop c) cmds \<Longrightarrow> append_commands cmds b = Ok (b @ ser_commands cmds)"
proof (induction cmds arbitrary: b)
  case (Cons c cmds)
  then show ?case by (cases c) simp_all
qed simp

lemma append_commands_rejects:
  "\<not> list_all (\<lambda>c. \<not> is_NextNodeHop c) cmds \<Longrightarrow> append_commands cmds b = Err errNextNodeHopCommand"
proof (induction cmds arbitrary: b)
  case (Cons c cmds)
  then show ?case by (cases c) simp_all
qed simp

lemma hop_commands_wf_no_nnh: "hop_commands_wf cmds \<Longrightarrow> list_all (\<lambda>c. \<not> is_NextNodeHop c) cmds"
  by (auto simp: hop_commands_wf_def list_all_iff)

lemma commandsToBytes_ok:
  assumes "hop_commands_wf cmds" and "length (ser_commands cmds) \<le> PerHopRoutingInfoLength g"
    and "\<not> isTerminal \<Longrightarrow> length (ser_commands cmds) + NextNodeHopLength g \<le> PerHopRoutingInfoLength g"
  shows "commandsToBytes g cmds isTerminal = Ok (ser_commands cmds)"
  using assms by (auto simp: commandsToBytes_def append_commands_ok hop_commands_wf_no_nnh)

lemma parse_commands_zeros: "parse_commands g (zeros k) acc nn sr = Ok (acc, nn, sr)"
  by (simp add: parse_commands.simps rc_FromBytes_null)

lemma parse_commands_step:
  assumes "rc_wf c" and "NextNodeHopLength g = 65"
  shows "parse_commands g (rc_ToBytes c [] @ t) acc nn sr =
     (case c of
        NextNodeHop _ _ \<Rightarrow> if nn \<noteq> None then Err errMultipleNextNode else parse_commands g t (acc @ [c]) (Some c) sr
      | SURBReply _ \<Rightarrow> if sr \<noteq> None then Err errMultipleSURBReply else parse_commands g t (acc @ [c]) nn (Some c)
      | _ \<Rightarrow> parse_commands g t (acc @ [c]) nn sr)"
  using rc_FromBytes_ToBytes [OF assms, of t]
  by (subst parse_commands.simps) (auto split: RoutingCommand.split)

lemma parse_commands_ser:
  assumes "list_all (\<lambda>c. rc_wf c \<and> \<not> is_NextNodeHop c) cmds"
    and "length (filter is_SURBReply cmds) \<le> (if sr = None then 1 else 0)"
    and "NextNodeHopLength g = 65"
  shows "parse_commands g (ser_commands cmds @ t) acc nn sr =
     parse_commands g t (acc @ cmds) nn (case find is_SURBReply cmds of None \<Rightarrow> sr | Some c \<Rightarrow> Some c)"
  using assms(1,2)
proof (induction cmds arbitrary: acc sr)
  case (Cons c cmds)
  have wf: "rc_wf c" using Cons.prems(1) by simp
  note step = parse_commands_step [OF wf assms(3), of "ser_commands cmds @ t" acc nn sr]
  show ?case
  proof (cases c)
    case (SURBReply i)
    with Cons.prems have "sr = None" and none: "filter is_SURBReply cmds = []"
      by (auto split: if_splits)
    moreover from none have "find is_SURBReply cmds = None"
      by (simp add: find_None_iff filter_empty_conv)
    ultimately show ?thesis
      using Cons.IH [of "Some c" "acc @ [c]"] Cons.prems SURBReply step
      by (simp del: rc_ToBytes.simps)
  qed (use Cons step in \<open>simp_all del: rc_ToBytes.simps\<close>)
qed simp

lemma parse_commands_hop:
  assumes "hop_commands_wf cmds" and "NextNodeHopLength g = 65"
  shows "parse_commands g (ser_commands cmds @ zeros k) [] None None =
           Ok (cmds, None, find is_SURBReply cmds)"
    and "rc_wf (NextNodeHop i m) \<Longrightarrow>
         parse_commands g (ser_commands (cmds @ [NextNodeHop i m]) @ zeros k) [] None None =
           Ok (cmds @ [NextNodeHop i m], Some (NextNodeHop i m), find is_SURBReply cmds)"
proof -
  note ser = parse_commands_ser [of cmds None g, OF _ _ assms(2)]
  have c: "list_all (\<lambda>c. rc_wf c \<and> \<not> is_NextNodeHop c) cmds" "length (filter is_SURBReply cmds) \<le> 1"
    using assms(1) by (auto simp: hop_commands_wf_def)
  have o: "(case find is_SURBReply cmds of None \<Rightarrow> None | Some c \<Rightarrow> Some c) = find is_SURBReply cmds"
    by (simp split: option.split)
  show "parse_commands g (ser_commands cmds @ zeros k) [] None None = Ok (cmds, None, find is_SURBReply cmds)"
    using c by (simp add: ser o parse_commands_zeros)
  assume "rc_wf (NextNodeHop i m)"
  note nnh = parse_commands_step [OF this assms(2)]
  show "parse_commands g (ser_commands (cmds @ [NextNodeHop i m]) @ zeros k) [] None None =
      Ok (cmds @ [NextNodeHop i m], Some (NextNodeHop i m), find is_SURBReply cmds)"
    using c by (simp add: ser o nnh parse_commands_zeros del: rc_ToBytes.simps)
qed

section \<open>Key streams and padding\<close>

definition hop_stream :: "prims \<Rightarrow> Geometry \<Rightarrow> 'sk PacketKeys \<Rightarrow> bytes" where
  "hop_stream p g k = KeyStream p (HeaderEncryption k) (HeaderEncryptionIV k)
     (RoutingInfoLength g + PerHopRoutingInfoLength g)"

text \<open>The key stream and padding of hop \<open>i\<close> in closed form, and the sequence of them.\<close>

definition layer_stream :: "prims \<Rightarrow> Geometry \<Rightarrow> nat \<Rightarrow> 'sk PacketKeys \<Rightarrow> bytes" where
  "layer_stream p g i k = take (RoutingInfoLength g - i * PerHopRoutingInfoLength g) (hop_stream p g k)"

definition layer_pad :: "prims \<Rightarrow> Geometry \<Rightarrow> nat \<Rightarrow> bytes \<Rightarrow> 'sk PacketKeys \<Rightarrow> bytes" where
  "layer_pad p g i prevPad k =
     xor_bytes (prevPad @ zeros (PerHopRoutingInfoLength g))
       (drop (RoutingInfoLength g - i * PerHopRoutingInfoLength g) (hop_stream p g k))"

fun layer_streams :: "prims \<Rightarrow> Geometry \<Rightarrow> nat \<Rightarrow> bytes \<Rightarrow> 'sk PacketKeys list \<Rightarrow> (bytes \<times> bytes) list" where
  "layer_streams p g i prevPad [] = []"
| "layer_streams p g i prevPad (k # ks) =
     (layer_stream p g i k, layer_pad p g i prevPad k) # layer_streams p g (Suc i) (layer_pad p g i prevPad k) ks"

lemma hop_stream_length [simp]:
  "prims_ok p \<Longrightarrow> length (hop_stream p g k) = RoutingInfoLength g + PerHopRoutingInfoLength g"
  by (simp add: hop_stream_def)

lemma layer_pad_eq:
  assumes "prims_ok p" and "RoutingInfoLength g = PerHopRoutingInfoLength g * NrHops g"
    and "i \<le> NrHops g" and "length prevPad = i * PerHopRoutingInfoLength g"
  shows "layer_pad p g i prevPad k =
     (let d = drop (RoutingInfoLength g - i * PerHopRoutingInfoLength g) (hop_stream p g k)
      in xor_bytes (take (length prevPad) d) prevPad @ drop (length prevPad) d)"
proof -
  let ?d = "drop (RoutingInfoLength g - i * PerHopRoutingInfoLength g) (hop_stream p g k)"
  have "i * PerHopRoutingInfoLength g \<le> RoutingInfoLength g"
    using assms(2,3) by (simp add: mult.commute)
  then have "length ?d = i * PerHopRoutingInfoLength g + PerHopRoutingInfoLength g"
    using assms(1) by simp
  then have "length ?d = length (prevPad @ zeros (PerHopRoutingInfoLength g))"
    using assms(4) by simp
  note split = xor_bytes_split [OF this]
  show ?thesis
    unfolding layer_pad_def split Let_def
    using \<open>length ?d = i * PerHopRoutingInfoLength g + _\<close> assms(4) by (simp add: xor_bytes_commute)
qed

lemma layer_pad_length:
  assumes "prims_ok p" and "RoutingInfoLength g = PerHopRoutingInfoLength g * NrHops g"
    and "i \<le> NrHops g" and "length prevPad = i * PerHopRoutingInfoLength g"
  shows "length (layer_pad p g i prevPad k) = Suc i * PerHopRoutingInfoLength g"
proof -
  have "i * PerHopRoutingInfoLength g \<le> RoutingInfoLength g"
    using assms(2,3) by (simp add: mult.commute)
  then show ?thesis using assms(1,4) by (simp add: layer_pad_def)
qed

lemma ri_streams_eq:
  assumes "prims_ok p" and "RoutingInfoLength g = PerHopRoutingInfoLength g * NrHops g"
    and "i + length ks \<le> NrHops g" and "length prevPad = i * PerHopRoutingInfoLength g"
  shows "ri_streams p g i prevPad ks =
     (Ok (layer_streams p g i prevPad ks) :: ('e, (bytes \<times> bytes) list) outcome)"
  using assms(3,4)
proof (induction ks arbitrary: i prevPad)
  case (Cons k ks)
  let ?P = "PerHopRoutingInfoLength g" and ?R = "RoutingInfoLength g"
  have i: "i \<le> NrHops g" and bound: "i * ?P \<le> ?R"
    using Cons.prems(1) assms(2) by (simp_all add: mult.commute)
  have len: "length (hop_stream p g k) - (i + 1) * ?P = ?R - i * ?P"
    using assms(1) by simp
  let ?d = "drop (?R - i * ?P) (hop_stream p g k)"
  have ld: "length prevPad \<le> length ?d"
    using assms(1) bound Cons.prems(2) by simp
  note pad = layer_pad_eq [OF assms(1,2) i Cons.prems(2), of k, unfolded Let_def]
  have "(if i > 0 then obind (slice ?d 0 (length prevPad)) (\<lambda>hd.
           obind (xorBytes hd prevPad) (\<lambda>x. Ok (x @ drop (length prevPad) ?d)))
         else Ok ?d) = (Ok (layer_pad p g i prevPad k) :: ('e, bytes) outcome)"
    using ld Cons.prems(2) pad
    by (auto simp: slice_def xorBytes_def xor_bytes_def)
  moreover have "ri_streams p g (Suc i) (layer_pad p g i prevPad k) ks =
      (Ok (layer_streams p g (Suc i) (layer_pad p g i prevPad k) ks) :: ('e, (bytes \<times> bytes) list) outcome)"
    using Cons.prems(1) layer_pad_length [OF assms(1,2) i Cons.prems(2), of k]
      Cons.IH [of "Suc i" "layer_pad p g i prevPad k"] by simp
  ultimately show ?case
    using bound assms(1) len
    by (simp add: Let_def layer_stream_def flip: hop_stream_def)
qed simp

text \<open>
  The key fact of the format: XORing the padded routing information of a hop with its key stream gives
  the hop's own fragment, then the routing information of the next hop, then the next hop's padding.
\<close>

lemma unwrap_layer:
  assumes "prims_ok p" and "length (frag @ ri) = RoutingInfoLength g - i * PerHopRoutingInfoLength g"
    and "length prevPad = i * PerHopRoutingInfoLength g"
    and "i * PerHopRoutingInfoLength g \<le> RoutingInfoLength g"
  shows "XORKeyStream p (HeaderEncryption k) (HeaderEncryptionIV k)
           ((xor_bytes (frag @ ri) (layer_stream p g i k) @ prevPad) @ zeros (PerHopRoutingInfoLength g)) =
         (frag @ ri) @ layer_pad p g i prevPad k"
proof -
  let ?P = "PerHopRoutingInfoLength g" and ?L = "RoutingInfoLength g - i * PerHopRoutingInfoLength g"
  let ?x = "xor_bytes (frag @ ri) (layer_stream p g i k)" and ?K = "hop_stream p g k"
  have ls: "length (layer_stream p g i k) = ?L"
    using assms(1) by (simp add: layer_stream_def)
  then have lx: "length ?x = ?L" using assms(2) by simp
  have "XORKeyStream p (HeaderEncryption k) (HeaderEncryptionIV k) ((?x @ prevPad) @ zeros ?P) =
      xor_bytes (?x @ (prevPad @ zeros ?P)) ?K"
    unfolding hop_stream_def using assms lx
    by (subst XORKeyStream_xor [where n = "RoutingInfoLength g + ?P"]) simp_all
  also have "\<dots> = xor_bytes ?x (take ?L ?K) @ xor_bytes (prevPad @ zeros ?P) (drop ?L ?K)"
    using assms lx xor_bytes_split [of ?K ?x "prevPad @ zeros ?P"] by simp
  also have "xor_bytes ?x (take ?L ?K) = frag @ ri"
    using assms(2) ls xor_bytes_cancel [of "frag @ ri" "layer_stream p g i k"]
    by (simp add: layer_stream_def)
  finally show ?thesis by (simp add: layer_pad_def)
qed

end
