(* ===== verification/Sphinx_Onion.thy ===== *)
theory Sphinx_Onion
  imports Sphinx_Packet
begin

text \<open>
  The interface between packet creation and the hops, shared by the two packet formats. Locale
  \<open>onion\<close> fixes a format's \<open>unwrap\<close> and a relation \<open>layered hs hdr\<close> that says that \<open>hdr\<close> is the
  header that the first of the hops \<open>hs\<close> receives; its laws are what one \<open>Unwrap\<close> does at an
  intermediate and at the last hop. Its theorems follow a packet along the whole path.
\<close>

section \<open>A packet on its way\<close>

text \<open>A hop as its keys see it: the private key, the path entry and the packet keys it derives.\<close>

type_synonym ('sk, 'npk, 'kpk, 'bf) onion_hop = "'sk \<times> ('npk, 'kpk) PathHop \<times> 'bf PacketKeys"

abbreviation oh_sk :: "('sk, 'npk, 'kpk, 'bf) onion_hop \<Rightarrow> 'sk" where "oh_sk h \<equiv> fst h"
abbreviation oh_hop :: "('sk, 'npk, 'kpk, 'bf) onion_hop \<Rightarrow> ('npk, 'kpk) PathHop" where "oh_hop h \<equiv> fst (snd h)"
abbreviation oh_keys :: "('sk, 'npk, 'kpk, 'bf) onion_hop \<Rightarrow> 'bf PacketKeys" where "oh_keys h \<equiv> snd (snd h)"

lemma onion_hops_zip:
  assumes "length sks = length path" and "length keys = length path"
  shows "map oh_sk (zip sks (zip path keys)) = sks" "map oh_hop (zip sks (zip path keys)) = path"
    "map oh_keys (zip sks (zip path keys)) = keys"
proof -
  have "map snd (zip sks (zip path keys)) = zip path keys" using assms by simp
  then have "map fst (map snd (zip sks (zip path keys))) = path" "map snd (map snd (zip sks (zip path keys))) = keys"
    using assms by simp_all
  then show "map oh_hop (zip sks (zip path keys)) = path" "map oh_keys (zip sks (zip path keys)) = keys"
    by (simp_all add: comp_def)
  show "map oh_sk (zip sks (zip path keys)) = sks" using assms by simp
qed

text \<open>The hops unwrap the packet one after the other, each passing on the buffer it was left.\<close>

fun route ::
  "('sk \<Rightarrow> bytes \<Rightarrow> unwrap) \<Rightarrow> 'sk list \<Rightarrow> bytes
     \<Rightarrow> (sphinx_error \<times> bytes option, (bytes option \<times> RoutingCommand list) list) outcome" where
  "route unwrap [] pkt = Ok []"
| "route unwrap (sk # sks) pkt =
     obind (unwrap sk pkt) (\<lambda>(payload, tag, cmds, pkt').
     obind (route unwrap sks pkt') (\<lambda>rs. Ok ((payload, cmds) # rs)))"

text \<open>What a hop learns: a payload, its own commands, and the identities of next hops.\<close>

definition hop_view ::
  "bytes option \<times> RoutingCommand list \<Rightarrow> bytes option \<times> RoutingCommand list \<times> bytes list" where
  "hop_view r = (fst r, filter (\<lambda>c. \<not> is_NextNodeHop c) (snd r),
                 map nnh_ID (filter is_NextNodeHop (snd r)))"

lemma hop_view_wf:
  assumes "hop_commands_wf cmds"
  shows "hop_view (pl, cmds) = (pl, cmds, [])"
    and "hop_view (pl, cmds @ [NextNodeHop i m]) = (pl, cmds, [i])"
proof -
  have "filter (\<lambda>c. \<not> is_NextNodeHop c) cmds = cmds" "filter is_NextNodeHop cmds = []"
    using assms by (auto simp: hop_commands_wf_def list_all_iff filter_empty_conv)
  then show "hop_view (pl, cmds) = (pl, cmds, [])"
    "hop_view (pl, cmds @ [NextNodeHop i m]) = (pl, cmds, [i])"
    by (simp_all add: hop_view_def)
qed

text \<open>What the sender intended the hops to learn.\<close>

fun intended_views ::
  "('npk, 'kpk) PathHop list \<Rightarrow> bytes \<Rightarrow> (bytes option \<times> RoutingCommand list \<times> bytes list) list" where
  "intended_views [] payload = []"
| "intended_views [h] payload = [(Some payload, hop_Commands h, [])]"
| "intended_views (h # h' # hs) payload = (None, hop_Commands h, [hop_ID h']) # intended_views (h' # hs) payload"

text \<open>The payload as the hops decrypt it, first hop first.\<close>

fun decrypt_payload :: "prims \<Rightarrow> 'bf PacketKeys list \<Rightarrow> bytes \<Rightarrow> bytes option" where
  "decrypt_payload p [] b = Some b"
| "decrypt_payload p (k # ks) b =
     Option.bind (SPRPDecrypt p (PayloadEncryption k) (HeaderEncryptionIV k) b) (decrypt_payload p ks)"

locale onion =
  fixes unwrap :: "'sk \<Rightarrow> bytes \<Rightarrow> unwrap"
    and p :: prims
    and g :: Geometry
    and layered :: "('sk, 'npk, 'kpk, 'bf) onion_hop list \<Rightarrow> bytes \<Rightarrow> bool"
  assumes prims: "layered hs hdr \<Longrightarrow> prims_ok p"
    and commands: "layered hs hdr \<Longrightarrow> h \<in> set hs \<Longrightarrow> hop_commands_wf (hop_Commands (oh_hop h))"
    and forward:
      "layered (h # h' # hs) hdr \<Longrightarrow> body \<noteq> [] \<Longrightarrow>
       SPRPDecrypt p (PayloadEncryption (oh_keys h)) (HeaderEncryptionIV (oh_keys h)) body = Some body' \<Longrightarrow>
       \<exists>tag mac hdr'.
         unwrap (oh_sk h) (hdr @ body) =
           Ok (None, tag, hop_Commands (oh_hop h) @ [NextNodeHop (hop_ID (oh_hop h')) mac], hdr' @ body') \<and>
         length hdr' = length hdr \<and> layered (h' # hs) hdr'"
    and arrive:
      "layered [h] hdr \<Longrightarrow> body \<noteq> [] \<Longrightarrow>
       SPRPDecrypt p (PayloadEncryption (oh_keys h)) (HeaderEncryptionIV (oh_keys h)) body = Some body' \<Longrightarrow>
       terminal_payload g (find is_SURBReply (hop_Commands (oh_hop h))) body' = Ok pl \<Longrightarrow>
       \<exists>tag. unwrap (oh_sk h) (hdr @ body) = Ok (Some pl, tag, hop_Commands (oh_hop h), hdr @ body)"
begin

lemma decrypt_nonempty:
  assumes "layered hs hdr" and "body \<noteq> []" and "SPRPDecrypt p k iv body = Some body'"
  shows "body' \<noteq> []"
proof -
  obtain m where "SPRPDecrypt p k iv body = Some m" and "length m = length body"
    using SPRPDecrypt_total [OF prims [OF assms(1)]] by blast
  with assms(2,3) show ?thesis by auto
qed

text \<open>Along a path, every hop learns what was intended for it and the last one gets the payload.\<close>

theorem delivered:
  assumes "layered hs hdr" and "hs \<noteq> []" and "body \<noteq> []"
    and "decrypt_payload p (map oh_keys hs) body = Some plain"
    and "terminal_payload g (find is_SURBReply (hop_Commands (oh_hop (last hs)))) plain = Ok pl"
  shows "\<exists>rs. route unwrap (map oh_sk hs) (hdr @ body) = Ok rs \<and>
           map hop_view rs = intended_views (map oh_hop hs) pl"
  using assms
proof (induction hs arbitrary: hdr body)
  case Nil
  then show ?case by simp
next
  case (Cons h hs)
  let ?K = "PayloadEncryption (oh_keys h)" and ?IV = "HeaderEncryptionIV (oh_keys h)"
  from Cons.prems(4) obtain body' where body': "SPRPDecrypt p ?K ?IV body = Some body'"
    and plain: "decrypt_payload p (map oh_keys hs) body' = Some plain"
    by (auto simp: bind_eq_Some_conv)
  have wf: "hop_commands_wf (hop_Commands (oh_hop h))"
    using commands [OF Cons.prems(1)] by simp
  show ?case
  proof (cases hs)
    case Nil
    with plain have "plain = body'" by simp
    with Cons.prems Nil obtain tag where
      "unwrap (oh_sk h) (hdr @ body) = Ok (Some pl, tag, hop_Commands (oh_hop h), hdr @ body)"
      using arrive [OF _ _ body', of hdr pl] by auto
    with Nil show ?thesis by (simp add: hop_view_wf [OF wf])
  next
    case (Cons h' hs')
    with Cons.prems(1,3) obtain tag mac hdr' where
      u: "unwrap (oh_sk h) (hdr @ body) =
           Ok (None, tag, hop_Commands (oh_hop h) @ [NextNodeHop (hop_ID (oh_hop h')) mac], hdr' @ body')"
      and l: "layered hs hdr'"
      using forward [OF _ _ body', of h' hs' hdr] by auto
    have "body' \<noteq> []" using decrypt_nonempty [OF Cons.prems(1,3) body'] .
    with Cons.IH [OF l] plain Cons.prems(5) Cons obtain rs where
      "route unwrap (map oh_sk hs) (hdr' @ body') = Ok rs"
      "map hop_view rs = intended_views (map oh_hop hs) pl"
      by auto
    with u Cons show ?thesis by (simp add: hop_view_wf [OF wf])
  qed
qed

end

section \<open>Payload encryption and decryption\<close>

lemma encrypt_payload_simps [simp]:
  "encrypt_payload p [] b = b"
  "encrypt_payload p (k # ks) b = SPRPEncrypt p (sprp_key k) (sprp_iv k) (encrypt_payload p ks b)"
  by (simp_all add: encrypt_payload_def)

lemma encrypt_payload_length [simp]: "prims_ok p \<Longrightarrow> length (encrypt_payload p ks b) = length b"
  by (induction ks) simp_all

lemma sprp_of_keys_simps [simp]:
  "keys_wf k \<Longrightarrow> sprp_key (sprp_of_keys k) = PayloadEncryption k"
  "keys_wf k \<Longrightarrow> sprp_iv (sprp_of_keys k) = HeaderEncryptionIV k"
  by (simp_all add: sprp_of_keys_def keys_wf_def go_copy_same_length)

lemma decrypt_encrypt_payload:
  assumes "prims_ok p" and "list_all keys_wf ks"
  shows "decrypt_payload p ks (encrypt_payload p (map sprp_of_keys ks) b) = Some b"
  using assms(2) by (induction ks) (simp_all add: assms(1))

lemma decrypt_payload_ex:
  assumes "prims_ok p" and "list_all keys_wf ks"
  shows "\<exists>m. decrypt_payload p ks b = Some m \<and> length m = length b \<and>
           encrypt_payload p (map sprp_of_keys ks) m = b"
  using assms(2)
proof (induction ks arbitrary: b)
  case (Cons k ks)
  obtain b' where b': "SPRPDecrypt p (PayloadEncryption k) (HeaderEncryptionIV k) b = Some b'"
    and e: "SPRPEncrypt p (PayloadEncryption k) (HeaderEncryptionIV k) b' = b"
    and l: "length b' = length b"
    by (rule SPRPDecrypt_total [OF assms(1)])
  from Cons obtain m where "decrypt_payload p ks b' = Some m" "length m = length b'"
    and m: "encrypt_payload p (map sprp_of_keys ks) m = b'"
    by fastforce
  moreover have "encrypt_payload p (map sprp_of_keys (k # ks)) m = b"
    using m e Cons.prems by simp
  ultimately show ?case using b' l by (intro exI [of _ m]) simp
qed simp

section \<open>Paths that fit\<close>

text \<open>
  \<open>path_fits c hops\<close>: every hop has a 32-byte identity and a command vector that serialises into
  \<open>c\<close> bytes, together with the 65 bytes of the \<open>NextNodeHop\<close> command at all hops but the last.
\<close>

fun path_fits :: "nat \<Rightarrow> ('npk, 'kpk) PathHop list \<Rightarrow> bool" where
  "path_fits c [] = True"
| "path_fits c (h # hs) =
     (length (hop_ID h) = 32 \<and> hop_commands_wf (hop_Commands h) \<and>
      length (ser_commands (hop_Commands h)) + (if hs = [] then 0 else 65) \<le> c \<and> path_fits c hs)"

lemma path_fits_commands: "path_fits c hs \<Longrightarrow> h \<in> set hs \<Longrightarrow> hop_commands_wf (hop_Commands h)"
  by (induction hs) auto

lemma path_fits_mono: "path_fits c hs \<Longrightarrow> c \<le> d \<Longrightarrow> path_fits d hs"
  by (induction hs) (auto split: if_splits)

text \<open>The command area of a hop: its commands, the next hop, and zeros.\<close>

definition hop_fragment :: "nat \<Rightarrow> ('npk, 'kpk) PathHop \<Rightarrow> ('npk, 'kpk) PathHop list \<Rightarrow> bytes \<Rightarrow> bytes" where
  "hop_fragment c h rest mac =
     (let b = ser_commands (hop_Commands h @ (case rest of [] \<Rightarrow> [] | h' # _ \<Rightarrow> [NextNodeHop (hop_ID h') mac]))
      in b @ zeros (c - length b))"

lemma hop_fragment_length:
  assumes "path_fits c (h # rest)" and "rest \<noteq> [] \<Longrightarrow> length mac = 32"
  shows "length (hop_fragment c h rest mac) = c"
  using assms by (cases rest) (auto simp: hop_fragment_def Let_def)

lemma hop_fragment_extend:
  assumes "path_fits c (h # rest)" and "rest \<noteq> [] \<Longrightarrow> length mac = 32" and "c \<le> d"
  shows "hop_fragment d h rest mac = hop_fragment c h rest mac @ zeros (d - c)"
  using assms by (cases rest) (auto simp: hop_fragment_def Let_def zeros_append)

lemma parse_hop_fragment:
  assumes "path_fits c (h # rest)" and "rest \<noteq> [] \<Longrightarrow> length mac = 32" and "NextNodeHopLength g = 65"
  shows "parse_commands g (hop_fragment c h rest mac) [] None None =
     (case rest of
        [] \<Rightarrow> Ok (hop_Commands h, None, find is_SURBReply (hop_Commands h))
      | h' # _ \<Rightarrow> Ok (hop_Commands h @ [NextNodeHop (hop_ID h') mac],
                     Some (NextNodeHop (hop_ID h') mac), find is_SURBReply (hop_Commands h)))"
proof (cases rest)
  case Nil
  then show ?thesis
    using assms parse_commands_hop(1) [OF _ assms(3)] by (simp add: hop_fragment_def Let_def)
next
  case (Cons h' hs)
  then have "rc_wf (NextNodeHop (hop_ID h') mac)" using assms by simp
  then show ?thesis
    using Cons assms(1) parse_commands_hop(2) [OF _ assms(3)] by (simp add: hop_fragment_def Let_def del: ser_commands_simps)
qed

text \<open>What one \<open>Unwrap\<close> of a layered header returns, at the last hop and before it.\<close>

definition hop_result ::
  "Geometry \<Rightarrow> ('npk, 'kpk) PathHop \<Rightarrow> ('npk, 'kpk) PathHop list \<Rightarrow> bytes \<Rightarrow> bytes \<Rightarrow> bytes \<Rightarrow> bytes \<Rightarrow> bytes \<Rightarrow> bytes
     \<Rightarrow> unwrap" where
  "hop_result g h rest tag hdr body mac' hdr' body' =
     (case rest of
        [] \<Rightarrow> obind (with_tag (Some tag) (terminal_payload g (find is_SURBReply (hop_Commands h)) body')) (\<lambda>pl.
              Ok (Some pl, tag, hop_Commands h, hdr @ body))
      | h' # _ \<Rightarrow> Ok (None, tag, hop_Commands h @ [NextNodeHop (hop_ID h') mac'], hdr' @ body'))"

section \<open>Slices of a packet\<close>

lemma copy_range_middle:
  assumes "i = length a" and "j = length a + length b" and "length src = length b"
  shows "copy_range (a @ b @ c) i j src = Ok (a @ src @ c)"
  using assms by (simp add: copy_range_def slice_def go_copy_same_length)

lemma copy_range_suffix:
  assumes "i = length a" and "j = length (a @ b)" and "length src = length b"
  shows "copy_range (a @ b) i j src = Ok (a @ src)"
  using copy_range_middle [of i a j b src "[]"] assms by simp

section \<open>Whole packets\<close>

context onion
begin

lemma delivered_zip:
  assumes "layered (zip sks (zip path keys)) hdr" and "length sks = length path" and "length keys = length path"
    and "path \<noteq> []" and "body \<noteq> []" and "decrypt_payload p keys body = Some plain"
    and "terminal_payload g (find is_SURBReply (hop_Commands (last path))) plain = Ok pl"
  shows "\<exists>rs. route unwrap sks (hdr @ body) = Ok rs \<and> map hop_view rs = intended_views path pl"
proof -
  let ?hs = "zip sks (zip path keys)"
  have "?hs \<noteq> []" using assms(2-4) by (cases sks; cases path; cases keys) auto
  moreover from this have "oh_hop (last ?hs) = last path"
    by (metis last_map onion_hops_zip(2) [OF assms(2,3)])
  ultimately show ?thesis
    using delivered [OF assms(1) _ assms(5), of plain pl] assms(6,7) onion_hops_zip [OF assms(2,3)] by simp
qed

text \<open>A forward packet: the zero tag verifies and the payload arrives.\<close>

lemma delivered_forward:
  assumes "layered (zip sks (zip path keys)) hdr" and "length sks = length path" and "length keys = length path"
    and "path \<noteq> []" and "list_all keys_wf keys" and "PayloadTagLength g = 32"
    and "find is_SURBReply (hop_Commands (last path)) = None"
  shows "\<exists>rs. route unwrap sks (hdr @ encrypt_payload p (map sprp_of_keys keys) (zeros 32 @ payload)) = Ok rs \<and>
     map hop_view rs = intended_views path payload"
proof -
  have p: "prims_ok p" by (rule prims [OF assms(1)])
  let ?body = "encrypt_payload p (map sprp_of_keys keys) (zeros 32 @ payload)"
  have "length ?body \<noteq> 0" using p by simp
  then have "?body \<noteq> []" by blast
  then show ?thesis
    using assms(6,7) by (intro delivered_zip [OF assms(1-4) _ decrypt_encrypt_payload [OF p assms(5)]])
      (simp_all add: terminal_payload_def)
qed

text \<open>A reply: the recipient gets the payload as the hops left it, without a tag check.\<close>

lemma delivered_reply:
  assumes "layered (zip sks (zip path keys)) hdr" and "length sks = length path" and "length keys = length path"
    and "path \<noteq> []" and "list_all keys_wf keys" and "PayloadTagLength g = 32"
    and "find is_SURBReply (hop_Commands (last path)) \<noteq> None" and "length body \<ge> 32"
  shows "\<exists>rs m. route unwrap sks (hdr @ body) = Ok rs \<and> map hop_view rs = intended_views path m \<and>
     length m = length body \<and> encrypt_payload p (map sprp_of_keys keys) m = body"
proof -
  have p: "prims_ok p" by (rule prims [OF assms(1)])
  obtain m where m: "decrypt_payload p keys body = Some m" "length m = length body"
    "encrypt_payload p (map sprp_of_keys keys) m = body"
    using decrypt_payload_ex [OF p assms(5)] by blast
  have "\<exists>rs. route unwrap sks (hdr @ body) = Ok rs \<and> map hop_view rs = intended_views path m"
    using assms(6-8) m by (intro delivered_zip [OF assms(1-4) _ m(1)]) (auto simp: terminal_payload_def)
  with m show ?thesis by blast
qed

end

end
