(* ===== verification/Sphinx_NIKE.thy ===== *)
theory Sphinx_NIKE
  imports Sphinx_Onion
begin

text \<open>
  \<open>src/core/sphinx/sphinx.go\<close>: the NIKE packet format. \<open>createHeader\<close> takes the key pair that
  \<open>GenerateKeyPair\<close> returned and a source \<open>rnd\<close> for the reads from \<open>rand.Reader\<close>;
  \<open>newNikePacket\<close> adds the payload; \<open>unwrapNike\<close> is one hop. The lemmas follow the group element
  through the blinding of the sender and of the hops, and end in the interpretation of locale
  \<open>onion\<close> on \<open>unwrapNike\<close>.
\<close>

section \<open>createHeader\<close>

text \<open>The inner loop: blind the shared secret by the blinding factors of the earlier hops.\<close>

fun blind_secret :: "('sk, 'pk) nike_scheme \<Rightarrow> 'sk PacketKeys list \<Rightarrow> bytes \<Rightarrow> ('e, bytes) outcome" where
  "blind_secret N [] sharedSecret = Ok sharedSecret"
| "blind_secret N (k # ks) sharedSecret =
     obind (of_option (pk_FromBytes N sharedSecret)) (\<lambda>pubkey.
     obind (of_option (BlindingFactor k)) (\<lambda>bf.
     blind_secret N ks (pk_Bytes N (nike_Blind N pubkey bf))))"

text \<open>
  The outer loop, from the second hop on: \<open>keys\<close> and \<open>groupElements\<close> are the entries filled in so
  far, \<open>clientPublicKey\<close> is the client's key as blinded so far.
\<close>

fun nike_keys ::
  "prims \<Rightarrow> ('sk, 'pk) nike_scheme \<Rightarrow> 'sk \<Rightarrow> 'pk \<Rightarrow> 'sk PacketKeys list \<Rightarrow> 'pk list
     \<Rightarrow> ('pk, 'kpk) PathHop list \<Rightarrow> ('e, 'sk PacketKeys list \<times> 'pk list) outcome" where
  "nike_keys p N clientPrivateKey clientPublicKey keys groupElements [] = Ok (keys, groupElements)"
| "nike_keys p N clientPrivateKey clientPublicKey keys groupElements (hop # hops) =
     obind (of_option (hop_NIKEPublicKey hop)) (\<lambda>pub.
     obind (blind_secret N keys (nike_DeriveSecret N clientPrivateKey pub)) (\<lambda>sharedSecret.
     obind (of_option (KDF p sharedSecret (Some N))) (\<lambda>k.
     obind (of_option (BlindingFactor (last keys))) (\<lambda>bf.
     obind (of_option (pk_Blind N clientPublicKey bf)) (\<lambda>clientPublicKey'.
     obind (of_option (nike_UnmarshalBinaryPublicKey N (pk_Bytes N clientPublicKey'))) (\<lambda>ge.
     nike_keys p N clientPrivateKey clientPublicKey' (keys @ [k]) (groupElements @ [ge]) hops))))))"

text \<open>
  The routing-information loop runs from the last hop to the first; here a hop is its path entry, keys,
  group element bytes, key stream and padding, and \<open>prevPad\<close> is \<open>riPadding[i-1]\<close> when \<open>i > 0\<close>.
  The result is the MAC and the routing information.
\<close>

type_synonym ('npk, 'kpk, 'sk) layer = "('npk, 'kpk) PathHop \<times> 'sk PacketKeys \<times> bytes \<times> bytes \<times> bytes"

fun nike_ri_build ::
  "prims \<Rightarrow> Geometry \<Rightarrow> bytes \<Rightarrow> bytes option \<Rightarrow> ('npk, 'kpk, 'sk) layer list
     \<Rightarrow> (sphinx_error, bytes \<times> bytes) outcome" where
  "nike_ri_build p g ri0 prevPad [] = Ok ([], ri0)"
| "nike_ri_build p g ri0 prevPad ((hop, k, ge, riKeyStream, riPadding) # rest) =
     obind (nike_ri_build p g ri0 (Some riPadding) rest) (\<lambda>(mac, routingInfo).
     obind (commandsToBytes g (hop_Commands hop) (rest = [])) (\<lambda>riFragment0.
     let riFragment1 =
           (case rest of
              [] \<Rightarrow> riFragment0
            | (nxt, _) # _ \<Rightarrow>
                rc_ToBytes (NextNodeHop (go_copy (zeros NodeIDLength) (hop_ID nxt)) (go_copy (zeros MACLength) mac))
                  riFragment0);
         riFragment = riFragment1 @ zeros (PerHopRoutingInfoLength g - length riFragment1)
     in obind (xorBytes (riFragment @ routingInfo) riKeyStream) (\<lambda>routingInfo'.
        Ok (mac_sum p (HeaderMAC k)
              ([v0AD, ge, routingInfo'] @ (case prevPad of None \<Rightarrow> [] | Some q \<Rightarrow> [q])),
            routingInfo'))))"

definition createHeader ::
  "prims \<Rightarrow> ('sk, 'pk) nike_scheme \<Rightarrow> Geometry \<Rightarrow> ('pk \<times> 'sk) option \<Rightarrow> (nat \<Rightarrow> bytes option)
     \<Rightarrow> ('pk, 'kpk) PathHop list \<Rightarrow> (sphinx_error, bytes \<times> sprpKey list) outcome" where
  "createHeader p N g keypair rnd path =
     (if length path > NrHops g then Err errInvalidPath
      else case keypair of
        None \<Rightarrow> Err errGenerateKeyPair
      | Some (clientPublicKey, clientPrivateKey) \<Rightarrow>
          (case path of
             [] \<Rightarrow> Panic
           | hop0 # hops \<Rightarrow>
               obind (of_option (hop_NIKEPublicKey hop0)) (\<lambda>pub0.
               obind (of_option (KDF p (nike_DeriveSecret N clientPrivateKey pub0) (Some N))) (\<lambda>k0.
               obind (of_option (nike_UnmarshalBinaryPublicKey N (pk_Bytes N clientPublicKey))) (\<lambda>ge0.
               obind (nike_keys p N clientPrivateKey clientPublicKey [k0] [ge0] hops) (\<lambda>(keys, groupElements).
               obind (ri_streams p g 0 [] keys) (\<lambda>streams.
               case skipped_ri g rnd (length path) of
                 None \<Rightarrow> Err errEntropy
               | Some ri0 \<Rightarrow>
                   obind (nike_ri_build p g ri0 None
                            (zip path (zip keys (zip (map (pk_Bytes N) groupElements) streams))))
                     (\<lambda>(mac, routingInfo).
                   Ok (v0AD @ pk_Bytes N ge0 @ routingInfo @ mac, map sprp_of_keys keys))))))))
     )"

definition newNikePacket ::
  "prims \<Rightarrow> ('sk, 'pk) nike_scheme \<Rightarrow> Geometry \<Rightarrow> ('pk \<times> 'sk) option \<Rightarrow> (nat \<Rightarrow> bytes option)
     \<Rightarrow> ('pk, 'kpk) PathHop list \<Rightarrow> bytes \<Rightarrow> (sphinx_error, bytes) outcome" where
  "newNikePacket p N g keypair rnd path payload =
     (if length payload \<noteq> ForwardPayloadLength g
      then Err (errPayloadLength (length payload) (ForwardPayloadLength g))
      else obind (createHeader p N g keypair rnd path) (\<lambda>(hdr, sprpKeys).
           obind (slice (zeros (PerHopRoutingInfoLength g)) 0 (PayloadTagLength g)) (\<lambda>tag.
           let pkt = hdr @ tag @ payload;
               b = encrypt_payload p sprpKeys (drop (length hdr) pkt)
           in copy_range pkt (length hdr) (length pkt) b)))"

section \<open>unwrapNike\<close>

definition unwrapNike ::
  "prims \<Rightarrow> ('sk, 'pk) nike_scheme \<Rightarrow> Geometry \<Rightarrow> 'sk \<Rightarrow> bytes \<Rightarrow> unwrap" where
  "unwrapNike p N g privKey pkt =
     (let geOff = 2;
          riOff = geOff + nike_PublicKeySize N;
          macOff = riOff + RoutingInfoLength g;
          payloadOff = macOff + MACLength
      in if length pkt < HeaderLength g then Err (errTruncatedPacket, None)
         else
      obind (slice pkt 0 2) (\<lambda>ad.
      if ad \<noteq> v0AD then Err (errUnknownVersion, None)
      else
      obind (slice pkt geOff riOff) (\<lambda>rawElement.
      case nike_UnmarshalBinaryPublicKey N rawElement of
        None \<Rightarrow> Err (errUnmarshalGroupElement, None)
      | Some groupElement \<Rightarrow>
          let sharedSecret = nike_DeriveSecret N privKey groupElement;
              replayTag = sphinx_Hash p (pk_Bytes N groupElement)
          in
      obind (of_option (KDF p sharedSecret (Some N))) (\<lambda>keys.
      obind (slice pkt 0 macOff) (\<lambda>authenticated.
      obind (slice pkt macOff (macOff + MACLength)) (\<lambda>pktMac.
      if pktMac \<noteq> mac_sum p (HeaderMAC keys) [authenticated] then Err (errMACMismatch, Some replayTag)
      else
      obind (slice pkt riOff (riOff + RoutingInfoLength g)) (\<lambda>ri.
      let b = XORKeyStream p (HeaderEncryption keys) (HeaderEncryptionIV keys)
                (go_copy (zeros (RoutingInfoLength g)) ri @ zeros (PerHopRoutingInfoLength g));
          newRoutingInfo = drop (PerHopRoutingInfoLength g) b;
          cmdBuf = take (PerHopRoutingInfoLength g) b
      in
      obind (with_tag (Some replayTag) (parse_commands g cmdBuf [] None None)) (\<lambda>(cmds, nextNode, surbReply).
      obind (slice_from pkt payloadOff) (\<lambda>payload0.
      obind (if length payload0 > 0
             then of_option (SPRPDecrypt p (PayloadEncryption keys) (HeaderEncryptionIV keys) payload0)
             else Ok payload0) (\<lambda>payload.
      case nextNode of
        Some nn \<Rightarrow>
          obind (of_option (BlindingFactor keys)) (\<lambda>bf.
          obind (of_option (pk_Blind N groupElement bf)) (\<lambda>groupElement'.
          obind (copy_range pkt geOff riOff (pk_Bytes N groupElement')) (\<lambda>pkt1.
          obind (copy_range pkt1 riOff macOff newRoutingInfo) (\<lambda>pkt2.
          obind (copy_range pkt2 macOff payloadOff (nnh_MAC nn)) (\<lambda>pkt3.
          obind (if length payload > 0 then copy_range pkt3 payloadOff (length pkt3) payload else Ok pkt3) (\<lambda>pkt4.
          Ok (None, replayTag, cmds, pkt4)))))))
      | None \<Rightarrow>
          obind (with_tag (Some replayTag) (terminal_payload g surbReply payload)) (\<lambda>pl.
          Ok (Some pl, replayTag, cmds, pkt))))))))))))"

section \<open>One hop\<close>

text \<open>
  \<open>unwrapNike\<close> on a packet given by its parts, when the header authenticates: what the parsed commands
  decide.
\<close>

lemma unwrapNike_run:
  assumes geo: "HeaderLength g = 2 + nike_PublicKeySize N + RoutingInfoLength g + 32"
    and N: "nike_ok N" and p: "prims_ok p"
    and rr: "length rr = RoutingInfoLength g"
    and k: "KDF p (nike_DeriveSecret N sk ge) (Some N) = Some k" and bf: "BlindingFactor k = Some bf"
    and mac: "mac = mac_sum p (HeaderMAC k) [v0AD @ pk_Bytes N ge @ rr]"
    and b: "XORKeyStream p (HeaderEncryption k) (HeaderEncryptionIV k)
              (rr @ zeros (PerHopRoutingInfoLength g)) = frag @ rr'"
    and frag: "length frag = PerHopRoutingInfoLength g" and rr': "length rr' = RoutingInfoLength g"
    and parse: "parse_commands g frag [] None None = Ok (cmds, nn, sr)"
    and nn: "\<And>c. nn = Some c \<Longrightarrow> length (nnh_MAC c) = 32"
    and body: "body \<noteq> []" "SPRPDecrypt p (PayloadEncryption k) (HeaderEncryptionIV k) body = Some body'"
      "length body' = length body"
  shows "unwrapNike p N g sk ((v0AD @ pk_Bytes N ge @ rr @ mac) @ body) =
     (case nn of
        None \<Rightarrow> obind (with_tag (Some (sphinx_Hash p (pk_Bytes N ge))) (terminal_payload g sr body')) (\<lambda>pl.
                 Ok (Some pl, sphinx_Hash p (pk_Bytes N ge), cmds, (v0AD @ pk_Bytes N ge @ rr @ mac) @ body))
      | Some c \<Rightarrow> Ok (None, sphinx_Hash p (pk_Bytes N ge), cmds,
                     (v0AD @ pk_Bytes N (nike_Blind N ge bf) @ rr' @ nnh_MAC c) @ body'))"
proof -
  let ?pk = "nike_PublicKeySize N" and ?R = "RoutingInfoLength g"
  define pkt where pkt: "pkt = (v0AD @ pk_Bytes N ge @ rr @ mac) @ body"
  have pk: "length (pk_Bytes N P) = ?pk" for P using N by (simp add: nike_ok_def)
  have lm: "length mac = 32" using mac p by simp
  have s: "slice pkt 0 2 = (Ok v0AD :: (sphinx_error \<times> bytes option, bytes) outcome)"
    "slice pkt 2 (2 + ?pk) = (Ok (pk_Bytes N ge) :: (sphinx_error \<times> bytes option, bytes) outcome)"
    "slice pkt 0 (2 + ?pk + ?R) = (Ok (v0AD @ pk_Bytes N ge @ rr) :: (sphinx_error \<times> bytes option, bytes) outcome)"
    "slice pkt (2 + ?pk + ?R) (2 + ?pk + ?R + MACLength) = (Ok mac :: (sphinx_error \<times> bytes option, bytes) outcome)"
    "slice pkt (2 + ?pk) (2 + ?pk + ?R) = (Ok rr :: (sphinx_error \<times> bytes option, bytes) outcome)"
    "slice_from pkt (2 + ?pk + ?R + MACLength) = (Ok body :: (sphinx_error \<times> bytes option, bytes) outcome)"
    using pk rr lm by (simp_all add: pkt slice_def slice_from_def)
  have un: "nike_UnmarshalBinaryPublicKey N (pk_Bytes N ge) = Some ge" using N by (simp add: nike_ok_def)
  have bl: "pk_Blind N ge bf = Some (nike_Blind N ge bf)" using N by (simp add: nike_ok_def)
  have cp: "go_copy (zeros ?R) rr = rr" using rr by (simp add: go_copy_same_length)
  have len: "\<not> length pkt < HeaderLength g" using geo pk rr lm by (simp add: pkt)
  have tk: "take (PerHopRoutingInfoLength g) (frag @ rr') = frag" "drop (PerHopRoutingInfoLength g) (frag @ rr') = rr'"
    using frag by simp_all
  have body'n: "body' \<noteq> []" using body by auto
  have run: "unwrapNike p N g sk pkt =
     (case nn of
        Some c \<Rightarrow>
          obind (copy_range pkt 2 (2 + ?pk) (pk_Bytes N (nike_Blind N ge bf))) (\<lambda>pkt1.
          obind (copy_range pkt1 (2 + ?pk) (2 + ?pk + ?R) rr') (\<lambda>pkt2.
          obind (copy_range pkt2 (2 + ?pk + ?R) (2 + ?pk + ?R + MACLength) (nnh_MAC c)) (\<lambda>pkt3.
          obind (copy_range pkt3 (2 + ?pk + ?R + MACLength) (length pkt3) body') (\<lambda>pkt4.
          Ok (None, sphinx_Hash p (pk_Bytes N ge), cmds, pkt4)))))
      | None \<Rightarrow>
          obind (with_tag (Some (sphinx_Hash p (pk_Bytes N ge))) (terminal_payload g sr body')) (\<lambda>pl.
          Ok (Some pl, sphinx_Hash p (pk_Bytes N ge), cmds, pkt)))"
    unfolding unwrapNike_def Let_def
    using body body'n
    by (simp add: s un k bf bl cp len tk parse b mac [symmetric] del: add_2_eq_Suc sphinx_consts take_append drop_append split: option.split)
  show ?thesis
  proof (cases nn)
    case None
    then show ?thesis unfolding pkt [symmetric] by (simp add: run)
  next
    case (Some c)
    have c1: "copy_range pkt 2 (2 + ?pk) (pk_Bytes N (nike_Blind N ge bf)) =
        (Ok (v0AD @ pk_Bytes N (nike_Blind N ge bf) @ rr @ mac @ body) :: (sphinx_error \<times> bytes option, bytes) outcome)"
      using copy_range_middle [of 2 v0AD "2 + ?pk" "pk_Bytes N ge" "pk_Bytes N (nike_Blind N ge bf)" "rr @ mac @ body"]
      by (simp add: pk pkt)
    let ?a = "v0AD @ pk_Bytes N (nike_Blind N ge bf)"
    have c2: "copy_range (v0AD @ pk_Bytes N (nike_Blind N ge bf) @ rr @ mac @ body) (2 + ?pk) (2 + ?pk + ?R) rr' =
        (Ok (v0AD @ pk_Bytes N (nike_Blind N ge bf) @ rr' @ mac @ body) :: (sphinx_error \<times> bytes option, bytes) outcome)"
      using copy_range_middle [of "2 + ?pk" ?a "2 + ?pk + ?R" rr rr' "mac @ body"] rr rr' by (simp add: pk)
    have c3: "copy_range (v0AD @ pk_Bytes N (nike_Blind N ge bf) @ rr' @ mac @ body) (2 + ?pk + ?R) (2 + ?pk + ?R + MACLength) (nnh_MAC c) =
        (Ok (v0AD @ pk_Bytes N (nike_Blind N ge bf) @ rr' @ nnh_MAC c @ body) :: (sphinx_error \<times> bytes option, bytes) outcome)"
      using copy_range_middle [of "2 + ?pk + ?R" "?a @ rr'" "2 + ?pk + ?R + MACLength" mac "nnh_MAC c" body] rr' lm nn [OF Some]
      by (simp add: pk)
    have c4: "copy_range (v0AD @ pk_Bytes N (nike_Blind N ge bf) @ rr' @ nnh_MAC c @ body) (2 + ?pk + ?R + MACLength)
         (length (v0AD @ pk_Bytes N (nike_Blind N ge bf) @ rr' @ nnh_MAC c @ body)) body' =
        (Ok (v0AD @ pk_Bytes N (nike_Blind N ge bf) @ rr' @ nnh_MAC c @ body') :: (sphinx_error \<times> bytes option, bytes) outcome)"
      using copy_range_suffix [of "2 + ?pk + ?R + MACLength" "?a @ rr' @ nnh_MAC c" _ body body'] rr' nn [OF Some] body
      by (simp add: pk)
    show ?thesis unfolding pkt [symmetric] run Some option.case c1 c2 c3 c4 obind.simps by simp
  qed
qed

section \<open>The layers of a header\<close>

definition next_ge :: "('sk, 'pk) nike_scheme \<Rightarrow> 'pk \<Rightarrow> 'sk PacketKeys \<Rightarrow> 'pk" where
  "next_ge N ge k = nike_Blind N ge (the (BlindingFactor k))"

text \<open>The group element each hop sees, and the hops' keys derived from it.\<close>

fun nike_ges :: "('sk, 'pk) nike_scheme \<Rightarrow> 'pk \<Rightarrow> 'sk PacketKeys list \<Rightarrow> 'pk list" where
  "nike_ges N ge [] = []"
| "nike_ges N ge (k # ks) = ge # nike_ges N (next_ge N ge k) ks"

fun nike_chain ::
  "prims \<Rightarrow> ('sk, 'pk) nike_scheme \<Rightarrow> 'pk \<Rightarrow> ('sk, 'pk, 'kpk, 'sk) onion_hop list \<Rightarrow> bool" where
  "nike_chain p N ge [] = True"
| "nike_chain p N ge (h # hs) =
     (KDF p (nike_DeriveSecret N (oh_sk h) ge) (Some N) = Some (oh_keys h) \<and> keys_wf (oh_keys h) \<and>
      BlindingFactor (oh_keys h) \<noteq> None \<and> nike_chain p N (next_ge N ge (oh_keys h)) hs)"

fun nike_layers ::
  "prims \<Rightarrow> ('sk, 'pk) nike_scheme \<Rightarrow> Geometry \<Rightarrow> nat \<Rightarrow> bytes \<Rightarrow> 'pk
     \<Rightarrow> ('sk, 'pk, 'kpk, 'sk) onion_hop list \<Rightarrow> ('pk, 'kpk, 'sk) layer list" where
  "nike_layers p N g i prevPad ge [] = []"
| "nike_layers p N g i prevPad ge (h # hs) =
     (oh_hop h, oh_keys h, pk_Bytes N ge, layer_stream p g i (oh_keys h), layer_pad p g i prevPad (oh_keys h)) #
     nike_layers p N g (Suc i) (layer_pad p g i prevPad (oh_keys h)) (next_ge N ge (oh_keys h)) hs"

lemma nike_layers_zip:
  assumes "length keys = length sks" and "length path = length sks"
  shows "zip path (zip keys (zip (map (pk_Bytes N) (nike_ges N ge keys)) (layer_streams p g i prevPad keys))) =
         nike_layers p N g i prevPad ge (zip sks (zip path keys))"
  using assms
proof (induction keys arbitrary: sks path i prevPad ge)
  case (Cons k keys)
  then obtain sk sks' h path' where "sks = sk # sks'" "path = h # path'"
    by (metis Suc_length_conv length_Cons)
  with Cons show ?case by simp
qed simp

text \<open>One round of the routing-information loop.\<close>

lemma nike_ri_build_layer:
  assumes p: "prims_ok p" and geo: "geo_consistent g e 0"
    and fits: "path_fits (PerHopRoutingInfoLength g) (map oh_hop (h # hs))"
    and i: "i + length (h # hs) \<le> NrHops g"
    and rest: "nike_ri_build p g ri0 (Some (layer_pad p g i prevPad (oh_keys h)))
       (nike_layers p N g (Suc i) (layer_pad p g i prevPad (oh_keys h)) (next_ge N ge (oh_keys h)) hs) = Ok (mac', ri')"
    and mac': "hs \<noteq> [] \<Longrightarrow> length mac' = 32"
    and ri': "length ri' = RoutingInfoLength g - Suc i * PerHopRoutingInfoLength g"
    and ri: "ri = xor_bytes (hop_fragment (PerHopRoutingInfoLength g) (oh_hop h) (map oh_hop hs) mac' @ ri')
                    (layer_stream p g i (oh_keys h))"
  shows "nike_ri_build p g ri0 q (nike_layers p N g i prevPad ge (h # hs)) =
     Ok (mac_sum p (HeaderMAC (oh_keys h)) ([v0AD, pk_Bytes N ge, ri] @ (case q of None \<Rightarrow> [] | Some x \<Rightarrow> [x])), ri)"
proof -
  let ?P = "PerHopRoutingInfoLength g" and ?R = "RoutingInfoLength g"
  let ?cmds = "hop_Commands (oh_hop h)"
  let ?frag = "hop_fragment ?P (oh_hop h) (map oh_hop hs) mac'"
  have g65: "NextNodeHopLength g = 65" and R: "?R = ?P * NrHops g"
    using geo by (simp_all add: geo_consistent_def)
  have b: "Suc i * ?P \<le> ?R" using i unfolding R by (simp add: mult.commute [of ?P] del: mult_Suc)
  have c: "commandsToBytes g ?cmds (hs = []) = Ok (ser_commands ?cmds)"
    using fits g65 by (intro commandsToBytes_ok) (auto split: if_splits)
  have lf: "length ?frag = ?P" using hop_fragment_length [of ?P "oh_hop h" "map oh_hop hs" mac'] fits mac' by simp
  have "length (?frag @ ri') = length (layer_stream p g i (oh_keys h))"
    using lf ri' b p by (simp add: layer_stream_def)
  then have x: "xorBytes (?frag @ ri') (layer_stream p g i (oh_keys h)) = (Ok ri :: (sphinx_error, bytes) outcome)"
    by (simp add: xorBytes_def ri)
  let ?pad = "layer_pad p g i prevPad (oh_keys h)" and ?ge = "next_ge N ge (oh_keys h)"
  define L where L: "L = nike_layers p N g (Suc i) ?pad ?ge hs"
  show ?thesis
  proof (cases hs)
    case Nil
    with c x rest show ?thesis by (simp add: hop_fragment_def Let_def)
  next
    case (Cons h' hs')
    then have "length (hop_ID (oh_hop h')) = 32" "length mac' = 32" using fits mac' by simp_all
    moreover obtain y L' where "L = (oh_hop h', y) # L'" unfolding L Cons by simp
    ultimately show ?thesis
      unfolding nike_layers.simps(2) L [symmetric] nike_ri_build.simps(2) rest [folded L]
      using c x Cons by (simp add: hop_fragment_def Let_def go_copy_same_length)
  qed
qed

text \<open>Leaving out the padding of no earlier hops is writing the empty padding.\<close>

lemma nike_ri_build_first: "nike_ri_build p g ri0 None L = nike_ri_build p g ri0 (Some []) L"
  by (cases L) (auto simp: mac_sum_def)

lemma nike_ri_build_ok:
  assumes "prims_ok p" and "geo_consistent g e 0" and "path_fits (PerHopRoutingInfoLength g) (map oh_hop hs)"
    and "i + length hs \<le> NrHops g"
    and "length ri0 = (NrHops g - (i + length hs)) * PerHopRoutingInfoLength g"
  shows "\<exists>mac ri. nike_ri_build p g ri0 q (nike_layers p N g i prevPad ge hs) = Ok (mac, ri) \<and>
     length ri = RoutingInfoLength g - i * PerHopRoutingInfoLength g \<and> (hs \<noteq> [] \<longrightarrow> length mac = 32)"
  using assms(3-)
proof (induction hs arbitrary: i prevPad ge q)
  case Nil
  then show ?case using assms(2) by (simp add: geo_consistent_def diff_mult_distrib mult.commute)
next
  case (Cons h hs)
  let ?P = "PerHopRoutingInfoLength g" and ?R = "RoutingInfoLength g"
  let ?pad = "layer_pad p g i prevPad (oh_keys h)" and ?ge = "next_ge N ge (oh_keys h)"
  obtain mac' ri' where rest: "nike_ri_build p g ri0 (Some ?pad) (nike_layers p N g (Suc i) ?pad ?ge hs) = Ok (mac', ri')"
    and l: "length ri' = ?R - Suc i * ?P" and m: "hs \<noteq> [] \<Longrightarrow> length mac' = 32"
    using Cons.IH [of "Suc i" "Some ?pad" ?pad ?ge] Cons.prems by auto
  have R: "?R = ?P * NrHops g" using assms(2) by (simp add: geo_consistent_def)
  have b: "Suc i * ?P \<le> ?R" using Cons.prems(2) unfolding R by (simp add: mult.commute [of ?P] del: mult_Suc)
  have "length (hop_fragment ?P (oh_hop h) (map oh_hop hs) mac') = ?P"
    using Cons.prems m by (intro hop_fragment_length) auto
  with l b nike_ri_build_layer [OF assms(1,2) Cons.prems(1,2) rest m l refl, of q] assms(1) show ?case
    by (simp add: layer_stream_def)
qed

section \<open>A layered header\<close>

text \<open>
  \<open>nike_layered p N g hs hdr\<close>: \<open>hdr\<close> is what the first of the hops \<open>hs\<close> receives when \<open>i\<close> hops
  have been passed: the version, its group element, the routing information of the remaining hops
  followed by the padding of the \<open>i\<close> earlier ones, and the MAC over all of it.
\<close>

definition nike_layered ::
  "prims \<Rightarrow> ('sk, 'pk) nike_scheme \<Rightarrow> Geometry \<Rightarrow> ('sk, 'pk, 'kpk, 'sk) onion_hop list \<Rightarrow> bytes \<Rightarrow> bool" where
  "nike_layered p N g hs hdr \<longleftrightarrow>
     prims_ok p \<and> nike_ok N \<and> geo_consistent g (nike_PublicKeySize N) 0 \<and>
     path_fits (PerHopRoutingInfoLength g) (map oh_hop hs) \<and>
     (\<exists>i prevPad ri0 ge mac ri.
        i + length hs \<le> NrHops g \<and> length prevPad = i * PerHopRoutingInfoLength g \<and>
        length ri0 = (NrHops g - (i + length hs)) * PerHopRoutingInfoLength g \<and>
        nike_chain p N ge hs \<and>
        nike_ri_build p g ri0 (Some prevPad) (nike_layers p N g i prevPad ge hs) = Ok (mac, ri) \<and>
        hdr = v0AD @ pk_Bytes N ge @ (ri @ prevPad) @ mac)"

text \<open>One hop of a layered header.\<close>

lemma nike_layered_unwrap:
  assumes lay: "nike_layered p N g (h # hs) hdr" and body: "body \<noteq> []"
    and dec: "SPRPDecrypt p (PayloadEncryption (oh_keys h)) (HeaderEncryptionIV (oh_keys h)) body = Some body'"
  obtains tag mac' hdr' where
    "unwrapNike p N g (oh_sk h) (hdr @ body) =
       hop_result g (oh_hop h) (map oh_hop hs) tag hdr body mac' hdr' body'"
    and "hs \<noteq> [] \<Longrightarrow> length hdr' = length hdr \<and> nike_layered p N g hs hdr'"
proof -
  let ?P = "PerHopRoutingInfoLength g" and ?R = "RoutingInfoLength g" and ?k = "oh_keys h"
  from lay have p: "prims_ok p" and N: "nike_ok N" and geo: "geo_consistent g (nike_PublicKeySize N) 0"
    and fits: "path_fits ?P (map oh_hop (h # hs))"
    by (simp_all add: nike_layered_def)
  from lay obtain i prevPad ri0 ge mac ri where i: "i + length (h # hs) \<le> NrHops g"
    and pad: "length prevPad = i * ?P" and ri0: "length ri0 = (NrHops g - (i + length (h # hs))) * ?P"
    and chain: "nike_chain p N ge (h # hs)"
    and build: "nike_ri_build p g ri0 (Some prevPad) (nike_layers p N g i prevPad ge (h # hs)) = Ok (mac, ri)"
    and hdr: "hdr = v0AD @ pk_Bytes N ge @ (ri @ prevPad) @ mac"
    unfolding nike_layered_def by blast
  from chain obtain bf where k: "KDF p (nike_DeriveSecret N (oh_sk h) ge) (Some N) = Some ?k"
    and bf: "BlindingFactor ?k = Some bf" and chain': "nike_chain p N (next_ge N ge ?k) hs" by auto
  let ?pad = "layer_pad p g i prevPad ?k"
  obtain mac' ri' where
    rest: "nike_ri_build p g ri0 (Some ?pad) (nike_layers p N g (Suc i) ?pad (next_ge N ge ?k) hs) = Ok (mac', ri')"
    and ri': "length ri' = ?R - Suc i * ?P" and mac': "hs \<noteq> [] \<Longrightarrow> length mac' = 32"
    using nike_ri_build_ok [OF p geo, of hs "Suc i" ri0 "Some ?pad" N ?pad "next_ge N ge ?k"] fits i ri0 by auto
  let ?frag = "hop_fragment ?P (oh_hop h) (map oh_hop hs) mac'"
  have ri: "ri = xor_bytes (?frag @ ri') (layer_stream p g i ?k)"
    and mac: "mac = mac_sum p (HeaderMAC ?k) [v0AD @ pk_Bytes N ge @ ri @ prevPad]"
    using nike_ri_build_layer [OF p geo fits i rest mac' ri' refl, of "Some prevPad"] build
    by (auto simp: mac_sum_def)
  have R: "?R = ?P * NrHops g" and HL: "HeaderLength g = 2 + nike_PublicKeySize N + ?R + 32"
    and g65: "NextNodeHopLength g = 65" using geo by (simp_all add: geo_consistent_def)
  have b: "Suc i * ?P \<le> ?R" and b': "i * ?P \<le> ?R" and iN: "i \<le> NrHops g"
    using i unfolding R by (simp_all add: mult.commute [of ?P] del: mult_Suc)
  have lf: "length ?frag = ?P" using fits mac' by (intro hop_fragment_length) auto
  have lfr: "length (?frag @ ri') = ?R - i * ?P" using lf ri' b by simp
  have lpad: "length ?pad = Suc i * ?P" by (rule layer_pad_length [OF p R iN pad])
  have lri: "length ri = ?R - i * ?P" using lfr p unfolding ri by (simp add: layer_stream_def)
  have lrp: "length (ri @ prevPad) = ?R" using lri pad b' by simp
  have lrp': "length (ri' @ ?pad) = ?R" using ri' lpad b by simp
  have x: "XORKeyStream p (HeaderEncryption ?k) (HeaderEncryptionIV ?k) ((ri @ prevPad) @ zeros ?P) =
      ?frag @ ri' @ ?pad"
    using unwrap_layer [OF p lfr pad b'] by (simp add: ri)
  have lb: "length body' = length body" using SPRPDecrypt_total [OF p] dec by (metis option.inject)
  note parse = parse_hop_fragment [of ?P "oh_hop h" "map oh_hop hs" mac' g, OF _ _ g65]
  note run = unwrapNike_run [OF HL N p lrp k bf mac x lf lrp' _ _ body dec lb]
  let ?tag = "sphinx_Hash p (pk_Bytes N ge)"
  show thesis
  proof (cases hs)
    case Nil
    show thesis
    proof (rule that)
      show "unwrapNike p N g (oh_sk h) (hdr @ body) =
       hop_result g (oh_hop h) (map oh_hop hs) ?tag hdr body mac' [] body'"
        using run [of "hop_Commands (oh_hop h)" None] parse fits Nil by (simp add: hdr hop_result_def)
    qed (simp add: Nil)
  next
    case (Cons h' hs')
    let ?hdr' = "v0AD @ pk_Bytes N (next_ge N ge ?k) @ (ri' @ ?pad) @ mac'"
    have nge: "nike_Blind N ge bf = next_ge N ge ?k" by (simp add: next_ge_def bf)
    have lm: "length mac' = 32" using mac' Cons by simp
    show thesis
    proof (rule that)
      show "unwrapNike p N g (oh_sk h) (hdr @ body) =
       hop_result g (oh_hop h) (map oh_hop hs) ?tag hdr body mac' ?hdr' body'"
        using run [of "hop_Commands (oh_hop h) @ [NextNodeHop (hop_ID (oh_hop h')) mac']"
            "Some (NextNodeHop (hop_ID (oh_hop h')) mac')"] parse fits Cons lm by (simp add: hdr nge hop_result_def)
      have "length ?hdr' = length hdr"
        using lm lrp lrp' N mac p by (simp add: hdr nike_ok_def)
      moreover have "nike_layered p N g hs ?hdr'"
        unfolding nike_layered_def using p N geo fits i ri0 chain' rest lpad
        by (intro conjI exI [of _ "Suc i"] exI [of _ ?pad] exI [of _ ri0] exI [of _ "next_ge N ge ?k"]
            exI [of _ mac'] exI [of _ ri']) auto
      ultimately show "length ?hdr' = length hdr \<and> nike_layered p N g hs ?hdr'" ..
    qed
  qed
qed

text \<open>The NIKE format meets the contract of the hops.\<close>

interpretation nike_onion: onion "unwrapNike p N g" p g "nike_layered p N g" for p N g
proof unfold_locales
  fix hs :: "('a, 'b, 'c, 'a) onion_hop list" and hdr
  assume l: "nike_layered p N g hs hdr"
  then show "prims_ok p" by (simp add: nike_layered_def)
  fix h assume "h \<in> set hs"
  with l show "hop_commands_wf (hop_Commands (oh_hop h))"
    using path_fits_commands [of _ "map oh_hop hs" "oh_hop h"] by (auto simp: nike_layered_def)
next
  fix h h' :: "('a, 'b, 'c, 'a) onion_hop" and hs hdr body body'
  assume "nike_layered p N g (h # h' # hs) hdr" "body \<noteq> []"
    "SPRPDecrypt p (PayloadEncryption (oh_keys h)) (HeaderEncryptionIV (oh_keys h)) body = Some body'"
  then obtain tag mac' hdr' where
    "unwrapNike p N g (oh_sk h) (hdr @ body) =
       Ok (None, tag, hop_Commands (oh_hop h) @ [NextNodeHop (hop_ID (oh_hop h')) mac'], hdr' @ body')"
    "length hdr' = length hdr" "nike_layered p N g (h' # hs) hdr'"
    by (rule nike_layered_unwrap) (simp add: hop_result_def)
  then show "\<exists>tag mac hdr'.
      unwrapNike p N g (oh_sk h) (hdr @ body) =
        Ok (None, tag, hop_Commands (oh_hop h) @ [NextNodeHop (hop_ID (oh_hop h')) mac], hdr' @ body') \<and>
      length hdr' = length hdr \<and> nike_layered p N g (h' # hs) hdr'"
    by blast
next
  fix h :: "('a, 'b, 'c, 'a) onion_hop" and hdr body body' pl
  assume l: "nike_layered p N g [h] hdr" "body \<noteq> []"
    "SPRPDecrypt p (PayloadEncryption (oh_keys h)) (HeaderEncryptionIV (oh_keys h)) body = Some body'"
    and t: "terminal_payload g (find is_SURBReply (hop_Commands (oh_hop h))) body' = Ok pl"
  from l obtain tag where
    "unwrapNike p N g (oh_sk h) (hdr @ body) =
       obind (with_tag (Some tag) (terminal_payload g (find is_SURBReply (hop_Commands (oh_hop h))) body')) (\<lambda>pl.
         Ok (Some pl, tag, hop_Commands (oh_hop h), hdr @ body))"
    by (rule nike_layered_unwrap) (simp add: hop_result_def)
  with t show "\<exists>tag. unwrapNike p N g (oh_sk h) (hdr @ body) = Ok (Some pl, tag, hop_Commands (oh_hop h), hdr @ body)"
    by simp
qed

section \<open>Key agreement\<close>

lemma blind_secret_ok:
  assumes "nike_ok N" and "list_all (\<lambda>k. BlindingFactor k \<noteq> None) ks"
  shows "blind_secret N ks (nike_DeriveSecret N sk ge) =
     (Ok (nike_DeriveSecret N sk (foldl (next_ge N) ge ks)) :: ('e, bytes) outcome)"
  using assms(2)
proof (induction ks arbitrary: ge)
  case (Cons k ks)
  then obtain bf where bf: "BlindingFactor k = Some bf" by auto
  from assms(1) obtain Q where "nike_DeriveSecret N sk ge = pk_Bytes N Q"
    and b: "nike_DeriveSecret N sk (nike_Blind N ge bf) = pk_Bytes N (nike_Blind N Q bf)"
    unfolding nike_ok_def by blast
  moreover have "pk_FromBytes N (pk_Bytes N Q) = Some Q" using assms(1) by (simp add: nike_ok_def)
  moreover have "next_ge N ge k = nike_Blind N ge bf" by (simp add: next_ge_def bf)
  ultimately show ?case using Cons.IH [of "nike_Blind N ge bf"] Cons.prems bf b by simp
qed simp

text \<open>Every hop derives the keys that the sender derived for it.\<close>

lemma nike_keys_ok:
  assumes p: "prims_ok p" and N: "nike_ok N"
    and "list_all2 (\<lambda>sk h. hop_NIKEPublicKey h = Some (nike_DerivePublicKey N sk)) sks hops"
    and "keys \<noteq> []" and "list_all (\<lambda>k. BlindingFactor k \<noteq> None) keys"
    and "next_ge N cpk (last keys) = foldl (next_ge N) (nike_DerivePublicKey N csk) keys"
  shows "\<exists>ks. nike_keys p N csk cpk keys ges hops =
       (Ok (keys @ ks, ges @ nike_ges N (next_ge N cpk (last keys)) ks) :: ('e, _) outcome) \<and>
     length ks = length hops \<and> list_all keys_wf ks \<and>
     nike_chain p N (next_ge N cpk (last keys)) (zip sks (zip hops ks))"
  using assms(3-)
proof (induction sks hops arbitrary: keys ges cpk rule: list_all2_induct)
  case Nil
  then show ?case by simp
next
  case (Cons sk sks h hops)
  let ?ge = "next_ge N cpk (last keys)"
  obtain k bf where k: "KDF p (nike_DeriveSecret N sk ?ge) (Some N) = Some k" "keys_wf k" "BlindingFactor k = Some bf"
    by (rule KDF_Some_ok [OF p N])
  have "BlindingFactor (last keys) \<noteq> None"
    using Cons.prems(2) last_in_set [OF Cons.prems(1)] by (auto simp: list_all_iff)
  then obtain bf' where bf': "BlindingFactor (last keys) = Some bf'" by auto
  have comm: "nike_DeriveSecret N csk (nike_DerivePublicKey N sk) = nike_DeriveSecret N sk (nike_DerivePublicKey N csk)"
    using N by (simp add: nike_ok_def)
  have secret: "blind_secret N keys (nike_DeriveSecret N csk (nike_DerivePublicKey N sk)) =
      (Ok (nike_DeriveSecret N sk ?ge) :: ('e, bytes) outcome)"
    using blind_secret_ok [OF N Cons.prems(2), of sk "nike_DerivePublicKey N csk"] Cons.prems(3) by (simp add: comm)
  have blind: "pk_Blind N cpk bf' = Some ?ge" "nike_UnmarshalBinaryPublicKey N (pk_Bytes N ?ge) = Some ?ge"
    using N bf' by (simp_all add: nike_ok_def next_ge_def)
  have ih: "\<exists>ks. nike_keys p N csk ?ge (keys @ [k]) (ges @ [?ge]) hops =
        (Ok ((keys @ [k]) @ ks, (ges @ [?ge]) @ nike_ges N (next_ge N ?ge (last (keys @ [k]))) ks) :: ('e, _) outcome) \<and>
      length ks = length hops \<and> list_all keys_wf ks \<and>
      nike_chain p N (next_ge N ?ge (last (keys @ [k]))) (zip sks (zip hops ks))"
    by (rule Cons.IH) (use Cons.prems(2,3) k in simp_all)
  then obtain ks where "nike_keys p N csk ?ge (keys @ [k]) (ges @ [?ge]) hops =
        (Ok ((keys @ [k]) @ ks, (ges @ [?ge]) @ nike_ges N (next_ge N ?ge k) ks) :: ('e, _) outcome)"
    "length ks = length hops" "list_all keys_wf ks" "nike_chain p N (next_ge N ?ge k) (zip sks (zip hops ks))"
    by (auto simp del: nike_keys.simps)
  moreover have "hop_NIKEPublicKey h = Some (nike_DerivePublicKey N sk)" by (rule Cons.hyps(1))
  ultimately show ?case using secret k bf' blind by (intro exI [of _ "k # ks"]) simp
qed

section \<open>Packets\<close>

text \<open>
  What the sender needs of a path: between one and \<open>NrHops\<close> hops, the public key of every hop, and
  commands that fit.
\<close>

definition nike_path :: "('sk, 'pk) nike_scheme \<Rightarrow> Geometry \<Rightarrow> 'sk list \<Rightarrow> ('pk, 'kpk) PathHop list \<Rightarrow> bool" where
  "nike_path N g sks path \<longleftrightarrow>
     path \<noteq> [] \<and> length path \<le> NrHops g \<and>
     list_all2 (\<lambda>sk h. hop_NIKEPublicKey h = Some (nike_DerivePublicKey N sk)) sks path \<and>
     path_fits (PerHopRoutingInfoLength g) path"

definition rnd_ok :: "(nat \<Rightarrow> bytes option) \<Rightarrow> bool" where
  "rnd_ok rnd \<longleftrightarrow> (\<forall>n. \<exists>b. rnd n = Some b \<and> length b = n)"

lemma skipped_ri_ok:
  assumes "rnd_ok rnd" and "n \<le> NrHops g"
  obtains ri0 where "skipped_ri g rnd n = Some ri0" "length ri0 = (NrHops g - n) * PerHopRoutingInfoLength g"
  using assms that unfolding skipped_ri_def rnd_ok_def by (metis diff_is_0_eq' length_0_conv mult_0 not_less)

lemma createHeader_ok:
  assumes p: "prims_ok p" and N: "nike_ok N" and geo: "geo_consistent g (nike_PublicKeySize N) 0"
    and path: "nike_path N g sks path" and rnd: "rnd_ok rnd"
  obtains hdr keys where
    "createHeader p N g (Some (nike_DerivePublicKey N csk, csk)) rnd path = Ok (hdr, map sprp_of_keys keys)"
    "length hdr = HeaderLength g" "list_all keys_wf keys" "length keys = length path"
    "nike_layered p N g (zip sks (zip path keys)) hdr"
proof -
  let ?P = "PerHopRoutingInfoLength g" and ?ge0 = "nike_DerivePublicKey N csk"
  from path obtain h hops sk sks' where h: "path = h # hops" "sks = sk # sks'"
    and pub: "hop_NIKEPublicKey h = Some (nike_DerivePublicKey N sk)"
    and pubs: "list_all2 (\<lambda>sk h. hop_NIKEPublicKey h = Some (nike_DerivePublicKey N sk)) sks' hops"
    by (cases path) (auto simp: nike_path_def list_all2_Cons2)
  have len: "length path \<le> NrHops g" "length sks = length path"
    and fits: "path_fits ?P path"
    using path by (auto simp: nike_path_def dest: list_all2_lengthD)
  have comm: "nike_DeriveSecret N csk (nike_DerivePublicKey N sk) = nike_DeriveSecret N sk ?ge0"
    using N by (simp add: nike_ok_def)
  obtain k0 bf where k0: "KDF p (nike_DeriveSecret N sk ?ge0) (Some N) = Some k0" "keys_wf k0" "BlindingFactor k0 = Some bf"
    by (rule KDF_Some_ok [OF p N])
  have "\<exists>ks. nike_keys p N csk ?ge0 [k0] [?ge0] hops =
       (Ok ([k0] @ ks, [?ge0] @ nike_ges N (next_ge N ?ge0 (last [k0])) ks) :: (sphinx_error, _) outcome) \<and>
     length ks = length hops \<and> list_all keys_wf ks \<and>
     nike_chain p N (next_ge N ?ge0 (last [k0])) (zip sks' (zip hops ks))"
    by (rule nike_keys_ok [OF p N pubs]) (simp_all add: k0)
  then obtain ks where ks: "nike_keys p N csk ?ge0 [k0] [?ge0] hops =
       (Ok (k0 # ks, nike_ges N ?ge0 (k0 # ks)) :: (sphinx_error, _) outcome)"
    "length ks = length hops" "list_all keys_wf ks" "nike_chain p N (next_ge N ?ge0 k0) (zip sks' (zip hops ks))"
    by auto
  let ?keys = "k0 # ks"
  have lk: "length ?keys = length sks" using ks(2) h len by simp
  have R: "RoutingInfoLength g = ?P * NrHops g" using geo by (simp add: geo_consistent_def)
  have streams: "ri_streams p g 0 [] ?keys = (Ok (layer_streams p g 0 [] ?keys) :: (sphinx_error, _) outcome)"
    using lk len by (intro ri_streams_eq [OF p R]) simp_all
  obtain ri0 where ri0: "skipped_ri g rnd (length path) = Some ri0" "length ri0 = (NrHops g - length path) * ?P"
    by (rule skipped_ri_ok [OF rnd len(1)])
  let ?hs = "zip sks (zip path ?keys)"
  have hops: "map oh_hop ?hs = path" "length ?hs = length path"
    using lk len(2) onion_hops_zip [of sks path ?keys] by simp_all
  have "\<exists>mac ri. nike_ri_build p g ri0 (Some []) (nike_layers p N g 0 [] ?ge0 ?hs) = Ok (mac, ri) \<and>
     length ri = RoutingInfoLength g - 0 * ?P \<and> (?hs \<noteq> [] \<longrightarrow> length mac = 32)"
    by (rule nike_ri_build_ok [OF p geo]) (use fits len ri0 hops in simp_all)
  then obtain mac ri where build: "nike_ri_build p g ri0 (Some []) (nike_layers p N g 0 [] ?ge0 ?hs) = Ok (mac, ri)"
    and lri: "length ri = RoutingInfoLength g" and lm: "length mac = 32"
    using h by auto
  let ?hdr = "v0AD @ pk_Bytes N ?ge0 @ ri @ mac"
  have keys: "list_all keys_wf ?keys" "length ?keys = length path" using k0 ks(3) lk len(2) by simp_all
  have unm: "nike_UnmarshalBinaryPublicKey N (pk_Bytes N ?ge0) = Some ?ge0" "length (pk_Bytes N ?ge0) = nike_PublicKeySize N"
    using N by (simp_all add: nike_ok_def)
  have lay: "nike_layered p N g ?hs ?hdr"
    unfolding nike_layered_def using p N geo fits len ri0 hops build k0 ks(4) h
    by (intro conjI exI [of _ "0::nat"] exI [of _ "[]"] exI [of _ ri0] exI [of _ ?ge0] exI [of _ mac] exI [of _ ri])
      simp_all
  have lh: "length ?hdr = HeaderLength g" using lri lm unm geo by (simp add: geo_consistent_def)
  have "createHeader p N g (Some (?ge0, csk)) rnd path = Ok (?hdr, map sprp_of_keys ?keys)"
    using len pub comm k0 unm ks(1) streams ri0 build nike_layers_zip [OF lk len(2) [symmetric], of N ?ge0 p g 0 "[]"]
    unfolding createHeader_def h nike_ri_build_first
    by (simp del: nike_keys.simps ri_streams.simps layer_streams.simps nike_ges.simps nike_layers.simps zip_Cons_Cons)
  from that [OF this lh keys lay] show thesis .
qed

lemma newNikePacket_eq:
  assumes "prims_ok p" and "geo_consistent g e ct" and "length payload = ForwardPayloadLength g"
    and "createHeader p N g keypair rnd path = Ok (hdr, ks)"
  shows "newNikePacket p N g keypair rnd path payload = Ok (hdr @ encrypt_payload p ks (zeros 32 @ payload))"
proof -
  have "slice (zeros (PerHopRoutingInfoLength g)) 0 (PayloadTagLength g) = (Ok (zeros 32) :: (sphinx_error, bytes) outcome)"
    using assms(2) by (simp add: geo_consistent_def slice_def)
  then show ?thesis
    using assms copy_range_suffix [of "length hdr" hdr _ "zeros 32 @ payload", OF refl refl,
        of "encrypt_payload p ks (zeros 32 @ payload)"]
    by (simp add: newNikePacket_def Let_def)
qed

text \<open>
  C1. A packet that \<open>newNikePacket\<close> builds has the length of the geometry, and the hops of its path,
  each calling \<open>unwrapNike\<close> with its own private key on the buffer the previous hop left, all
  succeed: each intermediate hop learns exactly its own commands and the identity of the next hop, and
  the last one its commands and the payload.
\<close>

theorem newNikePacket_delivers:
  assumes "prims_ok p" and "nike_ok N" and "rnd_ok rnd"
    and "GeometryFromUserForwardPayloadLength N u withSURB n = (Ok g :: (geo_error, Geometry) outcome)"
    and "nike_path N g sks path" and "find is_SURBReply (hop_Commands (last path)) = None"
    and "length payload = ForwardPayloadLength g"
  shows "\<exists>pkt rs. newNikePacket p N g (Some (nike_DerivePublicKey N csk, csk)) rnd path payload = Ok pkt \<and>
     length pkt = PacketLength g \<and>
     route (unwrapNike p N g) sks pkt = Ok rs \<and> map hop_view rs = intended_views path payload"
proof -
  have geo: "geo_consistent g (nike_PublicKeySize N) 0" by (rule nike_geometry_consistent [OF assms(4)])
  obtain hdr keys where hdr: "createHeader p N g (Some (nike_DerivePublicKey N csk, csk)) rnd path = Ok (hdr, map sprp_of_keys keys)"
    and lh: "length hdr = HeaderLength g" and wf: "list_all keys_wf keys" and lk: "length keys = length path"
    and lay: "nike_layered p N g (zip sks (zip path keys)) hdr"
    by (rule createHeader_ok [OF assms(1,2) geo assms(5,3)])
  let ?body = "encrypt_payload p (map sprp_of_keys keys) (zeros 32 @ payload)"
  have ls: "length sks = length path" and ne: "path \<noteq> []" using assms(5) by (auto simp: nike_path_def dest: list_all2_lengthD)
  have "PayloadTagLength g = 32" using geo by (simp add: geo_consistent_def)
  from nike_onion.delivered_forward [OF lay ls lk ne wf this assms(6)]
  have "\<exists>rs. route (unwrapNike p N g) sks (hdr @ ?body) = Ok rs \<and> map hop_view rs = intended_views path payload" .
  moreover have "length (hdr @ ?body) = PacketLength g" using lh assms(1,7) geo by (simp add: geo_consistent_def)
  ultimately show ?thesis using newNikePacket_eq [OF assms(1) geo assms(7) hdr] by blast
qed

text \<open>A two-hop path with a delay, a recipient and no other commands, for the toy schemes.\<close>

definition toy_path :: "(byte, byte) PathHop list" where
  "toy_path =
     [\<lparr>hop_ID = replicate 32 1, hop_NIKEPublicKey = Some 3, hop_KEMPublicKey = Some 3, hop_Commands = [NodeDelay 7]\<rparr>,
      \<lparr>hop_ID = replicate 32 2, hop_NIKEPublicKey = Some 5, hop_KEMPublicKey = Some 5, hop_Commands = [Recipient (replicate 32 9)]\<rparr>]"

definition toy_geometry :: Geometry where
  "toy_geometry =
     \<lparr>PacketLength = 345, NrHops = 3, HeaderLength = 281, RoutingInfoLength = 246, PerHopRoutingInfoLength = 82,
      SURBLength = 377, SphinxPlaintextHeaderLength = 2, PayloadTagLength = 32, ForwardPayloadLength = 32,
      UserForwardPayloadLength = 32, NextNodeHopLength = 65, SPRPKeyMaterialLength = 64,
      NIKEName = ''toy'', KEMName = []\<rparr>"

lemma toy_geometry_factory:
  "GeometryFromUserForwardPayloadLength toy_nike 32 False 3 = (Ok toy_geometry :: ('e, Geometry) outcome)"
  by (simp add: nike_geometry toy_geometry_def)

lemma toy_nike_path: "nike_path toy_nike toy_geometry [3, 5] toy_path"
  by (simp add: nike_path_def toy_path_def toy_geometry_def hop_commands_wf_def)

lemma toy_rnd_ok: "rnd_ok (\<lambda>n. Some (zeros n))"
  by (simp add: rnd_ok_def)

theorem newNikePacket_delivers_witness:
  "\<exists>pkt rs. newNikePacket toy_prims toy_nike toy_geometry (Some (7, 7)) (\<lambda>n. Some (zeros n)) toy_path (replicate 32 42) = Ok pkt \<and>
     length pkt = 345 \<and> route (unwrapNike toy_prims toy_nike toy_geometry) [3, 5] pkt = Ok rs \<and>
     map hop_view rs = [(None, [NodeDelay 7], [replicate 32 2]), (Some (replicate 32 42), [Recipient (replicate 32 9)], [])]"
  using newNikePacket_delivers [OF toy_prims_ok toy_nike_ok toy_rnd_ok toy_geometry_factory toy_nike_path, of "replicate 32 42" 7]
  by (simp add: toy_path_def) (simp add: toy_geometry_def)

end
