(* ===== verification/Sphinx_KEM.thy ===== *)
theory Sphinx_KEM
  imports Sphinx_NIKE
begin

text \<open>
  \<open>src/core/sphinx/kemsphinx.go\<close>: the KEM packet format. Every hop has its own encapsulation; the
  ciphertext for the next hop travels in the last \<open>CiphertextSize\<close> bytes of a hop's routing
  information, so only the bytes before it hold commands. The randomness of \<open>Encapsulate\<close> for hop
  \<open>i\<close> is \<open>seed i\<close>. The lemmas end in the interpretation of locale \<open>onion\<close> on \<open>unwrapKem\<close>.
\<close>

section \<open>createKEMHeader\<close>

text \<open>The loop over the hops: ciphertexts and keys. An error of \<open>Encapsulate\<close> panics.\<close>

fun kem_keys ::
  "prims \<Rightarrow> ('ksk, 'kpk) kem_scheme \<Rightarrow> (nat \<Rightarrow> bytes) \<Rightarrow> nat \<Rightarrow> ('npk, 'kpk) PathHop list
     \<Rightarrow> ('e, bytes list \<times> 'ksk PacketKeys list) outcome" where
  "kem_keys p K seed i [] = Ok ([], [])"
| "kem_keys p K seed i (hop # hops) =
     obind (of_option (hop_KEMPublicKey hop)) (\<lambda>pub.
     obind (of_option (kem_Encapsulate K pub (seed i))) (\<lambda>(kemElement, sharedSecret).
     obind (of_option (KDF p sharedSecret (None :: ('ksk, 'kpk) nike_scheme option))) (\<lambda>k.
     obind (kem_keys p K seed (Suc i) hops) (\<lambda>(kemElements, keys).
     Ok (kemElement # kemElements, k # keys)))))"

text \<open>\<open>copy(dst[PerHopRoutingInfoLength - CiphertextSize:], src)\<close>; the offset may not be negative.\<close>

definition copy_at_end :: "bytes \<Rightarrow> nat \<Rightarrow> nat \<Rightarrow> bytes \<Rightarrow> ('e, bytes) outcome" where
  "copy_at_end dst perHop ctSize src =
     (if ctSize > perHop then Panic else copy_range dst (perHop - ctSize) (length dst) src)"

text \<open>
  The routing-information loop, from the last hop to the first; a layer is as for the NIKE format, with
  the KEM ciphertext in place of the group element.
\<close>

fun kem_ri_build ::
  "prims \<Rightarrow> ('ksk, 'kpk) kem_scheme \<Rightarrow> Geometry \<Rightarrow> bytes \<Rightarrow> bytes option \<Rightarrow> ('npk, 'kpk, 'ksk) layer list
     \<Rightarrow> (sphinx_error, bytes \<times> bytes) outcome" where
  "kem_ri_build p K g ri0 prevPad [] = Ok ([], ri0)"
| "kem_ri_build p K g ri0 prevPad ((hop, k, kemElement, riKeyStream, riPadding) # rest) =
     obind (kem_ri_build p K g ri0 (Some riPadding) rest) (\<lambda>(mac, routingInfo).
     obind (commandsToBytes g (hop_Commands hop) (rest = [])) (\<lambda>riFragment0.
     let riFragment1 =
           (case rest of
              [] \<Rightarrow> riFragment0
            | (nxt, _) # _ \<Rightarrow>
                rc_ToBytes (NextNodeHop (go_copy (zeros NodeIDLength) (hop_ID nxt)) (go_copy (zeros MACLength) mac))
                  riFragment0);
         riFragment2 = riFragment1 @ zeros (PerHopRoutingInfoLength g - length riFragment1)
     in obind (case rest of
                 [] \<Rightarrow> Ok riFragment2
               | (_, _, nextElement, _, _) # _ \<Rightarrow>
                   copy_at_end riFragment2 (PerHopRoutingInfoLength g) (kem_CiphertextSize K) nextElement)
          (\<lambda>riFragment.
        obind (xorBytes (riFragment @ routingInfo) riKeyStream) (\<lambda>routingInfo'.
        Ok (mac_sum p (HeaderMAC k)
              ([v0AD, kemElement, routingInfo'] @ (case prevPad of None \<Rightarrow> [] | Some q \<Rightarrow> [q])),
            routingInfo')))))"

definition createKEMHeader ::
  "prims \<Rightarrow> ('ksk, 'kpk) kem_scheme \<Rightarrow> Geometry \<Rightarrow> (nat \<Rightarrow> bytes) \<Rightarrow> (nat \<Rightarrow> bytes option)
     \<Rightarrow> ('npk, 'kpk) PathHop list \<Rightarrow> (sphinx_error, bytes \<times> sprpKey list) outcome" where
  "createKEMHeader p K g seed rnd path =
     (if length path > NrHops g then Err errInvalidPath
      else
        obind (kem_keys p K seed 0 path) (\<lambda>(kemElements, keys).
        obind (ri_streams p g 0 [] keys) (\<lambda>streams.
        obind (of_option (skipped_ri g rnd (length path))) (\<lambda>ri0.
        obind (kem_ri_build p K g ri0 None (zip path (zip keys (zip kemElements streams)))) (\<lambda>(mac, routingInfo).
        case kemElements of
          [] \<Rightarrow> Panic
        | kemElement0 # _ \<Rightarrow>
            Ok (v0AD @ kemElement0 @ routingInfo @ mac, map sprp_of_keys keys))))))"

definition newKEMPacket ::
  "prims \<Rightarrow> ('ksk, 'kpk) kem_scheme \<Rightarrow> Geometry \<Rightarrow> (nat \<Rightarrow> bytes) \<Rightarrow> (nat \<Rightarrow> bytes option)
     \<Rightarrow> ('npk, 'kpk) PathHop list \<Rightarrow> bytes \<Rightarrow> (sphinx_error, bytes) outcome" where
  "newKEMPacket p K g seed rnd path payload =
     (if length payload \<noteq> ForwardPayloadLength g
      then Err (errPayloadLength (length payload) (ForwardPayloadLength g))
      else obind (createKEMHeader p K g seed rnd path) (\<lambda>(hdr, sprpKeys).
           obind (slice (zeros (PerHopRoutingInfoLength g)) 0 (PayloadTagLength g)) (\<lambda>tag.
           let pkt = hdr @ tag @ payload;
               b = encrypt_payload p sprpKeys (drop (length hdr) pkt)
           in copy_range pkt (length hdr) (length pkt) b)))"

section \<open>unwrapKem\<close>

definition unwrapKem ::
  "prims \<Rightarrow> ('ksk, 'kpk) kem_scheme \<Rightarrow> Geometry \<Rightarrow> 'ksk \<Rightarrow> bytes \<Rightarrow> unwrap" where
  "unwrapKem p K g privKey pkt =
     (let geOff = 2;
          riOff = geOff + kem_CiphertextSize K;
          macOff = riOff + RoutingInfoLength g;
          payloadOff = macOff + MACLength
      in if length pkt < HeaderLength g then Err (errTruncatedPacket, None)
         else
      obind (slice pkt 0 2) (\<lambda>ad.
      if ad \<noteq> v0AD then Err (errUnknownVersion, None)
      else
      obind (slice pkt geOff riOff) (\<lambda>kemCiphertext0.
      case kem_Decapsulate K privKey kemCiphertext0 of
        None \<Rightarrow> Err (errDecapsulate, None)
      | Some sharedSecret \<Rightarrow>
          let replayTag = sphinx_Hash p kemCiphertext0
          in
      obind (of_option (KDF p sharedSecret (None :: ('ksk, 'kpk) nike_scheme option))) (\<lambda>keys.
      obind (slice pkt 0 macOff) (\<lambda>authenticated.
      obind (slice pkt macOff (macOff + MACLength)) (\<lambda>pktMac.
      if pktMac \<noteq> mac_sum p (HeaderMAC keys) [authenticated] then Err (errMACMismatch, Some replayTag)
      else
      obind (slice pkt riOff (riOff + RoutingInfoLength g)) (\<lambda>ri.
      let b = XORKeyStream p (HeaderEncryption keys) (HeaderEncryptionIV keys)
                (go_copy (zeros (RoutingInfoLength g)) ri @ zeros (PerHopRoutingInfoLength g))
      in if kem_CiphertextSize K > PerHopRoutingInfoLength g then Panic
         else
      obind (slice b 0 (PerHopRoutingInfoLength g - kem_CiphertextSize K)) (\<lambda>cmdBuf.
      obind (slice b (PerHopRoutingInfoLength g - kem_CiphertextSize K) (PerHopRoutingInfoLength g)) (\<lambda>kemCiphertext.
      let newRoutingInfo = drop (PerHopRoutingInfoLength g) b
      in
      obind (with_tag (Some replayTag) (parse_commands g cmdBuf [] None None)) (\<lambda>(cmds, nextNode, surbReply).
      obind (slice_from pkt payloadOff) (\<lambda>payload0.
      obind (if length payload0 > 0
             then of_option (SPRPDecrypt p (PayloadEncryption keys) (HeaderEncryptionIV keys) payload0)
             else Ok payload0) (\<lambda>payload.
      case nextNode of
        Some nn \<Rightarrow>
          obind (copy_range pkt geOff riOff kemCiphertext) (\<lambda>pkt1.
          obind (copy_range pkt1 riOff macOff newRoutingInfo) (\<lambda>pkt2.
          obind (copy_range pkt2 macOff payloadOff (nnh_MAC nn)) (\<lambda>pkt3.
          obind (if length payload > 0 then copy_range pkt3 payloadOff (length pkt3) payload else Ok pkt3) (\<lambda>pkt4.
          Ok (None, replayTag, cmds, pkt4)))))
      | None \<Rightarrow>
          obind (with_tag (Some replayTag) (terminal_payload g surbReply payload)) (\<lambda>pl.
          Ok (Some pl, replayTag, cmds, pkt))))))))))))))"

section \<open>One hop\<close>

lemma unwrapKem_run:
  fixes K :: "('sk, 'pk) kem_scheme"
  assumes geo: "HeaderLength g = 2 + kem_CiphertextSize K + RoutingInfoLength g + 32"
    and ct: "kem_CiphertextSize K \<le> PerHopRoutingInfoLength g" and p: "prims_ok p"
    and e: "length e = kem_CiphertextSize K" and rr: "length rr = RoutingInfoLength g"
    and ss: "kem_Decapsulate K sk e = Some ss"
    and k: "KDF p ss (None :: ('sk, 'pk) nike_scheme option) = Some k"
    and mac: "mac = mac_sum p (HeaderMAC k) [v0AD @ e @ rr]"
    and b: "XORKeyStream p (HeaderEncryption k) (HeaderEncryptionIV k)
              (rr @ zeros (PerHopRoutingInfoLength g)) = (frag @ e') @ rr'"
    and frag: "length frag = PerHopRoutingInfoLength g - kem_CiphertextSize K"
    and e': "length e' = kem_CiphertextSize K" and rr': "length rr' = RoutingInfoLength g"
    and parse: "parse_commands g frag [] None None = Ok (cmds, nn, sr)"
    and nn: "\<And>c. nn = Some c \<Longrightarrow> length (nnh_MAC c) = 32"
    and body: "body \<noteq> []" "SPRPDecrypt p (PayloadEncryption k) (HeaderEncryptionIV k) body = Some body'"
      "length body' = length body"
  shows "unwrapKem p K g sk ((v0AD @ e @ rr @ mac) @ body) =
     (case nn of
        None \<Rightarrow> obind (with_tag (Some (sphinx_Hash p e)) (terminal_payload g sr body')) (\<lambda>pl.
                 Ok (Some pl, sphinx_Hash p e, cmds, (v0AD @ e @ rr @ mac) @ body))
      | Some c \<Rightarrow> Ok (None, sphinx_Hash p e, cmds, (v0AD @ e' @ rr' @ nnh_MAC c) @ body'))"
proof -
  let ?ct = "kem_CiphertextSize K" and ?R = "RoutingInfoLength g" and ?P = "PerHopRoutingInfoLength g"
  define pkt where pkt: "pkt = (v0AD @ e @ rr @ mac) @ body"
  have lm: "length mac = 32" using mac p by simp
  have s: "slice pkt 0 2 = (Ok v0AD :: (sphinx_error \<times> bytes option, bytes) outcome)"
    "slice pkt 2 (2 + ?ct) = (Ok e :: (sphinx_error \<times> bytes option, bytes) outcome)"
    "slice pkt 0 (2 + ?ct + ?R) = (Ok (v0AD @ e @ rr) :: (sphinx_error \<times> bytes option, bytes) outcome)"
    "slice pkt (2 + ?ct + ?R) (2 + ?ct + ?R + MACLength) = (Ok mac :: (sphinx_error \<times> bytes option, bytes) outcome)"
    "slice pkt (2 + ?ct) (2 + ?ct + ?R) = (Ok rr :: (sphinx_error \<times> bytes option, bytes) outcome)"
    "slice_from pkt (2 + ?ct + ?R + MACLength) = (Ok body :: (sphinx_error \<times> bytes option, bytes) outcome)"
    using e rr lm by (simp_all add: pkt slice_def slice_from_def)
  have sb: "slice ((frag @ e') @ rr') 0 (?P - ?ct) = (Ok frag :: (sphinx_error \<times> bytes option, bytes) outcome)"
    "slice ((frag @ e') @ rr') (?P - ?ct) ?P = (Ok e' :: (sphinx_error \<times> bytes option, bytes) outcome)"
    "drop ?P ((frag @ e') @ rr') = rr'"
    using frag e' ct by (simp_all add: slice_def)
  have cp: "go_copy (zeros ?R) rr = rr" using rr by (simp add: go_copy_same_length)
  have len: "\<not> length pkt < HeaderLength g" "\<not> ?P < ?ct" using geo e rr lm ct by (simp_all add: pkt)
  have body'n: "body' \<noteq> []" using body by auto
  have run: "unwrapKem p K g sk pkt =
     (case nn of
        Some c \<Rightarrow>
          obind (copy_range pkt 2 (2 + ?ct) e') (\<lambda>pkt1.
          obind (copy_range pkt1 (2 + ?ct) (2 + ?ct + ?R) rr') (\<lambda>pkt2.
          obind (copy_range pkt2 (2 + ?ct + ?R) (2 + ?ct + ?R + MACLength) (nnh_MAC c)) (\<lambda>pkt3.
          obind (copy_range pkt3 (2 + ?ct + ?R + MACLength) (length pkt3) body') (\<lambda>pkt4.
          Ok (None, sphinx_Hash p e, cmds, pkt4)))))
      | None \<Rightarrow>
          obind (with_tag (Some (sphinx_Hash p e)) (terminal_payload g sr body')) (\<lambda>pl.
          Ok (Some pl, sphinx_Hash p e, cmds, pkt)))"
    unfolding unwrapKem_def Let_def
    using body body'n
    by (simp add: s sb ss k cp len parse b mac [symmetric]
        del: add_2_eq_Suc sphinx_consts take_append drop_append append_assoc split: option.split)
  show ?thesis
  proof (cases nn)
    case None
    then show ?thesis unfolding pkt [symmetric] by (simp add: run)
  next
    case (Some c)
    have c1: "copy_range pkt 2 (2 + ?ct) e' =
        (Ok (v0AD @ e' @ rr @ mac @ body) :: (sphinx_error \<times> bytes option, bytes) outcome)"
      using copy_range_middle [of 2 v0AD "2 + ?ct" e e' "rr @ mac @ body"] e e' by (simp add: pkt)
    have c2: "copy_range (v0AD @ e' @ rr @ mac @ body) (2 + ?ct) (2 + ?ct + ?R) rr' =
        (Ok (v0AD @ e' @ rr' @ mac @ body) :: (sphinx_error \<times> bytes option, bytes) outcome)"
      using copy_range_middle [of "2 + ?ct" "v0AD @ e'" "2 + ?ct + ?R" rr rr' "mac @ body"] rr rr' e' by simp
    have c3: "copy_range (v0AD @ e' @ rr' @ mac @ body) (2 + ?ct + ?R) (2 + ?ct + ?R + MACLength) (nnh_MAC c) =
        (Ok (v0AD @ e' @ rr' @ nnh_MAC c @ body) :: (sphinx_error \<times> bytes option, bytes) outcome)"
      using copy_range_middle [of "2 + ?ct + ?R" "(v0AD @ e') @ rr'" "2 + ?ct + ?R + MACLength" mac "nnh_MAC c" body]
        rr' e' lm nn [OF Some] by simp
    have c4: "copy_range (v0AD @ e' @ rr' @ nnh_MAC c @ body) (2 + ?ct + ?R + MACLength)
         (length (v0AD @ e' @ rr' @ nnh_MAC c @ body)) body' =
        (Ok (v0AD @ e' @ rr' @ nnh_MAC c @ body') :: (sphinx_error \<times> bytes option, bytes) outcome)"
      using copy_range_suffix [of "2 + ?ct + ?R + MACLength" "(v0AD @ e') @ rr' @ nnh_MAC c" _ body body']
        rr' e' nn [OF Some] body by simp
    show ?thesis unfolding pkt [symmetric] run Some option.case c1 c2 c3 c4 obind.simps by simp
  qed
qed

section \<open>The layers of a header\<close>

text \<open>The hops' ciphertexts \<open>es\<close>, and the keys derived from them.\<close>

definition kem_chain ::
  "prims \<Rightarrow> ('sk, 'pk) kem_scheme \<Rightarrow> bytes list \<Rightarrow> ('sk, 'npk, 'pk, 'sk) onion_hop list \<Rightarrow> bool" where
  "kem_chain p K es hs \<longleftrightarrow>
     list_all2 (\<lambda>e h. length e = kem_CiphertextSize K \<and> keys_wf (oh_keys h) \<and>
       (\<exists>ss. kem_Decapsulate K (oh_sk h) e = Some ss \<and>
             KDF p ss (None :: ('sk, 'pk) nike_scheme option) = Some (oh_keys h))) es hs"

fun kem_layers ::
  "prims \<Rightarrow> Geometry \<Rightarrow> nat \<Rightarrow> bytes \<Rightarrow> bytes list \<Rightarrow> ('sk, 'npk, 'pk, 'bf) onion_hop list
     \<Rightarrow> ('npk, 'pk, 'bf) layer list" where
  "kem_layers p g i prevPad (e # es) (h # hs) =
     (oh_hop h, oh_keys h, e, layer_stream p g i (oh_keys h), layer_pad p g i prevPad (oh_keys h)) #
     kem_layers p g (Suc i) (layer_pad p g i prevPad (oh_keys h)) es hs"
| "kem_layers p g i prevPad _ _ = []"

lemma kem_layers_zip:
  assumes "length keys = length sks" and "length path = length sks" and "length es = length sks"
  shows "zip path (zip keys (zip es (layer_streams p g i prevPad keys))) =
         kem_layers p g i prevPad es (zip sks (zip path keys))"
  using assms
proof (induction keys arbitrary: sks path es i prevPad)
  case (Cons k keys)
  then obtain sk sks' h path' e es' where "sks = sk # sks'" "path = h # path'" "es = e # es'"
    by (metis Suc_length_conv length_Cons)
  with Cons show ?case by simp
qed simp

text \<open>The routing information of a hop: the command area, then the next hop's ciphertext.\<close>

definition kem_fragment ::
  "('sk, 'pk) kem_scheme \<Rightarrow> Geometry \<Rightarrow> ('npk, 'kpk) PathHop \<Rightarrow> ('npk, 'kpk) PathHop list \<Rightarrow> bytes \<Rightarrow> bytes list \<Rightarrow> bytes" where
  "kem_fragment K g h rest mac es =
     hop_fragment (PerHopRoutingInfoLength g - kem_CiphertextSize K) h rest mac @
     (case es of [] \<Rightarrow> zeros (kem_CiphertextSize K) | e # _ \<Rightarrow> e)"

lemma kem_fragment_length:
  assumes "path_fits (PerHopRoutingInfoLength g - kem_CiphertextSize K) (h # rest)" and "rest \<noteq> [] \<Longrightarrow> length mac = 32"
    and "kem_CiphertextSize K \<le> PerHopRoutingInfoLength g" and "list_all (\<lambda>e. length e = kem_CiphertextSize K) es"
  shows "length (kem_fragment K g h rest mac es) = PerHopRoutingInfoLength g"
  using assms hop_fragment_length [OF assms(1,2)] by (cases es) (auto simp: kem_fragment_def)

lemma kem_chain_sizes:
  assumes "kem_chain p K es hs"
  shows "length es = length hs" and "list_all (\<lambda>e. length e = kem_CiphertextSize K) es"
proof -
  show "length es = length hs" using assms by (auto simp: kem_chain_def dest: list_all2_lengthD)
  show "list_all (\<lambda>e. length e = kem_CiphertextSize K) es"
    using assms unfolding kem_chain_def by (induction es hs rule: list_all2_induct) simp_all
qed

lemma kem_ri_build_layer:
  assumes p: "prims_ok p" and geo: "geo_consistent g (kem_CiphertextSize K) (kem_CiphertextSize K)"
    and fits: "path_fits (PerHopRoutingInfoLength g - kem_CiphertextSize K) (map oh_hop (h # hs))"
    and es: "length es = length hs" "list_all (\<lambda>e. length e = kem_CiphertextSize K) es"
    and i: "i + length (h # hs) \<le> NrHops g"
    and rest: "kem_ri_build p K g ri0 (Some (layer_pad p g i prevPad (oh_keys h)))
       (kem_layers p g (Suc i) (layer_pad p g i prevPad (oh_keys h)) es hs) = Ok (mac', ri')"
    and mac': "hs \<noteq> [] \<Longrightarrow> length mac' = 32"
    and ri': "length ri' = RoutingInfoLength g - Suc i * PerHopRoutingInfoLength g"
    and ri: "ri = xor_bytes (kem_fragment K g (oh_hop h) (map oh_hop hs) mac' es @ ri') (layer_stream p g i (oh_keys h))"
  shows "kem_ri_build p K g ri0 q (kem_layers p g i prevPad (e # es) (h # hs)) =
     Ok (mac_sum p (HeaderMAC (oh_keys h)) ([v0AD, e, ri] @ (case q of None \<Rightarrow> [] | Some x \<Rightarrow> [x])), ri)"
proof -
  let ?P = "PerHopRoutingInfoLength g" and ?R = "RoutingInfoLength g" and ?ct = "kem_CiphertextSize K"
  let ?cmds = "hop_Commands (oh_hop h)"
  let ?frag = "kem_fragment K g (oh_hop h) (map oh_hop hs) mac' es"
  have g65: "NextNodeHopLength g = 65" and R: "?R = ?P * NrHops g" and ct: "?ct \<le> ?P"
    using geo by (simp_all add: geo_consistent_def)
  have b: "Suc i * ?P \<le> ?R" using i unfolding R by (simp add: mult.commute [of ?P] del: mult_Suc)
  have c: "commandsToBytes g ?cmds (hs = []) = Ok (ser_commands ?cmds)"
    using fits g65 by (intro commandsToBytes_ok) (auto split: if_splits)
  have lf: "length ?frag = ?P" using fits mac' ct es by (intro kem_fragment_length) auto
  have "length (?frag @ ri') = length (layer_stream p g i (oh_keys h))"
    using lf ri' b p by (simp add: layer_stream_def)
  then have x: "xorBytes (?frag @ ri') (layer_stream p g i (oh_keys h)) = (Ok ri :: (sphinx_error, bytes) outcome)"
    by (simp add: xorBytes_def ri)
  have f1: "path_fits (?P - ?ct) (oh_hop h # map oh_hop hs)" "map oh_hop hs \<noteq> [] \<Longrightarrow> length mac' = 32"
    using fits mac' by auto
  note ext = hop_fragment_extend [OF f1, of ?P]
  let ?pad = "layer_pad p g i prevPad (oh_keys h)"
  define L where L: "L = kem_layers p g (Suc i) ?pad es hs"
  show ?thesis
  proof (cases hs)
    case Nil
    with c x rest ext ct es show ?thesis by (simp add: kem_fragment_def hop_fragment_def Let_def)
  next
    case (Cons h' hs')
    with es obtain e' es' where e': "es = e' # es'" by (cases es) auto
    have "length (hop_ID (oh_hop h')) = 32" "length mac' = 32" using Cons fits mac' by simp_all
    moreover obtain k' s' q' L' where "L = (oh_hop h', k', e', s', q') # L'" unfolding L Cons e' by simp
    moreover have "copy_at_end (hop_fragment ?P (oh_hop h) (map oh_hop hs) mac') ?P ?ct e' =
        (Ok ?frag :: (sphinx_error, bytes) outcome)"
      using copy_range_suffix [of "?P - ?ct" "hop_fragment (?P - ?ct) (oh_hop h) (map oh_hop hs) mac'" _ "zeros ?ct" e']
        hop_fragment_length [OF f1] es e' ct ext
      by (simp add: copy_at_end_def kem_fragment_def)
    ultimately show ?thesis
      unfolding kem_layers.simps L [symmetric] kem_ri_build.simps(2) rest [folded L]
      using c x Cons by (simp add: hop_fragment_def Let_def go_copy_same_length)
  qed
qed

lemma kem_ri_build_first: "kem_ri_build p K g ri0 None L = kem_ri_build p K g ri0 (Some []) L"
  by (cases L) (auto simp: mac_sum_def)

lemma kem_ri_build_ok:
  assumes "prims_ok p" and "geo_consistent g (kem_CiphertextSize K) (kem_CiphertextSize K)"
    and "path_fits (PerHopRoutingInfoLength g - kem_CiphertextSize K) (map oh_hop hs)"
    and "length es = length hs" and "list_all (\<lambda>e. length e = kem_CiphertextSize K) es"
    and "i + length hs \<le> NrHops g"
    and "length ri0 = (NrHops g - (i + length hs)) * PerHopRoutingInfoLength g"
  shows "\<exists>mac ri. kem_ri_build p K g ri0 q (kem_layers p g i prevPad es hs) = Ok (mac, ri) \<and>
     length ri = RoutingInfoLength g - i * PerHopRoutingInfoLength g \<and> (hs \<noteq> [] \<longrightarrow> length mac = 32)"
  using assms(3-)
proof (induction hs arbitrary: es i prevPad q)
  case Nil
  then show ?case using assms(2) by (simp add: geo_consistent_def diff_mult_distrib mult.commute)
next
  case (Cons h hs)
  let ?P = "PerHopRoutingInfoLength g" and ?R = "RoutingInfoLength g"
  let ?pad = "layer_pad p g i prevPad (oh_keys h)"
  obtain e es' where e: "es = e # es'" "length es' = length hs" "list_all (\<lambda>e. length e = kem_CiphertextSize K) es'"
    using Cons.prems(2,3) by (cases es) auto
  obtain mac' ri' where rest: "kem_ri_build p K g ri0 (Some ?pad) (kem_layers p g (Suc i) ?pad es' hs) = Ok (mac', ri')"
    and l: "length ri' = ?R - Suc i * ?P" and m: "hs \<noteq> [] \<Longrightarrow> length mac' = 32"
    using Cons.IH [of es' "Suc i" "Some ?pad" ?pad] Cons.prems e by auto
  have R: "?R = ?P * NrHops g" using assms(2) by (simp add: geo_consistent_def)
  have b: "Suc i * ?P \<le> ?R" using Cons.prems(4) unfolding R by (simp add: mult.commute [of ?P] del: mult_Suc)
  have "length (kem_fragment K g (oh_hop h) (map oh_hop hs) mac' es') = ?P"
    using Cons.prems m e assms(2) by (intro kem_fragment_length) (auto simp: geo_consistent_def)
  with l b e kem_ri_build_layer [OF assms(1,2) Cons.prems(1) e(2,3) Cons.prems(4) rest m l refl, of q] assms(1)
  show ?case by (simp add: layer_stream_def)
qed

section \<open>A layered header\<close>

definition kem_layered ::
  "prims \<Rightarrow> ('sk, 'pk) kem_scheme \<Rightarrow> Geometry \<Rightarrow> ('sk, 'npk, 'pk, 'sk) onion_hop list \<Rightarrow> bytes \<Rightarrow> bool" where
  "kem_layered p K g hs hdr \<longleftrightarrow>
     prims_ok p \<and> geo_consistent g (kem_CiphertextSize K) (kem_CiphertextSize K) \<and>
     path_fits (PerHopRoutingInfoLength g - kem_CiphertextSize K) (map oh_hop hs) \<and>
     (\<exists>i prevPad ri0 e es mac ri.
        i + length hs \<le> NrHops g \<and> length prevPad = i * PerHopRoutingInfoLength g \<and>
        length ri0 = (NrHops g - (i + length hs)) * PerHopRoutingInfoLength g \<and>
        kem_chain p K (e # es) hs \<and>
        kem_ri_build p K g ri0 (Some prevPad) (kem_layers p g i prevPad (e # es) hs) = Ok (mac, ri) \<and>
        hdr = v0AD @ e @ (ri @ prevPad) @ mac)"

lemma kem_layered_unwrap:
  fixes K :: "('sk, 'pk) kem_scheme"
  assumes lay: "kem_layered p K g (h # hs) hdr" and body: "body \<noteq> []"
    and dec: "SPRPDecrypt p (PayloadEncryption (oh_keys h)) (HeaderEncryptionIV (oh_keys h)) body = Some body'"
  obtains tag mac' hdr' where
    "unwrapKem p K g (oh_sk h) (hdr @ body) =
       hop_result g (oh_hop h) (map oh_hop hs) tag hdr body mac' hdr' body'"
    and "hs \<noteq> [] \<Longrightarrow> length hdr' = length hdr \<and> kem_layered p K g hs hdr'"
proof -
  let ?P = "PerHopRoutingInfoLength g" and ?R = "RoutingInfoLength g" and ?ct = "kem_CiphertextSize K" and ?k = "oh_keys h"
  from lay have p: "prims_ok p" and geo: "geo_consistent g ?ct ?ct" and fits: "path_fits (?P - ?ct) (map oh_hop (h # hs))"
    by (simp_all add: kem_layered_def)
  from lay obtain i prevPad ri0 e es mac ri where i: "i + length (h # hs) \<le> NrHops g"
    and pad: "length prevPad = i * ?P" and ri0: "length ri0 = (NrHops g - (i + length (h # hs))) * ?P"
    and chain: "kem_chain p K (e # es) (h # hs)"
    and build: "kem_ri_build p K g ri0 (Some prevPad) (kem_layers p g i prevPad (e # es) (h # hs)) = Ok (mac, ri)"
    and hdr: "hdr = v0AD @ e @ (ri @ prevPad) @ mac"
    unfolding kem_layered_def by blast
  from chain obtain ss where le: "length e = ?ct" and ss: "kem_Decapsulate K (oh_sk h) e = Some ss"
    and k: "KDF p ss (None :: ('sk, 'pk) nike_scheme option) = Some ?k" and chain': "kem_chain p K es hs"
    by (auto simp: kem_chain_def)
  note es = kem_chain_sizes [OF chain']
  let ?pad = "layer_pad p g i prevPad ?k"
  obtain mac' ri' where
    rest: "kem_ri_build p K g ri0 (Some ?pad) (kem_layers p g (Suc i) ?pad es hs) = Ok (mac', ri')"
    and ri': "length ri' = ?R - Suc i * ?P" and mac': "hs \<noteq> [] \<Longrightarrow> length mac' = 32"
    using kem_ri_build_ok [OF p geo _ es, of "Suc i" ri0 "Some ?pad" ?pad] fits i ri0 by auto
  let ?frag = "hop_fragment (?P - ?ct) (oh_hop h) (map oh_hop hs) mac'"
    and ?e' = "case es of [] \<Rightarrow> zeros ?ct | e # _ \<Rightarrow> e"
  have ri: "ri = xor_bytes ((?frag @ ?e') @ ri') (layer_stream p g i ?k)"
    and mac: "mac = mac_sum p (HeaderMAC ?k) [v0AD @ e @ ri @ prevPad]"
    using kem_ri_build_layer [OF p geo fits es i rest mac' ri' refl, of "Some prevPad" e] build
    by (auto simp: mac_sum_def kem_fragment_def)
  have R: "?R = ?P * NrHops g" and HL: "HeaderLength g = 2 + ?ct + ?R + 32" and ct: "?ct \<le> ?P"
    and g65: "NextNodeHopLength g = 65" using geo by (simp_all add: geo_consistent_def)
  have b: "Suc i * ?P \<le> ?R" and b': "i * ?P \<le> ?R" and iN: "i \<le> NrHops g"
    using i unfolding R by (simp_all add: mult.commute [of ?P] del: mult_Suc)
  have lf: "length ?frag = ?P - ?ct" using fits mac' by (intro hop_fragment_length) auto
  have le': "length ?e' = ?ct" using es(2) by (cases es) auto
  have lfr: "length ((?frag @ ?e') @ ri') = ?R - i * ?P" using lf le' ri' b ct by simp
  have lpad: "length ?pad = Suc i * ?P" by (rule layer_pad_length [OF p R iN pad])
  have lri: "length ri = ?R - i * ?P" using lfr p unfolding ri by (simp add: layer_stream_def)
  have lrp: "length (ri @ prevPad) = ?R" using lri pad b' by simp
  have lrp': "length (ri' @ ?pad) = ?R" using ri' lpad b by simp
  have x: "XORKeyStream p (HeaderEncryption ?k) (HeaderEncryptionIV ?k) ((ri @ prevPad) @ zeros ?P) =
      (?frag @ ?e') @ ri' @ ?pad"
    using unwrap_layer [OF p lfr pad b'] by (simp add: ri)
  have lb: "length body' = length body" using SPRPDecrypt_total [OF p] dec by (metis option.inject)
  note parse = parse_hop_fragment [of "?P - ?ct" "oh_hop h" "map oh_hop hs" mac' g, OF _ _ g65]
  note run = unwrapKem_run [OF HL ct p le lrp ss k mac x lf le' lrp' _ _ body dec lb]
  let ?tag = "sphinx_Hash p e"
  show thesis
  proof (cases hs)
    case Nil
    show thesis
    proof (rule that)
      show "unwrapKem p K g (oh_sk h) (hdr @ body) =
       hop_result g (oh_hop h) (map oh_hop hs) ?tag hdr body mac' [] body'"
        using run [of "hop_Commands (oh_hop h)" None] parse fits Nil by (simp add: hdr hop_result_def)
    qed (simp add: Nil)
  next
    case (Cons h' hs')
    with es obtain e' es' where e': "es = e' # es'" by (cases es) auto
    let ?hdr' = "v0AD @ e' @ (ri' @ ?pad) @ mac'"
    have lm: "length mac' = 32" using mac' Cons by simp
    show thesis
    proof (rule that)
      show "unwrapKem p K g (oh_sk h) (hdr @ body) =
       hop_result g (oh_hop h) (map oh_hop hs) ?tag hdr body mac' ?hdr' body'"
        using run [of "hop_Commands (oh_hop h) @ [NextNodeHop (hop_ID (oh_hop h')) mac']"
            "Some (NextNodeHop (hop_ID (oh_hop h')) mac')"] parse fits Cons lm by (simp add: hdr e' hop_result_def)
      have "length ?hdr' = length hdr"
        using lm lrp lrp' mac p le le' e' by (simp add: hdr)
      moreover have "kem_layered p K g hs ?hdr'"
        unfolding kem_layered_def using p geo fits i ri0 chain' rest lpad e'
        by (intro conjI exI [of _ "Suc i"] exI [of _ ?pad] exI [of _ ri0] exI [of _ e'] exI [of _ es']
            exI [of _ mac'] exI [of _ ri']) auto
      ultimately show "length ?hdr' = length hdr \<and> kem_layered p K g hs ?hdr'" ..
    qed
  qed
qed

text \<open>The KEM format meets the contract of the hops.\<close>

interpretation kem_onion: onion "unwrapKem p K g" p g "kem_layered p K g" for p K g
proof unfold_locales
  fix hs :: "('a, 'c, 'b, 'a) onion_hop list" and hdr
  assume l: "kem_layered p K g hs hdr"
  then show "prims_ok p" by (simp add: kem_layered_def)
  fix h assume "h \<in> set hs"
  with l show "hop_commands_wf (hop_Commands (oh_hop h))"
    using path_fits_commands [of _ "map oh_hop hs" "oh_hop h"] by (auto simp: kem_layered_def)
next
  fix h h' :: "('a, 'c, 'b, 'a) onion_hop" and hs hdr body body'
  assume "kem_layered p K g (h # h' # hs) hdr" "body \<noteq> []"
    "SPRPDecrypt p (PayloadEncryption (oh_keys h)) (HeaderEncryptionIV (oh_keys h)) body = Some body'"
  then obtain tag mac' hdr' where
    "unwrapKem p K g (oh_sk h) (hdr @ body) =
       Ok (None, tag, hop_Commands (oh_hop h) @ [NextNodeHop (hop_ID (oh_hop h')) mac'], hdr' @ body')"
    "length hdr' = length hdr" "kem_layered p K g (h' # hs) hdr'"
    by (rule kem_layered_unwrap) (simp add: hop_result_def)
  then show "\<exists>tag mac hdr'.
      unwrapKem p K g (oh_sk h) (hdr @ body) =
        Ok (None, tag, hop_Commands (oh_hop h) @ [NextNodeHop (hop_ID (oh_hop h')) mac], hdr' @ body') \<and>
      length hdr' = length hdr \<and> kem_layered p K g (h' # hs) hdr'"
    by blast
next
  fix h :: "('a, 'c, 'b, 'a) onion_hop" and hdr body body' pl
  assume l: "kem_layered p K g [h] hdr" "body \<noteq> []"
    "SPRPDecrypt p (PayloadEncryption (oh_keys h)) (HeaderEncryptionIV (oh_keys h)) body = Some body'"
    and t: "terminal_payload g (find is_SURBReply (hop_Commands (oh_hop h))) body' = Ok pl"
  from l obtain tag where
    "unwrapKem p K g (oh_sk h) (hdr @ body) =
       obind (with_tag (Some tag) (terminal_payload g (find is_SURBReply (hop_Commands (oh_hop h))) body')) (\<lambda>pl.
         Ok (Some pl, tag, hop_Commands (oh_hop h), hdr @ body))"
    by (rule kem_layered_unwrap) (simp add: hop_result_def)
  with t show "\<exists>tag. unwrapKem p K g (oh_sk h) (hdr @ body) = Ok (Some pl, tag, hop_Commands (oh_hop h), hdr @ body)"
    by simp
qed

section \<open>Packets\<close>

definition kem_path :: "('sk, 'pk) kem_scheme \<Rightarrow> Geometry \<Rightarrow> 'sk list \<Rightarrow> ('npk, 'pk) PathHop list \<Rightarrow> bool" where
  "kem_path K g sks path \<longleftrightarrow>
     path \<noteq> [] \<and> length path \<le> NrHops g \<and>
     list_all2 (\<lambda>sk h. hop_KEMPublicKey h = Some (kem_PublicKey K sk)) sks path \<and>
     path_fits (PerHopRoutingInfoLength g - kem_CiphertextSize K) path"

lemma kem_keys_ok:
  fixes K :: "('sk, 'pk) kem_scheme"
  assumes p: "prims_ok p" and K: "kem_ok K"
    and "list_all2 (\<lambda>sk h. hop_KEMPublicKey h = Some (kem_PublicKey K sk)) sks hops"
  shows "\<exists>es ks. kem_keys p K seed i hops = (Ok (es, ks) :: ('e, _) outcome) \<and> length ks = length hops \<and>
     list_all keys_wf ks \<and> kem_chain p K es (zip sks (zip hops ks))"
  using assms(3)
proof (induction sks hops arbitrary: i rule: list_all2_induct)
  case Nil
  then show ?case by (simp add: kem_chain_def)
next
  case (Cons sk sks h hops)
  obtain e ss where e: "kem_Encapsulate K (kem_PublicKey K sk) (seed i) = Some (e, ss)"
    "length e = kem_CiphertextSize K" "kem_Decapsulate K sk e = Some ss"
    using K unfolding kem_ok_def by blast
  obtain k where k: "KDF p ss (None :: ('sk, 'pk) nike_scheme option) = Some k" "keys_wf k"
    by (rule KDF_None_ok [OF p])
  obtain es ks where "kem_keys p K seed (Suc i) hops = (Ok (es, ks) :: ('e, _) outcome)" "length ks = length hops"
    "list_all keys_wf ks" "kem_chain p K es (zip sks (zip hops ks))"
    using Cons.IH by blast
  with Cons.hyps(1) e k show ?case
    by (intro exI [of _ "e # es"] exI [of _ "k # ks"]) (simp add: kem_chain_def)
qed

lemma createKEMHeader_ok:
  assumes p: "prims_ok p" and K: "kem_ok K" and geo: "geo_consistent g (kem_CiphertextSize K) (kem_CiphertextSize K)"
    and path: "kem_path K g sks path" and rnd: "rnd_ok rnd"
  obtains hdr keys where
    "createKEMHeader p K g seed rnd path = Ok (hdr, map sprp_of_keys keys)"
    "length hdr = HeaderLength g" "list_all keys_wf keys" "length keys = length path"
    "kem_layered p K g (zip sks (zip path keys)) hdr"
proof -
  let ?P = "PerHopRoutingInfoLength g" and ?ct = "kem_CiphertextSize K"
  have ne: "path \<noteq> []" and len: "length path \<le> NrHops g" "length sks = length path" and fits: "path_fits (?P - ?ct) path"
    and pubs: "list_all2 (\<lambda>sk h. hop_KEMPublicKey h = Some (kem_PublicKey K sk)) sks path"
    using path by (auto simp: kem_path_def dest: list_all2_lengthD)
  obtain es keys where ks: "kem_keys p K seed 0 path = (Ok (es, keys) :: (sphinx_error, _) outcome)"
    "length keys = length path" "list_all keys_wf keys" and chain: "kem_chain p K es (zip sks (zip path keys))"
    using kem_keys_ok [OF p K pubs] by blast
  let ?hs = "zip sks (zip path keys)"
  have hops: "map oh_hop ?hs = path" "length ?hs = length path"
    using ks(2) len(2) onion_hops_zip [of sks path keys] by simp_all
  note es = kem_chain_sizes [OF chain]
  then obtain e es' where e: "es = e # es'" using hops ne by (cases es) auto
  have le: "length e = ?ct" using es(2) e by simp
  have R: "RoutingInfoLength g = ?P * NrHops g" using geo by (simp add: geo_consistent_def)
  have streams: "ri_streams p g 0 [] keys = (Ok (layer_streams p g 0 [] keys) :: (sphinx_error, _) outcome)"
    using ks(2) len by (intro ri_streams_eq [OF p R]) simp_all
  obtain ri0 where ri0: "skipped_ri g rnd (length path) = Some ri0" "length ri0 = (NrHops g - length path) * ?P"
    by (rule skipped_ri_ok [OF rnd len(1)])
  have "\<exists>mac ri. kem_ri_build p K g ri0 (Some []) (kem_layers p g 0 [] es ?hs) = Ok (mac, ri) \<and>
     length ri = RoutingInfoLength g - 0 * ?P \<and> (?hs \<noteq> [] \<longrightarrow> length mac = 32)"
    by (rule kem_ri_build_ok [OF p geo _ es]) (use fits len ri0 hops in simp_all)
  then obtain mac ri where build: "kem_ri_build p K g ri0 (Some []) (kem_layers p g 0 [] es ?hs) = Ok (mac, ri)"
    and lri: "length ri = RoutingInfoLength g" and lm: "length mac = 32"
    using ne hops by fastforce
  let ?hdr = "v0AD @ e @ ri @ mac"
  have lay: "kem_layered p K g ?hs ?hdr"
    unfolding kem_layered_def using p geo fits len ri0 hops build chain e
    by (intro conjI exI [of _ "0::nat"] exI [of _ "[]"] exI [of _ ri0] exI [of _ e] exI [of _ es'] exI [of _ mac] exI [of _ ri])
      simp_all
  have lh: "length ?hdr = HeaderLength g" using lri lm le geo by (simp add: geo_consistent_def)
  have "zip path (zip keys (zip es (layer_streams p g 0 [] keys))) = kem_layers p g 0 [] es ?hs"
    using ks(2) len(2) es(1) hops(2) by (intro kem_layers_zip) simp_all
  then have "createKEMHeader p K g seed rnd path = Ok (?hdr, map sprp_of_keys keys)"
    using len ks(1) streams ri0 build e
    unfolding createKEMHeader_def kem_ri_build_first by (simp del: zip_Cons_Cons kem_layers.simps)
  from that [OF this lh ks(3,2) lay] show thesis .
qed

lemma newKEMPacket_eq:
  assumes "prims_ok p" and "geo_consistent g e ct" and "length payload = ForwardPayloadLength g"
    and "createKEMHeader p K g seed rnd path = Ok (hdr, ks)"
  shows "newKEMPacket p K g seed rnd path payload = Ok (hdr @ encrypt_payload p ks (zeros 32 @ payload))"
proof -
  have "slice (zeros (PerHopRoutingInfoLength g)) 0 (PayloadTagLength g) = (Ok (zeros 32) :: (sphinx_error, bytes) outcome)"
    using assms(2) by (simp add: geo_consistent_def slice_def)
  then show ?thesis
    using assms copy_range_suffix [of "length hdr" hdr _ "zeros 32 @ payload", OF refl refl,
        of "encrypt_payload p ks (zeros 32 @ payload)"]
    by (simp add: newKEMPacket_def Let_def)
qed

text \<open>
  C2. A packet that \<open>newKEMPacket\<close> builds for hops whose commands fit in front of the ciphertext has the
  length of the geometry, and the hops of its path, each calling \<open>unwrapKem\<close> with its own private key
  on the buffer the previous hop left, all succeed: each intermediate hop learns its own commands and
  the identity of the next hop, and the last one its commands and the payload.
\<close>

theorem newKEMPacket_delivers:
  assumes "prims_ok p" and "kem_ok K" and "rnd_ok rnd"
    and "KEMGeometryFromUserForwardPayloadLength K u withSURB n = (Ok g :: (geo_error, Geometry) outcome)"
    and "kem_path K g sks path" and "find is_SURBReply (hop_Commands (last path)) = None"
    and "length payload = ForwardPayloadLength g"
  shows "\<exists>pkt rs. newKEMPacket p K g seed rnd path payload = Ok pkt \<and> length pkt = PacketLength g \<and>
     route (unwrapKem p K g) sks pkt = Ok rs \<and> map hop_view rs = intended_views path payload"
proof -
  have geo: "geo_consistent g (kem_CiphertextSize K) (kem_CiphertextSize K)" by (rule kem_geometry_consistent [OF assms(4)])
  obtain hdr keys where hdr: "createKEMHeader p K g seed rnd path = Ok (hdr, map sprp_of_keys keys)"
    and lh: "length hdr = HeaderLength g" and wf: "list_all keys_wf keys" and lk: "length keys = length path"
    and lay: "kem_layered p K g (zip sks (zip path keys)) hdr"
    by (rule createKEMHeader_ok [OF assms(1,2) geo assms(5,3)])
  let ?body = "encrypt_payload p (map sprp_of_keys keys) (zeros 32 @ payload)"
  have ls: "length sks = length path" and ne: "path \<noteq> []" using assms(5) by (auto simp: kem_path_def dest: list_all2_lengthD)
  have "PayloadTagLength g = 32" using geo by (simp add: geo_consistent_def)
  from kem_onion.delivered_forward [OF lay ls lk ne wf this assms(6)]
  have "\<exists>rs. route (unwrapKem p K g) sks (hdr @ ?body) = Ok rs \<and> map hop_view rs = intended_views path payload" .
  moreover have "length (hdr @ ?body) = PacketLength g" using lh assms(1,7) geo by (simp add: geo_consistent_def)
  ultimately show ?thesis using newKEMPacket_eq [OF assms(1) geo assms(7) hdr] by blast
qed

definition toy_kem_geometry :: Geometry where
  "toy_kem_geometry =
     \<lparr>PacketLength = 348, NrHops = 3, HeaderLength = 284, RoutingInfoLength = 249, PerHopRoutingInfoLength = 83,
      SURBLength = 380, SphinxPlaintextHeaderLength = 2, PayloadTagLength = 32, ForwardPayloadLength = 32,
      UserForwardPayloadLength = 32, NextNodeHopLength = 65, SPRPKeyMaterialLength = 64,
      NIKEName = [], KEMName = ''toy''\<rparr>"

lemma toy_kem_geometry_factory:
  "KEMGeometryFromUserForwardPayloadLength toy_kem 32 False 3 = (Ok toy_kem_geometry :: ('e, Geometry) outcome)"
  by (simp add: kem_geometry toy_kem_geometry_def)

lemma toy_kem_path: "kem_path toy_kem toy_kem_geometry [3, 5] toy_path"
  by (simp add: kem_path_def toy_path_def toy_kem_geometry_def hop_commands_wf_def)

theorem newKEMPacket_delivers_witness:
  "\<exists>pkt rs. newKEMPacket toy_prims toy_kem toy_kem_geometry (\<lambda>i. [of_nat i]) (\<lambda>n. Some (zeros n)) toy_path (replicate 32 42) = Ok pkt \<and>
     length pkt = 348 \<and> route (unwrapKem toy_prims toy_kem toy_kem_geometry) [3, 5] pkt = Ok rs \<and>
     map hop_view rs = [(None, [NodeDelay 7], [replicate 32 2]), (Some (replicate 32 42), [Recipient (replicate 32 9)], [])]"
  using newKEMPacket_delivers [OF toy_prims_ok toy_kem_ok toy_rnd_ok toy_kem_geometry_factory toy_kem_path,
      of "replicate 32 42" "\<lambda>i. [of_nat i]"]
  by (simp add: toy_path_def) (simp add: toy_kem_geometry_def)

end
