(* ===== verification/Sphinx_SURB.thy ===== *)
theory Sphinx_SURB
  imports Sphinx_KEM
begin

text \<open>
  \<open>src/core/sphinx/surb.go\<close> and the SURB part of \<open>kemsphinx.go\<close>: single use reply blocks. A SURB is a
  header, the identity of its first hop and an SPRP key for the replier; its creator keeps the hops'
  SPRP keys in reverse order. The lemmas show that the creator recovers what the replier sent.
\<close>

section \<open>Operations\<close>

definition sprpKeyMaterialLength :: nat where
  "sprpKeyMaterialLength = SPRPKeyLength + SPRPIVLength"

lemma sprpKeyMaterialLength_eq [simp]: "sprpKeyMaterialLength = 64"
  by (simp add: sprpKeyMaterialLength_def)

text \<open>The two blobs that both \<open>newNikeSURB\<close> and \<open>newKemSURB\<close> assemble: the SURB and the creator's keys.\<close>

definition surb_blobs ::
  "bytes \<Rightarrow> bytes \<Rightarrow> sprpKey list \<Rightarrow> ('npk, 'kpk) PathHop list \<Rightarrow> ('e, bytes \<times> bytes) outcome" where
  "surb_blobs keyPayload hdr sprpKeys path =
     (let k = concat (map (\<lambda>v. sprp_key v @ sprp_iv v) (rev sprpKeys)) @ keyPayload
      in case path of
           [] \<Rightarrow> Panic
         | hop0 # _ \<Rightarrow> Ok (hdr @ hop_ID hop0 @ keyPayload, k))"

definition newNikeSURB ::
  "prims \<Rightarrow> ('sk, 'pk) nike_scheme \<Rightarrow> Geometry \<Rightarrow> bytes option \<Rightarrow> ('pk \<times> 'sk) option \<Rightarrow> (nat \<Rightarrow> bytes option)
     \<Rightarrow> ('pk, 'kpk) PathHop list \<Rightarrow> (sphinx_error, bytes \<times> bytes) outcome" where
  "newNikeSURB p N g keyPayload keypair rnd path =
     (case keyPayload of
        None \<Rightarrow> Err errEntropy
      | Some kp \<Rightarrow>
          obind (createHeader p N g keypair rnd path) (\<lambda>(hdr, sprpKeys).
          surb_blobs kp hdr sprpKeys path))"

definition newKemSURB ::
  "prims \<Rightarrow> ('sk, 'pk) kem_scheme \<Rightarrow> Geometry \<Rightarrow> bytes option \<Rightarrow> (nat \<Rightarrow> bytes) \<Rightarrow> (nat \<Rightarrow> bytes option)
     \<Rightarrow> ('npk, 'pk) PathHop list \<Rightarrow> (sphinx_error, bytes \<times> bytes) outcome" where
  "newKemSURB p K g keyPayload seed rnd path =
     (case keyPayload of
        None \<Rightarrow> Err errEntropy
      | Some kp \<Rightarrow>
          obind (createKEMHeader p K g seed rnd path) (\<lambda>(hdr, sprpKeys).
          surb_blobs kp hdr sprpKeys path))"

definition NewPacketFromSURB ::
  "prims \<Rightarrow> Geometry \<Rightarrow> bytes \<Rightarrow> bytes \<Rightarrow> (sphinx_error, bytes \<times> bytes) outcome" where
  "NewPacketFromSURB p g surb payload =
     (let idOff = HeaderLength g;
          keyOff = idOff + NodeIDLength;
          ivOff = keyOff + SPRPKeyLength
      in if length surb \<noteq> SURBLength g then Err errTruncatedSURB
         else
      obind (slice surb 0 (HeaderLength g)) (\<lambda>hdr.
      obind (slice surb idOff keyOff) (\<lambda>rawID.
      obind (slice surb keyOff ivOff) (\<lambda>rawKey.
      obind (slice_from surb ivOff) (\<lambda>rawIV.
      let nodeID = go_copy (zeros NodeIDLength) rawID;
          sprpKey = go_copy (zeros SPRPKeyLength) rawKey;
          sprpIV = go_copy (zeros SPRPIVLength) rawIV
      in
      obind (slice (zeros (PerHopRoutingInfoLength g)) 0 (PayloadTagLength g)) (\<lambda>tag.
      let pkt = hdr @ tag @ payload;
          b = SPRPEncrypt p sprpKey sprpIV (drop (length hdr) pkt)
      in
      obind (copy_range pkt (length hdr) (length pkt) b) (\<lambda>pkt'.
      Ok (pkt', nodeID))))))))"

text \<open>The loop of \<open>DecryptSURBPayload\<close>: \<open>k\<close> is the remaining key blob and \<open>n\<close> the remaining rounds.\<close>

fun surb_layers :: "prims \<Rightarrow> bytes \<Rightarrow> nat \<Rightarrow> bytes \<Rightarrow> bytes option" where
  "surb_layers p k 0 b = Some b"
| "surb_layers p k (Suc n) b =
     (let sprpKey = go_copy (zeros SPRPKeyLength) (take SPRPKeyLength k);
          sprpIV = go_copy (zeros SPRPIVLength) (drop SPRPKeyLength k);
          k' = drop sprpKeyMaterialLength k
      in if n = 0 then Option.bind (SPRPDecrypt p sprpKey sprpIV b) (surb_layers p k' n)
         else surb_layers p k' n (SPRPEncrypt p sprpKey sprpIV b))"

text \<open>The result, and the key blob as the call leaves it: obliterated on every path.\<close>

definition DecryptSURBPayload ::
  "prims \<Rightarrow> Geometry \<Rightarrow> bytes \<Rightarrow> bytes \<Rightarrow> (sphinx_error, bytes) outcome \<times> bytes" where
  "DecryptSURBPayload p g payload keys =
     (let nrHops = length keys div sprpKeyMaterialLength
      in if length keys mod sprpKeyMaterialLength \<noteq> 0 \<or> nrHops < 1 then Err errInvalidSURBKeys
         else if length payload < PayloadTagLength g then Err errTruncatedPayload
         else
           obind (of_option (surb_layers p keys nrHops payload)) (\<lambda>b.
           obind (slice b 0 (PayloadTagLength g)) (\<lambda>tag.
           if \<not> CtIsZero tag then Err errInvalidTag else slice_from b (PayloadTagLength g))),
      ExplicitBzero keys)"

section \<open>The creator undoes what the hops did\<close>

lemma surb_layers_blob:
  assumes "list_all (\<lambda>v. length (sprp_key v) = 48 \<and> length (sprp_iv v) = 16) vs" and "length kp = 64"
  shows "surb_layers p (concat (map (\<lambda>v. sprp_key v @ sprp_iv v) vs) @ kp) (Suc (length vs)) b =
     SPRPDecrypt p (take 48 kp) (drop 48 kp) (fold (\<lambda>v. SPRPEncrypt p (sprp_key v) (sprp_iv v)) vs b)"
  using assms(1)
proof (induction vs arbitrary: b)
  case Nil
  then show ?case using assms(2) by (simp add: go_copy_same_length bind_eq_None_conv split: option.split Option.bind_split)
next
  case (Cons v vs)
  have "take 48 (sprp_key v @ sprp_iv v @ t) = sprp_key v" "go_copy (zeros 16) (drop 48 (sprp_key v @ sprp_iv v @ t)) = sprp_iv v"
    "drop 64 (sprp_key v @ sprp_iv v @ t) = t" for t
    using Cons.prems by (simp_all add: go_copy_def)
  with Cons show ?case by (simp add: go_copy_same_length)
qed

lemma blob_length:
  "list_all (\<lambda>v. length (sprp_key v) = 48 \<and> length (sprp_iv v) = 16) vs \<Longrightarrow>
     length (concat (map (\<lambda>v. sprp_key v @ sprp_iv v) vs)) = 64 * length vs"
  by (induction vs) simp_all

lemma sprp_of_keys_lengths: "list_all (\<lambda>v. length (sprp_key v) = 48 \<and> length (sprp_iv v) = 16) (map sprp_of_keys ks)"
  by (induction ks) (simp_all add: sprp_of_keys_def)

lemma DecryptSURBPayload_blob:
  assumes p: "prims_ok p" and kp: "length kp = 64" and g: "PayloadTagLength g = 32"
    and m: "encrypt_payload p (map sprp_of_keys ks) m = SPRPEncrypt p (take 48 kp) (drop 48 kp) (zeros 32 @ payload)"
    and k: "k = concat (map (\<lambda>v. sprp_key v @ sprp_iv v) (rev (map sprp_of_keys ks))) @ kp"
  shows "DecryptSURBPayload p g m k = (Ok payload, zeros (length k))"
proof -
  let ?vs = "rev (map sprp_of_keys ks)"
  have vs: "list_all (\<lambda>v. length (sprp_key v) = 48 \<and> length (sprp_iv v) = 16) ?vs"
    using sprp_of_keys_lengths [of ks] by (simp add: list_all_iff)
  have lk: "length k div 64 = Suc (length ?vs)" "length k mod 64 = 0" using kp k blob_length [OF vs] by simp_all
  have "length m = 32 + length payload"
    using arg_cong [OF m, of length] p by simp
  moreover have "surb_layers p k (Suc (length ?vs)) m = Some (zeros 32 @ payload)"
    unfolding k surb_layers_blob [OF vs kp] using m p by (simp add: encrypt_payload_def foldr_conv_fold)
  ultimately show ?thesis
    using lk g by (simp add: DecryptSURBPayload_def slice_def ExplicitBzero_zeros)
qed

lemma NewPacketFromSURB_eq:
  assumes "prims_ok p" and "geo_consistent g e ct" and "length hdr = HeaderLength g" and "length i = 32" and "length kp = 64"
  shows "NewPacketFromSURB p g (hdr @ i @ kp) payload =
     Ok (hdr @ SPRPEncrypt p (take 48 kp) (drop 48 kp) (zeros 32 @ payload), i)"
proof -
  let ?H = "HeaderLength g"
  have "slice (hdr @ i @ kp) 0 ?H = (Ok hdr :: (sphinx_error, bytes) outcome)"
    "slice (hdr @ i @ kp) ?H (?H + NodeIDLength) = (Ok i :: (sphinx_error, bytes) outcome)"
    "slice (hdr @ i @ kp) (?H + NodeIDLength) (?H + NodeIDLength + SPRPKeyLength) =
       (Ok (take 48 kp) :: (sphinx_error, bytes) outcome)"
    "slice_from (hdr @ i @ kp) (?H + NodeIDLength + SPRPKeyLength) = (Ok (drop 48 kp) :: (sphinx_error, bytes) outcome)"
    "slice (zeros (PerHopRoutingInfoLength g)) 0 (PayloadTagLength g) = (Ok (zeros 32) :: (sphinx_error, bytes) outcome)"
    using assms(2-5) by (simp_all add: slice_def geo_consistent_def)
  moreover have "go_copy (zeros NodeIDLength) i = i" "go_copy (zeros SPRPKeyLength) (take 48 kp) = take 48 kp"
    "go_copy (zeros SPRPIVLength) (drop 48 kp) = drop 48 kp"
    using assms(4,5) by (simp_all add: go_copy_same_length)
  moreover have "length (hdr @ i @ kp) = SURBLength g" using assms(2-5) by (simp add: geo_consistent_def)
  moreover have "copy_range (hdr @ zeros 32 @ payload) (length hdr) (length (hdr @ zeros 32 @ payload))
      (SPRPEncrypt p (take 48 kp) (drop 48 kp) (zeros 32 @ payload)) =
      (Ok (hdr @ SPRPEncrypt p (take 48 kp) (drop 48 kp) (zeros 32 @ payload)) :: (sphinx_error, bytes) outcome)"
    using assms(1) by (intro copy_range_suffix) simp_all
  ultimately show ?thesis
    by (simp add: NewPacketFromSURB_def Let_def del: sphinx_consts)
qed

section \<open>Reply round trips\<close>

text \<open>
  What a SURB achieves with hops that unwrap with \<open>unwrap\<close>: it has the length of the geometry, a reply
  packet made from it goes to the first hop of the path, every hop learns what was intended for it, and
  the creator decrypts what the last hop delivers to the reply.
\<close>

definition surb_round_trip ::
  "prims \<Rightarrow> Geometry \<Rightarrow> ('sk \<Rightarrow> bytes \<Rightarrow> unwrap) \<Rightarrow> 'sk list \<Rightarrow> ('npk, 'kpk) PathHop list
     \<Rightarrow> (sphinx_error, bytes \<times> bytes) outcome \<Rightarrow> bytes \<Rightarrow> bool" where
  "surb_round_trip p g unwrap sks path newSURB payload \<longleftrightarrow>
     (\<exists>surb keys pkt rs delivered.
        newSURB = Ok (surb, keys) \<and> length surb = SURBLength g \<and>
        NewPacketFromSURB p g surb payload = Ok (pkt, hop_ID (hd path)) \<and>
        length pkt = HeaderLength g + PayloadTagLength g + length payload \<and>
        route unwrap sks pkt = Ok rs \<and> map hop_view rs = intended_views path delivered \<and>
        DecryptSURBPayload p g delivered keys = (Ok payload, zeros (length keys)))"

context onion
begin

lemma surb_returns:
  assumes "layered (zip sks (zip path keys)) hdr" and "length sks = length path" and "length keys = length path"
    and "path \<noteq> []" and "list_all keys_wf keys" and geo: "geo_consistent g e ct"
    and "find is_SURBReply (hop_Commands (last path)) \<noteq> None"
    and hdr: "length hdr = HeaderLength g" and i: "length (hop_ID (hd path)) = 32" and kp: "length kp = 64"
    and new: "newSURB = surb_blobs kp hdr (map sprp_of_keys keys) path"
  shows "surb_round_trip p g unwrap sks path newSURB payload"
proof -
  have p: "prims_ok p" by (rule prims [OF assms(1)])
  have tag: "PayloadTagLength g = 32" and sl: "SURBLength g = HeaderLength g + 32 + 64"
    using geo by (simp_all add: geo_consistent_def)
  let ?body = "SPRPEncrypt p (take 48 kp) (drop 48 kp) (zeros 32 @ payload)"
  let ?surb = "hdr @ hop_ID (hd path) @ kp"
  let ?k = "concat (map (\<lambda>v. sprp_key v @ sprp_iv v) (rev (map sprp_of_keys keys))) @ kp"
  have "newSURB = Ok (?surb, ?k)" using assms(4) by (cases path) (simp_all add: new surb_blobs_def)
  moreover have "length ?surb = SURBLength g" using hdr i kp sl by simp
  moreover have "NewPacketFromSURB p g ?surb payload = Ok (hdr @ ?body, hop_ID (hd path))"
    by (rule NewPacketFromSURB_eq [OF p geo hdr i kp])
  moreover have "length (hdr @ ?body) = HeaderLength g + PayloadTagLength g + length payload" using hdr tag p by simp
  moreover obtain rs m where "route unwrap sks (hdr @ ?body) = Ok rs" "map hop_view rs = intended_views path m"
    and m: "encrypt_payload p (map sprp_of_keys keys) m = ?body"
    using delivered_reply [OF assms(1-5) tag assms(7), of ?body] p by auto
  moreover have "DecryptSURBPayload p g m ?k = (Ok payload, zeros (length ?k))"
    by (rule DecryptSURBPayload_blob [OF p kp tag m refl])
  ultimately show ?thesis unfolding surb_round_trip_def by blast
qed

end

text \<open>
  C3. A SURB of the NIKE format works: it has the length of the geometry, a reply of any length made from
  it with \<open>NewPacketFromSURB\<close> names the first hop and is unwrapped by every hop of the path, and
  \<open>DecryptSURBPayload\<close> turns what the last hop delivers into the reply and obliterates the keys.
\<close>

theorem nike_surb_round_trip:
  assumes "prims_ok p" and "nike_ok N" and "rnd_ok rnd"
    and "GeometryFromUserForwardPayloadLength N u withSURB n = (Ok g :: (geo_error, Geometry) outcome)"
    and "nike_path N g sks path" and "find is_SURBReply (hop_Commands (last path)) \<noteq> None" and "length kp = 64"
  shows "surb_round_trip p g (unwrapNike p N g) sks path
     (newNikeSURB p N g (Some kp) (Some (nike_DerivePublicKey N csk, csk)) rnd path) payload"
proof -
  have geo: "geo_consistent g (nike_PublicKeySize N) 0" by (rule nike_geometry_consistent [OF assms(4)])
  obtain hdr keys where hdr: "createHeader p N g (Some (nike_DerivePublicKey N csk, csk)) rnd path = Ok (hdr, map sprp_of_keys keys)"
    and lh: "length hdr = HeaderLength g" and wf: "list_all keys_wf keys" and lk: "length keys = length path"
    and lay: "nike_layered p N g (zip sks (zip path keys)) hdr"
    by (rule createHeader_ok [OF assms(1,2) geo assms(5,3)])
  have ls: "length sks = length path" and ne: "path \<noteq> []" and i: "length (hop_ID (hd path)) = 32"
    using assms(5) by (auto simp: nike_path_def neq_Nil_conv dest: list_all2_lengthD)
  show ?thesis
    by (rule nike_onion.surb_returns [OF lay ls lk ne wf geo assms(6) lh i assms(7)]) (simp add: newNikeSURB_def hdr)
qed

text \<open>
  C4. A SURB of the KEM format works in the same way.
\<close>

theorem kem_surb_round_trip:
  assumes "prims_ok p" and "kem_ok K" and "rnd_ok rnd"
    and "KEMGeometryFromUserForwardPayloadLength K u withSURB n = (Ok g :: (geo_error, Geometry) outcome)"
    and "kem_path K g sks path" and "find is_SURBReply (hop_Commands (last path)) \<noteq> None" and "length kp = 64"
  shows "surb_round_trip p g (unwrapKem p K g) sks path (newKemSURB p K g (Some kp) seed rnd path) payload"
proof -
  have geo: "geo_consistent g (kem_CiphertextSize K) (kem_CiphertextSize K)" by (rule kem_geometry_consistent [OF assms(4)])
  obtain hdr keys where hdr: "createKEMHeader p K g seed rnd path = Ok (hdr, map sprp_of_keys keys)"
    and lh: "length hdr = HeaderLength g" and wf: "list_all keys_wf keys" and lk: "length keys = length path"
    and lay: "kem_layered p K g (zip sks (zip path keys)) hdr"
    by (rule createKEMHeader_ok [OF assms(1,2) geo assms(5,3)])
  have ls: "length sks = length path" and ne: "path \<noteq> []" and i: "length (hop_ID (hd path)) = 32"
    using assms(5) by (auto simp: kem_path_def neq_Nil_conv dest: list_all2_lengthD)
  show ?thesis
    by (rule kem_onion.surb_returns [OF lay ls lk ne wf geo assms(6) lh i assms(7)]) (simp add: newKemSURB_def hdr)
qed

text \<open>A two-hop reply path for the toy schemes.\<close>

definition toy_reply_path :: "(byte, byte) PathHop list" where
  "toy_reply_path =
     [\<lparr>hop_ID = replicate 32 1, hop_NIKEPublicKey = Some 3, hop_KEMPublicKey = Some 3, hop_Commands = [NodeDelay 7]\<rparr>,
      \<lparr>hop_ID = replicate 32 2, hop_NIKEPublicKey = Some 5, hop_KEMPublicKey = Some 5,
       hop_Commands = [Recipient (replicate 32 9), SURBReply (replicate 16 4)]\<rparr>]"

lemma toy_reply_nike_path: "nike_path toy_nike toy_geometry [3, 5] toy_reply_path"
  by (simp add: nike_path_def toy_reply_path_def toy_geometry_def hop_commands_wf_def)

lemma toy_reply_kem_path: "kem_path toy_kem toy_kem_geometry [3, 5] toy_reply_path"
  by (simp add: kem_path_def toy_reply_path_def toy_kem_geometry_def hop_commands_wf_def)

theorem nike_surb_round_trip_witness:
  "surb_round_trip toy_prims toy_geometry (unwrapNike toy_prims toy_nike toy_geometry) [3, 5] toy_reply_path
     (newNikeSURB toy_prims toy_nike toy_geometry (Some (replicate 64 8)) (Some (7, 7)) (\<lambda>n. Some (zeros n)) toy_reply_path) [1, 2, 3]"
  using nike_surb_round_trip [OF toy_prims_ok toy_nike_ok toy_rnd_ok toy_geometry_factory toy_reply_nike_path, of "replicate 64 8" 7 "[1, 2, 3]"]
  by (simp add: toy_reply_path_def)

theorem kem_surb_round_trip_witness:
  "surb_round_trip toy_prims toy_kem_geometry (unwrapKem toy_prims toy_kem toy_kem_geometry) [3, 5] toy_reply_path
     (newKemSURB toy_prims toy_kem toy_kem_geometry (Some (replicate 64 8)) (\<lambda>i. [of_nat i]) (\<lambda>n. Some (zeros n)) toy_reply_path) [1, 2, 3]"
  using kem_surb_round_trip [OF toy_prims_ok toy_kem_ok toy_rnd_ok toy_kem_geometry_factory toy_reply_kem_path, of "replicate 64 8"
      "\<lambda>i. [of_nat i]" "[1, 2, 3]"]
  by (simp add: toy_reply_path_def)

end
