(* ===== verification/Sphinx_API.thy ===== *)
theory Sphinx_API
  imports Sphinx_SURB
begin

text \<open>
  \<open>src/core/sphinx/new_sphinx.go\<close> and the constructors of \<open>sphinx.go\<close>: the \<open>Sphinx\<close> object dispatches to
  the NIKE or the KEM format. The lemmas are about packets from anywhere: \<open>Unwrap\<close> never panics, keeps
  the length of the packet, and returns commands only for headers that carry the MAC of their keys.
\<close>

section \<open>The Sphinx object\<close>

record ('nsk, 'npk, 'ksk, 'kpk) Sphinx =
  s_nike :: "('nsk, 'npk) nike_scheme option"
  s_kem :: "('ksk, 'kpk) kem_scheme option"
  s_geometry :: Geometry

definition FromGeometry ::
  "(string \<Rightarrow> ('nsk, 'npk) nike_scheme option) \<Rightarrow> (string \<Rightarrow> ('ksk, 'kpk) kem_scheme option) \<Rightarrow> Geometry
     \<Rightarrow> (sphinx_error, ('nsk, 'npk, 'ksk, 'kpk) Sphinx) outcome" where
  "FromGeometry nikeByName kemByName g =
     (if NIKEName g \<noteq> [] then
        (case nikeByName (NIKEName g) of
           None \<Rightarrow> Err (errLookupNIKE (NIKEName g))
         | Some mynike \<Rightarrow> Ok \<lparr>s_nike = Some mynike, s_kem = None, s_geometry = g\<rparr>)
      else
        (case kemByName (KEMName g) of
           None \<Rightarrow> Err (errLookupKEM (KEMName g))
         | Some mykem \<Rightarrow> Ok \<lparr>s_nike = None, s_kem = Some mykem, s_geometry = g\<rparr>))"

definition NewNIKESphinx ::
  "('nsk, 'npk) nike_scheme option \<Rightarrow> Geometry \<Rightarrow> ('nsk, 'npk, 'ksk, 'kpk) Sphinx" where
  "NewNIKESphinx mynike g = \<lparr>s_nike = mynike, s_kem = None, s_geometry = g\<rparr>"

definition NewKEMSphinx ::
  "('ksk, 'kpk) kem_scheme option \<Rightarrow> Geometry \<Rightarrow> ('nsk, 'npk, 'ksk, 'kpk) Sphinx option" where
  "NewKEMSphinx k g =
     (case k of None \<Rightarrow> None | Some kem \<Rightarrow> Some \<lparr>s_nike = None, s_kem = Some kem, s_geometry = g\<rparr>)"

text \<open>\<open>None\<close> is the panic on an error of \<open>FromGeometry\<close>.\<close>

definition NewSphinx ::
  "(string \<Rightarrow> ('nsk, 'npk) nike_scheme option) \<Rightarrow> (string \<Rightarrow> ('ksk, 'kpk) kem_scheme option) \<Rightarrow> Geometry
     \<Rightarrow> ('nsk, 'npk, 'ksk, 'kpk) Sphinx option" where
  "NewSphinx nikeByName kemByName g =
     (case FromGeometry nikeByName kemByName g of Ok s \<Rightarrow> Some s | _ \<Rightarrow> None)"

text \<open>The entropy a call consumes: the NIKE key pair, the KEM seeds, and the skipped hops' bytes.\<close>

record ('nsk, 'npk) entropy =
  ent_keypair :: "('npk \<times> 'nsk) option"
  ent_seed :: "nat \<Rightarrow> bytes"
  ent_rnd :: "nat \<Rightarrow> bytes option"
  ent_keyPayload :: "bytes option"

text \<open>With neither scheme set, the KEM path panics once its first checks have passed.\<close>

definition NewPacket ::
  "prims \<Rightarrow> ('nsk, 'npk, 'ksk, 'kpk) Sphinx \<Rightarrow> ('nsk, 'npk) entropy \<Rightarrow> ('npk, 'kpk) PathHop list \<Rightarrow> bytes
     \<Rightarrow> (sphinx_error, bytes) outcome" where
  "NewPacket p s r path payload =
     (case s_nike s of
        None \<Rightarrow>
          (case s_kem s of
             None \<Rightarrow>
               if length payload \<noteq> ForwardPayloadLength (s_geometry s)
               then Err (errPayloadLength (length payload) (ForwardPayloadLength (s_geometry s)))
               else if length path > NrHops (s_geometry s) then Err errInvalidPath else Panic
           | Some K \<Rightarrow> newKEMPacket p K (s_geometry s) (ent_seed r) (ent_rnd r) path payload)
      | Some N \<Rightarrow>
          (case s_kem s of
             None \<Rightarrow> newNikePacket p N (s_geometry s) (ent_keypair r) (ent_rnd r) path payload
           | Some _ \<Rightarrow> Panic))"

datatype ('nsk, 'ksk) privKey = NikePrivate 'nsk | KemPrivate 'ksk

text \<open>A private key of the other scheme fails the type assertion.\<close>

definition Unwrap ::
  "prims \<Rightarrow> ('nsk, 'npk, 'ksk, 'kpk) Sphinx \<Rightarrow> ('nsk, 'ksk) privKey \<Rightarrow> bytes \<Rightarrow> unwrap" where
  "Unwrap p s privKey pkt =
     (case s_nike s of
        None \<Rightarrow>
          (case (s_kem s, privKey) of
             (Some K, KemPrivate sk) \<Rightarrow> unwrapKem p K (s_geometry s) sk pkt
           | _ \<Rightarrow> Panic)
      | Some N \<Rightarrow>
          (case (s_kem s, privKey) of
             (None, NikePrivate sk) \<Rightarrow> unwrapNike p N (s_geometry s) sk pkt
           | _ \<Rightarrow> Panic))"

definition NewSURB ::
  "prims \<Rightarrow> ('nsk, 'npk, 'ksk, 'kpk) Sphinx \<Rightarrow> ('nsk, 'npk) entropy \<Rightarrow> ('npk, 'kpk) PathHop list
     \<Rightarrow> (sphinx_error, bytes \<times> bytes) outcome" where
  "NewSURB p s r path =
     (case s_nike s of
        None \<Rightarrow>
          (case s_kem s of
             None \<Rightarrow>
               if ent_keyPayload r = None then Err errEntropy
               else if length path > NrHops (s_geometry s) then Err errInvalidPath else Panic
           | Some K \<Rightarrow> newKemSURB p K (s_geometry s) (ent_keyPayload r) (ent_seed r) (ent_rnd r) path)
      | Some N \<Rightarrow>
          (case s_kem s of
             None \<Rightarrow> newNikeSURB p N (s_geometry s) (ent_keyPayload r) (ent_keypair r) (ent_rnd r) path
           | Some _ \<Rightarrow> Panic))"

section \<open>Packets from anywhere\<close>

lemma copy_range_Ok:
  "i \<le> j \<Longrightarrow> j \<le> length dst \<Longrightarrow>
     copy_range dst i j src = Ok (take i dst @ go_copy (take (j - i) (drop i dst)) src @ drop j dst)"
  by (simp add: copy_range_def slice_def)

lemma parse_commands_no_panic:
  "NextNodeHopLength g = 65 \<Longrightarrow> parse_commands g b cmds nn sr \<noteq> Panic"
proof (induction g b cmds nn sr rule: parse_commands.induct)
  case (1 g b cmds nn sr)
  then show ?case
    using rc_FromBytes_no_panic [of g b]
    by (subst parse_commands.simps) (auto split: outcome.split option.split RoutingCommand.split prod.split)
qed

lemma terminal_payload_no_panic: "terminal_payload g sr b \<noteq> Panic"
  by (simp add: terminal_payload_def)

lemma with_tag_eq_Panic [simp]: "with_tag t r = Panic \<longleftrightarrow> r = Panic"
  by (cases r) simp_all

text \<open>\<open>keeps_length n r\<close>: the call did not panic, and if it succeeded the buffer has length \<open>n\<close>.\<close>

definition keeps_length :: "nat \<Rightarrow> unwrap \<Rightarrow> bool" where
  "keeps_length n r = (case r of Ok (_, _, _, pkt') \<Rightarrow> length pkt' = n | Err _ \<Rightarrow> True | Panic \<Rightarrow> False)"

lemma keeps_length_simps [simp]:
  "keeps_length n (Ok (pl, tag, cmds, pkt')) \<longleftrightarrow> length pkt' = n" "keeps_length n (Err e)" "\<not> keeps_length n Panic"
  by (simp_all add: keeps_length_def)

lemma keeps_length_bind:
  "m \<noteq> Panic \<Longrightarrow> (\<And>x. m = Ok x \<Longrightarrow> keeps_length n (f x)) \<Longrightarrow> keeps_length n (obind m f)"
  by (cases m) simp_all

lemma keeps_length_terminal:
  "length pkt = n \<Longrightarrow>
     keeps_length n (obind (with_tag t (terminal_payload g sr b)) (\<lambda>pl. Ok (Some pl, tag, cmds, pkt)))"
  by (rule keeps_length_bind) (simp_all add: terminal_payload_no_panic)

lemma unwrapNike_keeps_length:
  assumes p: "prims_ok p" and N: "nike_ok N" and geo: "geo_consistent g (nike_PublicKeySize N) 0"
  shows "keeps_length (length pkt) (unwrapNike p N g sk pkt)"
proof (cases "length pkt < HeaderLength g")
  case True
  then show ?thesis by (simp add: unwrapNike_def)
next
  case False
  let ?pk = "nike_PublicKeySize N" and ?R = "RoutingInfoLength g"
  have len: "2 + ?pk + ?R + 32 \<le> length pkt" and nnh: "NextNodeHopLength g = 65"
    using False geo by (simp_all add: geo_consistent_def)
  have kdf: "\<exists>k bf. KDF p ikm (Some N) = Some k \<and> BlindingFactor k = Some bf" for ikm
    using KDF_Some_ok [OF p N, of ikm] by metis
  have blind: "pk_Blind N P b = Some (nike_Blind N P b)" for P b using N by (simp add: nike_ok_def)
  have dec: "\<exists>m. SPRPDecrypt p k iv c = Some m" for k iv c using SPRPDecrypt_total [OF p] by metis
  have parse: "with_tag t (parse_commands g b [] None None) \<noteq> Panic" for t b using parse_commands_no_panic [OF nnh] by simp
  show ?thesis
  proof (cases "nike_UnmarshalBinaryPublicKey N (take ?pk (drop 2 pkt))")
    case None
    with False len show ?thesis by (simp add: unwrapNike_def slice_def Let_def)
  next
    case (Some ge)
    obtain k bf where k: "KDF p (nike_DeriveSecret N sk ge) (Some N) = Some k" "BlindingFactor k = Some bf"
      using kdf by blast
    obtain m where m: "SPRPDecrypt p (PayloadEncryption k) (HeaderEncryptionIV k) (drop (2 + ?pk + ?R + 32) pkt) = Some m"
      using dec by blast
    show ?thesis
      using False len Some k m blind
      by (auto simp: unwrapNike_def slice_def Let_def copy_range_Ok
          intro!: keeps_length_bind [OF parse] keeps_length_terminal split: option.split)
  qed
qed

lemma unwrapKem_keeps_length:
  assumes p: "prims_ok p" and geo: "geo_consistent g (kem_CiphertextSize K) (kem_CiphertextSize K)"
  shows "keeps_length (length pkt) (unwrapKem p K g sk pkt)"
proof (cases "length pkt < HeaderLength g")
  case True
  then show ?thesis by (simp add: unwrapKem_def)
next
  case False
  let ?ct = "kem_CiphertextSize K" and ?R = "RoutingInfoLength g"
  have len: "2 + ?ct + ?R + 32 \<le> length pkt" and nnh: "NextNodeHopLength g = 65"
    and ct: "?ct \<le> PerHopRoutingInfoLength g"
    using False geo by (simp_all add: geo_consistent_def)
  have parse: "with_tag t (parse_commands g b [] None None) \<noteq> Panic" for t b using parse_commands_no_panic [OF nnh] by simp
  show ?thesis
  proof (cases "kem_Decapsulate K sk (take ?ct (drop 2 pkt))")
    case None
    with False len show ?thesis by (simp add: unwrapKem_def slice_def Let_def)
  next
    case (Some ss)
    obtain k :: "'a PacketKeys" where k: "KDF p ss (None :: ('a, 'b) nike_scheme option) = Some k"
      using KDF_None_ok [OF p, of ss] by metis
    obtain m where m: "SPRPDecrypt p (PayloadEncryption k) (HeaderEncryptionIV k) (drop (2 + ?ct + ?R + 32) pkt) = Some m"
      using SPRPDecrypt_total [OF p] by metis
    have x: "length (XORKeyStream p a b c) = length c" for a b c using p by (simp add: XORKeyStream_def)
    show ?thesis
      using False len Some k m ct
      by (auto simp: unwrapKem_def slice_def Let_def x copy_range_Ok
          intro!: keeps_length_bind [OF parse] keeps_length_terminal split: option.split)
  qed
qed

text \<open>An object with one scheme, a geometry made for it, and a private key of that scheme.\<close>

definition sphinx_key_ok :: "('nsk, 'npk, 'ksk, 'kpk) Sphinx \<Rightarrow> ('nsk, 'ksk) privKey \<Rightarrow> bool" where
  "sphinx_key_ok s privKey =
     (case (s_nike s, s_kem s, privKey) of
        (Some N, None, NikePrivate sk) \<Rightarrow> nike_ok N \<and> geo_consistent (s_geometry s) (nike_PublicKeySize N) 0
      | (None, Some K, KemPrivate sk) \<Rightarrow>
          geo_consistent (s_geometry s) (kem_CiphertextSize K) (kem_CiphertextSize K)
      | _ \<Rightarrow> False)"

text \<open>
  C5. Whatever bytes arrive, \<open>Unwrap\<close> does not panic, and when it succeeds the buffer it leaves has the
  length of the packet it was given: a packet keeps its length from hop to hop.
\<close>

theorem Unwrap_never_panics:
  assumes "prims_ok p" and "sphinx_key_ok s privKey"
  shows "Unwrap p s privKey pkt \<noteq> Panic \<and>
     (\<forall>payload tag cmds pkt'. Unwrap p s privKey pkt = Ok (payload, tag, cmds, pkt') \<longrightarrow> length pkt' = length pkt)"
proof -
  have "keeps_length (length pkt) (Unwrap p s privKey pkt)"
    using assms unwrapNike_keeps_length unwrapKem_keeps_length
    by (auto simp: sphinx_key_ok_def Unwrap_def split: option.splits privKey.splits)
  then show ?thesis by auto
qed

theorem Unwrap_never_panics_witness:
  "Unwrap toy_prims (NewNIKESphinx (Some toy_nike) toy_geometry :: (byte, byte, byte, byte) Sphinx) (NikePrivate 3) [1, 2, 3] \<noteq> Panic"
proof -
  have "geo_consistent toy_geometry 1 0"
    using nike_geometry_consistent [OF toy_geometry_factory [where 'e = unit]] by simp
  then show ?thesis
    by (intro conjunct1 [OF Unwrap_never_panics [OF toy_prims_ok]])
      (simp add: sphinx_key_ok_def NewNIKESphinx_def toy_nike_ok)
qed

text \<open>
  C6. \<open>unwrapNike\<close> returns commands only for a header of version 0 whose MAC is the HMAC, under the key
  derived from the hop's private key and the packet's group element, of everything before it; the replay
  tag is the hash of that group element.
\<close>

theorem unwrapNike_authentic:
  assumes "unwrapNike p N g sk pkt = Ok (payload, tag, cmds, pkt')"
  shows "\<exists>ge k. let macOff = 2 + nike_PublicKeySize N + RoutingInfoLength g in
     take 2 pkt = v0AD \<and>
     nike_UnmarshalBinaryPublicKey N (take (nike_PublicKeySize N) (drop 2 pkt)) = Some ge \<and>
     KDF p (nike_DeriveSecret N sk ge) (Some N) = Some k \<and>
     take 32 (drop macOff pkt) = hmac_sha256 p (HeaderMAC k) (take macOff pkt) \<and>
     tag = sphinx_Hash p (pk_Bytes N ge)"
  using assms
  by (auto simp: unwrapNike_def Let_def obind_eq_Ok slice_eq_Ok mac_sum_def split: if_splits option.splits)

theorem unwrapNike_authentic_witness:
  "\<exists>pkt payload tag cmds pkt'. unwrapNike toy_prims toy_nike toy_geometry 3 pkt = Ok (payload, tag, cmds, pkt') \<and>
     (\<exists>ge k. let macOff = 2 + nike_PublicKeySize toy_nike + RoutingInfoLength toy_geometry in
       take 2 pkt = v0AD \<and>
       nike_UnmarshalBinaryPublicKey toy_nike (take (nike_PublicKeySize toy_nike) (drop 2 pkt)) = Some ge \<and>
       KDF toy_prims (nike_DeriveSecret toy_nike 3 ge) (Some toy_nike) = Some k \<and>
       take 32 (drop macOff pkt) = hmac_sha256 toy_prims (HeaderMAC k) (take macOff pkt) \<and>
       tag = sphinx_Hash toy_prims (pk_Bytes toy_nike ge))"
proof -
  let ?u = "unwrapNike toy_prims toy_nike toy_geometry"
  have geo: "geo_consistent toy_geometry (nike_PublicKeySize toy_nike) 0"
    by (rule nike_geometry_consistent [OF toy_geometry_factory [where 'e = unit]])
  obtain hdr keys where "nike_layered toy_prims toy_nike toy_geometry (zip [3, 5] (zip toy_path keys)) hdr"
    "length keys = length toy_path"
    by (rule createHeader_ok [OF toy_prims_ok toy_nike_ok geo toy_nike_path toy_rnd_ok])
  moreover from this obtain k k' where "keys = [k, k']" by (auto simp: toy_path_def length_Suc_conv)
  ultimately have lay: "nike_layered toy_prims toy_nike toy_geometry ((3, hd toy_path, k) # (5, last toy_path, k') # []) hdr"
    by (simp add: toy_path_def)
  obtain body where "SPRPDecrypt toy_prims (PayloadEncryption k) (HeaderEncryptionIV k) [1] = Some body"
    by (rule SPRPDecrypt_total [OF toy_prims_ok])
  with nike_onion.forward [OF lay, of "[1]" body] obtain payload tag cmds pkt' where
    u: "?u 3 (hdr @ [1]) = Ok (payload, tag, cmds, pkt')" by auto
  from u unwrapNike_authentic [OF u] show ?thesis by blast
qed

end
