(* ===== verification/Mix_Packet.thy ===== *)
theory Mix_Packet
  imports Sphinx_API
begin

text \<open>
  \<open>src/server/internal/packet/packet.go\<close>: a packet inside a mix server, from the link to the scheduler.
  Times and durations are integers in nanoseconds; a nil slice or pointer is \<open>None\<close>. The allocation pools
  only recycle memory and are left out; \<open>pktID\<close>, the global counter of \<open>New\<close>, is passed in and out.
\<close>

section \<open>Definitions\<close>

record Packet =
  pkt_Geometry :: Geometry
  pkt_Raw :: bytes
  pkt_Payload :: "bytes option"
  pkt_NextNodeHop :: "RoutingCommand option"
  pkt_NodeDelay :: "RoutingCommand option"
  pkt_Recipient :: "RoutingCommand option"
  pkt_SurbReply :: "RoutingCommand option"
  pkt_ID :: "64 word"
  pkt_Delay :: int
  pkt_RecvAt :: int
  pkt_DispatchAt :: int
  pkt_MustForward :: bool
  pkt_MustTerminate :: bool

datatype packet_error =
    errPacketSize nat
  | errRedundantCommand RoutingCommand
  | errPayloadSize nat
  | errTruncatedMessageBlock
  | errMessageReserved byte
  | errMessageFlags byte
  | errUserPayloadSize nat
  | errOversizedResponse nat
  | errSphinx sphinx_error

definition NewDelay :: "int \<Rightarrow> Packet \<Rightarrow> int" where
  "NewDelay now pkt = (let delay = pkt_Delay pkt - (now - pkt_RecvAt pkt) in if delay < 0 then 0 else delay)"

fun splitCommands :: "RoutingCommand list \<Rightarrow> Packet \<Rightarrow> (packet_error, Packet) outcome" where
  "splitCommands [] pkt = Ok pkt"
| "splitCommands (NextNodeHop i m # cmds) pkt =
    (if pkt_NextNodeHop pkt \<noteq> None then Err (errRedundantCommand (NextNodeHop i m))
     else splitCommands cmds (pkt\<lparr>pkt_NextNodeHop := Some (NextNodeHop i m)\<rparr>))"
| "splitCommands (NodeDelay d # cmds) pkt =
    (if pkt_NodeDelay pkt \<noteq> None then Err (errRedundantCommand (NodeDelay d))
     else splitCommands cmds (pkt\<lparr>pkt_NodeDelay := Some (NodeDelay d)\<rparr>))"
| "splitCommands (Recipient i # cmds) pkt =
    (if pkt_Recipient pkt \<noteq> None then Err (errRedundantCommand (Recipient i))
     else splitCommands cmds (pkt\<lparr>pkt_Recipient := Some (Recipient i)\<rparr>))"
| "splitCommands (SURBReply i # cmds) pkt =
    (if pkt_SurbReply pkt \<noteq> None then Err (errRedundantCommand (SURBReply i))
     else splitCommands cmds (pkt\<lparr>pkt_SurbReply := Some (SURBReply i)\<rparr>))"

definition Set :: "bytes option \<Rightarrow> RoutingCommand list \<Rightarrow> Packet \<Rightarrow> (packet_error, Packet) outcome" where
  "Set payload cmds pkt = splitCommands cmds (pkt\<lparr>pkt_Payload := payload\<rparr>)"

definition IsForward :: "Packet \<Rightarrow> bool" where
  "IsForward pkt = (pkt_NextNodeHop pkt \<noteq> None \<and> pkt_NodeDelay pkt \<noteq> None \<and>
     pkt_Recipient pkt = None \<and> pkt_SurbReply pkt = None)"

definition IsToUser :: "Packet \<Rightarrow> bool" where
  "IsToUser pkt = (pkt_NextNodeHop pkt = None \<and> pkt_NodeDelay pkt \<noteq> None \<and>
     pkt_Recipient pkt \<noteq> None \<and> pkt_SurbReply pkt = None)"

definition IsSURBReply :: "Packet \<Rightarrow> bool" where
  "IsSURBReply pkt = (pkt_NextNodeHop pkt = None \<and> pkt_NodeDelay pkt = None \<and>
     pkt_Recipient pkt \<noteq> None \<and> pkt_SurbReply pkt \<noteq> None)"

definition copyToRaw :: "bytes \<Rightarrow> Packet \<Rightarrow> (packet_error, Packet) outcome" where
  "copyToRaw b pkt =
    (if length b \<noteq> PacketLength (pkt_Geometry pkt) then Err (errPacketSize (length b))
     else Ok (pkt\<lparr>pkt_Raw := go_copy (zeros (PacketLength (pkt_Geometry pkt))) b\<rparr>))"

definition NewWithID :: "bytes \<Rightarrow> 64 word \<Rightarrow> Geometry \<Rightarrow> (packet_error, Packet) outcome" where
  "NewWithID raw i g =
    copyToRaw raw
      \<lparr>pkt_Geometry = g, pkt_Raw = [], pkt_Payload = None, pkt_NextNodeHop = None, pkt_NodeDelay = None,
       pkt_Recipient = None, pkt_SurbReply = None, pkt_ID = i, pkt_Delay = 0, pkt_RecvAt = 0, pkt_DispatchAt = 0,
       pkt_MustForward = False, pkt_MustTerminate = False\<rparr>"

definition packet_New :: "64 word \<Rightarrow> bytes \<Rightarrow> Geometry \<Rightarrow> (packet_error, Packet) outcome \<times> 64 word" where
  "packet_New pktID raw g = (NewWithID raw (pktID + 1) g, pktID + 1)"

definition disposeRaw :: "Packet \<Rightarrow> Packet" where
  "disposeRaw pkt = pkt\<lparr>pkt_Raw := []\<rparr>"

definition Dispose :: "Packet \<Rightarrow> Packet" where
  "Dispose pkt =
    (disposeRaw pkt)
      \<lparr>pkt_Payload := None, pkt_NextNodeHop := None, pkt_NodeDelay := None, pkt_Recipient := None,
       pkt_SurbReply := None, pkt_ID := 0, pkt_Delay := 0, pkt_RecvAt := 0, pkt_DispatchAt := 0,
       pkt_MustForward := False, pkt_MustTerminate := False\<rparr>"

text \<open>\<open>b[1]\<close> and \<open>b[0]\<close> panic on a payload of fewer than two bytes, which a header length below two admits.\<close>

definition ParseForwardPacket :: "Packet \<Rightarrow> (packet_error, bytes \<times> bytes option) outcome" where
  "ParseForwardPacket pkt =
    (let g = pkt_Geometry pkt;
         hdrLength = SphinxPlaintextHeaderLength g + SURBLength g;
         b = (case pkt_Payload pkt of None \<Rightarrow> [] | Some b \<Rightarrow> b)
     in if length b \<noteq> ForwardPayloadLength g then Err (errPayloadSize (length b))
        else if length b < hdrLength then Err errTruncatedMessageBlock
        else if length b < 2 then Panic
        else if b ! 1 \<noteq> 0 then Err (errMessageReserved (b ! 1))
        else
     obind (slice_from b hdrLength) (\<lambda>ct.
     obind (if b ! 0 = 0 then Ok None
            else if b ! 0 = 1 then obind (slice b (SphinxPlaintextHeaderLength g) hdrLength) (\<lambda>surb. Ok (Some surb))
            else Err (errMessageFlags (b ! 0))) (\<lambda>surb.
     if length ct \<noteq> UserForwardPayloadLength g then Err (errUserPayloadSize (length ct))
     else Ok (ct, surb))))"

text \<open>The reply packet of a service, made from the SURB of a request.\<close>

definition map_err :: "('e \<Rightarrow> 'f) \<Rightarrow> ('e, 'a) outcome \<Rightarrow> ('f, 'a) outcome" where
  "map_err f r = (case r of Ok x \<Rightarrow> Ok x | Err e \<Rightarrow> Err (f e) | Panic \<Rightarrow> Panic)"

definition packet_NewPacketFromSURB ::
  "prims \<Rightarrow> (string \<Rightarrow> ('nsk, 'npk) nike_scheme option) \<Rightarrow> (string \<Rightarrow> ('ksk, 'kpk) kem_scheme option)
     \<Rightarrow> 64 word \<Rightarrow> bytes \<Rightarrow> bytes \<Rightarrow> Geometry \<Rightarrow> (packet_error, Packet) outcome" where
  "packet_NewPacketFromSURB p nikeByName kemByName pktID surb payload g =
    (if length payload > ForwardPayloadLength g then Err (errOversizedResponse (length payload))
     else
       let respPayload = go_copy (zeros (ForwardPayloadLength g)) payload in
     obind (map_err errSphinx (FromGeometry nikeByName kemByName g)) (\<lambda>s.
     obind (map_err errSphinx (NewPacketFromSURB p (s_geometry s) surb respPayload)) (\<lambda>(rawRespPkt, firstHop).
     obind (fst (packet_New pktID rawRespPkt g)) (\<lambda>respPkt.
     obind (Set None [NextNodeHop (go_copy (zeros NodeIDLength) firstHop) (zeros MACLength), NodeDelay 0]
              (respPkt\<lparr>pkt_Geometry := g\<rparr>)) (\<lambda>respPkt'.
     Ok (respPkt'\<lparr>pkt_MustForward := True\<rparr>))))))"

section \<open>Lemmas\<close>

lemma map_err_eq_Ok [simp]: "map_err f r = Ok x \<longleftrightarrow> r = Ok x"
  by (cases r) (simp_all add: map_err_def)

text \<open>\<open>splitCommands\<close> succeeds on a fresh packet exactly when no kind of command occurs twice.\<close>

definition count_cmd :: "(RoutingCommand \<Rightarrow> bool) \<Rightarrow> RoutingCommand list \<Rightarrow> nat" where
  "count_cmd P cmds = length (filter P cmds)"

definition stored :: "RoutingCommand option \<Rightarrow> nat" where
  "stored c = (if c = None then 0 else 1)"

lemma splitCommands_ok_iff:
  "is_ok (splitCommands cmds pkt) \<longleftrightarrow>
     (count_cmd is_NextNodeHop cmds + stored (pkt_NextNodeHop pkt) \<le> 1 \<or> count_cmd is_NextNodeHop cmds = 0) \<and>
     (count_cmd is_NodeDelay cmds + stored (pkt_NodeDelay pkt) \<le> 1 \<or> count_cmd is_NodeDelay cmds = 0) \<and>
     (count_cmd is_Recipient cmds + stored (pkt_Recipient pkt) \<le> 1 \<or> count_cmd is_Recipient cmds = 0) \<and>
     (count_cmd is_SURBReply cmds + stored (pkt_SurbReply pkt) \<le> 1 \<or> count_cmd is_SURBReply cmds = 0)"
  by (induction cmds pkt rule: splitCommands.induct) (auto simp: is_ok_def count_cmd_def stored_def)

lemma splitCommands_frame:
  "splitCommands cmds pkt = Ok pkt' \<Longrightarrow>
     pkt_Geometry pkt' = pkt_Geometry pkt \<and> pkt_Raw pkt' = pkt_Raw pkt \<and> pkt_Payload pkt' = pkt_Payload pkt \<and>
     pkt_ID pkt' = pkt_ID pkt \<and> pkt_Delay pkt' = pkt_Delay pkt \<and> pkt_RecvAt pkt' = pkt_RecvAt pkt \<and>
     pkt_DispatchAt pkt' = pkt_DispatchAt pkt \<and> pkt_MustForward pkt' = pkt_MustForward pkt \<and>
     pkt_MustTerminate pkt' = pkt_MustTerminate pkt"
  by (induction cmds pkt rule: splitCommands.induct) (auto split: if_splits)

end
