(* ===== verification/Epoch_Time.thy ===== *)
theory Epoch_Time
  imports Go_Prelude
begin

text \<open>
  \<open>src/core/epochtime/time.go\<close>: the epochs in which keys and documents are valid. A \<open>time.Time\<close> is an
  integer, nanoseconds since the Unix epoch, and a \<open>time.Duration\<close> an \<open>int64\<close> number of nanoseconds:
  \<open>Time.Sub\<close> saturates and the products of durations wrap around. \<open>Period\<close> is a variable of the package
  (a build flag and the environment set it), here a parameter.
\<close>

section \<open>Durations\<close>

definition int64 :: "int \<Rightarrow> int" where
  "int64 x = sint (word_of_int x :: 64 word)"

definition time_Sub :: "int \<Rightarrow> int \<Rightarrow> int" where
  "time_Sub t u = max (- (2 ^ 63)) (min (2 ^ 63 - 1) (t - u))"

definition Duration_mul :: "int \<Rightarrow> int \<Rightarrow> int" where
  "Duration_mul d e = int64 (d * e)"

lemma int64_id: "- (2 ^ 63) \<le> x \<Longrightarrow> x < 2 ^ 63 \<Longrightarrow> int64 x = x"
  using sint_sbintrunc' [of x, where 'a = 64] signed_take_bit_int_eq_self [of 63 x] by (simp add: int64_def)

lemma int64_nonneg: "0 \<le> x \<Longrightarrow> x < 2 ^ 63 \<Longrightarrow> int64 x = x"
  by (rule int64_id) simp_all

lemma int64_range: "- (2 ^ 63) \<le> int64 x \<and> int64 x < 2 ^ 63"
  using sint_greater_eq [of "word_of_int x :: 64 word"] sint_less [of "word_of_int x :: 64 word"]
  by (simp add: int64_def)

lemma time_Sub_exact: "- (2 ^ 63) \<le> t - u \<Longrightarrow> t - u < 2 ^ 63 \<Longrightarrow> time_Sub t u = t - u"
  by (simp add: time_Sub_def)

section \<open>Definitions\<close>

definition second :: int where "second = 1000000000"
definition millisecond :: int where "millisecond = 1000000"
definition minute :: int where "minute = 60 * second"

text \<open>1 June 2017, 00:00 UTC.\<close>

definition Epoch :: int where
  "Epoch = 1496275200 * second"

definition default_Period :: int where
  "default_Period = 20 * minute"

definition WeekOfEpochs :: "int \<Rightarrow> 64 word" where
  "WeekOfEpochs Period = word_of_int (7 * 24 * 60 * minute div Period)"

text \<open>\<open>None\<close> is the panic for a time before the epoch. Go's division truncates; both operands are non-negative.\<close>

definition getEpoch :: "int \<Rightarrow> int \<Rightarrow> (64 word \<times> int \<times> int) option" where
  "getEpoch Period t =
    (let fromEpoch = time_Sub t Epoch in
     if fromEpoch < 0 then None
     else
       let current = word_of_int (fromEpoch div Period) :: 64 word;
           base = Epoch + Duration_mul (sint current) Period
       in Some (current, time_Sub t base, time_Sub (base + Period) t))"

definition FromUnix :: "int \<Rightarrow> int \<Rightarrow> (64 word \<times> int \<times> int) option" where
  "FromUnix Period t = getEpoch Period (t * second)"

definition IsInEpoch :: "int \<Rightarrow> 64 word \<Rightarrow> 64 word \<Rightarrow> bool" where
  "IsInEpoch Period e t =
    (let startTime = Epoch + Duration_mul (sint e) Period;
         endTime = Epoch + Duration_mul (sint (e + 1)) Period;
         tt = sint t * second
     in if tt = startTime then True else startTime < tt \<and> tt < endTime)"

section \<open>Epochs partition time\<close>

text \<open>Times of the epoch arithmetic: after the start, and less than 146 years after it.\<close>

definition in_range :: "int \<Rightarrow> int \<Rightarrow> bool" where
  "in_range Period t = (0 < Period \<and> Period < 2 ^ 62 \<and> Epoch \<le> t \<and> t - Epoch < 2 ^ 62)"

lemma div_bounds: "0 < (P :: int) \<Longrightarrow> 0 \<le> d \<Longrightarrow> 0 \<le> d div P \<and> d div P * P \<le> d \<and> d < (d div P + 1) * P"
proof -
  assume P: "0 < P" and d: "0 \<le> d"
  have "0 \<le> d mod P" "d mod P < P" "d = d div P * P + d mod P" using P by simp_all
  then have "d div P * P \<le> d" "d < d div P * P + P" by linarith+
  then show ?thesis using P d by (simp add: pos_imp_zdiv_nonneg_iff distrib_right)
qed

lemma getEpoch_exact:
  assumes "in_range Period t"
  shows "getEpoch Period t = Some (word_of_int ((t - Epoch) div Period), (t - Epoch) mod Period,
    Period - (t - Epoch) mod Period)"
proof -
  define d where "d = t - Epoch"
  define e where "e = d div Period"
  have P: "0 < Period" "Period < 2 ^ 62" and d: "0 \<le> d" "d < 2 ^ 62" using assms by (auto simp: in_range_def d_def)
  have e: "0 \<le> e" "e * Period \<le> d" using div_bounds [OF P(1) d(1)] by (auto simp: e_def)
  have "e \<le> e * Period" using e(1) P(1) by (simp add: mult_le_cancel_left1)
  then have e2: "e < 2 ^ 62" "e * Period < 2 ^ 62" using e(2) d(2) by simp_all
  have md: "d mod Period = d - e * Period" by (simp add: e_def minus_div_mult_eq_mod [symmetric])
  have m: "0 \<le> d mod Period" "d mod Period < Period" using P(1) by simp_all
  have r: "t - (Epoch + e * Period) = d mod Period" "Epoch + e * Period + Period - t = Period - d mod Period"
    using md by (simp_all add: d_def)
  have "sint (word_of_int e :: 64 word) = e" using int64_nonneg [of e] e e2 by (simp add: int64_def)
  moreover have "int64 (e * Period) = e * Period" using int64_nonneg [of "e * Period"] e e2 P(1) by simp
  moreover have "time_Sub t Epoch = d" using d by (simp add: time_Sub_def d_def)
  moreover have "time_Sub t (Epoch + e * Period) = d mod Period"
    using time_Sub_exact [of t "Epoch + e * Period"] r(1) m P(2) by simp
  moreover have "time_Sub (Epoch + e * Period + Period) t = Period - d mod Period"
    using time_Sub_exact [of "Epoch + e * Period + Period" t] r(2) m P(2) by simp
  ultimately show ?thesis using d(1) by (simp add: getEpoch_def Let_def Duration_mul_def d_def [symmetric] e_def [symmetric])
qed

lemma epoch_unique: "0 < (P :: int) \<Longrightarrow> e * P \<le> d \<Longrightarrow> d < (e + 1) * P \<Longrightarrow> e = d div P"
  by (rule int_div_pos_eq [of d P e "d - e * P", symmetric]) (simp_all add: algebra_simps)

lemma IsInEpoch_iff:
  assumes "in_range Period (sint t * second)" and "0 \<le> sint e" and "(sint e + 1) * Period < 2 ^ 62"
  shows "IsInEpoch Period e t \<longleftrightarrow> sint e = (sint t * second - Epoch) div Period"
proof -
  define d where "d = sint t * second - Epoch"
  have P: "0 < Period" and d: "0 \<le> d" using assms(1) by (auto simp: in_range_def d_def)
  have le: "sint e * Period \<le> (sint e + 1) * Period" "sint e + 1 \<le> (sint e + 1) * Period"
    using P assms(2) mult_left_mono [of 1 Period "sint e + 1"] by (simp_all add: mult_right_mono)
  have e1: "sint (e + 1) = sint e + 1"
    using int64_nonneg [of "sint e + 1"] order.strict_trans1 [OF le(2) assms(3)] assms(2) by (simp add: int64_def)
  have m: "int64 (sint e * Period) = sint e * Period" "int64 ((sint e + 1) * Period) = (sint e + 1) * Period"
    using int64_nonneg [of "sint e * Period"] int64_nonneg [of "(sint e + 1) * Period"] order.strict_trans1 [OF le(1) assms(3)] assms(2,3) P
    by simp_all
  have "IsInEpoch Period e t \<longleftrightarrow> sint e * Period \<le> d \<and> d < (sint e + 1) * Period"
  proof -
    have "sint e * Period < (sint e + 1) * Period" using P by (simp add: distrib_right)
    then show ?thesis unfolding IsInEpoch_def Let_def Duration_mul_def e1 m d_def by auto
  qed
  also have "\<dots> \<longleftrightarrow> sint e = d div Period"
    using epoch_unique [OF P, of "sint e" d] div_bounds [OF P d] by auto
  finally show ?thesis by (simp add: d_def)
qed

text \<open>
  C15. Epochs partition time: for a time in range, the epoch that \<open>FromUnix\<close> computes is the one and only
  epoch that \<open>IsInEpoch\<close> accepts for it, and the elapsed and the remaining time are non-negative, positive,
  and add up to the period.
\<close>

theorem epochs_partition_time:
  assumes "in_range Period (sint t * second)"
  shows "\<exists>e elapsed till. FromUnix Period (sint t) = Some (e, elapsed, till) \<and>
     0 \<le> elapsed \<and> 0 < till \<and> elapsed + till = Period \<and>
     (\<forall>e'. 0 \<le> sint e' \<and> (sint e' + 1) * Period < 2 ^ 62 \<longrightarrow> (IsInEpoch Period e' t \<longleftrightarrow> e' = e))"
proof -
  define d where "d = sint t * second - Epoch"
  define e :: "64 word" where "e = word_of_int (d div Period)"
  have P: "0 < Period" and d: "0 \<le> d" "d < 2 ^ 62" using assms by (auto simp: in_range_def d_def)
  have q: "0 \<le> d div Period" "d div Period \<le> d div Period * Period" "d div Period * Period \<le> d"
    using div_bounds [OF P d(1)] mult_left_mono [of 1 Period "d div Period"] P by simp_all
  have "d div Period < 2 ^ 63" using q d(2) by simp
  then have e: "sint e = d div Period" using int64_nonneg [OF q(1)] by (simp add: e_def int64_def)
  have "IsInEpoch Period e' t \<longleftrightarrow> e' = e" if "0 \<le> sint e'" "(sint e' + 1) * Period < 2 ^ 62" for e'
    using IsInEpoch_iff [OF assms that] e signed_word_eqI [of e' e, where 'a = int] by (auto simp: d_def)
  moreover have "FromUnix Period (sint t) = Some (e, d mod Period, Period - d mod Period)"
    using getEpoch_exact [OF assms] by (simp add: FromUnix_def d_def e_def)
  ultimately show ?thesis using P by auto
qed

theorem epochs_partition_time_witness:
  "FromUnix default_Period 1700000000 = Some (169770, 800 * second, 400 * second) \<and> IsInEpoch default_Period 169770 1700000000"
proof -
  have r: "in_range default_Period (sint (1700000000 :: 64 word) * second)"
    by (simp add: in_range_def default_Period_def minute_def second_def Epoch_def)
  from epochs_partition_time [OF r] obtain e el til where e: "FromUnix default_Period 1700000000 = Some (e, el, til)"
    and i: "\<forall>e'. 0 \<le> sint e' \<and> (sint e' + 1) * default_Period < 2 ^ 62 \<longrightarrow> (IsInEpoch default_Period e' 1700000000 \<longleftrightarrow> e' = e)"
    by auto
  have f: "FromUnix default_Period 1700000000 = Some (169770, 800 * second, 400 * second)"
    using getEpoch_exact [OF r] by (simp add: FromUnix_def default_Period_def minute_def second_def Epoch_def)
  with e i [rule_format, of 169770] show ?thesis by (simp add: default_Period_def minute_def second_def)
qed

end
