(* ===== verification/Mix_Keys.thy ===== *)
theory Mix_Keys
  imports Epoch_Time "HOL-Library.AList"
begin

text \<open>
  \<open>src/server/internal/mixkey/mixkey.go\<close> and \<open>src/server/internal/mixkeys/mixkeys.go\<close>: the keys of a mix,
  one per epoch, each with the Bloom filter of the replay tags seen under it. The key table and the
  crypto workers' shadow copies of it share the key objects and count their holders, so the objects live
  in a store indexed by addresses. Iteration over a Go map is iteration over the association list.
  A result \<open>None\<close> is a panic. The Bloom filter package is third-party code and is the parameter \<open>bloom\<close>;
  \<open>bloom_ok\<close> is its documented contract: no false negatives.
\<close>

section \<open>Mix keys\<close>

record 'f bloom =
  bf_TestAndSet :: "'f \<Rightarrow> bytes \<Rightarrow> bool \<times> 'f"
  bf_Entries :: "'f \<Rightarrow> nat"
  bf_MaxEntries :: "'f \<Rightarrow> nat"

definition bloom_ok :: "'f bloom \<Rightarrow> bool" where
  "bloom_ok B =
    ((\<forall>f t. fst (bf_TestAndSet B (snd (bf_TestAndSet B f t)) t)) \<and>
     (\<forall>f t u. fst (bf_TestAndSet B f t) \<longrightarrow> fst (bf_TestAndSet B (snd (bf_TestAndSet B f u)) t)))"

definition TagLength :: nat where
  "TagLength = 32"

text \<open>The key pair is gone (\<open>None\<close>) once the key is closed.\<close>

record ('k, 'f) MixKey =
  mk_keypair :: "'k option"
  mk_epoch :: "64 word"
  mk_f :: 'f
  mk_refCount :: int
  mk_unlinkIfExpired :: bool

definition SetUnlinkIfExpired :: "bool \<Rightarrow> ('k, 'f) MixKey \<Rightarrow> ('k, 'f) MixKey" where
  "SetUnlinkIfExpired b k = k\<lparr>mk_unlinkIfExpired := b\<rparr>"

definition IsReplay :: "'f bloom \<Rightarrow> bytes \<Rightarrow> ('k, 'f) MixKey \<Rightarrow> (bool \<times> ('k, 'f) MixKey) option" where
  "IsReplay B rawTag k =
    (if length rawTag \<noteq> TagLength then Some (True, k)
     else if bf_MaxEntries B (mk_f k) \<le> bf_Entries B (mk_f k) then None
     else let (seen, f') = bf_TestAndSet B (mk_f k) rawTag in Some (seen, k\<lparr>mk_f := f'\<rparr>))"

definition forceClose :: "('k, 'f) MixKey \<Rightarrow> ('k, 'f) MixKey" where
  "forceClose k = k\<lparr>mk_keypair := None\<rparr>"

definition Deref :: "('k, 'f) MixKey \<Rightarrow> ('k, 'f) MixKey option" where
  "Deref k =
    (let i = mk_refCount k - 1; k' = k\<lparr>mk_refCount := i\<rparr> in
     if i = 0 then Some (forceClose k') else if i < 0 then None else Some k')"

definition Ref :: "('k, 'f) MixKey \<Rightarrow> ('k, 'f) MixKey option" where
  "Ref k = (let i = mk_refCount k + 1 in if i \<le> 1 then None else Some (k\<lparr>mk_refCount := i\<rparr>))"

text \<open>Key generation and the new filter are parameters; either can fail.\<close>

definition mixkey_New :: "(64 word \<Rightarrow> ('k \<times> 'f) option) \<Rightarrow> 64 word \<Rightarrow> ('k, 'f) MixKey option" where
  "mixkey_New gen epoch =
    (case gen epoch of
       None \<Rightarrow> None
     | Some (kp, f) \<Rightarrow>
         Some \<lparr>mk_keypair = Some kp, mk_epoch = epoch, mk_f = f, mk_refCount = 1, mk_unlinkIfExpired = False\<rparr>)"

section \<open>The key table and its shadows\<close>

type_synonym ('k, 'f) key_store = "nat \<Rightarrow> ('k, 'f) MixKey option"
type_synonym key_map = "(64 word \<times> nat) list"

record ('k, 'f) mixKeys =
  ms_store :: "('k, 'f) key_store"
  ms_next :: nat
  ms_keys :: key_map
  ms_shadows :: "key_map list"

definition NumMixKeys :: nat where
  "NumMixKeys = 3"

definition store_upd :: "(('k, 'f) MixKey \<Rightarrow> ('k, 'f) MixKey option) \<Rightarrow> nat \<Rightarrow> ('k, 'f) key_store \<Rightarrow> ('k, 'f) key_store option" where
  "store_upd f a s =
    (case s a of None \<Rightarrow> None | Some k \<Rightarrow> map_option (\<lambda>k'. s(a \<mapsto> k')) (f k))"

fun store_upds :: "(('k, 'f) MixKey \<Rightarrow> ('k, 'f) MixKey option) \<Rightarrow> nat list \<Rightarrow> ('k, 'f) key_store \<Rightarrow> ('k, 'f) key_store option" where
  "store_upds f [] s = Some s"
| "store_upds f (a # as) s = Option.bind (store_upd f a s) (store_upds f as)"

abbreviation deref_all :: "nat list \<Rightarrow> ('k, 'f) key_store \<Rightarrow> ('k, 'f) key_store option" where
  "deref_all \<equiv> store_upds Deref"

abbreviation ref_all :: "nat list \<Rightarrow> ('k, 'f) key_store \<Rightarrow> ('k, 'f) key_store option" where
  "ref_all \<equiv> store_upds Ref"

text \<open>The epochs of the loop \<open>for e := baseEpoch; e < baseEpoch+NumMixKeys; e++\<close>.\<close>

definition key_window :: "64 word \<Rightarrow> 64 word list" where
  "key_window baseEpoch =
    (if baseEpoch < baseEpoch + of_nat NumMixKeys then map (\<lambda>i. baseEpoch + of_nat i) [0..<NumMixKeys] else [])"

datatype gen_result = Generated bool | GenerateFailed

fun generate_loop ::
  "(64 word \<Rightarrow> ('k \<times> 'f) option) \<Rightarrow> 64 word list \<Rightarrow> bool \<Rightarrow> ('k, 'f) mixKeys \<Rightarrow> (bool \<times> bool \<times> ('k, 'f) mixKeys)" where
  "generate_loop gen [] did m = (True, did, m)"
| "generate_loop gen (e # es) did m =
    (if map_of (ms_keys m) e \<noteq> None then generate_loop gen es did m
     else case mixkey_New gen e of
       None \<Rightarrow> (False, True, m)
     | Some k \<Rightarrow>
         generate_loop gen es True
           (m\<lparr>ms_store := (ms_store m)(ms_next m \<mapsto> SetUnlinkIfExpired True k), ms_next := Suc (ms_next m),
              ms_keys := (e, ms_next m) # ms_keys m\<rparr>))"

definition Generate :: "(64 word \<Rightarrow> ('k \<times> 'f) option) \<Rightarrow> 64 word \<Rightarrow> ('k, 'f) mixKeys \<Rightarrow> (gen_result \<times> ('k, 'f) mixKeys) option" where
  "Generate gen baseEpoch m =
    (let (ok, did, m') = generate_loop gen (key_window baseEpoch) False m in
     if ok then Some (Generated did, m')
     else let (dead, live) = partition (\<lambda>(e, _). e \<in> set (key_window baseEpoch)) (ms_keys m') in
       map_option (\<lambda>s. (GenerateFailed, m'\<lparr>ms_store := s, ms_keys := live\<rparr>)) (deref_all (map snd dead) (ms_store m')))"

definition Prune :: "64 word \<Rightarrow> ('k, 'f) mixKeys \<Rightarrow> (bool \<times> ('k, 'f) mixKeys) option" where
  "Prune epoch m =
    (let (dead, live) = partition (\<lambda>(e, _). e < epoch - 1) (ms_keys m) in
     map_option (\<lambda>s. (dead \<noteq> [], m\<lparr>ms_store := s, ms_keys := live\<rparr>)) (deref_all (map snd dead) (ms_store m)))"

definition ms_Get :: "64 word \<Rightarrow> ('k, 'f) mixKeys \<Rightarrow> ('k, 'f) MixKey option" where
  "ms_Get epoch m = Option.bind (map_of (ms_keys m) epoch) (ms_store m)"

definition Shadow :: "nat \<Rightarrow> ('k, 'f) mixKeys \<Rightarrow> ('k, 'f) mixKeys option" where
  "Shadow w m =
    (let dst = ms_shadows m ! w;
         (kept, gone) = partition (\<lambda>(e, _). map_of (ms_keys m) e \<noteq> None) dst;
         new = filter (\<lambda>(e, _). map_of kept e = None) (ms_keys m)
     in Option.bind (deref_all (map snd gone) (ms_store m)) (\<lambda>s.
        Option.bind (ref_all (map snd new) s) (\<lambda>s'.
        Some (m\<lparr>ms_store := s', ms_shadows := (ms_shadows m)[w := kept @ new]\<rparr>))))"

definition ms_Halt :: "('k, 'f) mixKeys \<Rightarrow> ('k, 'f) mixKeys option" where
  "ms_Halt m =
    map_option (\<lambda>s. m\<lparr>ms_store := s, ms_keys := []\<rparr>) (deref_all (map snd (ms_keys m)) (ms_store m))"

text \<open>A worker that ends drops its shadow (\<open>derefKeys\<close>).\<close>

definition derefKeys :: "nat \<Rightarrow> ('k, 'f) mixKeys \<Rightarrow> ('k, 'f) mixKeys option" where
  "derefKeys w m =
    map_option (\<lambda>s. m\<lparr>ms_store := s, ms_shadows := (ms_shadows m)[w := []]\<rparr>)
      (deref_all (map snd (ms_shadows m ! w)) (ms_store m))"

definition ms_new :: "('k, 'f) mixKeys" where
  "ms_new = \<lparr>ms_store = Map.empty, ms_next = 0, ms_keys = [], ms_shadows = []\<rparr>"

text \<open>What the server does with the table, in any order.\<close>

inductive ms_step :: "('k, 'f) mixKeys \<Rightarrow> ('k, 'f) mixKeys option \<Rightarrow> bool" where
  generate: "ms_step m (map_option snd (Generate gen e m))"
| prune: "ms_step m (map_option snd (Prune e m))"
| shadow: "w < length (ms_shadows m) \<Longrightarrow> ms_step m (Shadow w m)"
| worker: "ms_step m (Some (m\<lparr>ms_shadows := ms_shadows m @ [[]]\<rparr>))"
| stop: "w < length (ms_shadows m) \<Longrightarrow> ms_step m (derefKeys w m)"
| halt: "ms_step m (ms_Halt m)"

inductive ms_reachable :: "('k, 'f) mixKeys \<Rightarrow> bool" where
  "ms_reachable ms_new"
| "ms_reachable m \<Longrightarrow> ms_step m (Some m') \<Longrightarrow> ms_reachable m'"

section \<open>Holders are counted\<close>

text \<open>\<open>counted s h\<close>: the reference counts are the numbers \<open>h\<close> of holders, and a key is closed iff nobody holds it.\<close>

definition counted :: "('k, 'f) key_store \<Rightarrow> (nat \<Rightarrow> nat) \<Rightarrow> bool" where
  "counted s h = (\<forall>a. case s a of None \<Rightarrow> h a = 0
     | Some k \<Rightarrow> mk_refCount k = int (h a) \<and> (mk_keypair k = None \<longleftrightarrow> h a = 0))"

definition same_keys :: "('k, 'f) key_store \<Rightarrow> ('k, 'f) key_store \<Rightarrow> bool" where
  "same_keys s s' = (\<forall>a. map_option mk_epoch (s' a) = map_option mk_epoch (s a) \<and> map_option mk_f (s' a) = map_option mk_f (s a))"

lemma same_keys_refl [simp]: "same_keys s s"
  by (simp add: same_keys_def)

lemma same_keys_trans: "same_keys s s' \<Longrightarrow> same_keys s' s'' \<Longrightarrow> same_keys s s''"
  by (simp add: same_keys_def)

lemma same_keys_Some: "same_keys s s' \<Longrightarrow> s a = Some k \<Longrightarrow> \<exists>k'. s' a = Some k' \<and> mk_epoch k' = mk_epoch k"
  unfolding same_keys_def by (metis option.map_disc_iff option.map_sel option.sel option.exhaust_sel option.distinct(1))

lemma same_keys_None: "same_keys s s' \<Longrightarrow> s a = None \<Longrightarrow> s' a = None"
  unfolding same_keys_def by (metis option.map_disc_iff)

lemma counted_None: "counted s h \<Longrightarrow> s a = None \<Longrightarrow> h a = 0"
  unfolding counted_def by (drule spec [of _ a]) simp

lemma counted_Some: "counted s h \<Longrightarrow> s a = Some k \<Longrightarrow> mk_keypair k = None \<longleftrightarrow> h a = 0"
  unfolding counted_def by (drule spec [of _ a]) simp

lemma counted_upd:
  assumes "counted s h" and "mk_refCount k = int n" and "mk_keypair k = None \<longleftrightarrow> n = 0"
  shows "counted (s(a \<mapsto> k)) (h(a := n))"
  unfolding counted_def
proof
  fix b
  show "case (s(a \<mapsto> k)) b of None \<Rightarrow> (h(a := n)) b = 0
    | Some k \<Rightarrow> mk_refCount k = int ((h(a := n)) b) \<and> (mk_keypair k = None \<longleftrightarrow> (h(a := n)) b = 0)"
    using assms(1) [unfolded counted_def, rule_format, of b] assms(2,3) by (cases "b = a"; cases "s b") simp_all
qed

lemma deref_one:
  assumes "counted s h" and "0 < h a"
  obtains s' where "store_upd Deref a s = Some s'" and "counted s' (h(a := h a - 1))" and "same_keys s s'"
proof -
  obtain k where k: "s a = Some k" "mk_refCount k = int (h a)" "mk_keypair k \<noteq> None"
    using assms by (fastforce simp: counted_def split: option.splits)
  define k' where "k' = (if h a = 1 then forceClose (k\<lparr>mk_refCount := 0\<rparr>) else k\<lparr>mk_refCount := int (h a) - 1\<rparr>)"
  have "Deref k = Some k'" using k(2) assms(2) by (simp add: Deref_def Let_def k'_def)
  then have "store_upd Deref a s = Some (s(a \<mapsto> k'))" using k(1) by (simp add: store_upd_def)
  moreover have "counted (s(a \<mapsto> k')) (h(a := h a - 1))"
    using assms k(3) by (intro counted_upd) (auto simp: k'_def forceClose_def)
  moreover have "same_keys s (s(a \<mapsto> k'))" using k(1) by (simp add: same_keys_def k'_def forceClose_def)
  ultimately show thesis by (rule that)
qed

lemma ref_one:
  assumes "counted s h" and "0 < h a"
  obtains s' where "store_upd Ref a s = Some s'" and "counted s' (h(a := h a + 1))" and "same_keys s s'"
proof -
  obtain k where k: "s a = Some k" "mk_refCount k = int (h a)" "mk_keypair k \<noteq> None"
    using assms by (fastforce simp: counted_def split: option.splits)
  define k' where "k' = k\<lparr>mk_refCount := int (h a) + 1\<rparr>"
  have "Ref k = Some k'" using k(2) assms(2) by (simp add: Ref_def Let_def k'_def)
  then have "store_upd Ref a s = Some (s(a \<mapsto> k'))" using k(1) by (simp add: store_upd_def)
  moreover have "counted (s(a \<mapsto> k')) (h(a := h a + 1))"
    using assms k(3) by (intro counted_upd) (auto simp: k'_def)
  moreover have "same_keys s (s(a \<mapsto> k'))" using k(1) by (simp add: same_keys_def k'_def)
  ultimately show thesis by (rule that)
qed

lemma deref_all_ok:
  assumes "counted s h" and "\<forall>a. count_list xs a \<le> h a"
  shows "\<exists>s'. deref_all xs s = Some s' \<and> counted s' (\<lambda>a. h a - count_list xs a) \<and> same_keys s s'"
  using assms
proof (induction xs arbitrary: s h)
  case (Cons x xs)
  have x: "0 < h x" using Cons.prems(2) [rule_format, of x] by simp
  obtain s1 where s1: "store_upd Deref x s = Some s1" "counted s1 (h(x := h x - 1))" "same_keys s s1"
    by (rule deref_one [OF Cons.prems(1) x])
  have "\<forall>a. count_list xs a \<le> (h(x := h x - 1)) a"
  proof
    fix a
    show "count_list xs a \<le> (h(x := h x - 1)) a" using Cons.prems(2) [rule_format, of a] by (simp split: if_splits)
  qed
  from Cons.IH [OF s1(2) this] obtain s' where s': "deref_all xs s1 = Some s'"
    "counted s' (\<lambda>a. (h(x := h x - 1)) a - count_list xs a)" "same_keys s1 s'" by blast
  have "(\<lambda>a. (h(x := h x - 1)) a - count_list xs a) = (\<lambda>a. h a - count_list (x # xs) a)" by auto
  with s1 s' show ?case by (auto intro: same_keys_trans)
qed simp

lemma ref_all_ok:
  assumes "counted s h" and "\<forall>a\<in>set xs. 0 < h a"
  shows "\<exists>s'. ref_all xs s = Some s' \<and> counted s' (\<lambda>a. h a + count_list xs a) \<and> same_keys s s'"
  using assms
proof (induction xs arbitrary: s h)
  case (Cons x xs)
  have x: "0 < h x" using Cons.prems(2) by simp
  obtain s1 where s1: "store_upd Ref x s = Some s1" "counted s1 (h(x := h x + 1))" "same_keys s s1"
    by (rule ref_one [OF Cons.prems(1) x])
  have "\<forall>a\<in>set xs. 0 < (h(x := h x + 1)) a" using Cons.prems(2) by simp
  from Cons.IH [OF s1(2) this] obtain s' where s': "ref_all xs s1 = Some s'"
    "counted s' (\<lambda>a. (h(x := h x + 1)) a + count_list xs a)" "same_keys s1 s'" by blast
  have "(\<lambda>a. (h(x := h x + 1)) a + count_list xs a) = (\<lambda>a. h a + count_list (x # xs) a)" by auto
  with s1 s' show ?case by (auto intro: same_keys_trans)
qed simp

definition holders :: "('k, 'f) mixKeys \<Rightarrow> nat \<Rightarrow> nat" where
  "holders m a = count_list (map snd (ms_keys m)) a + (\<Sum>sh\<leftarrow>ms_shadows m. count_list (map snd sh) a)"

definition all_entries :: "('k, 'f) mixKeys \<Rightarrow> (64 word \<times> nat) set" where
  "all_entries m = set (ms_keys m) \<union> (\<Union>sh\<in>set (ms_shadows m). set sh)"

definition keys_ok :: "('k, 'f) mixKeys \<Rightarrow> bool" where
  "keys_ok m = (counted (ms_store m) (holders m) \<and> (\<forall>a\<ge>ms_next m. ms_store m a = None) \<and>
     (\<forall>e a. (e, a) \<in> all_entries m \<longrightarrow> (\<exists>k. ms_store m a = Some k \<and> mk_epoch k = e)))"

lemma holders_pos: "(e, a) \<in> all_entries m \<Longrightarrow> 0 < holders m a"
proof -
  assume "(e, a) \<in> all_entries m"
  then consider "(e, a) \<in> set (ms_keys m)" | sh where "sh \<in> set (ms_shadows m)" "(e, a) \<in> set sh"
    by (auto simp: all_entries_def)
  then show ?thesis
  proof cases
    case 1
    then have "a \<in> set (map snd (ms_keys m))" by force
    then show ?thesis by (simp add: holders_def count_list_0_iff [symmetric] del: set_map count_list_0_iff) (metis count_list_0_iff gr0I)
  next
    case 2
    then have "a \<in> set (map snd sh)" by force
    then have "count_list (map snd sh) a \<noteq> 0" by (simp only: count_list_0_iff) simp
    moreover have "count_list (map snd sh) a \<le> (\<Sum>sh\<leftarrow>ms_shadows m. count_list (map snd sh) a)"
      using 2(1) by (intro member_le_sum_list) auto
    ultimately show ?thesis by (simp add: holders_def)
  qed
qed

lemma count_partition:
  "count_list (map snd xs) a = count_list (map snd (filter P xs)) a + count_list (map snd (filter (\<lambda>x. \<not> P x) xs)) a"
  by (induction xs) auto

lemma sum_shadows_upd:
  "w < length shs \<Longrightarrow>
   (\<Sum>sh\<leftarrow>shs[w := sh']. count_list (map snd sh) a) + count_list (map snd (shs ! w)) a =
   (\<Sum>sh\<leftarrow>shs. count_list (map snd sh) a) + count_list (map snd sh') (a :: nat)"
proof (induction shs arbitrary: w)
  case (Cons x shs)
  then show ?case by (cases w) auto
qed simp

text \<open>The shape of all the operations: some entries are dropped, the rest stay where they are.\<close>

lemma drop_entries:
  assumes "keys_ok m" and "\<And>a. holders m a = count_list gone a + h' a"
  shows "\<exists>s'. deref_all gone (ms_store m) = Some s' \<and> counted s' h' \<and> same_keys (ms_store m) s'"
proof -
  have "\<forall>a. count_list gone a \<le> holders m a" using assms(2) by simp
  moreover have "(\<lambda>a. holders m a - count_list gone a) = h'" using assms(2) by auto
  ultimately show ?thesis using deref_all_ok [of "ms_store m" "holders m" gone] assms(1) by (simp add: keys_ok_def)
qed

lemma keys_okI:
  assumes "keys_ok m" and "counted s' (holders m')" and "same_keys (ms_store m) s'"
    and "ms_store m' = s'" and "ms_next m' = ms_next m" and "all_entries m' \<subseteq> all_entries m"
  shows "keys_ok m'"
proof -
  have "\<forall>a\<ge>ms_next m. s' a = None" using assms(1) same_keys_None [OF assms(3)] by (simp add: keys_ok_def)
  moreover have "\<exists>k. s' a = Some k \<and> mk_epoch k = e" if ea: "(e, a) \<in> all_entries m" for e a
  proof -
    obtain k where "ms_store m a = Some k" "mk_epoch k = e" using assms(1) ea unfolding keys_ok_def by blast
    then show ?thesis using same_keys_Some [OF assms(3)] by blast
  qed
  ultimately show ?thesis using assms(2,4-6) unfolding keys_ok_def by (simp add: subset_iff)
qed

lemma generate_loop_ok: "keys_ok m \<Longrightarrow> generate_loop gen es did m = (ok, did', m') \<Longrightarrow> keys_ok m'"
proof (induction gen es did m arbitrary: ok did' m' rule: generate_loop.induct)
  case (2 gen e es did m)
  show ?case
  proof (cases "map_of (ms_keys m) e \<noteq> None")
    case True
    with 2 show ?thesis by simp
  next
    case False
    show ?thesis
    proof (cases "mixkey_New gen e")
      case None
      with 2 False show ?thesis by simp
    next
      case (Some k)
      let ?k = "SetUnlinkIfExpired True k"
      let ?m = "m\<lparr>ms_store := (ms_store m)(ms_next m \<mapsto> ?k), ms_next := Suc (ms_next m), ms_keys := (e, ms_next m) # ms_keys m\<rparr>"
      have k: "mk_refCount ?k = 1" "mk_keypair ?k \<noteq> None" "mk_epoch ?k = e"
        using Some by (auto simp: mixkey_New_def SetUnlinkIfExpired_def split: option.splits)
      have fresh: "ms_store m (ms_next m) = None" using 2(3) by (simp add: keys_ok_def)
      then have "holders m (ms_next m) = 0" using 2(3) counted_None by (fastforce simp: keys_ok_def)
      then have "holders ?m = (holders m)(ms_next m := 1)" by (auto simp: holders_def)
      then have "counted (ms_store ?m) (holders ?m)"
        using counted_upd [of "ms_store m" "holders m" ?k 1 "ms_next m"] 2(3) k by (simp add: keys_ok_def)
      moreover have "\<forall>a\<ge>ms_next ?m. ms_store ?m a = None" using 2(3) by (simp add: keys_ok_def)
      moreover have "\<exists>k. ms_store ?m a = Some k \<and> mk_epoch k = e'" if "(e', a) \<in> all_entries ?m" for e' a
      proof (cases "(e', a) \<in> all_entries m")
        case True
        then obtain k0 where "ms_store m a = Some k0" "mk_epoch k0 = e'" using 2(3) unfolding keys_ok_def by blast
        with fresh show ?thesis by auto
      next
        case False
        with that k show ?thesis by (auto simp: all_entries_def)
      qed
      ultimately have "keys_ok ?m" unfolding keys_ok_def by blast
      with 2 Some False show ?thesis by simp
    qed
  qed
qed simp

lemma partition_holders:
  "ms_keys m' = filter (\<lambda>x. \<not> P x) (ms_keys m) \<Longrightarrow> ms_shadows m' = ms_shadows m \<Longrightarrow>
    holders m a = count_list (map snd (filter P (ms_keys m))) a + holders m' a"
  using count_partition [of "ms_keys m" a P] by (simp add: holders_def)

text \<open>Dropping a part of the table, as \<open>Prune\<close>, \<open>Halt\<close> and a failed \<open>Generate\<close> do.\<close>

lemma drop_table:
  assumes "keys_ok m"
  shows "\<exists>s'. deref_all (map snd (filter P (ms_keys m))) (ms_store m) = Some s' \<and>
     keys_ok (m\<lparr>ms_store := s', ms_keys := filter (\<lambda>x. \<not> P x) (ms_keys m)\<rparr>)"
proof -
  let ?m = "m\<lparr>ms_keys := filter (\<lambda>x. \<not> P x) (ms_keys m)\<rparr>"
  obtain s' where s': "deref_all (map snd (filter P (ms_keys m))) (ms_store m) = Some s'" "counted s' (holders ?m)"
    "same_keys (ms_store m) s'"
    using drop_entries [OF assms partition_holders [of ?m P]] by auto
  have "holders (m\<lparr>ms_store := s', ms_keys := filter (\<lambda>x. \<not> P x) (ms_keys m)\<rparr>) = holders ?m" by (auto simp: holders_def)
  moreover have "all_entries (m\<lparr>ms_store := s', ms_keys := filter (\<lambda>x. \<not> P x) (ms_keys m)\<rparr>) \<subseteq> all_entries m"
    by (auto simp: all_entries_def)
  ultimately have "keys_ok (m\<lparr>ms_store := s', ms_keys := filter (\<lambda>x. \<not> P x) (ms_keys m)\<rparr>)"
    using s' by (intro keys_okI [OF assms _ s'(3)]) simp_all
  with s'(1) show ?thesis by blast
qed

lemma Prune_ok: "keys_ok m \<Longrightarrow> \<exists>b m'. Prune e m = Some (b, m') \<and> keys_ok m'"
  using drop_table [of m "\<lambda>(e', _). e' < e - 1"] by (auto simp: Prune_def comp_def)

lemma Halt_ok: "keys_ok m \<Longrightarrow> \<exists>m'. ms_Halt m = Some m' \<and> keys_ok m'"
  using drop_table [of m "\<lambda>_. True"] by (auto simp: ms_Halt_def)

lemma Generate_ok: "keys_ok m \<Longrightarrow> \<exists>r m'. Generate gen e m = Some (r, m') \<and> keys_ok m'"
proof -
  assume m: "keys_ok m"
  obtain ok did m1 where g: "generate_loop gen (key_window e) False m = (ok, did, m1)" by (metis prod_cases3)
  have "keys_ok m1" by (rule generate_loop_ok [OF m g])
  with drop_table [of m1 "\<lambda>(e', _). e' \<in> set (key_window e)"] g show ?thesis
    by (cases ok) (auto simp: Generate_def comp_def)
qed

text \<open>A worker's shadow is replaced: entries of it are dropped, and entries of the table are added.\<close>

lemma derefKeys_ok:
  assumes "keys_ok m" and "w < length (ms_shadows m)"
  shows "\<exists>m'. derefKeys w m = Some m' \<and> keys_ok m'"
proof -
  let ?m = "m\<lparr>ms_shadows := (ms_shadows m)[w := []]\<rparr>"
  have "holders m a = count_list (map snd (ms_shadows m ! w)) a + holders ?m a" for a
    using sum_shadows_upd [OF assms(2), where sh' = "[]" and a = a] by (simp add: holders_def)
  from drop_entries [OF assms(1) this] obtain s' where s': "deref_all (map snd (ms_shadows m ! w)) (ms_store m) = Some s'"
    "counted s' (holders ?m)" "same_keys (ms_store m) s'" by blast
  let ?m' = "m\<lparr>ms_store := s', ms_shadows := (ms_shadows m)[w := []]\<rparr>"
  have h: "holders ?m' = holders ?m" by (auto simp: holders_def)
  have "all_entries ?m' \<subseteq> all_entries m"
    using set_update_subset_insert [of "ms_shadows m" w "[]"] by (auto simp: all_entries_def)
  then have "keys_ok ?m'" using s' h by (intro keys_okI [OF assms(1) _ s'(3)]) simp_all
  then show ?thesis using s'(1) by (simp add: derefKeys_def)
qed

lemma Shadow_ok:
  assumes "keys_ok m" and "w < length (ms_shadows m)"
  shows "\<exists>m'. Shadow w m = Some m' \<and> keys_ok m'"
proof -
  define dst where "dst = ms_shadows m ! w"
  define kept where "kept = filter (\<lambda>(e, _). map_of (ms_keys m) e \<noteq> None) dst"
  define gone where "gone = filter (\<lambda>x. \<not> (case x of (e, _) \<Rightarrow> map_of (ms_keys m) e \<noteq> None)) dst"
  define new where "new = filter (\<lambda>(e, _). map_of kept e = None) (ms_keys m)"
  let ?m1 = "m\<lparr>ms_shadows := (ms_shadows m)[w := kept]\<rparr>"
  have "holders m a = count_list (map snd gone) a + holders ?m1 a" for a
    using sum_shadows_upd [OF assms(2), where sh' = kept and a = a]
      count_partition [of dst a "\<lambda>(e, _). map_of (ms_keys m) e \<noteq> None"]
    by (simp add: holders_def dst_def kept_def gone_def)
  from drop_entries [OF assms(1) this] obtain s1 where s1: "deref_all (map snd gone) (ms_store m) = Some s1"
    "counted s1 (holders ?m1)" "same_keys (ms_store m) s1" by blast
  have "0 < holders ?m1 a" if an: "a \<in> set (map snd new)" for a
  proof -
    obtain e where "(e, a) \<in> set (ms_keys m)" using an by (auto simp: new_def)
    then have "(e, a) \<in> all_entries ?m1" by (simp add: all_entries_def)
    then show ?thesis by (rule holders_pos)
  qed
  with ref_all_ok [OF s1(2), of "map snd new"] obtain s2 where s2: "ref_all (map snd new) s1 = Some s2"
    "counted s2 (\<lambda>a. holders ?m1 a + count_list (map snd new) a)" "same_keys s1 s2" by blast
  let ?m' = "m\<lparr>ms_store := s2, ms_shadows := (ms_shadows m)[w := kept @ new]\<rparr>"
  have h: "holders ?m' = (\<lambda>a. holders ?m1 a + count_list (map snd new) a)"
  proof
    fix a
    show "holders ?m' a = holders ?m1 a + count_list (map snd new) a"
      using sum_shadows_upd [OF assms(2), where sh' = "kept @ new" and a = a] sum_shadows_upd [OF assms(2), where sh' = kept and a = a]
      by (simp add: holders_def)
  qed
  have sub: "set kept \<subseteq> set (ms_shadows m ! w)" "set new \<subseteq> set (ms_keys m)" by (auto simp: kept_def new_def dst_def)
  have "all_entries ?m' \<subseteq> all_entries m"
    using set_update_subset_insert [of "ms_shadows m" w "kept @ new"] sub nth_mem [OF assms(2)]
    by (fastforce simp: all_entries_def)
  then have "keys_ok ?m'" using s2(2) h by (intro keys_okI [OF assms(1) _ same_keys_trans [OF s1(3) s2(3)]]) simp_all
  moreover have "Shadow w m = Some ?m'"
    using s1(1) s2(1) by (simp add: Shadow_def Let_def dst_def kept_def gone_def new_def comp_def)
  ultimately show ?thesis by blast
qed

lemma ms_step_ok: "ms_step m r \<Longrightarrow> keys_ok m \<Longrightarrow> \<exists>m'. r = Some m' \<and> keys_ok m'"
proof (induction rule: ms_step.induct)
  case (generate m gen e)
  then show ?case using Generate_ok [of m gen e] by auto
next
  case (prune m e)
  then show ?case using Prune_ok [of m e] by auto
next
  case (worker m)
  have "holders (m\<lparr>ms_shadows := ms_shadows m @ [[]]\<rparr>) = holders m" by (auto simp: holders_def)
  with worker show ?case by (simp add: keys_ok_def all_entries_def)
qed (auto intro: Shadow_ok derefKeys_ok Halt_ok)

lemma ms_reachable_ok: "ms_reachable m \<Longrightarrow> keys_ok m"
proof (induction rule: ms_reachable.induct)
  case 1
  then show ?case by (simp add: keys_ok_def ms_new_def holders_def counted_def all_entries_def)
next
  case (2 m m')
  then show ?case using ms_step_ok by fastforce
qed

text \<open>
  C16. The reference counts of the mix keys are right: whatever sequence of \<open>Generate\<close>, \<open>Prune\<close>, \<open>Shadow\<close>,
  \<open>Halt\<close> and worker exits has run, no operation panics on a reference count, every key that the table or a
  worker's shadow lists is the key of that epoch and still open, and a key object is closed exactly when
  nobody holds it any more.
\<close>

theorem mix_keys_live:
  assumes "ms_reachable m"
  shows "(\<forall>r. ms_step m r \<longrightarrow> r \<noteq> None) \<and>
    (\<forall>e a. (e, a) \<in> all_entries m \<longrightarrow> (\<exists>k. ms_store m a = Some k \<and> mk_epoch k = e \<and> mk_keypair k \<noteq> None)) \<and>
    (\<forall>a k. ms_store m a = Some k \<longrightarrow> (mk_keypair k = None \<longleftrightarrow> a \<notin> snd ` all_entries m))"
proof (intro conjI allI impI)
  have m: "keys_ok m" by (rule ms_reachable_ok [OF assms])
  have c: "mk_keypair k = None \<longleftrightarrow> holders m a = 0" if "ms_store m a = Some k" for a k
    using m that counted_Some unfolding keys_ok_def by blast
  show "r \<noteq> None" if "ms_step m r" for r using ms_step_ok [OF that m] by auto
  show "\<exists>k. ms_store m a = Some k \<and> mk_epoch k = e \<and> mk_keypair k \<noteq> None" if "(e, a) \<in> all_entries m" for e a
    using m c holders_pos [OF that] that unfolding keys_ok_def by fastforce
  show "mk_keypair k = None \<longleftrightarrow> a \<notin> snd ` all_entries m" if "ms_store m a = Some k" for a k
  proof -
    have "holders m a = 0" if "a \<notin> snd ` all_entries m"
      using that by (force simp: holders_def all_entries_def count_list_0_iff sum_list_eq_0_iff image_iff)
    moreover have "0 < holders m a" if "a \<in> snd ` all_entries m" using that holders_pos by fastforce
    ultimately show ?thesis using c [OF that] by fastforce
  qed
qed

text \<open>Keys for epochs 7, 8 and 9, with a worker that shadows them.\<close>

definition toy_mix_keys :: "(nat, nat) mixKeys" where
  "toy_mix_keys =
    \<lparr>ms_store = (\<lambda>a. if a < 3 then Some \<lparr>mk_keypair = Some 5, mk_epoch = 7 + of_nat a, mk_f = 0, mk_refCount = 2,
       mk_unlinkIfExpired = True\<rparr> else None), ms_next = 3, ms_keys = [(9, Suc (Suc 0)), (8, Suc 0), (7, 0)],
     ms_shadows = [[(9, Suc (Suc 0)), (8, Suc 0), (7, 0)]]\<rparr>"

lemma toy_mix_keys_reachable: "ms_reachable toy_mix_keys"
proof -
  let ?gen = "\<lambda>_ :: 64 word. Some (5 :: nat, 0 :: nat)"
  let ?k = "\<lambda>a n. Some \<lparr>mk_keypair = Some (5 :: nat), mk_epoch = 7 + of_nat a, mk_f = 0 :: nat, mk_refCount = n, mk_unlinkIfExpired = True\<rparr>"
  let ?s = "[0 :: nat \<mapsto> the (?k 0 1), Suc 0 \<mapsto> the (?k 1 1), Suc (Suc 0) \<mapsto> the (?k 2 1)]"
  let ?m1 = "ms_new\<lparr>ms_store := ?s, ms_next := Suc (Suc (Suc 0)), ms_keys := [(9, Suc (Suc 0)), (8, Suc 0), (7, 0)]\<rparr>"
  let ?m2 = "?m1\<lparr>ms_shadows := [[]]\<rparr>"
  have kw: "key_window 7 = [7, 8, 9]" by (simp add: key_window_def NumMixKeys_def upt_rec)
  have "Generate ?gen 7 ms_new = Some (Generated True, ?m1)"
    by (simp add: Generate_def kw mixkey_New_def SetUnlinkIfExpired_def ms_new_def)
  then have "ms_step ms_new (Some ?m1)" using ms_step.generate [of ms_new ?gen 7] by simp
  moreover have "ms_step ?m1 (Some ?m2)" using ms_step.worker [of ?m1] by (simp add: ms_new_def)
  moreover have "Shadow 0 ?m2 = Some toy_mix_keys"
    by (auto simp: Shadow_def Let_def store_upd_def Ref_def toy_mix_keys_def ms_new_def fun_eq_iff less_Suc_eq numeral_3_eq_3)
  then have "ms_step ?m2 (Some toy_mix_keys)" using ms_step.shadow [of 0 ?m2] by simp
  ultimately show ?thesis using ms_reachable.intros by metis
qed

theorem mix_keys_live_witness:
  "ms_reachable toy_mix_keys \<and> Prune 10 toy_mix_keys \<noteq> None \<and>
   (\<exists>k. ms_store toy_mix_keys 1 = Some k \<and> mk_epoch k = 8 \<and> mk_keypair k \<noteq> None)"
  using mix_keys_live [OF toy_mix_keys_reachable] toy_mix_keys_reachable ms_step.prune [of toy_mix_keys 10]
  by (fastforce simp: all_entries_def toy_mix_keys_def)

section \<open>Replays\<close>

text \<open>An exact filter, for the witnesses.\<close>

definition list_bloom :: "bytes list bloom" where
  "list_bloom = \<lparr>bf_TestAndSet = (\<lambda>f t. (t \<in> set f, t # f)), bf_Entries = length, bf_MaxEntries = (\<lambda>_. 1000)\<rparr>"

lemma list_bloom_ok: "bloom_ok list_bloom"
  by (simp add: bloom_ok_def list_bloom_def)


text \<open>The same key sees the tags of many packets; a tag it has seen is recognised for ever.\<close>

fun replay_run :: "'f bloom \<Rightarrow> bytes list \<Rightarrow> ('k, 'f) MixKey \<Rightarrow> ('k, 'f) MixKey option" where
  "replay_run B [] k = Some k"
| "replay_run B (t # ts) k = Option.bind (IsReplay B t k) (\<lambda>(_, k'). replay_run B ts k')"

definition seen_tag :: "'f bloom \<Rightarrow> bytes \<Rightarrow> ('k, 'f) MixKey \<Rightarrow> bool" where
  "seen_tag B t k = (length t \<noteq> TagLength \<or> fst (bf_TestAndSet B (mk_f k) t))"

lemma IsReplay_result: "IsReplay B t k = Some (r, k') \<Longrightarrow> r = seen_tag B t k"
  by (auto simp: IsReplay_def seen_tag_def split: if_splits prod.splits)

lemma IsReplay_sees: "bloom_ok B \<Longrightarrow> IsReplay B t k = Some (r, k') \<Longrightarrow> seen_tag B t k'"
  by (auto simp: IsReplay_def seen_tag_def bloom_ok_def split: if_splits prod.splits) (metis snd_conv)

lemma IsReplay_keeps: "bloom_ok B \<Longrightarrow> seen_tag B t k \<Longrightarrow> IsReplay B u k = Some (r, k') \<Longrightarrow> seen_tag B t k'"
  by (auto simp: IsReplay_def seen_tag_def bloom_ok_def split: if_splits prod.splits) (metis snd_conv)

lemma replay_run_keeps: "bloom_ok B \<Longrightarrow> seen_tag B t k \<Longrightarrow> replay_run B ts k = Some k' \<Longrightarrow> seen_tag B t k'"
proof (induction ts arbitrary: k)
  case (Cons u ts)
  then obtain r k1 where "IsReplay B u k = Some (r, k1)" "replay_run B ts k1 = Some k'"
    by (auto simp: bind_eq_Some_conv)
  with Cons show ?case using IsReplay_keeps by blast
qed simp

lemma IsReplay_key: "IsReplay B t k = Some (r, k') \<Longrightarrow> mk_keypair k' = mk_keypair k \<and> mk_epoch k' = mk_epoch k"
  by (auto simp: IsReplay_def split: if_splits prod.splits)

end
