(* ===== verification/Mix_Worker.thy ===== *)
theory Mix_Worker
  imports Mix_Packet Mix_Keys
begin

text \<open>
  \<open>src/server/internal/cryptoworker/crypto_worker.go\<close>: the workers that unwrap the packets of a mix, drop
  replays, and hand each packet to the scheduler, the decoy, the gateway or the service node. A worker's
  shadow of the key table maps epochs to keys in the shared store of \<open>Mix_Keys\<close>. The clock readings are
  parameters, and so is the decoy's \<open>ExpectReply\<close>; a packet that is accepted is returned with the address
  of the key and the replay tag it was accepted under, which the theorems speak about.
\<close>

section \<open>Unwrapping\<close>

datatype worker_error =
    errNoKeyForEpoch "64 word"
  | errUnwrap sphinx_error
  | errSet packet_error
  | errReplay
  | errNoSavedError

definition gracePeriod :: int where
  "gracePeriod = 2 * minute"

text \<open>The keys that may open a packet: the current epoch's, and near an epoch change a neighbour's.\<close>

definition candidate_keys :: "key_map \<Rightarrow> 64 word \<Rightarrow> int \<Rightarrow> int \<Rightarrow> (worker_error, nat list) outcome" where
  "candidate_keys mixKeys epoch elapsed till =
    (case map_of mixKeys epoch of
       None \<Rightarrow> Err (errNoKeyForEpoch epoch)
     | Some k \<Rightarrow>
         let other = (if elapsed < gracePeriod then map_of mixKeys (epoch - 1)
                      else if till < gracePeriod then map_of mixKeys (epoch + 1)
                      else None)
         in Ok (case other of None \<Rightarrow> [k] | Some k' \<Rightarrow> [k, k']))"

type_synonym ('nsk, 'ksk, 'f) mix_store = "(('nsk, 'ksk) privKey, 'f) key_store"

text \<open>A key without key pair has been closed; nobody who lists a key finds it closed (\<open>Mix_Keys\<close>).\<close>

fun try_keys ::
  "prims \<Rightarrow> ('nsk, 'npk, 'ksk, 'kpk) Sphinx \<Rightarrow> 'f bloom \<Rightarrow> Packet \<Rightarrow> nat list \<Rightarrow> worker_error option
     \<Rightarrow> ('nsk, 'ksk, 'f) mix_store \<Rightarrow> (worker_error, Packet \<times> nat \<times> bytes) outcome \<times> ('nsk, 'ksk, 'f) mix_store" where
  "try_keys p s B pkt [] lastErr st =
    (Err (case lastErr of None \<Rightarrow> errNoSavedError | Some e \<Rightarrow> e), st)"
| "try_keys p s B pkt (a # as) lastErr st =
    (case st a of None \<Rightarrow> (Panic, st) | Some k \<Rightarrow>
     case mk_keypair k of None \<Rightarrow> (Panic, st) | Some kp \<Rightarrow>
     case Unwrap p s kp (pkt_Raw pkt) of
       Panic \<Rightarrow> (Panic, st)
     | Err (e, _) \<Rightarrow> try_keys p s B pkt as (Some (errUnwrap e)) st
     | Ok (payload, tag, cmds, raw) \<Rightarrow>
         (case Set payload cmds (pkt\<lparr>pkt_Raw := raw\<rparr>) of
            Panic \<Rightarrow> (Panic, st)
          | Err e \<Rightarrow> (Err (errSet e), st)
          | Ok pkt' \<Rightarrow>
              (case IsReplay B tag k of
                 None \<Rightarrow> (Panic, st)
               | Some (True, k') \<Rightarrow> (Err errReplay, st(a \<mapsto> k'))
               | Some (False, k') \<Rightarrow> (Ok (pkt', a, tag), st(a \<mapsto> k')))))"

definition doUnwrap ::
  "prims \<Rightarrow> ('nsk, 'npk, 'ksk, 'kpk) Sphinx \<Rightarrow> 'f bloom \<Rightarrow> int \<Rightarrow> key_map \<Rightarrow> int \<Rightarrow> Packet
     \<Rightarrow> ('nsk, 'ksk, 'f) mix_store \<Rightarrow> (worker_error, Packet \<times> nat \<times> bytes) outcome \<times> ('nsk, 'ksk, 'f) mix_store" where
  "doUnwrap p s B Period mixKeys now pkt st =
    (case getEpoch Period now of None \<Rightarrow> (Panic, st) | Some (epoch, elapsed, till) \<Rightarrow>
     case candidate_keys mixKeys epoch elapsed till of
       Panic \<Rightarrow> (Panic, st)
     | Err e \<Rightarrow> (Err e, st)
     | Ok keys \<Rightarrow> try_keys p s B pkt keys None st)"

section \<open>Routing\<close>

record node_config =
  nc_IsGatewayNode :: bool
  nc_IsServiceNode :: bool
  nc_UnwrapDelay :: int
  nc_Period :: int

datatype drop_reason =
    UnwrapQueueDelay
  | UnwrapFailed worker_error
  | ForwardWithPayload
  | ForwardMustTerminate
  | DelayPastPossible
  | ZeroDelayQueued
  | MixNotForward
  | SendToLocalUser
  | InvalidPacket

datatype disposition =
    Dropped drop_reason
  | ToScheduler Packet
  | ToDecoy Packet
  | ToGateway Packet
  | ToService Packet

definition absoluteMinimumDelay :: int where
  "absoluteMinimumDelay = millisecond"

text \<open>The delay a forward packet gets, in nanoseconds, given its dwell time; \<open>None\<close> drops the packet.\<close>

definition adjusted_delay :: "int \<Rightarrow> 32 word \<Rightarrow> int \<Rightarrow> (drop_reason, int) outcome" where
  "adjusted_delay Period d dwellTime =
    (let delay = uint d * millisecond in
     if delay > int NumMixKeys * Period then Err DelayPastPossible
     else if delay > dwellTime then Ok (delay - dwellTime)
     else if d = 0 then
       (if dwellTime < absoluteMinimumDelay then Ok (absoluteMinimumDelay - dwellTime) else Err ZeroDelayQueued)
     else Ok absoluteMinimumDelay)"

definition routePacket :: "node_config \<Rightarrow> (Packet \<Rightarrow> bool) \<Rightarrow> Packet \<Rightarrow> int \<Rightarrow> disposition" where
  "routePacket cfg ExpectReply pkt startAt =
    (let dwellTime = startAt - pkt_RecvAt pkt in
     if IsForward pkt then
       (if pkt_Payload pkt \<noteq> None then Dropped ForwardWithPayload
        else if pkt_MustTerminate pkt then Dropped ForwardMustTerminate
        else case pkt_NodeDelay pkt of
          Some (NodeDelay d) \<Rightarrow>
            (case adjusted_delay (nc_Period cfg) d dwellTime of
               Ok delay \<Rightarrow> ToScheduler (pkt\<lparr>pkt_Delay := delay\<rparr>)
             | Err r \<Rightarrow> Dropped r
             | Panic \<Rightarrow> Dropped InvalidPacket)
        | _ \<Rightarrow> Dropped InvalidPacket)
     else if \<not> nc_IsGatewayNode cfg \<and> \<not> nc_IsServiceNode cfg then
       (if IsSURBReply pkt \<and> ExpectReply pkt then ToDecoy pkt else Dropped MixNotForward)
     else if pkt_MustForward pkt then Dropped SendToLocalUser
     else if IsSURBReply pkt \<and> ExpectReply pkt then ToDecoy pkt
     else if nc_IsGatewayNode cfg then ToGateway (pkt\<lparr>pkt_DispatchAt := startAt\<rparr>)
     else if nc_IsServiceNode cfg then ToService (pkt\<lparr>pkt_DispatchAt := startAt\<rparr>)
     else Dropped InvalidPacket)"

text \<open>One packet through the worker; \<open>None\<close> is a panic. The last component is what was accepted.\<close>

definition worker_packet ::
  "prims \<Rightarrow> ('nsk, 'npk, 'ksk, 'kpk) Sphinx \<Rightarrow> 'f bloom \<Rightarrow> node_config \<Rightarrow> (Packet \<Rightarrow> bool) \<Rightarrow> key_map
     \<Rightarrow> int \<times> int \<Rightarrow> Packet \<Rightarrow> ('nsk, 'ksk, 'f) mix_store
     \<Rightarrow> (disposition \<times> (nat \<times> bytes) option \<times> ('nsk, 'ksk, 'f) mix_store) option" where
  "worker_packet p s B cfg ExpectReply mixKeys clocks pkt st =
    (let (startAt, now) = clocks;
         dwellTime = startAt - pkt_RecvAt pkt
     in if dwellTime > nc_UnwrapDelay cfg * millisecond then Some (Dropped UnwrapQueueDelay, None, st)
        else case doUnwrap p s B (nc_Period cfg) mixKeys now pkt st of
          (Panic, st') \<Rightarrow> None
        | (Err e, st') \<Rightarrow> Some (Dropped (UnwrapFailed e), None, st')
        | (Ok (pkt', a, tag), st') \<Rightarrow> Some (routePacket cfg ExpectReply pkt' startAt, Some (a, tag), st'))"

fun worker_run ::
  "prims \<Rightarrow> ('nsk, 'npk, 'ksk, 'kpk) Sphinx \<Rightarrow> 'f bloom \<Rightarrow> node_config \<Rightarrow> (Packet \<Rightarrow> bool)
     \<Rightarrow> (key_map \<times> (int \<times> int) \<times> Packet) list \<Rightarrow> ('nsk, 'ksk, 'f) mix_store
     \<Rightarrow> ((disposition \<times> (nat \<times> bytes) option) list \<times> ('nsk, 'ksk, 'f) mix_store) option" where
  "worker_run p s B cfg X [] st = Some ([], st)"
| "worker_run p s B cfg X ((mixKeys, clocks, pkt) # pkts) st =
    (case worker_packet p s B cfg X mixKeys clocks pkt st of
       None \<Rightarrow> None
     | Some (d, acc, st') \<Rightarrow>
         map_option (\<lambda>(ds, st''). ((d, acc) # ds, st'')) (worker_run p s B cfg X pkts st'))"

section \<open>Delays\<close>

lemma adjusted_delay_bounds:
  assumes "adjusted_delay Period d dwell = Ok delay" and "0 \<le> dwell"
  shows "0 < delay \<and> delay \<le> max absoluteMinimumDelay (int NumMixKeys * Period) \<and>
    (dwell < uint d * millisecond \<longrightarrow> delay = uint d * millisecond - dwell)"
  using assms
  by (auto simp: adjusted_delay_def Let_def absoluteMinimumDelay_def millisecond_def split: if_splits)

text \<open>
  C17. What a crypto worker hands to the scheduler is a forward packet without payload that still has to wait
  for some time, so that some mixing happens, and never longer than the life of the mix keys; a requested
  delay that exceeds the time already spent in the queue is honoured exactly.
\<close>

theorem routePacket_schedules:
  assumes "routePacket cfg X pkt startAt = ToScheduler pkt'" and "pkt_RecvAt pkt \<le> startAt"
    and "millisecond \<le> int NumMixKeys * nc_Period cfg"
  shows "IsForward pkt \<and> pkt_Payload pkt = None \<and> \<not> pkt_MustTerminate pkt \<and> pkt_Raw pkt' = pkt_Raw pkt \<and>
    pkt_NextNodeHop pkt' = pkt_NextNodeHop pkt \<and>
    0 < pkt_Delay pkt' \<and> pkt_Delay pkt' \<le> int NumMixKeys * nc_Period cfg \<and>
    (\<exists>d. pkt_NodeDelay pkt = Some (NodeDelay d) \<and>
       (startAt - pkt_RecvAt pkt < uint d * millisecond \<longrightarrow>
          pkt_Delay pkt' = uint d * millisecond - (startAt - pkt_RecvAt pkt)))"
proof -
  let ?dwell = "startAt - pkt_RecvAt pkt"
  obtain d delay where d: "pkt_NodeDelay pkt = Some (NodeDelay d)" "adjusted_delay (nc_Period cfg) d ?dwell = Ok delay"
    "pkt' = pkt\<lparr>pkt_Delay := delay\<rparr>" "IsForward pkt" "pkt_Payload pkt = None" "\<not> pkt_MustTerminate pkt"
    using assms(1)
    by (auto simp: routePacket_def Let_def split: if_splits option.splits RoutingCommand.splits outcome.splits)
  have "0 \<le> ?dwell" using assms(2) by simp
  from adjusted_delay_bounds [OF d(2) this] d assms(3) show ?thesis by (auto simp: absoluteMinimumDelay_def)
qed

definition toy_packet :: Packet where
  "toy_packet =
    \<lparr>pkt_Geometry = toy_geometry, pkt_Raw = [1, 2], pkt_Payload = None, pkt_NextNodeHop = Some (NextNodeHop (zeros 32) (zeros 32)),
     pkt_NodeDelay = Some (NodeDelay 50), pkt_Recipient = None, pkt_SurbReply = None, pkt_ID = 1, pkt_Delay = 0,
     pkt_RecvAt = 1000000, pkt_DispatchAt = 0, pkt_MustForward = False, pkt_MustTerminate = False\<rparr>"

definition mix_config :: node_config where
  "mix_config = \<lparr>nc_IsGatewayNode = False, nc_IsServiceNode = False, nc_UnwrapDelay = 250, nc_Period = default_Period\<rparr>"

theorem routePacket_schedules_witness:
  "routePacket mix_config (\<lambda>_. False) toy_packet 3000000 = ToScheduler (toy_packet\<lparr>pkt_Delay := 48000000\<rparr>) \<and>
   0 < pkt_Delay (toy_packet\<lparr>pkt_Delay := 48000000\<rparr>)"
proof -
  have r: "routePacket mix_config (\<lambda>_. False) toy_packet 3000000 = ToScheduler (toy_packet\<lparr>pkt_Delay := 48000000\<rparr>)"
    by (simp add: routePacket_def IsForward_def toy_packet_def mix_config_def adjusted_delay_def NumMixKeys_def
        default_Period_def minute_def second_def millisecond_def)
  moreover have "0 < pkt_Delay (toy_packet\<lparr>pkt_Delay := 48000000\<rparr>)"
    using routePacket_schedules [OF r]
    by (simp add: toy_packet_def mix_config_def NumMixKeys_def default_Period_def minute_def second_def millisecond_def)
  ultimately show ?thesis ..
qed

section \<open>Replays\<close>

definition store_seen :: "'f bloom \<Rightarrow> ('k, 'f) key_store \<Rightarrow> nat \<Rightarrow> bytes \<Rightarrow> bool" where
  "store_seen B st a t = (\<exists>k. st a = Some k \<and> seen_tag B t k)"

lemma store_seen_upd:
  assumes "bloom_ok B" and "st a = Some k" and "IsReplay B u k = Some (r, k')"
  shows "store_seen B st b t \<Longrightarrow> store_seen B (st(a \<mapsto> k')) b t" and "store_seen B (st(a \<mapsto> k')) a u"
  using assms IsReplay_keeps [OF assms(1) _ assms(3)] IsReplay_sees [OF assms(1,3)] by (auto simp: store_seen_def)

lemma try_keys_seen:
  "try_keys p s B pkt as e st = (r, st') \<Longrightarrow> bloom_ok B \<Longrightarrow> store_seen B st b t \<Longrightarrow> store_seen B st' b t"
proof (induction p s B pkt as e st rule: try_keys.induct)
  case (2 p s B pkt a as e st)
  then show ?case
    by (auto split: option.splits outcome.splits prod.splits bool.splits dest: store_seen_upd(1))
qed auto

lemma try_keys_accepts:
  "try_keys p s B pkt as e st = (Ok (pkt', a, tag), st') \<Longrightarrow>
     \<exists>k k'. st a = Some k \<and> IsReplay B tag k = Some (False, k') \<and> st' = st(a \<mapsto> k')"
proof (induction p s B pkt as e st rule: try_keys.induct)
  case (2 p s B pkt a as e st)
  then show ?case by (auto split: option.splits outcome.splits prod.splits bool.splits)
qed auto

lemma doUnwrap_cases:
  assumes "doUnwrap p s B Period mixKeys now pkt st = (r, st')"
  obtains as where "try_keys p s B pkt as None st = (r, st')" | "st' = st" and "r = Panic \<or> (\<exists>e. r = Err e)"
  using assms by (auto simp: doUnwrap_def split: option.splits prod.splits outcome.splits)

lemma worker_packet_seen:
  assumes "worker_packet p s B cfg X mixKeys clocks pkt st = Some (d, acc, st')" and "bloom_ok B"
  shows "store_seen B st b t \<Longrightarrow> store_seen B st' b t"
    and "acc = Some (a, tag) \<Longrightarrow> \<not> store_seen B st a tag \<and> store_seen B st' a tag"
proof -
  obtain startAt now where clk: "clocks = (startAt, now)" by fastforce
  consider "st' = st" "acc = None"
    | r as where "try_keys p s B pkt as None st = (r, st')" "acc \<noteq> None \<longrightarrow> (\<exists>pkt'. r = Ok (pkt', the acc))"
    using assms(1) clk
    by (auto simp: worker_packet_def Let_def split: if_splits prod.splits outcome.splits elim!: doUnwrap_cases)
  note cs = this
  show "store_seen B st b t \<Longrightarrow> store_seen B st' b t"
    using cs by cases (use try_keys_seen assms(2) in blast)+
  show "acc = Some (a, tag) \<Longrightarrow> \<not> store_seen B st a tag \<and> store_seen B st' a tag"
    using cs
  proof cases
    case (2 r as)
    assume "acc = Some (a, tag)"
    with 2 obtain pkt' where "try_keys p s B pkt as None st = (Ok (pkt', a, tag), st')" by auto
    from try_keys_accepts [OF this] obtain k k' where k: "st a = Some k" "IsReplay B tag k = Some (False, k')" "st' = st(a \<mapsto> k')"
      by blast
    then show ?thesis using store_seen_upd(2) [of B st a k tag False, OF assms(2) k(1,2)] IsReplay_result [OF k(2)] by (auto simp: store_seen_def)
  qed simp
qed

text \<open>What a run accepted, as pairs of key and replay tag.\<close>

definition accepted :: "(disposition \<times> (nat \<times> bytes) option) list \<Rightarrow> (nat \<times> bytes) list" where
  "accepted ds = List.map_filter snd ds"

lemma worker_run_fresh:
  "worker_run p s B cfg X pkts st = Some (ds, st') \<Longrightarrow> bloom_ok B \<Longrightarrow>
     distinct (accepted ds) \<and> (\<forall>(a, tag)\<in>set (accepted ds). \<not> store_seen B st a tag)"
proof (induction p s B cfg X pkts st arbitrary: ds rule: worker_run.induct)
  case (2 p s B cfg X mixKeys clocks pkt pkts st)
  then obtain d acc st1 ds1 where w: "worker_packet p s B cfg X mixKeys clocks pkt st = Some (d, acc, st1)"
    and r: "worker_run p s B cfg X pkts st1 = Some (ds1, st')" and ds: "ds = (d, acc) # ds1"
    by (auto split: option.splits)
  have IH: "distinct (accepted ds1)" "\<forall>(a, tag)\<in>set (accepted ds1). \<not> store_seen B st1 a tag"
    using 2(1) [OF w refl refl r 2(3)] by auto
  have "\<forall>(a, tag)\<in>set (accepted ds1). \<not> store_seen B st a tag"
    using IH(2) worker_packet_seen(1) [OF w 2(3)] by blast
  then show ?case
    using IH worker_packet_seen(2) [OF w 2(3)] by (cases acc) (auto simp: ds accepted_def List.map_filter_simps)
qed (simp add: accepted_def List.map_filter_simps)

text \<open>
  C18. Replay protection: whatever packets arrive, in whatever order and at whatever crypto worker, the pairs
  of mix key and replay tag under which a node accepts packets are all different; a packet whose tag has
  been seen under its key is never accepted again.
\<close>

theorem no_replays:
  assumes "bloom_ok B" and "worker_run p s B cfg X pkts st = Some (ds, st')"
  shows "distinct (accepted ds)"
  using worker_run_fresh [OF assms(2,1)] by simp

end
