(* ===== verification/Mix_Network.thy ===== *)
theory Mix_Network
  imports Mix_Worker
begin

text \<open>
  A packet on its way through the crypto workers of several servers: the composition of the packet formats
  (\<open>Sphinx_NIKE\<close>, \<open>Sphinx_KEM\<close>) with the packet handling of \<open>Mix_Packet\<close>, the key table of \<open>Mix_Keys\<close> and the
  workers of \<open>Mix_Worker\<close>. Each server wraps the bytes it receives in a packet, its worker unwraps and routes
  it, and what goes to the scheduler is the input of the next server.
\<close>

section \<open>A chain of servers\<close>

record ('nsk, 'ksk, 'f) node =
  nd_cfg :: node_config
  nd_expect :: "Packet \<Rightarrow> bool"
  nd_mixKeys :: key_map
  nd_store :: "('nsk, 'ksk, 'f) mix_store"
  nd_recvAt :: int
  nd_startAt :: int
  nd_now :: int

definition node_packet ::
  "prims \<Rightarrow> ('nsk, 'npk, 'ksk, 'kpk) Sphinx \<Rightarrow> 'f bloom \<Rightarrow> ('nsk, 'ksk, 'f) node \<Rightarrow> bytes \<Rightarrow> disposition option" where
  "node_packet p s B n raw =
    (case NewWithID raw 1 (s_geometry s) of
       Ok pkt \<Rightarrow>
         map_option fst (worker_packet p s B (nd_cfg n) (nd_expect n) (nd_mixKeys n) (nd_startAt n, nd_now n)
           (pkt\<lparr>pkt_RecvAt := nd_recvAt n\<rparr>) (nd_store n))
     | _ \<Rightarrow> None)"

fun network ::
  "prims \<Rightarrow> ('nsk, 'npk, 'ksk, 'kpk) Sphinx \<Rightarrow> 'f bloom \<Rightarrow> ('nsk, 'ksk, 'f) node list \<Rightarrow> bytes \<Rightarrow> disposition list option" where
  "network p s B [] raw = Some []"
| "network p s B (n # ns) raw =
    (case node_packet p s B n raw of
       None \<Rightarrow> None
     | Some (ToScheduler pkt) \<Rightarrow> map_option ((#) (ToScheduler pkt)) (network p s B ns (pkt_Raw pkt))
     | Some d \<Rightarrow> Some [d])"

text \<open>A server whose first candidate key is \<open>kp\<close>, whose replay filter is not full, and that is not overloaded.\<close>

definition node_ready :: "'f bloom \<Rightarrow> ('nsk, 'ksk) privKey \<Rightarrow> ('nsk, 'ksk, 'f) node \<Rightarrow> bool" where
  "node_ready B kp n =
    ((\<exists>epoch elapsed till a rest k.
        getEpoch (nc_Period (nd_cfg n)) (nd_now n) = Some (epoch, elapsed, till) \<and>
        candidate_keys (nd_mixKeys n) epoch elapsed till = Ok (a # rest) \<and>
        nd_store n a = Some k \<and> mk_keypair k = Some kp \<and> bf_Entries B (mk_f k) < bf_MaxEntries B (mk_f k)) \<and>
     nd_startAt n - nd_recvAt n \<le> nc_UnwrapDelay (nd_cfg n) * millisecond)"

text \<open>The roles of the servers on the path: mixes that can honour the delay, and a service node at the end.\<close>

fun roles_ok :: "('nsk, 'ksk, 'f) node list \<Rightarrow> ('npk, 'kpk) PathHop list \<Rightarrow> bool" where
  "roles_ok [n] [h] =
    (nc_IsServiceNode (nd_cfg n) \<and> \<not> nc_IsGatewayNode (nd_cfg n) \<and> (\<exists>r. hop_Commands h = [Recipient r]))"
| "roles_ok (n # ns) (h # h' # hs) =
    ((\<exists>d. hop_Commands h = [NodeDelay d] \<and> nd_startAt n - nd_recvAt n < uint d * millisecond \<and>
       uint d * millisecond \<le> int NumMixKeys * nc_Period (nd_cfg n)) \<and> roles_ok ns (h' # hs))"
| "roles_ok _ _ = False"

text \<open>What should happen: every mix schedules the packet for the next hop, after the rest of its delay.\<close>

fun delivered_as ::
  "('nsk, 'ksk, 'f) node list \<Rightarrow> ('npk, 'kpk) PathHop list \<Rightarrow> bytes \<Rightarrow> disposition list \<Rightarrow> bool" where
  "delivered_as [n] [h] payload ds =
    (\<exists>pkt. ds = [ToService pkt] \<and> pkt_Payload pkt = Some payload \<and>
       hop_Commands h = [the (pkt_Recipient pkt)] \<and> pkt_Recipient pkt \<noteq> None)"
| "delivered_as (n # ns) (h # h' # hs) payload ds =
    (\<exists>pkt ds' d mac. ds = ToScheduler pkt # ds' \<and> hop_Commands h = [NodeDelay d] \<and>
       pkt_NextNodeHop pkt = Some (NextNodeHop (hop_ID h') mac) \<and>
       pkt_Delay pkt = uint d * millisecond - (nd_startAt n - nd_recvAt n) \<and> delivered_as ns (h' # hs) payload ds')"
| "delivered_as _ _ _ _ = False"

definition replay_dropped :: "disposition list \<Rightarrow> bool" where
  "replay_dropped ds = (ds \<noteq> [] \<and> last ds = Dropped (UnwrapFailed errReplay))"

section \<open>One server\<close>

lemma worker_packet_run:
  assumes "node_ready B kp n"
    and "Unwrap p s kp (pkt_Raw pkt) = Ok (payload, tag, cmds, raw)"
    and "Set payload cmds (pkt\<lparr>pkt_Raw := raw\<rparr>) = Ok pkt'" and "pkt_RecvAt pkt = nd_recvAt n"
  shows "map_option fst (worker_packet p s B (nd_cfg n) X (nd_mixKeys n) (nd_startAt n, nd_now n) pkt (nd_store n))
     \<in> {Some (routePacket (nd_cfg n) X pkt' (nd_startAt n)), Some (Dropped (UnwrapFailed errReplay))}"
proof -
  obtain epoch elapsed till a rest k where
    e: "getEpoch (nc_Period (nd_cfg n)) (nd_now n) = Some (epoch, elapsed, till)"
    and c: "candidate_keys (nd_mixKeys n) epoch elapsed till = Ok (a # rest)"
    and k: "nd_store n a = Some k" "mk_keypair k = Some kp" "bf_Entries B (mk_f k) < bf_MaxEntries B (mk_f k)"
    and slack: "nd_startAt n - nd_recvAt n \<le> nc_UnwrapDelay (nd_cfg n) * millisecond"
    using assms(1) by (auto simp: node_ready_def)
  have "\<exists>seen k'. IsReplay B tag k = Some (seen, k')"
    using k(3) by (auto simp: IsReplay_def split: prod.splits)
  then obtain seen k' where "IsReplay B tag k = Some (seen, k')" by blast
  then show ?thesis
    using e c k assms slack by (cases seen) (simp_all add: worker_packet_def doUnwrap_def)
qed

lemma node_packet_run:
  assumes "node_ready B kp n" and "length raw = PacketLength (s_geometry s)"
    and "Unwrap p s kp raw = Ok (payload, tag, cmds, raw')"
    and "\<And>pkt0. pkt_NextNodeHop pkt0 = None \<Longrightarrow> pkt_NodeDelay pkt0 = None \<Longrightarrow> pkt_Recipient pkt0 = None \<Longrightarrow>
      pkt_SurbReply pkt0 = None \<Longrightarrow> pkt_Payload pkt0 = None \<Longrightarrow> \<not> pkt_MustForward pkt0 \<Longrightarrow> \<not> pkt_MustTerminate pkt0 \<Longrightarrow>
      pkt_RecvAt pkt0 = nd_recvAt n \<Longrightarrow> pkt_Raw pkt0 = raw' \<Longrightarrow>
      \<exists>pkt'. Set payload cmds pkt0 = Ok pkt' \<and> routePacket (nd_cfg n) (nd_expect n) pkt' (nd_startAt n) = D pkt' \<and> Q pkt'"
  shows "(\<exists>pkt'. node_packet p s B n raw = Some (D pkt') \<and> Q pkt') \<or>
    node_packet p s B n raw = Some (Dropped (UnwrapFailed errReplay))"
proof -
  obtain pkt where pkt: "NewWithID raw 1 (s_geometry s) = Ok pkt" and raw: "pkt_Raw pkt = raw"
    and fresh: "pkt_NextNodeHop pkt = None" "pkt_NodeDelay pkt = None" "pkt_Recipient pkt = None" "pkt_SurbReply pkt = None"
      "pkt_Payload pkt = None" "\<not> pkt_MustForward pkt" "\<not> pkt_MustTerminate pkt"
    using assms(2) by (simp add: NewWithID_def copyToRaw_def go_copy_same_length)
  define pkt1 where "pkt1 = pkt\<lparr>pkt_RecvAt := nd_recvAt n\<rparr>"
  obtain pkt' where set: "Set payload cmds (pkt1\<lparr>pkt_Raw := raw'\<rparr>) = Ok pkt'"
    and D: "routePacket (nd_cfg n) (nd_expect n) pkt' (nd_startAt n) = D pkt'" and Q: "Q pkt'"
    using assms(4) [of "pkt1\<lparr>pkt_Raw := raw'\<rparr>"] fresh by (auto simp: pkt1_def)
  have "Unwrap p s kp (pkt_Raw pkt1) = Ok (payload, tag, cmds, raw')" using assms(3) raw by (simp add: pkt1_def)
  moreover have "node_packet p s B n raw = map_option fst (worker_packet p s B (nd_cfg n) (nd_expect n) (nd_mixKeys n)
      (nd_startAt n, nd_now n) pkt1 (nd_store n))" by (simp add: node_packet_def pkt pkt1_def)
  moreover have "pkt_RecvAt pkt1 = nd_recvAt n" by (simp add: pkt1_def)
  ultimately have "node_packet p s B n raw \<in> {Some (D pkt'), Some (Dropped (UnwrapFailed errReplay))}"
    using worker_packet_run [OF assms(1) _ set, of p s tag "nd_expect n"] D by simp
  then show ?thesis using Q by auto
qed

lemma node_forwards:
  assumes "node_ready B kp n" and "length raw = PacketLength (s_geometry s)"
    and "Unwrap p s kp raw = Ok (None, tag, [NodeDelay d, NextNodeHop i mac], raw')"
    and "nd_startAt n - nd_recvAt n < uint d * millisecond" and "uint d * millisecond \<le> int NumMixKeys * nc_Period (nd_cfg n)"
  shows "(\<exists>pkt. node_packet p s B n raw = Some (ToScheduler pkt) \<and> pkt_Raw pkt = raw' \<and>
       pkt_NextNodeHop pkt = Some (NextNodeHop i mac) \<and>
       pkt_Delay pkt = uint d * millisecond - (nd_startAt n - nd_recvAt n)) \<or>
     node_packet p s B n raw = Some (Dropped (UnwrapFailed errReplay))"
proof -
  let ?delay = "uint d * millisecond - (nd_startAt n - nd_recvAt n)"
  have ad: "adjusted_delay (nc_Period (nd_cfg n)) d (nd_startAt n - nd_recvAt n) = Ok ?delay"
    using assms(4,5) by (simp add: adjusted_delay_def)
  have "(\<exists>pkt. node_packet p s B n raw = Some (ToScheduler (pkt\<lparr>pkt_Delay := ?delay\<rparr>)) \<and>
      pkt_Raw pkt = raw' \<and> pkt_NextNodeHop pkt = Some (NextNodeHop i mac)) \<or>
    node_packet p s B n raw = Some (Dropped (UnwrapFailed errReplay))"
    by (rule node_packet_run [OF assms(1-3)]) (simp add: Set_def routePacket_def IsForward_def Let_def ad)
  then show ?thesis by fastforce
qed

lemma node_serves:
  assumes "node_ready B kp n" and "length raw = PacketLength (s_geometry s)"
    and "Unwrap p s kp raw = Ok (Some pl, tag, [Recipient r], raw')"
    and "nc_IsServiceNode (nd_cfg n)" and "\<not> nc_IsGatewayNode (nd_cfg n)"
  shows "(\<exists>pkt. node_packet p s B n raw = Some (ToService pkt) \<and> pkt_Payload pkt = Some pl \<and> pkt_Recipient pkt = Some (Recipient r)) \<or>
     node_packet p s B n raw = Some (Dropped (UnwrapFailed errReplay))"
proof -
  have "(\<exists>pkt. node_packet p s B n raw = Some (ToService (pkt\<lparr>pkt_DispatchAt := nd_startAt n\<rparr>)) \<and>
      pkt_Payload pkt = Some pl \<and> pkt_Recipient pkt = Some (Recipient r)) \<or>
    node_packet p s B n raw = Some (Dropped (UnwrapFailed errReplay))"
    by (rule node_packet_run [OF assms(1-3)])
      (simp add: Set_def routePacket_def IsForward_def IsSURBReply_def Let_def assms(4,5))
  then show ?thesis by fastforce
qed

section \<open>The path\<close>

context onion
begin

lemma network_path:
  assumes "layered hs hdr" and "hs \<noteq> []" and "body \<noteq> []"
    and "decrypt_payload p (map oh_keys hs) body = Some plain"
    and "terminal_payload g (find is_SURBReply (hop_Commands (oh_hop (last hs)))) plain = Ok pl"
    and "\<And>sk raw. Unwrap p s (mk sk) raw = unwrap sk raw" and "s_geometry s = g"
    and "length (hdr @ body) = PacketLength g"
    and "list_all2 (\<lambda>h n. node_ready B (mk (oh_sk h)) n) hs ns" and "roles_ok ns (map oh_hop hs)"
  shows "\<exists>ds. network p s B ns (hdr @ body) = Some ds \<and> (delivered_as ns (map oh_hop hs) pl ds \<or> replay_dropped ds)"
  using assms
proof (induction hs arbitrary: hdr body ns)
  case (Cons h hs)
  let ?K = "PayloadEncryption (oh_keys h)" and ?IV = "HeaderEncryptionIV (oh_keys h)"
  obtain n ns' where ns: "ns = n # ns'" and ready: "node_ready B (mk (oh_sk h)) n"
    and readys: "list_all2 (\<lambda>h n. node_ready B (mk (oh_sk h)) n) hs ns'"
    using Cons.prems(9) by (auto simp: list_all2_Cons1)
  from Cons.prems(4) obtain body' where body': "SPRPDecrypt p ?K ?IV body = Some body'"
    and plain: "decrypt_payload p (map oh_keys hs) body' = Some plain" by (auto simp: bind_eq_Some_conv)
  have lb: "length body' = length body"
    using SPRPDecrypt_total [OF prims [OF Cons.prems(1)], of ?K ?IV body] body' by (metis option.inject)
  show ?case
  proof (cases hs)
    case Nil
    then have ns': "ns' = []" using readys by simp
    obtain r where r: "hop_Commands (oh_hop h) = [Recipient r]" and role: "nc_IsServiceNode (nd_cfg n)" "\<not> nc_IsGatewayNode (nd_cfg n)"
      using Cons.prems(10) by (auto simp: ns ns' Nil)
    obtain tag where "unwrap (oh_sk h) (hdr @ body) = Ok (Some pl, tag, [Recipient r], hdr @ body)"
      using arrive [OF _ _ body', of hdr pl] Cons.prems(1,3,5) plain Nil r by auto
    then have "(\<exists>pkt. node_packet p s B n (hdr @ body) = Some (ToService pkt) \<and> pkt_Payload pkt = Some pl \<and>
        pkt_Recipient pkt = Some (Recipient r)) \<or> node_packet p s B n (hdr @ body) = Some (Dropped (UnwrapFailed errReplay))"
      using Cons.prems(6-8) by (intro node_serves [OF ready _ _ role]) simp_all
    then show ?thesis by (auto simp: ns ns' Nil r replay_dropped_def)
  next
    case Hs: (Cons h' hs')
    then obtain n' ns'' where ns': "ns' = n' # ns''" using readys by (auto simp: list_all2_Cons1)
    obtain d where d: "hop_Commands (oh_hop h) = [NodeDelay d]" "nd_startAt n - nd_recvAt n < uint d * millisecond"
      "uint d * millisecond \<le> int NumMixKeys * nc_Period (nd_cfg n)" and roles: "roles_ok ns' (map oh_hop hs)"
      using Cons.prems(10) by (auto simp: ns ns' Hs)
    obtain tag mac hdr' where u: "unwrap (oh_sk h) (hdr @ body) =
        Ok (None, tag, [NodeDelay d, NextNodeHop (hop_ID (oh_hop h')) mac], hdr' @ body')"
      and l: "layered hs hdr'" and lh: "length hdr' = length hdr"
      using forward [OF _ _ body', of h' hs' hdr] Cons.prems(1,3) Hs d(1) by auto
    have "body' \<noteq> []" using lb Cons.prems(3) by auto
    then obtain ds where ds: "network p s B ns' (hdr' @ body') = Some ds" "delivered_as ns' (map oh_hop hs) pl ds \<or> replay_dropped ds"
      using Cons.IH [OF l _ _ plain _ Cons.prems(6,7) _ readys roles] Cons.prems(5,8) Hs lb lh by auto
    have "(\<exists>pkt. node_packet p s B n (hdr @ body) = Some (ToScheduler pkt) \<and> pkt_Raw pkt = hdr' @ body' \<and>
       pkt_NextNodeHop pkt = Some (NextNodeHop (hop_ID (oh_hop h')) mac) \<and>
       pkt_Delay pkt = uint d * millisecond - (nd_startAt n - nd_recvAt n)) \<or>
     node_packet p s B n (hdr @ body) = Some (Dropped (UnwrapFailed errReplay))"
      using u Cons.prems(6-8) by (intro node_forwards [OF ready _ _ d(2,3)]) simp_all
    then show ?thesis using ds by (auto simp: ns ns' Hs d(1) replay_dropped_def)
  qed
qed simp

lemma network_forward:
  assumes "layered (zip sks (zip path keys)) hdr" and "length sks = length path" and "length keys = length path"
    and "path \<noteq> []" and "list_all keys_wf keys" and "PayloadTagLength g = 32"
    and "find is_SURBReply (hop_Commands (last path)) = None"
    and "\<And>sk raw. Unwrap p s (mk sk) raw = unwrap sk raw" and "s_geometry s = g"
    and "length hdr + 32 + length payload = PacketLength g"
    and "list_all2 (\<lambda>sk n. node_ready B (mk sk) n) sks ns" and "roles_ok ns path"
  shows "\<exists>ds. network p s B ns (hdr @ encrypt_payload p (map sprp_of_keys keys) (zeros 32 @ payload)) = Some ds \<and>
     (delivered_as ns path payload ds \<or> replay_dropped ds)"
proof -
  have p: "prims_ok p" by (rule prims [OF assms(1)])
  let ?hs = "zip sks (zip path keys)"
  let ?body = "encrypt_payload p (map sprp_of_keys keys) (zeros 32 @ payload)"
  note maps = onion_hops_zip [OF assms(2,3)]
  have ne: "?hs \<noteq> []" using assms(2-4) maps(2) by auto
  have last: "oh_hop (last ?hs) = last path" using last_map [OF ne, of oh_hop] maps(2) by simp
  have body: "?body \<noteq> []" "length ?body = 32 + length payload" using p by (auto simp flip: length_0_conv)
  have ready: "list_all2 (\<lambda>h n. node_ready B (mk (oh_sk h)) n) ?hs ns"
    using assms(11) maps(1) list_all2_map1 [of "\<lambda>sk n. node_ready B (mk sk) n" oh_sk ?hs ns] by simp
  have "\<exists>ds. network p s B ns (hdr @ ?body) = Some ds \<and> (delivered_as ns (map oh_hop ?hs) payload ds \<or> replay_dropped ds)"
    using network_path [OF assms(1) ne body(1) _ _ assms(8,9) _ ready, of "zeros 32 @ payload" payload]
      decrypt_encrypt_payload [OF p assms(5)] maps last assms(6,7,10,12) body(2)
    by (simp add: terminal_payload_def)
  then show ?thesis using maps(2) by simp
qed

end

text \<open>
  C19. The mix network delivers: a packet made by \<open>newNikePacket\<close> for a path of servers that hold the keys of
  the path, have room in their replay filters and are not overloaded is accepted by the crypto worker of
  every server. Each mix hands it to its scheduler, addressed to the next hop and with what remains of the
  delay that the sender asked of it, and the service node at the end gets the payload. The only other outcome is
  that a server takes the packet for a replay.
\<close>

theorem mix_network_delivers:
  fixes N :: "('nsk, 'npk) nike_scheme" and path :: "('npk, 'kpk) PathHop list"
    and ns :: "('nsk, 'ksk, 'f) node list"
  assumes "prims_ok p" and "nike_ok N" and "rnd_ok rnd"
    and "GeometryFromUserForwardPayloadLength N u withSURB m = (Ok g :: (geo_error, Geometry) outcome)"
    and "nike_path N g sks path" and "length payload = ForwardPayloadLength g"
    and "list_all2 (\<lambda>sk n. node_ready B (NikePrivate sk) n) sks ns" and "roles_ok ns path"
  shows "\<exists>pkt ds. newNikePacket p N g (Some (nike_DerivePublicKey N csk, csk)) rnd path payload = Ok pkt \<and>
     network p (NewNIKESphinx (Some N) g :: ('nsk, 'npk, 'ksk, 'kpk) Sphinx) B ns pkt = Some ds \<and>
     (delivered_as ns path payload ds \<or> replay_dropped ds)"
proof -
  let ?s = "NewNIKESphinx (Some N) g :: ('nsk, 'npk, 'ksk, 'kpk) Sphinx"
  have geo: "geo_consistent g (nike_PublicKeySize N) 0" by (rule nike_geometry_consistent [OF assms(4)])
  obtain hdr keys where hdr: "createHeader p N g (Some (nike_DerivePublicKey N csk, csk)) rnd path = Ok (hdr, map sprp_of_keys keys)"
    and lh: "length hdr = HeaderLength g" and wf: "list_all keys_wf keys" and lk: "length keys = length path"
    and lay: "nike_layered p N g (zip sks (zip path keys)) hdr"
    by (rule createHeader_ok [OF assms(1,2) geo assms(5,3)])
  have ls: "length sks = length path" and ne: "path \<noteq> []" using assms(5) by (auto simp: nike_path_def dest: list_all2_lengthD)
  have tag: "PayloadTagLength g = 32" and len: "length hdr + 32 + length payload = PacketLength g"
    using geo lh assms(6) by (simp_all add: geo_consistent_def)
  have "\<exists>r. hop_Commands (last path) = [Recipient r]" using assms(8) by (induction ns path rule: roles_ok.induct) auto
  then have surb: "find is_SURBReply (hop_Commands (last path)) = None" by auto
  have "\<exists>ds. network p ?s B ns (hdr @ encrypt_payload p (map sprp_of_keys keys) (zeros 32 @ payload)) = Some ds \<and>
     (delivered_as ns path payload ds \<or> replay_dropped ds)"
    by (rule nike_onion.network_forward [OF lay ls lk ne wf tag surb _ _ len assms(7,8)])
      (simp_all add: Unwrap_def NewNIKESphinx_def)
  then show ?thesis using newNikePacket_eq [OF assms(1) geo assms(6) hdr] by blast
qed

text \<open>Two servers with fresh keys, for the toy schemes and the toy path.\<close>

definition toy_node :: "byte \<Rightarrow> bool \<Rightarrow> (byte, byte, bytes list) node" where
  "toy_node sk service =
    \<lparr>nd_cfg = mix_config\<lparr>nc_IsServiceNode := service\<rparr>, nd_expect = (\<lambda>_. False), nd_mixKeys = [(169770, 0)],
     nd_store = [0 \<mapsto> \<lparr>mk_keypair = Some (NikePrivate sk), mk_epoch = 169770, mk_f = [], mk_refCount = 1, mk_unlinkIfExpired = True\<rparr>],
     nd_recvAt = 1700000000 * second, nd_startAt = 1700000000 * second + 2 * millisecond, nd_now = 1700000000 * second\<rparr>"

lemma toy_node_ready: "node_ready list_bloom (NikePrivate sk) (toy_node sk service)"
proof -
  have "getEpoch default_Period (1700000000 * second) = Some (169770, 800 * second, 400 * second)"
    by (subst getEpoch_exact) (simp_all add: in_range_def default_Period_def minute_def second_def Epoch_def)
  then show ?thesis
    by (simp add: node_ready_def toy_node_def mix_config_def candidate_keys_def gracePeriod_def minute_def second_def
        millisecond_def list_bloom_def)
qed

theorem mix_network_delivers_witness:
  "\<exists>pkt ds. newNikePacket toy_prims toy_nike toy_geometry (Some (7, 7)) (\<lambda>n. Some (zeros n)) toy_path (replicate 32 42) = Ok pkt \<and>
     network toy_prims (NewNIKESphinx (Some toy_nike) toy_geometry :: (byte, byte, byte, byte) Sphinx) list_bloom
       [toy_node 3 False, toy_node 5 True] pkt = Some ds \<and>
     (delivered_as [toy_node 3 False, toy_node 5 True] toy_path (replicate 32 42) ds \<or> replay_dropped ds)"
proof -
  have "roles_ok [toy_node 3 False, toy_node 5 True] toy_path"
    by (simp add: toy_path_def toy_node_def mix_config_def millisecond_def NumMixKeys_def default_Period_def minute_def second_def)
  from mix_network_delivers [OF toy_prims_ok toy_nike_ok toy_rnd_ok toy_geometry_factory toy_nike_path _ _ this,
      of "replicate 32 42" list_bloom 7]
  show ?thesis by (simp add: toy_node_ready) (simp add: toy_geometry_def)
qed

text \<open>A replay, for \<open>no_replays\<close>: the packet of the toy path arrives twice at its first server.\<close>

lemma toy_first_hop:
  "\<exists>raw tag i mac raw'. Unwrap toy_prims (NewNIKESphinx (Some toy_nike) toy_geometry :: (byte, byte, byte, byte) Sphinx) (NikePrivate 3) raw =
     Ok (None, tag, [NodeDelay 7, NextNodeHop i mac], raw')"
proof -
  have geo: "geo_consistent toy_geometry (nike_PublicKeySize toy_nike) 0"
    by (rule nike_geometry_consistent [OF toy_geometry_factory [where 'e = unit]])
  obtain hdr keys where "nike_layered toy_prims toy_nike toy_geometry (zip [3, 5] (zip toy_path keys)) hdr"
    "length keys = length toy_path"
    by (rule createHeader_ok [OF toy_prims_ok toy_nike_ok geo toy_nike_path toy_rnd_ok])
  moreover from this obtain k k' where "keys = [k, k']" by (auto simp: toy_path_def length_Suc_conv)
  ultimately have lay: "nike_layered toy_prims toy_nike toy_geometry ((3, hd toy_path, k) # (5, last toy_path, k') # []) hdr"
    by (simp add: toy_path_def)
  obtain body where "SPRPDecrypt toy_prims (PayloadEncryption k) (HeaderEncryptionIV k) [1] = Some body"
    by (rule SPRPDecrypt_total [OF toy_prims_ok])
  with nike_onion.forward [OF lay, of "[1]" body] show ?thesis
    by (fastforce simp: Unwrap_def NewNIKESphinx_def toy_path_def)
qed

theorem no_replays_witness:
  "\<exists>pkt ds st'. worker_run toy_prims (NewNIKESphinx (Some toy_nike) toy_geometry :: (byte, byte, byte, byte) Sphinx) list_bloom
     mix_config (\<lambda>_. False)
     (replicate 2 ([(169770, 0)], (1700000000 * second + 2 * millisecond, 1700000000 * second), pkt)) (nd_store (toy_node 3 False)) =
     Some (ds, st') \<and> ds ! 1 = (Dropped (UnwrapFailed errReplay), None) \<and> distinct (accepted ds)"
proof -
  let ?s = "NewNIKESphinx (Some toy_nike) toy_geometry :: (byte, byte, byte, byte) Sphinx"
  obtain raw tag i mac raw' where u: "Unwrap toy_prims ?s (NikePrivate 3) raw = Ok (None, tag, [NodeDelay 7, NextNodeHop i mac], raw')"
    using toy_first_hop by blast
  define pkt where "pkt = toy_packet\<lparr>pkt_Raw := raw, pkt_NextNodeHop := None, pkt_NodeDelay := None, pkt_RecvAt := 1700000000 * second\<rparr>"
  have e: "getEpoch default_Period (1700000000 * second) = Some (169770, 800 * second, 400 * second)"
    by (subst getEpoch_exact) (simp_all add: in_range_def default_Period_def minute_def second_def Epoch_def)
  have c: "candidate_keys [(169770, 0)] 169770 (800 * second) (400 * second) = Ok [0]"
    by (simp add: candidate_keys_def gracePeriod_def minute_def second_def)
  have set: "\<exists>pkt'. Set None [NodeDelay 7, NextNodeHop i mac] (pkt\<lparr>pkt_Raw := raw'\<rparr>) = Ok pkt'"
    by (simp add: Set_def pkt_def toy_packet_def)
  then obtain pkt' where set: "Set None [NodeDelay 7, NextNodeHop i mac] (pkt\<lparr>pkt_Raw := raw'\<rparr>) = Ok pkt'" by blast
  have raw: "pkt_Raw pkt = raw" "pkt_RecvAt pkt = 1700000000 * second" by (simp_all add: pkt_def)
  have "\<exists>ds st'. worker_run toy_prims ?s list_bloom mix_config (\<lambda>_. False)
     (replicate 2 ([(169770, 0)], (1700000000 * second + 2 * millisecond, 1700000000 * second), pkt)) (nd_store (toy_node 3 False)) =
     Some (ds, st') \<and> ds ! 1 = (Dropped (UnwrapFailed errReplay), None)"
    by (cases "length tag = TagLength")
      (simp_all add: numeral_2_eq_2 worker_packet_def doUnwrap_def toy_node_def mix_config_def raw e c u set IsReplay_def
        list_bloom_def millisecond_def)
  then show ?thesis using no_replays [OF list_bloom_ok] by blast
qed

end
