(* ===== verification/Queue.thy ===== *)
theory Queue
  imports Go_Prelude "HOL-Library.Multiset"
begin

text \<open>
  \<open>src/core/queue\<close>: the priority queue that orders delayed packets, retransmissions and timers. The
  queue is a slice of entries that Go's \<open>container/heap\<close> keeps in heap order; \<open>up\<close> and \<open>down\<close> are the
  two sifting loops of that library, and \<open>heap_Push\<close>, \<open>heap_Pop\<close>, \<open>heap_Remove\<close> its entry points, written
  over the \<open>Less\<close>, \<open>Swap\<close>, \<open>Push\<close> and \<open>Pop\<close> methods of the queue. Indices are non-negative; an index
  past the end of the slice panics, which is the result \<open>None\<close>.

  The locale \<open>priority_queue\<close> is the contract the clients (the timer queue and the mix scheduler) rely
  on: the queue is a multiset of entries, \<open>Dequeue\<close> removes a least one. The heap is its interpretation.
\<close>

section \<open>Definitions\<close>

record 'v Entry =
  Value :: 'v
  Priority :: "64 word"

type_synonym 'v heap = "'v Entry list"

definition Less :: "'v heap \<Rightarrow> nat \<Rightarrow> nat \<Rightarrow> bool" where
  "Less q i j = (Priority (q ! i) < Priority (q ! j))"

definition Swap :: "'v heap \<Rightarrow> nat \<Rightarrow> nat \<Rightarrow> 'v heap" where
  "Swap q i j = q[i := q ! j, j := q ! i]"

definition Push :: "'v heap \<Rightarrow> 'v Entry \<Rightarrow> 'v heap" where
  "Push q x = q @ [x]"

definition Pop :: "'v heap \<Rightarrow> 'v Entry option \<times> 'v heap" where
  "Pop q = (if q = [] then (None, q) else (Some (last q), butlast q))"

text \<open>The loops of \<open>container/heap\<close>. \<open>down\<close> also returns the index it ends at.\<close>

function up :: "'v heap \<Rightarrow> nat \<Rightarrow> 'v heap" where
  "up h j =
    (let i = (j - 1) div 2 in
     if i = j \<or> \<not> Less h j i then h else up (Swap h i j) i)"
  by pat_completeness auto
termination
  by (relation "measure snd") auto

function down :: "'v heap \<Rightarrow> nat \<Rightarrow> nat \<Rightarrow> 'v heap \<times> nat" where
  "down h i n =
    (let j1 = 2 * i + 1 in
     if n \<le> j1 then (h, i)
     else let j = (if j1 + 1 < n \<and> Less h (j1 + 1) j1 then j1 + 1 else j1) in
       if \<not> Less h j i then (h, i) else down (Swap h i j) j n)"
  by pat_completeness auto
termination
  by (relation "measure (\<lambda>(h, i, n). n - i)") (auto split: if_splits)

declare up.simps [simp del] down.simps [simp del]

definition heap_Push :: "'v heap \<Rightarrow> 'v Entry \<Rightarrow> 'v heap" where
  "heap_Push h x = up (Push h x) (length h)"

definition heap_Pop :: "'v heap \<Rightarrow> 'v Entry option \<times> 'v heap" where
  "heap_Pop h =
    (if h = [] then Pop h
     else let n = length h - 1 in Pop (fst (down (Swap h 0 n) 0 n)))"

definition heap_Remove :: "'v heap \<Rightarrow> nat \<Rightarrow> ('v Entry option \<times> 'v heap) option" where
  "heap_Remove h i =
    (if length h \<le> i then None
     else let n = length h - 1 in
       if n = i then Some (Pop h)
       else let (h', i') = down (Swap h i n) i n in
         Some (Pop (if i < i' then h' else up h' i)))"

record 'v PriorityQueue =
  pq_heap :: "'v heap"

definition Len :: "'v PriorityQueue \<Rightarrow> nat" where
  "Len q = length (pq_heap q)"

definition Dequeue :: "'v PriorityQueue \<Rightarrow> 'v Entry option \<times> 'v PriorityQueue" where
  "Dequeue q =
    (if Len q = 0 then (None, q)
     else let (e, h) = heap_Pop (pq_heap q) in (e, q\<lparr>pq_heap := h\<rparr>))"

definition Peek :: "'v PriorityQueue \<Rightarrow> 'v Entry option" where
  "Peek q = (if Len q = 0 then None else Some (pq_heap q ! 0))"

definition PeekIndex :: "'v PriorityQueue \<Rightarrow> nat \<Rightarrow> 'v Entry option option" where
  "PeekIndex q i =
    (if Len q = 0 then Some None
     else if i < Len q then Some (Some (pq_heap q ! i)) else None)"

definition DequeueIndex :: "'v PriorityQueue \<Rightarrow> nat \<Rightarrow> ('v Entry option \<times> 'v PriorityQueue) option" where
  "DequeueIndex q i =
    (if Len q = 0 then Some (None, q)
     else map_option (\<lambda>(e, h). (e, q\<lparr>pq_heap := h\<rparr>)) (heap_Remove (pq_heap q) i))"

definition Enqueue :: "'v PriorityQueue \<Rightarrow> 64 word \<Rightarrow> 'v \<Rightarrow> 'v PriorityQueue" where
  "Enqueue q priority value = q\<lparr>pq_heap := heap_Push (pq_heap q) \<lparr>Value = value, Priority = priority\<rparr>\<rparr>"

text \<open>\<open>rand.Intn n\<close> is the parameter \<open>Intn\<close>.\<close>

definition DequeueRandom :: "(nat \<Rightarrow> nat) \<Rightarrow> 'v PriorityQueue \<Rightarrow> ('v Entry option \<times> 'v PriorityQueue) option" where
  "DequeueRandom Intn q =
    (if Len q = 0 then Some (None, q)
     else map_option (\<lambda>(e, h). (e, q\<lparr>pq_heap := h\<rparr>)) (heap_Remove (pq_heap q) (Intn (Len q))))"

definition Remove :: "'v PriorityQueue \<Rightarrow> nat \<Rightarrow> ('v Entry option \<times> 'v PriorityQueue) option" where
  "Remove q i = DequeueIndex q i"

definition New :: "'v PriorityQueue" where
  "New = \<lparr>pq_heap = []\<rparr>"

section \<open>The contract\<close>

text \<open>Taking all elements out, least first.\<close>

primrec drain :: "('q \<Rightarrow> 'e option \<times> 'q) \<Rightarrow> nat \<Rightarrow> 'q \<Rightarrow> 'e list" where
  "drain deq 0 q = []"
| "drain deq (Suc n) q = (case deq q of (None, _) \<Rightarrow> [] | (Some e, q') \<Rightarrow> e # drain deq n q')"

locale priority_queue =
  fixes contents :: "'q \<Rightarrow> 'e multiset"
    and key :: "'e \<Rightarrow> 'k :: linorder"
    and invar :: "'q \<Rightarrow> bool"
    and empty_q :: 'q
    and enq :: "'q \<Rightarrow> 'e \<Rightarrow> 'q"
    and deq :: "'q \<Rightarrow> 'e option \<times> 'q"
    and peek :: "'q \<Rightarrow> 'e option"
  assumes empty_invar: "invar empty_q"
    and empty_contents: "contents empty_q = {#}"
    and enq_invar: "invar q \<Longrightarrow> invar (enq q e)"
    and enq_contents: "invar q \<Longrightarrow> contents (enq q e) = add_mset e (contents q)"
    and deq_empty: "contents q = {#} \<Longrightarrow> deq q = (None, q)"
    and deq_invar: "invar q \<Longrightarrow> invar (snd (deq q))"
    and deq_contents: "invar q \<Longrightarrow> contents q \<noteq> {#} \<Longrightarrow> \<exists>e q'. deq q = (Some e, q') \<and> contents q = add_mset e (contents q')"
    and deq_least: "invar q \<Longrightarrow> deq q = (Some e, q') \<Longrightarrow> x \<in># contents q' \<Longrightarrow> key e \<le> key x"
    and peek_deq: "invar q \<Longrightarrow> peek q = fst (deq q)"
begin

lemma deq_Some: "invar q \<Longrightarrow> deq q = (Some e, q') \<Longrightarrow> contents q = add_mset e (contents q')"
  using deq_contents [of q] deq_empty [of q] by (cases "contents q = {#}") auto

lemma deq_None: "invar q \<Longrightarrow> deq q = (None, q') \<Longrightarrow> contents q = {#} \<and> q' = q"
  using deq_contents [of q] deq_empty [of q] by (cases "contents q = {#}") auto

lemma fold_enq:
  "invar q \<Longrightarrow> invar (foldl enq q es) \<and> contents (foldl enq q es) = mset es + contents q"
proof (induction es arbitrary: q)
  case (Cons e es)
  from Cons.IH [OF enq_invar [OF Cons.prems], of e] show ?case by (simp add: enq_contents [OF Cons.prems])
qed simp

lemma drain_sorted:
  "invar q \<Longrightarrow> size (contents q) \<le> n \<Longrightarrow> mset (drain deq n q) = contents q \<and> sorted (map key (drain deq n q))"
proof (induction n arbitrary: q)
  case (Suc n)
  obtain r q' where d: "deq q = (r, q')" by fastforce
  show ?case
  proof (cases r)
    case None
    then show ?thesis using deq_None [OF Suc.prems(1)] d by simp
  next
    case (Some e)
    then have c: "contents q = add_mset e (contents q')" using deq_Some [OF Suc.prems(1)] d by blast
    have "invar q'" using deq_invar [OF Suc.prems(1)] d by simp
    with Suc c have IH: "mset (drain deq n q') = contents q'" "sorted (map key (drain deq n q'))" by simp_all
    have "set (drain deq n q') = set_mset (contents q')" using IH(1) by (metis set_mset_mset)
    then have "\<forall>x\<in>set (drain deq n q'). key e \<le> key x"
      using deq_least [OF Suc.prems(1)] d Some by simp
    with IH c d Some show ?thesis by simp
  qed
qed simp

end

section \<open>The sifting loops\<close>

text \<open>
  The heap order of the first \<open>n\<close> entries, and its weakenings at one position \<open>i\<close>: \<open>heap_except\<close> says
  nothing of the entry at \<open>i\<close>, \<open>heap_except_up\<close> misses only the edge to its parent and
  \<open>heap_except_down\<close> only the edges to its children.
\<close>

abbreviation parent :: "nat \<Rightarrow> nat" where
  "parent x \<equiv> (x - 1) div 2"

abbreviation prio :: "'v heap \<Rightarrow> nat \<Rightarrow> 64 word" where
  "prio h x \<equiv> Priority (h ! x)"

definition heap_upto :: "'v heap \<Rightarrow> nat \<Rightarrow> bool" where
  "heap_upto h n = (\<forall>x. 0 < x \<and> x < n \<longrightarrow> prio h (parent x) \<le> prio h x)"

definition heap_except :: "'v heap \<Rightarrow> nat \<Rightarrow> nat \<Rightarrow> bool" where
  "heap_except h n i = (\<forall>x. 0 < x \<and> x < n \<longrightarrow>
     (x \<noteq> i \<and> parent x \<noteq> i \<longrightarrow> prio h (parent x) \<le> prio h x) \<and>
     (parent x = i \<and> 0 < i \<longrightarrow> prio h (parent i) \<le> prio h x))"

definition heap_except_up :: "'v heap \<Rightarrow> nat \<Rightarrow> nat \<Rightarrow> bool" where
  "heap_except_up h n i = (heap_except h n i \<and> (\<forall>x. 0 < x \<and> x < n \<and> x \<noteq> i \<longrightarrow> prio h (parent x) \<le> prio h x))"

definition heap_except_down :: "'v heap \<Rightarrow> nat \<Rightarrow> nat \<Rightarrow> bool" where
  "heap_except_down h n i = (heap_except h n i \<and> (0 < i \<longrightarrow> prio h (parent i) \<le> prio h i))"

lemma length_Swap [simp]: "length (Swap h i j) = length h"
  by (simp add: Swap_def)

lemma nth_Swap:
  "i < length h \<Longrightarrow> j < length h \<Longrightarrow> Swap h i j ! x = (if x = j then h ! i else if x = i then h ! j else h ! x)"
  by (auto simp: Swap_def nth_list_update)

lemma mset_Swap: "i < length h \<Longrightarrow> j < length h \<Longrightarrow> mset (Swap h i j) = mset h"
  by (simp add: Swap_def mset_swap)

lemma parent_less: "0 < x \<Longrightarrow> parent x < x"
  by auto

lemma parent_iff: "0 < x \<Longrightarrow> parent x = i \<longleftrightarrow> x = 2 * i + 1 \<or> x = 2 * i + 2"
  by auto

lemma up_0 [simp]: "up h 0 = h"
  by (subst up.simps) simp

lemma up_Suc: "up h (Suc k) = (if Less h (Suc k) (k div 2) then up (Swap h (k div 2) (Suc k)) (k div 2) else h)"
  by (subst up.simps) (simp add: Let_def Less_def)

lemma up_frame:
  "j < length h \<Longrightarrow> length (up h j) = length h \<and> mset (up h j) = mset h \<and> (\<forall>x. j < x \<longrightarrow> up h j ! x = h ! x)"
proof (induction h j rule: up.induct)
  case (1 h j)
  show ?case
  proof (cases "parent j = j \<or> \<not> Less h j (parent j)")
    case True
    then show ?thesis by (subst (1 2 3) up.simps) (simp add: Let_def)
  next
    case False
    then have "parent j < j" by (cases j) auto
    with 1 False show ?thesis
      by (subst (1 2 3) up.simps) (simp add: Let_def mset_Swap nth_Swap)
  qed
qed

definition min_child :: "'v heap \<Rightarrow> nat \<Rightarrow> nat \<Rightarrow> nat" where
  "min_child h i n = (if 2 * i + 2 < n \<and> Less h (2 * i + 2) (2 * i + 1) then 2 * i + 2 else 2 * i + 1)"

lemma down_eq:
  "down h i n =
    (if n \<le> 2 * i + 1 \<or> \<not> Less h (min_child h i n) i then (h, i)
     else down (Swap h i (min_child h i n)) (min_child h i n) n)"
  by (subst down.simps) (simp add: Let_def min_child_def)

lemma min_child_bounds: "2 * i + 1 < n \<Longrightarrow> i < min_child h i n \<and> min_child h i n < n"
  by (auto simp: min_child_def)

lemma parent_min_child: "parent (min_child h i n) = i"
  by (auto simp: min_child_def)

lemma min_child_le: "0 < x \<Longrightarrow> x < n \<Longrightarrow> parent x = i \<Longrightarrow> prio h (min_child h i n) \<le> prio h x"
  by (drule (1) iffD1 [OF parent_iff]) (auto simp: min_child_def Less_def)

lemma down_induct [case_names stop step]:
  assumes "\<And>h i. n \<le> 2 * i + 1 \<or> \<not> Less h (min_child h i n) i \<Longrightarrow> P h i"
    and "\<And>h i. 2 * i + 1 < n \<Longrightarrow> Less h (min_child h i n) i \<Longrightarrow>
      P (Swap h i (min_child h i n)) (min_child h i n) \<Longrightarrow> P h i"
  shows "P h i"
proof (induction "n - i" arbitrary: h i rule: less_induct)
  case less
  show ?case
  proof (cases "n \<le> 2 * i + 1 \<or> \<not> Less h (min_child h i n) i")
    case False
    then have m: "n - min_child h i n < n - i" using min_child_bounds [of i n h] by linarith
    show ?thesis using False by (intro assms(2) [OF _ _ less [OF m]]) simp_all
  qed (rule assms(1))
qed

lemma down_frame:
  "i < n \<Longrightarrow> n \<le> length h \<Longrightarrow>
    length (fst (down h i n)) = length h \<and> mset (fst (down h i n)) = mset h \<and>
    (\<forall>x. n \<le> x \<longrightarrow> fst (down h i n) ! x = h ! x) \<and> i \<le> snd (down h i n)"
proof (induction h i rule: down_induct [where n = n])
  case (stop h i)
  then show ?case by (simp add: down_eq [of h i n])
next
  case (step h i)
  from min_child_bounds [OF step.hyps(1), of h] step show ?case
    by (simp add: down_eq [of h i n] mset_Swap nth_Swap)
qed

lemma down_moves: "i < n \<Longrightarrow> n \<le> length h \<Longrightarrow> snd (down h i n) = i \<Longrightarrow>
    down h i n = (h, i) \<and> (n \<le> 2 * i + 1 \<or> \<not> Less h (min_child h i n) i)"
proof (cases "n \<le> 2 * i + 1 \<or> \<not> Less h (min_child h i n) i")
  case False
  assume "i < n" "n \<le> length h" "snd (down h i n) = i"
  with False show ?thesis
    using down_frame [of "min_child h i n" n "Swap h i (min_child h i n)"] min_child_bounds [of i n h]
    by (simp add: down_eq [of h i n])
qed (simp add: down_eq [of h i n])

text \<open>One step of \<open>down\<close> repairs position \<open>i\<close> and leaves the least child's position to be repaired.\<close>

lemma Swap_child:
  assumes "heap_except h n i" and "2 * i + 1 < n" and "n \<le> length h" and "Less h (min_child h i n) i"
  shows "heap_except_down (Swap h i (min_child h i n)) n (min_child h i n)"
proof -
  define j where "j = min_child h i n"
  have j: "i < j" "j < n" "parent j = i" using min_child_bounds [OF assms(2)] parent_min_child by (auto simp: j_def)
  have less: "prio h j < prio h i" using assms(4) by (simp add: j_def Less_def)
  have le: "prio h j \<le> prio h x" if "0 < x" "x < n" "parent x = i" for x
    using min_child_le [OF that] by (simp add: j_def)
  have nth: "Swap h i j ! x = (if x = j then h ! i else if x = i then h ! j else h ! x)" for x
    using j assms(3) by (intro nth_Swap) auto
  have ij: "i \<noteq> j" "0 < j" using j by auto
  have ex: "x \<noteq> i \<Longrightarrow> parent x \<noteq> i \<Longrightarrow> prio h (parent x) \<le> prio h x" "parent x = i \<Longrightarrow> 0 < i \<Longrightarrow> prio h (parent i) \<le> prio h x"
    if "0 < x" "x < n" for x using assms(1) that by (auto simp: heap_except_def)
  have "heap_except (Swap h i j) n j"
    unfolding heap_except_def
  proof (intro allI impI conjI, goal_cases)
    case (1 x)
    then have x: "0 < x" "x < n" "x \<noteq> j" "parent x \<noteq> j" by auto
    show ?case
    proof (cases "x = i")
      case True
      have "parent i \<noteq> i" using x(1) True by auto
      then show ?thesis using ex(2) [of j] j ij True x by (simp add: nth)
    next
      case False
      then show ?thesis using ex(1) [of x] le [of x] x by (cases "parent x = i") (simp_all add: nth)
    qed
  next
    case (2 x)
    then have x: "0 < x" "x < n" "parent x = j" by auto
    then have "x \<noteq> i" "x \<noteq> j" using j by auto
    then show ?case using ex(1) [of x] x j ij by (simp add: nth)
  qed
  moreover have "prio (Swap h i j) (parent j) \<le> prio (Swap h i j) j" using less j ij by (simp add: nth)
  ultimately show ?thesis by (simp add: heap_except_down_def j_def)
qed

lemma down_heap:
  "heap_except_down h n i \<Longrightarrow> n \<le> length h \<Longrightarrow> heap_upto (fst (down h i n)) n"
proof (induction h i rule: down_induct [where n = n])
  case (stop h i)
  have "prio h (parent x) \<le> prio h x" if x: "0 < x" "x < n" for x
  proof (cases "parent x = i")
    case True
    then have "2 * i + 1 < n" using x by presburger
    with stop.hyps have "prio h i \<le> prio h (min_child h i n)" by (simp add: Less_def)
    also have "\<dots> \<le> prio h x" by (rule min_child_le [OF x True])
    finally show ?thesis using True by simp
  next
    case False
    have "heap_except h n i" and "x = i \<longrightarrow> prio h (parent x) \<le> prio h x"
      using stop.prems(1) x by (simp_all add: heap_except_down_def)
    then show ?thesis using False x unfolding heap_except_def by blast
  qed
  then show ?case using stop.hyps by (simp add: down_eq [of h i n] heap_upto_def)
next
  case (step h i)
  have "heap_except h n i" using step.prems(1) by (simp add: heap_except_down_def)
  from Swap_child [OF this step.hyps(1) step.prems(2) step.hyps(2)] step show ?case
    by (simp add: down_eq [of h i n])
qed

lemma up_heap:
  "heap_except_up h n j \<Longrightarrow> j < n \<Longrightarrow> n \<le> length h \<Longrightarrow> heap_upto (up h j) n"
proof (induction h j rule: up.induct)
  case (1 h j)
  let ?p = "parent j"
  have edge: "prio h (parent x) \<le> prio h x" if "0 < x" "x < n" "x \<noteq> j" for x
    using 1(2) that by (simp add: heap_except_up_def)
  have grand: "prio h (parent j) \<le> prio h x" if "0 < x" "x < n" "parent x = j" "0 < j" for x
    using 1(2) that by (simp add: heap_except_up_def heap_except_def)
  show ?case
  proof (cases "?p = j \<or> \<not> Less h j ?p")
    case True
    then have "j = 0 \<or> prio h ?p \<le> prio h j" by (auto simp: Less_def)
    then have "heap_upto h n" unfolding heap_upto_def using edge by blast
    then show ?thesis using True by (subst up.simps) (simp add: Let_def)
  next
    case False
    define p where "p = ?p"
    have p: "p < j" using False by (cases j) (auto simp: p_def)
    have less: "prio h j < prio h p" using False by (simp add: Less_def p_def)
    have nth: "Swap h p j ! x = (if x = j then h ! p else if x = p then h ! j else h ! x)" for x
      using p 1(3,4) by (intro nth_Swap) auto
    have pp: "0 < p \<Longrightarrow> prio h (parent p) \<le> prio h p" "0 < p \<Longrightarrow> parent p < p" "parent p \<noteq> j"
      using edge [of p] p 1(3) by auto
    have "prio (Swap h p j) (parent x) \<le> prio (Swap h p j) x" if x: "0 < x" "x < n" "x \<noteq> p" for x
    proof (cases "x = j")
      case True
      moreover have "parent j = p" by (simp add: p_def)
      ultimately show ?thesis using less p by (simp add: nth)
    next
      case False
      have "prio h (parent x) \<le> prio h x" by (rule edge [OF x(1,2) False])
      moreover have "parent x = j \<Longrightarrow> prio h p \<le> prio h x" using grand x p by (simp add: p_def)
      ultimately show ?thesis using False x(3) less by (auto simp: nth)
    qed
    moreover have "prio (Swap h p j) (parent p) \<le> prio (Swap h p j) x"
      if x: "0 < x" "x < n" "parent x = p" "0 < p" for x
    proof -
      have "x \<noteq> p" using x by auto
      moreover have "prio h p \<le> prio h x" if "x \<noteq> j" using edge [of x] x that by simp
      ultimately show ?thesis using pp x(4) by (auto simp: nth)
    qed
    ultimately have "heap_except_up (Swap h p j) n p" by (simp add: heap_except_up_def heap_except_def)
    then have "heap_upto (up (Swap h p j) p) n" using 1(1) [OF refl False] p 1(3,4) by (simp add: p_def)
    then show ?thesis using False by (subst up.simps) (simp add: Let_def p_def)
  qed
qed

lemma heap_upto_root: "heap_upto h n \<Longrightarrow> x < n \<Longrightarrow> prio h 0 \<le> prio h x"
proof (induction x rule: less_induct)
  case (less x)
  show ?case
  proof (cases "x = 0")
    case False
    have "prio h 0 \<le> prio h (parent x)" using less False by (intro less.IH) auto
    also have "\<dots> \<le> prio h x" using less.prems False by (simp add: heap_upto_def)
    finally show ?thesis .
  qed simp
qed

lemma heap_upto_cong: "(\<And>x. x < n \<Longrightarrow> h' ! x = h ! x) \<Longrightarrow> heap_upto h n \<Longrightarrow> heap_upto h' n"
  unfolding heap_upto_def
proof (intro allI impI)
  fix x assume eq: "\<And>x. x < n \<Longrightarrow> h' ! x = h ! x" and "0 < x \<and> x < n"
    and "\<forall>x. 0 < x \<and> x < n \<longrightarrow> prio h (parent x) \<le> prio h x"
  moreover have "parent x < n" using \<open>0 < x \<and> x < n\<close> by auto
  ultimately show "prio h' (parent x) \<le> prio h' x" by (simp add: eq)
qed

lemma heap_upto_butlast: "heap_upto h (length h - 1) \<Longrightarrow> heap_upto (butlast h) (length (butlast h))"
  by (rule heap_upto_cong [of _ _ h]) (simp_all add: nth_butlast)

text \<open>Moving the last entry to position \<open>i\<close> of a heap.\<close>

lemma heap_except_Swap_last:
  assumes "heap_upto h (length h)" and "i < n" and "n = length h - 1"
  shows "heap_except (Swap h i n) n i"
proof -
  have nth: "Swap h i n ! x = (if x = n then h ! i else if x = i then h ! n else h ! x)" for x
    using assms by (intro nth_Swap) auto
  have edge: "prio h (parent x) \<le> prio h x" if "0 < x" "x < n" for x
    using assms(1,3) that by (simp add: heap_upto_def)
  have "prio h (parent i) \<le> prio h x" if "0 < x" "x < n" "parent x = i" "0 < i" for x
    using edge [of i] edge [of x] that assms(2) by simp
  moreover have "parent x \<noteq> n" if "x < n" for x using that by auto
  moreover have "parent i \<noteq> i" if "0 < i" using parent_less [OF that] by simp
  ultimately show ?thesis using edge assms(2) unfolding heap_except_def nth by auto
qed

lemma heap_Push_ok:
  "heap_upto h (length h) \<Longrightarrow>
    heap_upto (heap_Push h e) (length (heap_Push h e)) \<and> mset (heap_Push h e) = add_mset e (mset h)"
proof -
  assume h: "heap_upto h (length h)"
  have len: "length (h @ [e]) = Suc (length h)" by simp
  have "prio (h @ [e]) (parent x) \<le> prio (h @ [e]) x" if "0 < x" "x < length h" for x
    using h that by (auto simp: heap_upto_def nth_append)
  moreover have "parent x \<noteq> length h" if "0 < x" "x < Suc (length h)" for x
    using parent_less [OF that(1)] that(2) by simp
  ultimately have "heap_except_up (h @ [e]) (Suc (length h)) (length h)"
    by (simp add: heap_except_up_def heap_except_def less_Suc_eq) blast
  from up_heap [OF this] up_frame [of "length h" "h @ [e]"] show ?thesis
    by (simp add: heap_Push_def Push_def)
qed

lemma Pop_last:
  assumes "heap_upto d n" and "length d = length h" and "mset d = mset h" and "d ! n = e" and "length h = Suc n"
  shows "Pop d = (Some e, butlast d) \<and> mset h = add_mset e (mset (butlast d)) \<and>
    heap_upto (butlast d) (length (butlast d))"
proof -
  have ne: "d \<noteq> []" using assms(2,5) by auto
  have last: "last d = e" using assms(2,4,5) ne by (simp add: last_conv_nth)
  have "mset h = add_mset (last d) (mset (butlast d))"
    using assms(3) append_butlast_last_id [OF ne] by (metis add_mset_add_single mset.simps mset_append union_code)
  moreover have "heap_upto (butlast d) (length (butlast d))"
    using assms(1,2,5) by (intro heap_upto_butlast) simp
  ultimately show ?thesis using ne last by (simp add: Pop_def)
qed

lemma heap_Pop_ok:
  assumes "heap_upto h (length h)" and "h \<noteq> []"
  obtains h' where "heap_Pop h = (Some (h ! 0), h')" and "mset h = add_mset (h ! 0) (mset h')"
    and "heap_upto h' (length h')"
proof -
  define n where "n = length h - 1"
  define d where "d = fst (down (Swap h 0 n) 0 n)"
  have n: "n < length h" "length h = Suc n" using assms(2) by (auto simp: n_def)
  have "heap_upto d n \<and> length d = length h \<and> mset d = mset h \<and> d ! n = h ! 0"
  proof (cases "n = 0")
    case True
    then have "d = h" using n by (simp add: d_def down_eq [of _ 0 0] Swap_def)
    then show ?thesis using True by (simp add: heap_upto_def)
  next
    case False
    then have "heap_except_down (Swap h 0 n) n 0"
      using heap_except_Swap_last [OF assms(1) _ n_def, of 0] by (simp add: heap_except_down_def)
    from down_heap [OF this] down_frame [of 0 n "Swap h 0 n"] False n show ?thesis
      by (simp add: d_def mset_Swap nth_Swap)
  qed
  then have d: "heap_upto d n" "length d = length h" "mset d = mset h" "d ! n = h ! 0" by simp_all
  show thesis
    using that [of "butlast d"] Pop_last [OF d(1-4) n(2)] assms(2) by (simp add: heap_Pop_def Let_def d_def n_def)
qed

lemma heap_Remove_ok:
  assumes "heap_upto h (length h)" and "i < length h"
  obtains h' where "heap_Remove h i = Some (Some (h ! i), h')" and "mset h = add_mset (h ! i) (mset h')"
    and "heap_upto h' (length h')"
proof -
  define n where "n = length h - 1"
  have n: "n < length h" "length h = Suc n" "i \<le> n" using assms(2) by (auto simp: n_def)
  have "\<exists>d. heap_Remove h i = Some (Pop d) \<and> heap_upto d n \<and> length d = length h \<and> mset d = mset h \<and> d ! n = h ! i"
  proof (cases "n = i")
    case True
    then show ?thesis using assms n by (intro exI [of _ h]) (auto simp: heap_Remove_def heap_upto_def)
  next
    case False
    then have i: "i < n" using n by simp
    have ex: "heap_except (Swap h i n) n i" by (rule heap_except_Swap_last [OF assms(1) i n_def])
    obtain h' i' where dn: "down (Swap h i n) i n = (h', i')" by fastforce
    have fr: "length h' = length h" "mset h' = mset h" "h' ! n = h ! i" "i \<le> i'"
      using down_frame [of i n "Swap h i n"] i n dn by (simp_all add: mset_Swap nth_Swap)
    have rm: "heap_Remove h i = Some (Pop (if i < i' then h' else up h' i))"
      using assms(2) False dn by (simp add: heap_Remove_def Let_def n_def)
    show ?thesis
    proof (cases "i < i'")
      case True
      then have "\<not> (n \<le> 2 * i + 1 \<or> \<not> Less (Swap h i n) (min_child (Swap h i n) i n) i)"
        using dn by (auto simp: down_eq [of "Swap h i n" i n] split: if_splits)
      then have st: "2 * i + 1 < n" "Less (Swap h i n) (min_child (Swap h i n) i n) i" by auto
      have "heap_upto h' n"
        using down_heap [OF Swap_child [OF ex st(1) _ st(2)]] n st dn by (simp add: down_eq [of "Swap h i n" i n])
      then show ?thesis using rm fr True by (intro exI [of _ h']) simp
    next
      case False
      then have i': "i' = i" using fr(4) by simp
      from down_moves [OF i, of "Swap h i n"] dn i' n have h': "h' = Swap h i n"
        and stop: "n \<le> 2 * i + 1 \<or> \<not> Less h' (min_child h' i n) i" by auto
      have "prio h' (parent x) \<le> prio h' x" if x: "0 < x" "x < n" "x \<noteq> i" for x
      proof (cases "parent x = i")
        case True
        then have "2 * i + 1 < n" using x by presburger
        with stop have "prio h' i \<le> prio h' (min_child h' i n)" by (simp add: Less_def)
        also have "\<dots> \<le> prio h' x" by (rule min_child_le [OF x(1,2) True])
        finally show ?thesis using True by simp
      next
        case False
        then show ?thesis using ex x unfolding heap_except_def h' by blast
      qed
      then have "heap_except_up h' n i" using ex by (simp add: heap_except_up_def h')
      from up_heap [OF this i] up_frame [of i h'] show ?thesis
        using rm fr False i n by (intro exI [of _ "up h' i"]) auto
    qed
  qed
  then obtain d where d: "heap_Remove h i = Some (Pop d)" "heap_upto d n" "length d = length h" "mset d = mset h" "d ! n = h ! i"
    by blast
  show thesis using that [of "butlast d"] Pop_last [OF d(2-5) n(2)] d(1) by simp
qed

section \<open>The heap implements the contract\<close>

definition pq_invar :: "'v PriorityQueue \<Rightarrow> bool" where
  "pq_invar q = heap_upto (pq_heap q) (length (pq_heap q))"

definition pq_contents :: "'v PriorityQueue \<Rightarrow> 'v Entry multiset" where
  "pq_contents q = mset (pq_heap q)"

lemma Dequeue_empty: "pq_heap q = [] \<Longrightarrow> Dequeue q = (None, q)"
  by (simp add: Dequeue_def Len_def)

lemma Dequeue_ok:
  assumes "pq_invar q" and "pq_heap q \<noteq> []"
  obtains q' where "Dequeue q = (Some (pq_heap q ! 0), q')" and "pq_contents q = add_mset (pq_heap q ! 0) (pq_contents q')"
    and "pq_invar q'"
proof -
  obtain h' where h': "heap_Pop (pq_heap q) = (Some (pq_heap q ! 0), h')" "mset (pq_heap q) = add_mset (pq_heap q ! 0) (mset h')"
    "heap_upto h' (length h')"
    using heap_Pop_ok [of "pq_heap q"] assms by (auto simp: pq_invar_def)
  show thesis
    by (rule that [of "q\<lparr>pq_heap := h'\<rparr>"]) (use assms(2) h' in \<open>simp_all add: Dequeue_def Len_def pq_contents_def pq_invar_def\<close>)
qed

lemma Dequeue_invar: "pq_invar q \<Longrightarrow> pq_invar (snd (Dequeue q))"
  by (cases "pq_heap q = []") (auto simp: Dequeue_empty elim: Dequeue_ok)

lemma pq_root_least: "pq_invar q \<Longrightarrow> x \<in># pq_contents q \<Longrightarrow> Priority (pq_heap q ! 0) \<le> Priority x"
  by (auto simp: pq_invar_def pq_contents_def in_set_conv_nth heap_upto_root)

interpretation pq: priority_queue pq_contents Priority pq_invar New "\<lambda>q e. Enqueue q (Priority e) (Value e)" Dequeue Peek
proof (unfold_locales, goal_cases)
  case 1
  then show ?case by (simp add: pq_invar_def New_def heap_upto_def)
next
  case 2
  then show ?case by (simp add: pq_contents_def New_def)
next
  case (3 q e)
  then show ?case using heap_Push_ok [of "pq_heap q"] by (simp add: pq_invar_def Enqueue_def)
next
  case (4 q e)
  then show ?case using heap_Push_ok [of "pq_heap q"] by (simp add: pq_invar_def pq_contents_def Enqueue_def)
next
  case (5 q)
  then show ?case by (simp add: pq_contents_def Dequeue_empty)
next
  case (6 q)
  then show ?case by (rule Dequeue_invar)
next
  case (7 q)
  then have "pq_heap q \<noteq> []" by (simp add: pq_contents_def)
  then obtain q' where "Dequeue q = (Some (pq_heap q ! 0), q')" "pq_contents q = add_mset (pq_heap q ! 0) (pq_contents q')"
    by (rule Dequeue_ok [OF 7(1)])
  then show ?case by blast
next
  case (8 q e q' x)
  then have ne: "pq_heap q \<noteq> []" by (auto simp: Dequeue_empty)
  obtain q'' where "Dequeue q = (Some (pq_heap q ! 0), q'')" "pq_contents q = add_mset (pq_heap q ! 0) (pq_contents q'')"
    by (rule Dequeue_ok [OF 8(1) ne])
  with 8(2,3) have "e = pq_heap q ! 0" "x \<in># pq_contents q" by simp_all
  then show ?case using pq_root_least [OF 8(1)] by simp
next
  case (9 q)
  then show ?case by (cases "pq_heap q = []") (auto simp: Peek_def Len_def Dequeue_empty elim: Dequeue_ok)
qed

lemma DequeueIndex_ok:
  assumes "pq_invar q" and "i < Len q"
  obtains q' where "DequeueIndex q i = Some (Some (pq_heap q ! i), q')"
    and "pq_contents q = add_mset (pq_heap q ! i) (pq_contents q')" and "pq_invar q'"
proof -
  obtain h' where h': "heap_Remove (pq_heap q) i = Some (Some (pq_heap q ! i), h')"
    "mset (pq_heap q) = add_mset (pq_heap q ! i) (mset h')" "heap_upto h' (length h')"
    using heap_Remove_ok [of "pq_heap q" i] assms by (auto simp: pq_invar_def Len_def)
  have "pq_heap q \<noteq> []" using assms(2) by (auto simp: Len_def)
  then show thesis
    by (intro that [of "q\<lparr>pq_heap := h'\<rparr>"])
      (use h' in \<open>simp_all add: DequeueIndex_def Len_def pq_contents_def pq_invar_def\<close>)
qed

text \<open>The queues that a client can obtain: any sequence of the operations that does not panic.\<close>

inductive pq_reachable :: "'v PriorityQueue \<Rightarrow> bool" where
  start: "pq_reachable New"
| enqueue: "pq_reachable q \<Longrightarrow> pq_reachable (Enqueue q p v)"
| dequeue: "pq_reachable q \<Longrightarrow> Dequeue q = (r, q') \<Longrightarrow> pq_reachable q'"
| remove: "pq_reachable q \<Longrightarrow> Remove q i = Some (r, q') \<Longrightarrow> pq_reachable q'"
| random: "pq_reachable q \<Longrightarrow> DequeueRandom Intn q = Some (r, q') \<Longrightarrow> pq_reachable q'"

lemma DequeueIndex_invar:
  assumes "pq_invar q" and "DequeueIndex q i = Some (r, q')"
  shows "pq_invar q'"
proof (cases "i < Len q")
  case True
  obtain q'' where "DequeueIndex q i = Some (Some (pq_heap q ! i), q'')" "pq_invar q''"
    by (rule DequeueIndex_ok [OF assms(1) True])
  with assms(2) show ?thesis by simp
next
  case False
  with assms show ?thesis by (simp add: DequeueIndex_def heap_Remove_def Len_def split: if_splits)
qed

lemma DequeueRandom_index: "DequeueRandom Intn q = DequeueIndex q (Intn (Len q))"
  by (simp add: DequeueRandom_def DequeueIndex_def)

lemma pq_reachable_invar: "pq_reachable q \<Longrightarrow> pq_invar q"
proof (induction rule: pq_reachable.induct)
  case (enqueue q p v)
  then show ?case using pq.enq_invar [of q "\<lparr>Value = v, Priority = p\<rparr>"] by simp
next
  case (dequeue q r q')
  then show ?case using Dequeue_invar [of q] by simp
qed (auto simp: Remove_def DequeueRandom_index pq.empty_invar intro: DequeueIndex_invar)

text \<open>
  C12. The priority queue sorts: entries enqueued in any order come out of \<open>Dequeue\<close> in the order of
  their priorities, each of them exactly once.
\<close>

theorem queue_sorts:
  fixes es :: "(64 word \<times> 'v) list"
  defines "out \<equiv> drain Dequeue (length es) (foldl (\<lambda>q (p, v). Enqueue q p v) New es)"
  shows "sorted (map Priority out) \<and> mset out = mset (map (\<lambda>(p, v). \<lparr>Value = v, Priority = p\<rparr>) es)"
proof -
  let ?es = "map (\<lambda>(p, v). \<lparr>Value = v, Priority = p\<rparr>) es"
  let ?q = "foldl (\<lambda>q (p, v). Enqueue q p v) New es"
  have eq: "?q = foldl (\<lambda>q e. Enqueue q (Priority e) (Value e)) New ?es"
    by (simp add: foldl_map case_prod_unfold)
  have "pq_invar ?q \<and> pq_contents ?q = mset ?es"
    using pq.fold_enq [OF pq.empty_invar, of ?es] by (simp add: eq pq.empty_contents)
  then show ?thesis using pq.drain_sorted [of ?q "length es"] by (simp add: out_def)
qed

text \<open>
  C13. On every queue that a sequence of operations can produce, \<open>Peek\<close> and \<open>Dequeue\<close> give an entry of
  least priority, \<open>Dequeue\<close> and \<open>DequeueIndex\<close> remove exactly the entry they return, and only an index
  past the end of a non-empty queue panics.
\<close>

theorem queue_operations:
  assumes "pq_reachable q"
  shows "(case Dequeue q of
      (None, q') \<Rightarrow> Len q = 0 \<and> q' = q \<and> Peek q = None
    | (Some e, q') \<Rightarrow> Peek q = Some e \<and> mset (pq_heap q) = add_mset e (mset (pq_heap q')) \<and>
        (\<forall>x\<in>set (pq_heap q). Priority e \<le> Priority x)) \<and>
   (case DequeueIndex q i of
      None \<Rightarrow> 0 < Len q \<and> Len q \<le> i
    | Some (None, q') \<Rightarrow> Len q = 0 \<and> q' = q
    | Some (Some e, q') \<Rightarrow> PeekIndex q i = Some (Some e) \<and> mset (pq_heap q) = add_mset e (mset (pq_heap q')))"
    (is "?deq \<and> ?rem")
proof
  note inv = pq_reachable_invar [OF assms]
  show ?deq
  proof (cases "pq_heap q = []")
    case False
    from Dequeue_ok [OF inv this] obtain q' where q': "Dequeue q = (Some (pq_heap q ! 0), q')"
      "pq_contents q = add_mset (pq_heap q ! 0) (pq_contents q')" by blast
    have "\<forall>x\<in>set (pq_heap q). prio (pq_heap q) 0 \<le> Priority x"
      using pq_root_least [OF inv] by (auto simp: pq_contents_def)
    with False q' show ?thesis by (simp add: Peek_def Len_def pq_contents_def)
  qed (simp add: Dequeue_empty Len_def Peek_def)
  show ?rem
  proof (cases "i < Len q")
    case True
    from DequeueIndex_ok [OF inv this] obtain q' where "DequeueIndex q i = Some (Some (pq_heap q ! i), q')"
      "pq_contents q = add_mset (pq_heap q ! i) (pq_contents q')" by blast
    with True show ?thesis by (auto simp: PeekIndex_def pq_contents_def)
  qed (auto simp: DequeueIndex_def heap_Remove_def Len_def)
qed

theorem queue_operations_witness:
  "let q = Enqueue (Enqueue New 9 ''late'') 4 ''soon'' in
   (case Dequeue q of (None, q') \<Rightarrow> False | (Some e, q') \<Rightarrow>
      e = \<lparr>Value = ''soon'', Priority = 4\<rparr> \<and> mset (pq_heap q) = add_mset e (mset (pq_heap q')))"
proof -
  define q where "q = Enqueue (Enqueue New 9 ''late'') 4 ''soon''"
  have "pq_reachable q" unfolding q_def by (intro pq_reachable.enqueue pq_reachable.start)
  note ops = queue_operations [OF this, of 0]
  have "pq_heap q = [\<lparr>Value = ''soon'', Priority = 4\<rparr>, \<lparr>Value = ''late'', Priority = 9\<rparr>]"
    by (simp add: q_def Enqueue_def New_def heap_Push_def Push_def up_Suc Less_def Swap_def)
  then have peek: "Peek q = Some \<lparr>Value = ''soon'', Priority = 4\<rparr>" by (simp add: Peek_def Len_def)
  obtain r q' where d: "Dequeue q = (r, q')" by fastforce
  show ?thesis using ops peek d unfolding q_def [symmetric] Let_def by (cases r) simp_all
qed

end
