(* ===== verification/Timer_Queue.thy ===== *)
theory Timer_Queue
  imports Queue
begin

text \<open>
  \<open>src/core/queue/timer_queue.go\<close>: the queue whose worker runs an action on each value when the time in
  its priority (nanoseconds since the epoch) has come. The worker's two \<open>select\<close> cases and its rescheduling
  loop are functions of the state; the clock is a parameter \<open>clk\<close>, its successive readings. \<open>tq_step\<close>
  interleaves the worker with the callers of \<open>Push\<close>, \<open>Pop\<close> and \<open>Cancel\<close> and with the passing of time. The
  state records, for the theorems, when which entry was handed to the action.
\<close>

section \<open>Definitions\<close>

record 'v TimerQueue =
  tq_queue :: "'v PriorityQueue"
  tq_pushCh :: "'v Entry list"
  tq_deadline :: int
  tq_now :: int
  tq_ran :: "(int \<times> 'v Entry) list"

definition max_int64 :: int where
  "max_int64 = 2 ^ 63 - 1"

definition NewTimerQueue :: "int \<Rightarrow> 'v TimerQueue" where
  "NewTimerQueue now =
    \<lparr>tq_queue = New, tq_pushCh = [], tq_deadline = now + max_int64, tq_now = now, tq_ran = []\<rparr>"

definition tq_Push :: "64 word \<Rightarrow> 'v \<Rightarrow> 'v TimerQueue \<Rightarrow> 'v TimerQueue option" where
  "tq_Push p v t =
    (if length (tq_pushCh t) < 100 then Some (t\<lparr>tq_pushCh := tq_pushCh t @ [\<lparr>Value = v, Priority = p\<rparr>]\<rparr>) else None)"

definition tq_Pop :: "'v TimerQueue \<Rightarrow> 'v Entry option \<times> 'v TimerQueue" where
  "tq_Pop t = (let (e, q) = Dequeue (tq_queue t) in (e, t\<lparr>tq_queue := q\<rparr>))"

fun cancel_from :: "'v PriorityQueue \<Rightarrow> 'v \<Rightarrow> nat \<Rightarrow> nat \<Rightarrow> bool \<times> 'v PriorityQueue" where
  "cancel_from q v i 0 = (False, q)"
| "cancel_from q v i (Suc k) =
    (case PeekIndex q i of
       Some (Some e) \<Rightarrow>
         if Value e = v then (case DequeueIndex q i of Some (_, q') \<Rightarrow> (True, q') | None \<Rightarrow> (True, q))
         else cancel_from q v (Suc i) k
     | _ \<Rightarrow> (False, q))"

definition Cancel :: "'v \<Rightarrow> 'v TimerQueue \<Rightarrow> bool \<times> 'v TimerQueue" where
  "Cancel v t = (let (b, q) = cancel_from (tq_queue t) v 0 (Len (tq_queue t)) in (b, t\<lparr>tq_queue := q\<rparr>))"

text \<open>
  The rescheduling loop of the worker. Iteration \<open>k\<close> reads the clock twice, \<open>clk (2 * k)\<close> for the time
  left and \<open>clk (2 * k + 1)\<close> for the second comparison. \<open>timeLeft\<close> is an \<open>int64\<close>; the deadline is the
  last reading plus the duration of \<open>timer.Reset\<close>.
\<close>

definition timeLeft :: "'v Entry \<Rightarrow> int \<Rightarrow> int" where
  "timeLeft m now = sint (Priority m - word_of_int now)"

definition due :: "'v Entry \<Rightarrow> int \<Rightarrow> int \<Rightarrow> bool" where
  "due m now now' = (timeLeft m now < 0 \<or> Priority m < word_of_int now')"

lemma Dequeue_Len: "Peek q = Some m \<Longrightarrow> Len (snd (Dequeue q)) < Len q"
proof -
  assume "Peek q = Some m"
  then have ne: "pq_heap q \<noteq> []" by (auto simp: Peek_def Len_def split: if_splits)
  define n where "n = length (pq_heap q) - 1"
  have n: "length (pq_heap q) = Suc n" using ne by (simp add: n_def)
  define d where "d = fst (down (Swap (pq_heap q) 0 n) 0 n)"
  have "length d = Suc n"
  proof (cases "n = 0")
    case True
    then show ?thesis using n by (simp add: d_def down_eq [of _ 0 0])
  next
    case False
    then show ?thesis using down_frame [of 0 n "Swap (pq_heap q) 0 n"] n by (simp add: d_def)
  qed
  moreover have "heap_Pop (pq_heap q) = Pop d" using ne by (simp add: heap_Pop_def d_def n_def Let_def)
  ultimately have "length (snd (heap_Pop (pq_heap q))) = n" by (auto simp: Pop_def)
  then show ?thesis using ne n by (cases "heap_Pop (pq_heap q)") (simp add: Dequeue_def Len_def)
qed

function reschedule :: "(nat \<Rightarrow> int) \<Rightarrow> nat \<Rightarrow> 'v TimerQueue \<Rightarrow> 'v TimerQueue" where
  "reschedule clk k t =
    (case Peek (tq_queue t) of
       None \<Rightarrow> t\<lparr>tq_deadline := clk (2 * k) + max_int64, tq_now := clk (2 * k)\<rparr>
     | Some m \<Rightarrow>
         if due m (clk (2 * k)) (clk (2 * k + 1)) then
           reschedule clk (Suc k)
             (t\<lparr>tq_queue := snd (Dequeue (tq_queue t)), tq_now := clk (2 * k + 1), tq_ran := (clk (2 * k + 1), m) # tq_ran t\<rparr>)
         else t\<lparr>tq_deadline := clk (2 * k + 1) + timeLeft m (clk (2 * k)), tq_now := clk (2 * k + 1)\<rparr>)"
  by pat_completeness auto
termination
  by (relation "measure (\<lambda>(clk, k, t). Len (tq_queue t))") (auto simp: Dequeue_Len)

declare reschedule.simps [simp del]

definition worker_timer :: "(nat \<Rightarrow> int) \<Rightarrow> 'v TimerQueue \<Rightarrow> 'v TimerQueue" where
  "worker_timer clk t =
    reschedule clk 0
      (case Peek (tq_queue t) of
         None \<Rightarrow> t
       | Some m \<Rightarrow> t\<lparr>tq_queue := snd (Dequeue (tq_queue t)), tq_ran := (tq_now t, m) # tq_ran t\<rparr>)"

definition worker_push :: "(nat \<Rightarrow> int) \<Rightarrow> 'v Entry \<Rightarrow> 'v TimerQueue \<Rightarrow> 'v TimerQueue" where
  "worker_push clk item t = reschedule clk 0 (t\<lparr>tq_queue := Enqueue (tq_queue t) (Priority item) (Value item)\<rparr>)"

text \<open>Clock readings are \<open>int64\<close> nanoseconds that do not go back.\<close>

definition clock_ok :: "int \<Rightarrow> (nat \<Rightarrow> int) \<Rightarrow> bool" where
  "clock_ok now clk = (0 \<le> now \<and> now \<le> clk 0 \<and> (\<forall>k. clk k \<le> clk (Suc k)) \<and> (\<forall>k. clk k < 2 ^ 62))"

datatype tq_label = Tau | Cancelled | Popped

inductive tq_step :: "'v TimerQueue \<Rightarrow> tq_label \<Rightarrow> 'v TimerQueue \<Rightarrow> bool" where
  tick: "tq_now t \<le> now \<Longrightarrow> tq_step t Tau (t\<lparr>tq_now := now\<rparr>)"
| push: "tq_Push p v t = Some t' \<Longrightarrow> p < 2 ^ 62 \<Longrightarrow> tq_step t Tau t'"
| ingest: "tq_pushCh t = item # rest \<Longrightarrow> clock_ok (tq_now t) clk \<Longrightarrow>
    tq_step t Tau (worker_push clk item (t\<lparr>tq_pushCh := rest\<rparr>))"
| fire: "tq_deadline t \<le> tq_now t \<Longrightarrow> clock_ok (tq_now t) clk \<Longrightarrow> tq_step t Tau (worker_timer clk t)"
| cancel: "Cancel v t = (b, t') \<Longrightarrow> tq_step t Cancelled t'"
| pop: "tq_Pop t = (e, t') \<Longrightarrow> tq_step t Popped t'"

text \<open>Runs of a queue without \<open>Cancel\<close> and \<open>Pop\<close>, and all runs.\<close>

inductive tq_undisturbed :: "'v TimerQueue \<Rightarrow> bool" where
  "0 \<le> now \<Longrightarrow> tq_undisturbed (NewTimerQueue now)"
| "tq_undisturbed t \<Longrightarrow> tq_step t Tau t' \<Longrightarrow> tq_undisturbed t'"

inductive tq_reachable :: "'v TimerQueue \<Rightarrow> bool" where
  "0 \<le> now \<Longrightarrow> tq_reachable (NewTimerQueue now)"
| "tq_reachable t \<Longrightarrow> tq_step t l t' \<Longrightarrow> tq_reachable t'"

section \<open>Entries run when they are due\<close>

lemma Peek_Some: "Peek q = Some m \<longleftrightarrow> pq_heap q \<noteq> [] \<and> m = pq_heap q ! 0"
  by (auto simp: Peek_def Len_def)

lemma Peek_in: "Peek q = Some m \<Longrightarrow> m \<in># pq_contents q"
  by (simp add: Peek_Some pq_contents_def)

lemma Dequeue_subset: "pq_invar q \<Longrightarrow> pq_contents (snd (Dequeue q)) \<subseteq># pq_contents q"
proof (cases "pq_heap q = []")
  case False
  assume "pq_invar q"
  then obtain q' where "Dequeue q = (Some (pq_heap q ! 0), q')" "pq_contents q = add_mset (pq_heap q ! 0) (pq_contents q')"
    by (rule Dequeue_ok [OF _ False])
  then show ?thesis by simp
qed (simp add: Dequeue_empty)

lemma timeLeft_exact:
  assumes "p < 2 ^ 62" and "0 \<le> now" and "now < 2 ^ 62"
  shows "sint (p - word_of_int now :: 64 word) = uint p - now"
proof -
  have p: "uint p < 2 ^ 62" using assms(1) by (simp add: word_less_alt)
  have "p - word_of_int now = word_of_int (uint p - now)" by simp
  then have "sint (p - word_of_int now) = signed_take_bit 63 (uint p - now)"
    using sint_sbintrunc' [of "uint p - now", where 'a = 64] by (simp only:) simp
  also have "\<dots> = uint p - now"
  proof (rule signed_take_bit_int_eq_self)
    have "(2 :: int) ^ 62 < 2 ^ 63" by simp
    with p assms(2,3) uint_ge_0 [of p] show "- (2 ^ 63) \<le> uint p - now" "uint p - now < 2 ^ 63" by linarith+
  qed
  finally show ?thesis .
qed

lemma not_due_exact:
  assumes "Priority m < 2 ^ 62" and "0 \<le> now" and "now \<le> now'" and "now' < 2 ^ 62"
  shows "due m now now' \<longleftrightarrow> uint (Priority m) < now'" and "timeLeft m now = uint (Priority m) - now"
proof -
  show tl: "timeLeft m now = uint (Priority m) - now"
    using assms timeLeft_exact [of "Priority m" now] by (simp add: timeLeft_def)
  have "uint (word_of_int now' :: 64 word) = now'"
    using assms by (simp add: uint_word_of_int take_bit_int_eq_self)
  then have "Priority m < word_of_int now' \<longleftrightarrow> uint (Priority m) < now'" by (simp add: word_less_alt)
  then show "due m now now' \<longleftrightarrow> uint (Priority m) < now'" using tl assms(3) by (auto simp: due_def)
qed

text \<open>
  The invariant of an undisturbed queue: every entry that waits has a priority in range, the timer does
  not fire before the head is due, and what has run was due.
\<close>

definition tq_entries_ok :: "'v TimerQueue \<Rightarrow> bool" where
  "tq_entries_ok t = (pq_invar (tq_queue t) \<and> (\<forall>e\<in>#pq_contents (tq_queue t). Priority e < 2 ^ 62) \<and>
     (\<forall>e\<in>set (tq_pushCh t). Priority e < 2 ^ 62) \<and> 0 \<le> tq_now t)"

definition tq_ran_due :: "'v TimerQueue \<Rightarrow> bool" where
  "tq_ran_due t = (\<forall>(time, e)\<in>set (tq_ran t). uint (Priority e) \<le> time)"

definition tq_timer_ok :: "'v TimerQueue \<Rightarrow> bool" where
  "tq_timer_ok t = (\<forall>m. Peek (tq_queue t) = Some m \<longrightarrow> uint (Priority m) \<le> tq_deadline t)"

lemma clock_mono: "(\<forall>k. clk k \<le> clk (Suc k)) \<Longrightarrow> i \<le> j \<Longrightarrow> (clk i :: int) \<le> clk j"
  using lift_Suc_mono_le [of clk] by blast

lemma Dequeue_entries:
  "tq_entries_ok t \<Longrightarrow> 0 \<le> now \<Longrightarrow>
    tq_entries_ok (t\<lparr>tq_queue := snd (Dequeue (tq_queue t)), tq_now := now, tq_ran := r\<rparr>)"
  by (auto simp: tq_entries_ok_def Dequeue_invar dest: mset_subset_eqD [OF Dequeue_subset])

lemma reschedule_ok:
  "\<forall>k. clk k \<le> clk (Suc k) \<Longrightarrow> \<forall>k. 0 \<le> clk k \<and> clk k < 2 ^ 62 \<Longrightarrow> tq_entries_ok t \<Longrightarrow> tq_ran_due t \<Longrightarrow>
    tq_entries_ok (reschedule clk k t) \<and> tq_ran_due (reschedule clk k t) \<and> tq_timer_ok (reschedule clk k t)"
proof (induction clk k t rule: reschedule.induct)
  case (1 clk k t)
  let ?a = "clk (2 * k)" and ?b = "clk (2 * k + 1)"
  have ab: "0 \<le> ?a" "?a \<le> ?b" "?b < 2 ^ 62" "0 \<le> ?b" using 1(2,3) by simp_all
  show ?case
  proof (cases "Peek (tq_queue t)")
    case None
    then show ?thesis using 1(4,5) ab
      by (simp add: reschedule.simps [of clk k t] tq_entries_ok_def tq_ran_due_def tq_timer_ok_def)
  next
    case (Some m)
    have m: "Priority m < 2 ^ 62" using 1(4) Peek_in [OF Some] by (simp add: tq_entries_ok_def)
    note exact = not_due_exact [OF m ab(1-3)]
    show ?thesis
    proof (cases "due m ?a ?b")
      case True
      let ?t = "t\<lparr>tq_queue := snd (Dequeue (tq_queue t)), tq_now := ?b, tq_ran := (?b, m) # tq_ran t\<rparr>"
      have "tq_ran_due ?t" using 1(5) True exact(1) by (simp add: tq_ran_due_def)
      then show ?thesis
        using 1(1) [OF Some True 1(2,3) Dequeue_entries [OF 1(4) ab(4)]] Some True
        by (simp add: reschedule.simps [of clk k t])
    next
      case False
      then have "reschedule clk k t = t\<lparr>tq_deadline := ?b + timeLeft m ?a, tq_now := ?b\<rparr>"
        using Some by (simp add: reschedule.simps [of clk k t])
      then show ?thesis using 1(4,5) Some ab exact(2)
        by (simp add: tq_entries_ok_def tq_ran_due_def tq_timer_ok_def)
    qed
  qed
qed

lemma clock_okD:
  assumes "clock_ok now clk"
  shows "(\<forall>k. clk k \<le> clk (Suc k)) \<and> (\<forall>k. 0 \<le> clk k \<and> clk k < 2 ^ 62)"
proof -
  have mono: "\<forall>k. clk k \<le> clk (Suc k)" and "0 \<le> clk 0" using assms by (auto simp: clock_ok_def)
  then have "0 \<le> clk k" for k using order_trans [OF _ clock_mono [OF mono, of 0 k]] by simp
  with mono show ?thesis using assms by (simp add: clock_ok_def)
qed

lemma tq_step_ok:
  assumes "tq_step t l t'" and "l = Tau" and "tq_entries_ok t" and "tq_ran_due t" and "tq_timer_ok t"
  shows "tq_entries_ok t' \<and> tq_ran_due t' \<and> tq_timer_ok t'"
  using assms
proof (induction rule: tq_step.induct)
  case (tick t now)
  then show ?case by (simp add: tq_entries_ok_def tq_ran_due_def tq_timer_ok_def)
next
  case (push p v t t')
  then show ?case by (auto simp: tq_Push_def tq_entries_ok_def tq_ran_due_def tq_timer_ok_def split: if_splits)
next
  case (ingest t item rest clk)
  note clk = clock_okD [OF ingest(2)]
  let ?q = "Enqueue (tq_queue t) (Priority item) (Value item)"
  have inv: "pq_invar (tq_queue t)" using ingest by (simp add: tq_entries_ok_def)
  have "tq_entries_ok (t\<lparr>tq_pushCh := rest, tq_queue := ?q\<rparr>)"
    using ingest pq.enq_invar [OF inv, of item] pq.enq_contents [OF inv, of item] by (simp add: tq_entries_ok_def)
  moreover have "tq_ran_due (t\<lparr>tq_pushCh := rest, tq_queue := ?q\<rparr>)" using ingest by (simp add: tq_ran_due_def)
  ultimately show ?case
    unfolding worker_push_def by (intro reschedule_ok clk [THEN conjunct1] clk [THEN conjunct2]) simp_all
next
  case (fire t clk)
  note clk = clock_okD [OF fire(2)]
  define t1 where "t1 = (case Peek (tq_queue t) of None \<Rightarrow> t
     | Some m \<Rightarrow> t\<lparr>tq_queue := snd (Dequeue (tq_queue t)), tq_ran := (tq_now t, m) # tq_ran t\<rparr>)"
  have "tq_entries_ok t1 \<and> tq_ran_due t1"
  proof (cases "Peek (tq_queue t)")
    case (Some m)
    have "uint (Priority m) \<le> tq_now t" using fire Some by (auto simp: tq_timer_ok_def)
    moreover have "tq_entries_ok (t\<lparr>tq_queue := snd (Dequeue (tq_queue t)), tq_now := tq_now t, tq_ran := (tq_now t, m) # tq_ran t\<rparr>)"
      using fire by (intro Dequeue_entries) (simp_all add: tq_entries_ok_def)
    ultimately show ?thesis using Some fire by (simp add: t1_def tq_ran_due_def)
  qed (use fire in \<open>simp add: t1_def\<close>)
  then show ?case unfolding worker_timer_def t1_def [symmetric]
    by (intro reschedule_ok clk [THEN conjunct1] clk [THEN conjunct2]) simp_all
qed simp_all

lemma tq_undisturbed_ok: "tq_undisturbed t \<Longrightarrow> tq_entries_ok t \<and> tq_ran_due t \<and> tq_timer_ok t"
proof (induction rule: tq_undisturbed.induct)
  case (1 now)
  then show ?case
    by (simp add: NewTimerQueue_def tq_entries_ok_def tq_ran_due_def tq_timer_ok_def pq.empty_invar pq.empty_contents Peek_def Len_def)
      (simp add: New_def)
next
  case (2 t t')
  then show ?case using tq_step_ok by blast
qed

lemma undisturbed_not_early:
  assumes "tq_undisturbed t" and "(time, e) \<in> set (tq_ran t)"
  shows "uint (Priority e) \<le> time"
  using tq_undisturbed_ok [OF assms(1)] assms(2) by (auto simp: tq_ran_due_def)

lemma reschedule_head:
  assumes "Peek (tq_queue t) = Some m" and "Priority m < 2 ^ 62" and "0 \<le> c" and "c < 2 ^ 62" and "c \<le> uint (Priority m)"
  shows "reschedule (\<lambda>_. c) 0 t = t\<lparr>tq_deadline := uint (Priority m), tq_now := c\<rparr>"
  using assms not_due_exact [OF assms(2,3) order_refl assms(4)] by (simp add: reschedule.simps [of _ 0 t])

lemma reschedule_idle: "Peek (tq_queue t) = None \<Longrightarrow> reschedule (\<lambda>_. c) 0 t = t\<lparr>tq_deadline := c + max_int64, tq_now := c\<rparr>"
  by (simp add: reschedule.simps [of _ 0 t])

lemma clock_const: "0 \<le> c \<Longrightarrow> c < 2 ^ 62 \<Longrightarrow> clock_ok c (\<lambda>_. c)"
  by (simp add: clock_ok_def)

lemma Enqueue_one: "Enqueue New p v = \<lparr>pq_heap = [\<lparr>Value = v, Priority = p\<rparr>]\<rparr>"
  by (simp add: Enqueue_def New_def heap_Push_def Push_def)

lemma Peek_Cons [simp]: "Peek \<lparr>pq_heap = e # h\<rparr> = Some e"
  by (simp add: Peek_def Len_def)

lemma Dequeue_one: "Dequeue \<lparr>pq_heap = [e]\<rparr> = (Some e, \<lparr>pq_heap = []\<rparr>)"
  by (simp add: Dequeue_def Len_def heap_Pop_def Pop_def Swap_def down_eq [of _ 0 0])

text \<open>For any two priorities there is a run in which the second entry runs at the time of the first.\<close>

lemma cancel_runs_next_early:
  fixes a b :: 'v
  assumes "a \<noteq> b" and "p < p'" and "p' < 2 ^ 62"
  shows "\<exists>t. tq_reachable t \<and> (uint p, \<lparr>Value = b, Priority = p'\<rparr>) \<in> set (tq_ran t) \<and> uint p < uint p'"
proof -
  let ?a = "\<lparr>Value = a, Priority = p\<rparr>" and ?b = "\<lparr>Value = b, Priority = p'\<rparr>"
  let ?t0 = "NewTimerQueue 0 :: 'v TimerQueue"
  let ?t2 = "?t0\<lparr>tq_pushCh := [?a, ?b]\<rparr>"
  let ?t3 = "?t0\<lparr>tq_queue := \<lparr>pq_heap = [?a]\<rparr>, tq_deadline := uint p, tq_pushCh := [?b]\<rparr>"
  let ?t4 = "?t0\<lparr>tq_queue := \<lparr>pq_heap = [?a, ?b]\<rparr>, tq_deadline := uint p\<rparr>"
  let ?t5 = "?t0\<lparr>tq_queue := \<lparr>pq_heap = [?b]\<rparr>, tq_deadline := uint p\<rparr>"
  let ?t6 = "?t5\<lparr>tq_now := uint p\<rparr>"
  have p: "p < 2 ^ 62" "uint p < uint p'" "uint p < 2 ^ 62"
    using assms(2,3) by (auto simp: word_less_alt)
  have r0: "tq_reachable ?t0" by (intro tq_reachable.intros(1)) simp
  have s1: "tq_step ?t0 Tau (?t0\<lparr>tq_pushCh := [?a]\<rparr>)"
    using p by (intro tq_step.push [of p a]) (simp_all add: tq_Push_def NewTimerQueue_def)
  have s2: "tq_step (?t0\<lparr>tq_pushCh := [?a]\<rparr>) Tau ?t2"
    using assms(3) by (intro tq_step.push [of p' b]) (simp_all add: tq_Push_def)
  have "worker_push (\<lambda>_. 0) ?a (?t2\<lparr>tq_pushCh := [?b]\<rparr>) = ?t3"
    using reschedule_head [of "?t0\<lparr>tq_pushCh := [?b], tq_queue := \<lparr>pq_heap = [?a]\<rparr>\<rparr>" ?a 0] p
    by (simp add: worker_push_def NewTimerQueue_def Enqueue_one)
  then have s3: "tq_step ?t2 Tau ?t3"
    using tq_step.ingest [of ?t2 ?a "[?b]" "\<lambda>_. 0"] clock_const [of 0] by (simp add: NewTimerQueue_def)
  have "Enqueue \<lparr>pq_heap = [?a]\<rparr> p' b = \<lparr>pq_heap = [?a, ?b]\<rparr>"
    using less_not_sym [OF assms(2)] by (simp add: Enqueue_def heap_Push_def Push_def up_Suc Less_def)
  then have "worker_push (\<lambda>_. 0) ?b (?t3\<lparr>tq_pushCh := []\<rparr>) = ?t4"
    using reschedule_head [of "?t3\<lparr>tq_pushCh := [], tq_queue := \<lparr>pq_heap = [?a, ?b]\<rparr>\<rparr>" ?a 0] p
    by (simp add: worker_push_def NewTimerQueue_def)
  then have s4: "tq_step ?t3 Tau ?t4"
    using tq_step.ingest [of ?t3 ?b "[]" "\<lambda>_. 0"] clock_const [of 0] by (simp add: NewTimerQueue_def)
  have "Cancel a ?t4 = (True, ?t5)"
    by (simp add: Cancel_def Len_def PeekIndex_def DequeueIndex_def heap_Remove_def Swap_def down_eq [of _ 0 "Suc 0"] Pop_def)
  then have s5: "tq_step ?t4 Cancelled ?t5" by (rule tq_step.cancel)
  have s6: "tq_step ?t5 Tau ?t6" by (intro tq_step.tick) (simp add: NewTimerQueue_def)
  have s7: "tq_step ?t6 Tau (worker_timer (\<lambda>_. uint p) ?t6)"
    using clock_const [of "uint p"] p by (intro tq_step.fire) simp_all
  note step = tq_reachable.intros(2)
  have "tq_reachable (worker_timer (\<lambda>_. uint p) ?t6)"
    by (rule step [OF step [OF step [OF step [OF step [OF step [OF step [OF r0 s1] s2] s3] s4] s5] s6] s7])
  moreover have "(uint p, ?b) \<in> set (tq_ran (worker_timer (\<lambda>_. uint p) ?t6))"
    by (simp add: worker_timer_def Dequeue_one reschedule.simps [of _ 0] NewTimerQueue_def Peek_def Len_def)
  ultimately show ?thesis using p by blast
qed

text \<open>
  C14. In a timer queue on which nobody calls \<open>Cancel\<close> or \<open>Pop\<close>, no action runs before its time: whatever
  the interleaving of \<open>Push\<close>, the worker and the clock, an entry is handed to the action at a time that is
  not before its priority. After a \<open>Cancel\<close> an action can run early: \<open>Cancel\<close> does not reset the timer, and when
  the timer of the cancelled head fires, the worker hands the next entry to the action without looking at its time.
  For any two priorities \<open>p < p'\<close> there is a run in which the entry for \<open>p'\<close> runs at time \<open>p\<close>.
\<close>

theorem never_runs_early:
  fixes a b :: 'v and t :: "'v TimerQueue"
  shows "(tq_undisturbed t \<and> (time, e) \<in> set (tq_ran t) \<longrightarrow> uint (Priority e) \<le> time) \<and>
    (a \<noteq> b \<and> p < p' \<and> p' < 2 ^ 62 \<longrightarrow>
      (\<exists>t. tq_reachable t \<and> (uint p, \<lparr>Value = b, Priority = p'\<rparr>) \<in> set (tq_ran t) \<and> uint p < uint p'))"
  using undisturbed_not_early [of t time e] cancel_runs_next_early [of a b p p'] by blast

theorem never_runs_early_witness:
  "\<exists>t. tq_undisturbed t \<and> (7, \<lparr>Value = ''a'', Priority = 5\<rparr>) \<in> set (tq_ran t) \<and> uint (5 :: 64 word) \<le> 7 \<and>
     (\<exists>s :: string TimerQueue. tq_reachable s \<and> (3, \<lparr>Value = ''b'', Priority = 9\<rparr>) \<in> set (tq_ran s))"
proof -
  let ?e = "\<lparr>Value = ''a'', Priority = 5\<rparr> :: string Entry"
  let ?t0 = "NewTimerQueue 0 :: string TimerQueue"
  let ?t2 = "?t0\<lparr>tq_queue := \<lparr>pq_heap = [?e]\<rparr>, tq_deadline := 5\<rparr>"
  let ?t4 = "worker_timer (\<lambda>_. 7) (?t2\<lparr>tq_now := 7\<rparr>)"
  have "tq_undisturbed ?t0" by (intro tq_undisturbed.intros(1)) simp
  moreover have "tq_step ?t0 Tau (?t0\<lparr>tq_pushCh := [?e]\<rparr>)"
    by (intro tq_step.push [of 5 "''a''"]) (simp_all add: tq_Push_def NewTimerQueue_def)
  moreover have "worker_push (\<lambda>_. 0) ?e (?t0\<lparr>tq_pushCh := []\<rparr>) = ?t2"
    using reschedule_head [of "?t0\<lparr>tq_queue := \<lparr>pq_heap = [?e]\<rparr>\<rparr>" ?e 0]
    by (simp add: worker_push_def NewTimerQueue_def Enqueue_one)
  then have "tq_step (?t0\<lparr>tq_pushCh := [?e]\<rparr>) Tau ?t2"
    using tq_step.ingest [of "?t0\<lparr>tq_pushCh := [?e]\<rparr>" ?e "[]" "\<lambda>_. 0"] clock_const [of 0]
    by (simp add: NewTimerQueue_def)
  moreover have "tq_step ?t2 Tau (?t2\<lparr>tq_now := 7\<rparr>)" by (intro tq_step.tick) (simp add: NewTimerQueue_def)
  moreover have "tq_step (?t2\<lparr>tq_now := 7\<rparr>) Tau ?t4" using clock_const [of 7] by (intro tq_step.fire) simp_all
  ultimately have r: "tq_undisturbed ?t4" by (blast intro: tq_undisturbed.intros(2))
  have ran: "(7, ?e) \<in> set (tq_ran ?t4)"
    by (simp add: worker_timer_def Dequeue_one reschedule.simps [of _ 0] NewTimerQueue_def Peek_def Len_def)
  from never_runs_early [of ?t4 7 ?e "''a''" "''b''" 3 9] r ran show ?thesis by auto
qed

end
