(* ===== verification/Mix_Scheduler.thy ===== *)
theory Mix_Scheduler
  imports Mix_Worker Timer_Queue
begin

text \<open>
  \<open>src/server/internal/scheduler\<close>: the mixing itself. Packets wait in a priority queue until their delay has
  passed; the worker (\<open>scheduler.go\<close>) admits batches, and on every wake-up dispatches what is due. The queue
  behind the worker is an interface, \<open>queueImpl\<close>: locale \<open>queue_impl\<close> is its contract, and the memory queue
  (\<open>queue_mem.go\<close>) its interpretation. Times are nanoseconds, the clock readings a parameter.
\<close>

section \<open>The memory queue\<close>

type_synonym memoryQueue = "Packet PriorityQueue"

definition mq_Peek :: "memoryQueue \<Rightarrow> (int \<times> Packet) option" where
  "mq_Peek q = (case Peek q of None \<Rightarrow> None | Some e \<Rightarrow> Some (sint (Priority e), Value e))"

definition mq_Pop :: "memoryQueue \<Rightarrow> memoryQueue" where
  "mq_Pop q = q\<lparr>pq_heap := snd (heap_Pop (pq_heap q))\<rparr>"

text \<open>
  \<open>doEnqueue\<close> returns the packet that it drops when the queue is over its capacity. The random index is a
  parameter; \<open>None\<close> for the whole result is a panic.
\<close>

definition doEnqueue :: "(nat \<Rightarrow> nat) \<Rightarrow> int \<Rightarrow> int \<Rightarrow> Packet \<Rightarrow> memoryQueue \<Rightarrow> (Packet option \<times> memoryQueue) option" where
  "doEnqueue Intn maxCapacity priority pkt q =
    (let q' = Enqueue q (word_of_int priority) pkt in
     if 0 < maxCapacity \<and> maxCapacity < int (Len q') then
       (case DequeueRandom Intn q' of
          Some (Some dropped, q'') \<Rightarrow> Some (Some (Value dropped), q'')
        | _ \<Rightarrow> None)
     else Some (None, q'))"

fun BulkEnqueue :: "(nat \<Rightarrow> nat \<Rightarrow> nat) \<Rightarrow> int \<Rightarrow> int \<Rightarrow> Packet list \<Rightarrow> memoryQueue \<Rightarrow> (Packet list \<times> memoryQueue) option" where
  "BulkEnqueue Intn maxCapacity now [] q = Some ([], q)"
| "BulkEnqueue Intn maxCapacity now (pkt # batch) q =
    (case doEnqueue (Intn (length batch)) maxCapacity (now + pkt_Delay pkt) pkt q of
       None \<Rightarrow> None
     | Some (dropped, q') \<Rightarrow>
         (case BulkEnqueue Intn maxCapacity now batch q' of
            None \<Rightarrow> None
          | Some (drops, q'') \<Rightarrow> Some ((case dropped of None \<Rightarrow> drops | Some d \<Rightarrow> d # drops), q'')))"

section \<open>The scheduler worker\<close>

definition absoluteMaxDelay :: "int \<Rightarrow> int" where
  "absoluteMaxDelay Period = Duration_mul Period (int NumMixKeys)"

text \<open>The packets of a batch that are admitted, and those that are dropped.\<close>

definition admit :: "int \<Rightarrow> (bytes \<Rightarrow> bool) \<Rightarrow> Packet \<Rightarrow> bool option" where
  "admit maxDelay IsValidForwardDest pkt =
    (if pkt_Delay pkt > maxDelay then Some False
     else case pkt_NextNodeHop pkt of
       Some (NextNodeHop i _) \<Rightarrow> Some (IsValidForwardDest i)
     | _ \<Rightarrow> None)"

fun filter_batch :: "int \<Rightarrow> (bytes \<Rightarrow> bool) \<Rightarrow> Packet list \<Rightarrow> (Packet list \<times> Packet list) option" where
  "filter_batch maxDelay valid [] = Some ([], [])"
| "filter_batch maxDelay valid (pkt # batch) =
    (case admit maxDelay valid pkt of
       None \<Rightarrow> None
     | Some ok \<Rightarrow>
         map_option (\<lambda>(keep, drops). if ok then (pkt # keep, drops) else (keep, pkt # drops))
           (filter_batch maxDelay valid batch))"

definition new_max_delay :: "int \<Rightarrow> 64 word \<Rightarrow> int" where
  "new_max_delay Period newMaxDelay =
    (let pkiMaxDelay = Duration_mul (sint newMaxDelay) millisecond in
     if pkiMaxDelay > absoluteMaxDelay Period \<or> pkiMaxDelay = 0 then absoluteMaxDelay Period else pkiMaxDelay)"

text \<open>
  The dispatch loop, over the operations of the queue behind the interface. \<open>left\<close> is what remains of the
  burst, \<open>clk k\<close> the clock in iteration \<open>k\<close>. The results are the packets handed to the connector, with the
  time of their dispatch, the packets dropped because their deadline was blown, the queue, and the
  duration the timer is set to (\<open>None\<close>: the maximal one).
\<close>

fun dispatch_loop ::
  "('q \<Rightarrow> (int \<times> Packet) option) \<Rightarrow> ('q \<Rightarrow> 'q) \<Rightarrow> int \<Rightarrow> (nat \<Rightarrow> int) \<Rightarrow> nat \<Rightarrow> nat \<Rightarrow> 'q
     \<Rightarrow> (int \<times> Packet) list \<times> (int \<times> Packet) list \<times> 'q \<times> int option" where
  "dispatch_loop peek pop slack clk left k q =
    (case peek q of
       None \<Rightarrow> ([], [], q, None)
     | Some (dispatchAt, pkt) \<Rightarrow>
         let now = clk k in
         if now < dispatchAt then ([], [], q, Some (dispatchAt - now))
         else case left of
           0 \<Rightarrow> ([], [], q, Some 1000)
         | Suc left' \<Rightarrow>
             let (sent, blown, q', timer) = dispatch_loop peek pop slack clk left' (Suc k) (pop q) in
             if slack < now - dispatchAt then (sent, (dispatchAt, pkt) # blown, q', timer)
             else ((dispatchAt, pkt\<lparr>pkt_DispatchAt := now\<rparr>) # sent, blown, q', timer))"

declare dispatch_loop.simps [simp del]

section \<open>The contract of the queue\<close>

text \<open>\<open>undo\<close> forgets the dispatch time that the worker writes into a packet.\<close>

definition undo :: "int \<times> Packet \<Rightarrow> int \<times> Packet" where
  "undo x = (fst x, (snd x)\<lparr>pkt_DispatchAt := 0\<rparr>)"

definition on_time :: "int \<Rightarrow> int \<times> Packet \<Rightarrow> bool" where
  "on_time slack x = (fst x \<le> pkt_DispatchAt (snd x) \<and> pkt_DispatchAt (snd x) - fst x \<le> slack)"

locale queue_impl =
  fixes contents :: "'q \<Rightarrow> (int \<times> Packet) multiset"
    and invar :: "'q \<Rightarrow> bool"
    and peek :: "'q \<Rightarrow> (int \<times> Packet) option"
    and pop :: "'q \<Rightarrow> 'q"
  assumes peek_empty: "invar q \<Longrightarrow> peek q = None \<Longrightarrow> contents q = {#}"
    and peek_least: "invar q \<Longrightarrow> peek q = Some x \<Longrightarrow> y \<in># contents q \<Longrightarrow> fst x \<le> fst y"
    and pop_invar: "invar q \<Longrightarrow> peek q = Some x \<Longrightarrow> invar (pop q)"
    and pop_contents: "invar q \<Longrightarrow> peek q = Some x \<Longrightarrow> contents q = add_mset x (contents (pop q))"
begin

lemma dispatch_conserves:
  assumes "invar q" and "dispatch_loop peek pop slack clk left k q = (sent, blown, q', timer)"
  shows "invar q' \<and>
    image_mset undo (contents q) = image_mset undo (mset sent + mset blown + contents q') \<and>
    length sent + length blown \<le> left"
  using assms
proof (induction left arbitrary: k q q' sent blown timer)
  case 0
  then show ?case
    by (subst (asm) dispatch_loop.simps) (auto simp: Let_def split: option.splits prod.splits if_splits)
next
  case (Suc left)
  show ?case
  proof (cases "peek q")
    case None
    with Suc.prems show ?thesis by (subst (asm) dispatch_loop.simps) auto
  next
    case (Some x)
    obtain at pkt where x: "x = (at, pkt)" by fastforce
    obtain sent1 blown1 q1 timer1 where rec: "dispatch_loop peek pop slack clk left (Suc k) (pop q) = (sent1, blown1, q1, timer1)"
      by (metis prod_cases4)
    note IH = Suc.IH [OF pop_invar [OF Suc.prems(1) Some] rec]
    show ?thesis
      using Suc.prems Some x IH rec pop_contents [OF Suc.prems(1) Some]
      by (subst (asm) dispatch_loop.simps) (auto simp: Let_def undo_def split: if_splits)
  qed
qed

lemma dispatch_sources:
  assumes "invar q" and "dispatch_loop peek pop slack clk left k q = (sent, blown, q', timer)"
  shows "fst ` (set sent \<union> set blown \<union> set_mset (contents q')) = fst ` set_mset (contents q)"
proof -
  have "image_mset fst (image_mset undo (contents q)) = image_mset fst (image_mset undo (mset sent + mset blown + contents q'))"
    using dispatch_conserves [OF assms] by simp
  then have "image_mset fst (contents q) = image_mset fst (mset sent + mset blown + contents q')"
    by (simp add: image_mset.compositionality comp_def undo_def)
  from arg_cong [OF this, of set_mset] show ?thesis by (simp add: image_Un)
qed

lemma dispatch_due:
  assumes "invar q" and "dispatch_loop peek pop slack clk left k q = (sent, blown, q', timer)"
  shows "(\<forall>x\<in>set sent. on_time slack x) \<and> (\<forall>x\<in>set blown. \<exists>j. slack < clk j - fst x) \<and> sorted (map fst sent) \<and>
    (length sent + length blown < left \<longrightarrow> (\<forall>y\<in>#contents q'. clk (k + (length sent + length blown)) < fst y))"
  using assms
proof (induction left arbitrary: k q q' sent blown timer)
  case 0
  then show ?case
    by (subst (asm) dispatch_loop.simps) (auto simp: Let_def split: option.splits prod.splits if_splits)
next
  case (Suc left)
  show ?case
  proof (cases "peek q")
    case None
    with Suc.prems peek_empty [OF Suc.prems(1) None] show ?thesis by (subst (asm) dispatch_loop.simps) auto
  next
    case (Some x)
    obtain at pkt where x: "x = (at, pkt)" by fastforce
    note least = peek_least [OF Suc.prems(1) Some]
    obtain sent1 blown1 q1 timer1 where rec: "dispatch_loop peek pop slack clk left (Suc k) (pop q) = (sent1, blown1, q1, timer1)"
      by (metis prod_cases4)
    have inv: "invar (pop q)" by (rule pop_invar [OF Suc.prems(1) Some])
    note IH = Suc.IH [OF inv rec]
    have "fst y \<in> fst ` set_mset (contents (pop q))" if "y \<in> set sent1" for y
      using dispatch_sources [OF inv rec] that by auto
    then have ge: "at \<le> fst y" if "y \<in> set sent1" for y
      using least x pop_contents [OF Suc.prems(1) Some] that by fastforce
    show ?thesis
    proof (cases "clk k < at")
      case True
      then have "sent = []" "blown = []" "q' = q" using Suc.prems(2) Some x
        by (auto simp: dispatch_loop.simps [of _ _ _ _ "Suc left"])
      then show ?thesis using True least x by fastforce
    next
      case False
      then have "(sent, blown, q') = (if slack < clk k - at then (sent1, (at, pkt) # blown1, q1)
          else ((at, pkt\<lparr>pkt_DispatchAt := clk k\<rparr>) # sent1, blown1, q1))"
        using Suc.prems(2) Some x rec by (auto simp: dispatch_loop.simps [of _ _ _ _ "Suc left"] Let_def)
      then show ?thesis using False IH ge by (auto simp: on_time_def split: if_splits)
    qed
  qed
qed

end

section \<open>The memory queue implements the contract\<close>

definition mq_contents :: "memoryQueue \<Rightarrow> (int \<times> Packet) multiset" where
  "mq_contents q = image_mset (\<lambda>e. (sint (Priority e), Value e)) (pq_contents q)"

definition mq_invar :: "memoryQueue \<Rightarrow> bool" where
  "mq_invar q = (pq_invar q \<and> (\<forall>e\<in>#pq_contents q. Priority e < 2 ^ 63))"

lemma sint_small: "(w :: 64 word) < 2 ^ 63 \<Longrightarrow> sint w = uint w"
  using int64_nonneg [of "uint w"] by (simp add: int64_def word_less_alt)

lemma mq_Pop_Dequeue: "Peek q = Some e \<Longrightarrow> mq_Pop q = snd (Dequeue q)"
  by (cases "heap_Pop (pq_heap q)") (auto simp: mq_Pop_def Dequeue_def Peek_Some Len_def)

lemma mq_Pop_contents:
  assumes "pq_invar q" and "Peek q = Some e"
  shows "pq_invar (mq_Pop q) \<and> pq_contents q = add_mset e (pq_contents (mq_Pop q))"
proof -
  obtain q' where "Dequeue q = (Some (pq_heap q ! 0), q')" "pq_contents q = add_mset (pq_heap q ! 0) (pq_contents q')" "pq_invar q'"
    using Dequeue_ok [OF assms(1)] assms(2) by (auto simp: Peek_Some)
  then show ?thesis using assms(2) by (simp add: mq_Pop_Dequeue [OF assms(2)] Peek_Some)
qed

interpretation mq: queue_impl mq_contents mq_invar mq_Peek mq_Pop
proof (unfold_locales, goal_cases)
  case (1 q)
  then show ?case by (auto simp: mq_Peek_def mq_contents_def pq_contents_def Peek_def Len_def split: option.splits if_splits)
next
  case (2 q x y)
  then obtain e where e: "Peek q = Some e" "x = (sint (Priority e), Value e)" by (auto simp: mq_Peek_def split: option.splits)
  from 2(3) obtain e' where e': "e' \<in># pq_contents q" "y = (sint (Priority e'), Value e')" by (auto simp: mq_contents_def)
  have "Priority e \<le> Priority e'" using pq_root_least [of q e'] 2(1) e(1) e'(1) by (simp add: mq_invar_def Peek_Some)
  then show ?case using 2(1) e e' Peek_in [OF e(1)] by (simp add: mq_invar_def sint_small word_le_def)
next
  case (3 q x)
  then obtain e where e: "Peek q = Some e" by (auto simp: mq_Peek_def split: option.splits)
  with 3 mq_Pop_contents [of q e] show ?case by (simp add: mq_invar_def)
next
  case (4 q x)
  then obtain e where "Peek q = Some e" "x = (sint (Priority e), Value e)" by (auto simp: mq_Peek_def split: option.splits)
  with 4 mq_Pop_contents [of q e] show ?case by (simp add: mq_invar_def mq_contents_def)
qed

text \<open>
  C20. One wake-up of the scheduler: every packet it hands to the connector is due and at most the slack late,
  packets go out in the order of their dispatch times, no more than the maximal burst leave the queue,
  packets are dropped only when their deadline is blown by more than the slack, nothing else is lost or invented, and
  when the burst was not exhausted everything that stays in the queue lies in the future.
\<close>

theorem scheduler_dispatches:
  assumes "mq_invar q" and "dispatch_loop mq_Peek mq_Pop slack clk maxBurst 0 q = (sent, blown, q', timer)"
  shows "(\<forall>x\<in>set sent. on_time slack x) \<and> (\<forall>x\<in>set blown. \<exists>j. slack < clk j - fst x) \<and> sorted (map fst sent) \<and>
    length sent + length blown \<le> maxBurst \<and> mq_invar q' \<and>
    image_mset undo (mq_contents q) = image_mset undo (mset sent + mset blown + mq_contents q') \<and>
    (length sent + length blown < maxBurst \<longrightarrow>
      (\<forall>y\<in>#mq_contents q'. clk (length sent + length blown) < fst y))"
  using mq.dispatch_conserves [OF assms] mq.dispatch_due [OF assms] by simp

theorem scheduler_dispatches_witness:
  "let q = Enqueue New 5 toy_packet in
   dispatch_loop mq_Peek mq_Pop 10 (\<lambda>_. 7) 3 0 q = ([(5, toy_packet\<lparr>pkt_DispatchAt := 7\<rparr>)], [], New, None) \<and>
   on_time 10 (5, toy_packet\<lparr>pkt_DispatchAt := 7\<rparr>)"
proof -
  define q where "q = (Enqueue New 5 toy_packet :: memoryQueue)"
  have q: "q = \<lparr>pq_heap = [\<lparr>Value = toy_packet, Priority = 5\<rparr>]\<rparr>" by (simp add: q_def Enqueue_one)
  have inv: "mq_invar q" by (simp add: q mq_invar_def pq_invar_def heap_upto_def pq_contents_def)
  have d: "dispatch_loop mq_Peek mq_Pop 10 (\<lambda>_. 7) 3 0 q = ([(5, toy_packet\<lparr>pkt_DispatchAt := 7\<rparr>)], [], New, None)"
    by (simp add: q dispatch_loop.simps [of _ _ _ _ _ 0] dispatch_loop.simps [of _ _ _ _ _ "Suc 0"] mq_Peek_def mq_Pop_def
        heap_Pop_def Pop_def Swap_def down_eq [of _ 0 0] Peek_def Len_def New_def numeral_3_eq_3)
  from d scheduler_dispatches [OF inv d] show ?thesis unfolding q_def [symmetric] Let_def by simp
qed

section \<open>Admission and capacity\<close>

lemma doEnqueue_ok:
  assumes "mq_invar q" and "0 \<le> t" and "t < 2 ^ 63" and "\<And>n. 0 < n \<Longrightarrow> Intn n < n"
  shows "\<exists>dropped q'. doEnqueue Intn cap t pkt q = Some (dropped, q') \<and> mq_invar q' \<and>
    (0 < cap \<longrightarrow> int (Len q) \<le> cap \<longrightarrow> int (Len q') \<le> cap) \<and>
    image_mset snd (mq_contents q') + mset (case dropped of None \<Rightarrow> [] | Some d \<Rightarrow> [d]) =
      add_mset pkt (image_mset snd (mq_contents q))"
proof -
  define e where "e = \<lparr>Value = pkt, Priority = word_of_int t :: 64 word\<rparr>"
  define q1 where "q1 = Enqueue q (Priority e) (Value e)"
  have inv: "pq_invar q" using assms(1) by (simp add: mq_invar_def)
  have "uint (word_of_int t :: 64 word) = t" using assms(2,3) by (simp add: uint_word_of_int take_bit_int_eq_self)
  then have e: "Priority e < 2 ^ 63" using assms(3) by (simp add: e_def word_less_alt)
  have q1: "pq_invar q1" "pq_contents q1 = add_mset e (pq_contents q)"
    using pq.enq_invar [OF inv] pq.enq_contents [OF inv] by (simp_all add: q1_def)
  have len: "Len q1 = Suc (Len q)" using arg_cong [OF q1(2), of size] by (simp add: pq_contents_def Len_def)
  have m1: "mq_invar q1" using q1 e assms(1) by (auto simp: mq_invar_def)
  have c1: "image_mset snd (mq_contents q1) = add_mset pkt (image_mset snd (mq_contents q))"
    by (simp add: mq_contents_def q1(2) e_def)
  show ?thesis
  proof (cases "0 < cap \<and> cap < int (Len q1)")
    case False
    then have "doEnqueue Intn cap t pkt q = Some (None, q1)" by (auto simp: doEnqueue_def Let_def q1_def e_def)
    then show ?thesis using m1 c1 False by auto
  next
    case True
    have i: "Intn (Len q1) < Len q1" using assms(4) len by simp
    obtain q2 where q2: "DequeueIndex q1 (Intn (Len q1)) = Some (Some (pq_heap q1 ! Intn (Len q1)), q2)"
      "pq_contents q1 = add_mset (pq_heap q1 ! Intn (Len q1)) (pq_contents q2)" "pq_invar q2"
      by (rule DequeueIndex_ok [OF q1(1) i])
    have "doEnqueue Intn cap t pkt q = Some (Some (Value (pq_heap q1 ! Intn (Len q1))), q2)"
      using True q2(1) by (simp add: doEnqueue_def Let_def DequeueRandom_index q1_def e_def)
    moreover have "mq_invar q2" using m1 q2(2,3) by (simp add: mq_invar_def)
    moreover have "Len q2 = Len q" using arg_cong [OF q2(2), of size] len by (simp add: pq_contents_def Len_def)
    moreover have "image_mset snd (mq_contents q2) + mset [Value (pq_heap q1 ! Intn (Len q1))] = add_mset pkt (image_mset snd (mq_contents q))"
      using c1 by (simp add: mq_contents_def q2(2))
    ultimately show ?thesis by auto
  qed
qed

text \<open>
  C21. The memory queue respects its limit: enqueueing a batch never panics, a queue within its capacity stays within
  it, and the packets that are in the queue afterwards together with those that were dropped are exactly the
  packets that were in it before and the batch.
\<close>

theorem BulkEnqueue_bounded:
  assumes "mq_invar q" and "\<And>pkt. pkt \<in> set batch \<Longrightarrow> 0 \<le> now + pkt_Delay pkt \<and> now + pkt_Delay pkt < 2 ^ 63"
    and "\<And>k n. 0 < n \<Longrightarrow> Intn k n < n"
  shows "\<exists>drops q'. BulkEnqueue Intn cap now batch q = Some (drops, q') \<and> mq_invar q' \<and>
    (0 < cap \<longrightarrow> int (Len q) \<le> cap \<longrightarrow> int (Len q') \<le> cap) \<and>
    image_mset snd (mq_contents q') + mset drops = image_mset snd (mq_contents q) + mset batch"
  using assms
proof (induction batch arbitrary: q)
  case (Cons pkt batch)
  have "0 \<le> now + pkt_Delay pkt" "now + pkt_Delay pkt < 2 ^ 63" using Cons.prems(2) [of pkt] by simp_all
  from doEnqueue_ok [OF Cons.prems(1) this, of "Intn (length batch)" cap pkt] Cons.prems(3) obtain dropped q1 where
    q1: "doEnqueue (Intn (length batch)) cap (now + pkt_Delay pkt) pkt q = Some (dropped, q1)" "mq_invar q1"
    "0 < cap \<longrightarrow> int (Len q) \<le> cap \<longrightarrow> int (Len q1) \<le> cap"
    "image_mset snd (mq_contents q1) + mset (case dropped of None \<Rightarrow> [] | Some d \<Rightarrow> [d]) = add_mset pkt (image_mset snd (mq_contents q))"
    by blast
  from Cons.IH [OF q1(2)] Cons.prems(2,3) obtain drops q' where q': "BulkEnqueue Intn cap now batch q1 = Some (drops, q')"
    "mq_invar q'" "0 < cap \<longrightarrow> int (Len q1) \<le> cap \<longrightarrow> int (Len q') \<le> cap"
    "image_mset snd (mq_contents q') + mset drops = image_mset snd (mq_contents q1) + mset batch" by auto
  have "image_mset snd (mq_contents q') + (mset drops + mset (case dropped of None \<Rightarrow> [] | Some d \<Rightarrow> [d])) =
    image_mset snd (mq_contents q) + mset (pkt # batch)"
    using q1(4) q'(4) by (metis (no_types, lifting) add.assoc add.commute mset.simps(2) union_mset_add_mset_left)
  then show ?case using q1 q' by (cases dropped) auto
qed simp

theorem BulkEnqueue_bounded_witness:
  "\<exists>drops q'. BulkEnqueue (\<lambda>_ _. 0) 1 100 [toy_packet, toy_packet] New = Some (drops, q') \<and> int (Len q') \<le> 1 \<and>
     image_mset snd (mq_contents q') + mset drops = {#toy_packet, toy_packet#}"
proof -
  have inv: "mq_invar (New :: memoryQueue)" by (simp add: mq_invar_def pq.empty_invar pq.empty_contents)
  have "\<exists>drops q'. BulkEnqueue (\<lambda>_ _. 0) 1 100 [toy_packet, toy_packet] New = Some (drops, q') \<and> mq_invar q' \<and>
    (0 < (1 :: int) \<longrightarrow> int (Len (New :: memoryQueue)) \<le> 1 \<longrightarrow> int (Len q') \<le> 1) \<and>
    image_mset snd (mq_contents q') + mset drops = image_mset snd (mq_contents New) + mset [toy_packet, toy_packet]"
    by (rule BulkEnqueue_bounded [OF inv]) (simp_all add: toy_packet_def)
  then show ?thesis by (auto simp: Len_def New_def mq_contents_def pq_contents_def)
qed

text \<open>Admission: a batch is split into what is kept and what is dropped.\<close>

lemma filter_batch_splits:
  assumes "filter_batch maxDelay valid batch = Some (keep, drops)"
  shows "mset keep + mset drops = mset batch \<and>
    (\<forall>pkt\<in>set keep. pkt_Delay pkt \<le> maxDelay \<and> (\<exists>i m. pkt_NextNodeHop pkt = Some (NextNodeHop i m) \<and> valid i))"
  using assms
proof (induction batch arbitrary: keep drops)
  case (Cons pkt batch)
  then obtain ok keep1 drops1 where a: "admit maxDelay valid pkt = Some ok" and r: "filter_batch maxDelay valid batch = Some (keep1, drops1)"
    and k: "(keep, drops) = (if ok then (pkt # keep1, drops1) else (keep1, pkt # drops1))"
    by (auto split: option.splits)
  from a have "ok \<Longrightarrow> pkt_Delay pkt \<le> maxDelay \<and> (\<exists>i m. pkt_NextNodeHop pkt = Some (NextNodeHop i m) \<and> valid i)"
    by (auto simp: admit_def split: if_splits option.splits RoutingCommand.splits)
  with Cons.IH [OF r] k show ?case by (cases ok) auto
qed simp

text \<open>
  C22. The limit the scheduler puts on delays never exceeds the life of the mix keys, whatever the consensus says,
  and it is positive when the \<open>MixMaxDelay\<close> of the consensus fits in an \<open>int64\<close> number of nanoseconds. A value
  that does not fit can make the limit negative, and then every packet is dropped.
\<close>

theorem new_max_delay_bounds:
  "new_max_delay Period n \<le> absoluteMaxDelay Period \<and>
   (0 < Period \<and> int NumMixKeys * Period < 2 ^ 63 \<and> 0 \<le> sint n \<and> sint n * millisecond < 2 ^ 63 \<longrightarrow> 0 < new_max_delay Period n) \<and>
   (Period = default_Period \<and> n = 9223372036855 \<and> 0 \<le> pkt_Delay pkt \<longrightarrow> admit (new_max_delay Period n) valid pkt = Some False)"
proof (intro conjI impI)
  show "new_max_delay Period n \<le> absoluteMaxDelay Period" by (simp add: new_max_delay_def Let_def)
next
  assume a: "0 < Period \<and> int NumMixKeys * Period < 2 ^ 63 \<and> 0 \<le> sint n \<and> sint n * millisecond < 2 ^ 63"
  then have "int64 (Period * int NumMixKeys) = Period * int NumMixKeys" "int64 (sint n * millisecond) = sint n * millisecond"
    by (simp_all add: int64_nonneg mult.commute millisecond_def NumMixKeys_def)
  then show "0 < new_max_delay Period n"
    using a by (auto simp: new_max_delay_def Let_def absoluteMaxDelay_def Duration_mul_def NumMixKeys_def millisecond_def)
next
  assume a: "Period = default_Period \<and> n = 9223372036855 \<and> 0 \<le> pkt_Delay pkt"
  have "new_max_delay default_Period 9223372036855 < 0"
    by (simp add: new_max_delay_def absoluteMaxDelay_def Duration_mul_def int64_def default_Period_def minute_def second_def
        millisecond_def NumMixKeys_def)
  then show "admit (new_max_delay Period n) valid pkt = Some False" using a by (simp add: admit_def)
qed

theorem new_max_delay_bounds_witness:
  "0 < new_max_delay default_Period 60000 \<and> admit (new_max_delay default_Period 9223372036855) (\<lambda>_. True) toy_packet = Some False"
  using new_max_delay_bounds [of default_Period 60000 toy_packet "\<lambda>_. True"]
    new_max_delay_bounds [of default_Period 9223372036855 toy_packet "\<lambda>_. True"]
  by (simp add: default_Period_def minute_def second_def millisecond_def NumMixKeys_def toy_packet_def)

end
