(* ===== verification/Pigeonhole_Messages.thy ===== *)
theory Pigeonhole_Messages
  imports Sphinx_Commands
begin

text \<open>
  \<open>src/pigeonhole/trunnel_messages.go\<close>: the messages that clients, couriers and replicas exchange, with
  the parser, the encoder and the validator of each. A struct is a record, a fixed-size array a byte
  list whose length \<open>validate\<close> checks, the two alternatives of a union two pointers of which the tag
  selects one. \<open>Parse\<close> returns the parsed message and the rest of the input; what a failed \<open>Parse\<close> has
  already written to its receiver is not modelled, since every caller drops the receiver on an
  error. A \<open>Parse\<close> of a struct assigns every field, so its receiver is no argument; one of a union
  leaves the alternative that the tag does not select as it was, and so takes the receiver.
  Every message is an instance of the interface \<open>trunnel_codec\<close>: what is encoded is parsed back, what
  is parsed is what the encoder writes, and a truncated message is recognised as such.
\<close>

datatype trunnel_error = DataTooShort | IntegerConstraint | ArrayLengthConstraint

section \<open>The fields of a message\<close>

text \<open>
  The loop that reads \<open>n\<close> bytes one by one, and the reads of integers. Before the loop the code
  allocates \<open>n\<close> bytes, which the model ignores.
\<close>

fun parse_array :: "nat \<Rightarrow> bytes \<Rightarrow> (trunnel_error, bytes \<times> bytes) outcome" where
  "parse_array 0 cur = Ok ([], cur)"
| "parse_array (Suc n) cur =
     (case cur of [] \<Rightarrow> Err DataTooShort
      | b # cur' \<Rightarrow> obind (parse_array n cur') (\<lambda>(bs, rest). Ok (b # bs, rest)))"

definition parse_u8 :: "bytes \<Rightarrow> (trunnel_error, byte \<times> bytes) outcome" where
  "parse_u8 cur = (case cur of [] \<Rightarrow> Err DataTooShort | b # cur' \<Rightarrow> Ok (b, cur'))"

definition parse_u8_01 :: "bytes \<Rightarrow> (trunnel_error, byte \<times> bytes) outcome" where
  "parse_u8_01 cur =
     (case cur of [] \<Rightarrow> Err DataTooShort
      | b # cur' \<Rightarrow> if \<not> (b = 0 \<or> b = 1) then Err IntegerConstraint else Ok (b, cur'))"

definition parse_u16 :: "bytes \<Rightarrow> (trunnel_error, 16 word \<times> bytes) outcome" where
  "parse_u16 cur = (if length cur < 2 then Err DataTooShort else Ok (Uint16 (take 2 cur), drop 2 cur))"

definition parse_u32 :: "bytes \<Rightarrow> (trunnel_error, 32 word \<times> bytes) outcome" where
  "parse_u32 cur = (if length cur < 4 then Err DataTooShort else Ok (Uint32 (take 4 cur), drop 4 cur))"

definition parse_u64 :: "bytes \<Rightarrow> (trunnel_error, 64 word \<times> bytes) outcome" where
  "parse_u64 cur = (if length cur < 8 then Err DataTooShort else Ok (Uint64 (take 8 cur), drop 8 cur))"

named_theorems field_simps01 \<open>when the read of a field succeeds\<close>
named_theorems stable_intros \<open>parsers whose result does not change when the input gets longer\<close>

lemma parse_array_Ok [field_simps01]: "parse_array n b = Ok (xs, r) \<longleftrightarrow> length xs = n \<and> b = xs @ r"
proof (induction n arbitrary: b xs)
  case (Suc n)
  then show ?case
    by (cases xs) (auto simp: go_simps split: list.splits)
qed auto

lemma parse_u8_Ok [field_simps01]: "parse_u8 b = Ok (x, r) \<longleftrightarrow> b = [x] @ r"
  by (auto simp: parse_u8_def split: list.splits)

lemma parse_u8_01_Ok [field_simps01]: "parse_u8_01 b = Ok (x, r) \<longleftrightarrow> (x = 0 \<or> x = 1) \<and> b = [x] @ r"
  by (auto simp: parse_u8_01_def split: list.splits)

lemma split_take: "n = length xs \<Longrightarrow> b = xs @ r \<longleftrightarrow> n \<le> length b \<and> xs = take n b \<and> r = drop n b"
  by (metis append_eq_conv_conj append_take_drop_id length_append le_add1)

lemma parse_u16_Ok [field_simps01]: "parse_u16 b = Ok (x, r) \<longleftrightarrow> b = PutUint16 x @ r"
  unfolding split_take [of 2 "PutUint16 x" b r, OF length_PutUint16 [symmetric]]
  by (auto simp: parse_u16_def PutUint16_Uint16 not_less)
    (metis Uint16_PutUint16)

lemma parse_u32_Ok [field_simps01]: "parse_u32 b = Ok (x, r) \<longleftrightarrow> b = PutUint32 x @ r"
  unfolding split_take [of 4 "PutUint32 x" b r, OF length_PutUint(1) [symmetric]]
  by (auto simp: parse_u32_def PutUint32_Uint32 not_less)
    (metis Uint32_PutUint32)

lemma parse_u64_Ok [field_simps01]: "parse_u64 b = Ok (x, r) \<longleftrightarrow> b = PutUint64 x @ r"
  unfolding split_take [of 8 "PutUint64 x" b r, OF length_PutUint(2) [symmetric]]
  by (auto simp: parse_u64_def PutUint64_Uint64 not_less)
    (metis Uint64_PutUint64)

text \<open>
  A parser is stable when more input changes neither a result nor an error other than that of a
  short input, and when it does not panic.
\<close>

definition stable :: "(bytes \<Rightarrow> (trunnel_error, 'a \<times> bytes) outcome) \<Rightarrow> bool" where
  "stable p \<longleftrightarrow> (\<forall>b r. case p b of
       Ok (x, c) \<Rightarrow> p (b @ r) = Ok (x, c @ r)
     | Err e \<Rightarrow> e = DataTooShort \<or> p (b @ r) = Err e
     | Panic \<Rightarrow> False)"

lemma stable_no_panic: "stable p \<Longrightarrow> p b \<noteq> Panic"
  unfolding stable_def by (drule spec [of _ b], drule spec [of _ "[]"]) auto

lemma stable_error: "stable p \<Longrightarrow> p b = Err e \<Longrightarrow> e \<noteq> DataTooShort \<Longrightarrow> p (b @ r) = Err e"
  unfolding stable_def by (drule spec [of _ b], drule spec [of _ r]) simp

lemma stable_Ok [stable_intros]: "stable (\<lambda>b. Ok (x, b))"
  by (simp add: stable_def)

lemma stable_obind [stable_intros]:
  assumes "stable p" and "\<And>x. stable (f x)"
  shows "stable (\<lambda>b. obind (p b) (\<lambda>(x, c). f x c))"
  unfolding stable_def
proof (intro allI)
  fix b r
  have p: "case p b of Ok (x, c) \<Rightarrow> p (b @ r) = Ok (x, c @ r)
     | Err e \<Rightarrow> e = DataTooShort \<or> p (b @ r) = Err e | Panic \<Rightarrow> False"
    using assms(1) unfolding stable_def by blast
  show "case obind (p b) (\<lambda>(x, c). f x c) of
      Ok (x, c) \<Rightarrow> obind (p (b @ r)) (\<lambda>(x, c). f x c) = Ok (x, c @ r)
    | Err e \<Rightarrow> e = DataTooShort \<or> obind (p (b @ r)) (\<lambda>(x, c). f x c) = Err e
    | Panic \<Rightarrow> False"
  proof (cases "p b")
    case (Ok y)
    obtain x c where y: "y = (x, c)" by fastforce
    from assms(2) [of x] have "case f x c of Ok (z, d) \<Rightarrow> f x (c @ r) = Ok (z, d @ r)
       | Err e \<Rightarrow> e = DataTooShort \<or> f x (c @ r) = Err e | Panic \<Rightarrow> False"
      unfolding stable_def by blast
    with p Ok y show ?thesis by (auto split: outcome.splits)
  qed (use p in auto)
qed

lemma stable_if [stable_intros]: "stable p \<Longrightarrow> stable q \<Longrightarrow> stable (\<lambda>b. if c then p b else q b)"
  by (simp add: stable_def)

lemma stable_parse_u [stable_intros]:
  "stable parse_u8" "stable parse_u8_01" "stable parse_u16" "stable parse_u32" "stable parse_u64"
  by (auto simp: stable_def parse_u8_def parse_u8_01_def parse_u16_def parse_u32_def parse_u64_def
      split: list.splits)

lemma stable_parse_array [stable_intros]: "stable (parse_array n)"
proof (induction n)
  case (Suc n)
  have "parse_array (Suc n) = (\<lambda>b. obind (parse_u8 b) (\<lambda>(x, c). obind (parse_array n c) (\<lambda>(bs, r). Ok (x # bs, r))))"
    by (rule ext) (simp add: parse_u8_def split: list.splits)
  then show ?case by (auto intro!: stable_intros Suc.IH)
qed (simp add: stable_def)

section \<open>The interface of a message\<close>

text \<open>
  What the callers of a message type rely on. \<open>complete\<close> is what \<open>MarshalBinary\<close> does not check: that
  the alternative of a union that the tag selects is set, and the other is not.
\<close>

locale trunnel_codec =
  fixes marshal :: "'m \<Rightarrow> (trunnel_error, bytes) outcome"
    and parse :: "bytes \<Rightarrow> (trunnel_error, 'm \<times> bytes) outcome"
    and complete :: "'m \<Rightarrow> bool"
  assumes parse_iff: "parse b = Ok (m, r) \<longleftrightarrow> complete m \<and> (\<exists>e. marshal m = Ok e \<and> b = e @ r)"
    and marshal_nonempty: "marshal m \<noteq> Ok []"
    and marshal_no_panic: "marshal m \<noteq> Panic"
    and parse_stable: "stable parse"
begin

lemma parse_marshal: "marshal m = Ok e \<Longrightarrow> complete m \<Longrightarrow> parse (e @ r) = Ok (m, r)"
  by (simp add: parse_iff)

lemma parse_no_panic: "parse b \<noteq> Panic"
  using parse_stable by (rule stable_no_panic)

lemma parse_truncated:
  assumes m: "marshal m = Ok e" and c: "complete m" and k: "k < length e"
  shows "parse (take k e) = Err DataTooShort"
proof (cases "parse (take k e)")
  case (Ok x)
  obtain m' r where x: "x = (m', r)" by fastforce
  with Ok have ok: "parse (take k e) = Ok (m', r)" by simp
  then obtain e' where e': "complete m'" "marshal m' = Ok e'" "take k e = e' @ r"
    unfolding parse_iff by blast
  have "e = e' @ r @ drop k e" by (metis append.assoc append_take_drop_id e'(3))
  then have "parse e = Ok (m', r @ drop k e)" using e' parse_iff by blast
  moreover have "parse e = Ok (m, [])" using parse_marshal [OF m c, of "[]"] by simp
  ultimately show ?thesis using k by simp
next
  case (Err err)
  moreover have "err = DataTooShort"
  proof (rule ccontr)
    assume "err \<noteq> DataTooShort"
    with Err have "parse (take k e @ drop k e) = Err err"
      by (intro stable_error [OF parse_stable])
    then show False using parse_marshal [OF m c, of "[]"] by simp
  qed
  ultimately show ?thesis by simp
next
  case Panic
  then show ?thesis using parse_no_panic by blast
qed

end

text \<open>A message format is a prefix code in the sense of the routing commands.\<close>

fun ok_value :: "('e, 'a) outcome \<Rightarrow> 'a option" where
  "ok_value (Ok x) = Some x"
| "ok_value (Err _) = None"
| "ok_value Panic = None"

fun data_of :: "('e, bytes) outcome \<Rightarrow> bytes" where
  "data_of (Ok b) = b"
| "data_of (Err _) = []"
| "data_of Panic = []"

lemma ok_value_Some: "ok_value r = Some x \<longleftrightarrow> r = Ok x"
  by (cases r) auto

sublocale trunnel_codec \<subseteq> wire: prefix_codec "\<lambda>m. data_of (marshal m)" "\<lambda>b. ok_value (parse b)"
  "\<lambda>m. complete m \<and> marshal m = Ok (data_of (marshal m))"
proof
  fix c rest
  assume c: "complete c \<and> marshal c = Ok (data_of (marshal c))"
  then show "ok_value (parse (data_of (marshal c) @ rest)) = Some (c, rest)"
    using parse_marshal [of c "data_of (marshal c)" rest] by simp
  show "data_of (marshal c) \<noteq> []" using c marshal_nonempty [of c] by auto
next
  fix b c rest
  assume "ok_value (parse b) = Some (c, rest)"
  then show "b = data_of (marshal c) @ rest \<and> complete c \<and> marshal c = Ok (data_of (marshal c))"
    by (auto simp: ok_value_Some parse_iff)
qed

section \<open>CourierEnvelope\<close>

record CourierEnvelope =
  ce_IntermediateReplicas :: bytes
  ce_Dek1 :: bytes
  ce_Dek2 :: bytes
  ce_ReplyIndex :: byte
  ce_Epoch :: "64 word"
  ce_SenderPubkeyLen :: "16 word"
  ce_SenderPubkey :: bytes
  ce_CiphertextLen :: "32 word"
  ce_Ciphertext :: bytes

definition CourierEnvelope_Parse :: "bytes \<Rightarrow> (trunnel_error, CourierEnvelope \<times> bytes) outcome" where
  "CourierEnvelope_Parse data =
     obind (parse_array 2 data) (\<lambda>(intermediateReplicas, cur).
     obind (parse_array 60 cur) (\<lambda>(dek1, cur).
     obind (parse_array 60 cur) (\<lambda>(dek2, cur).
     obind (parse_u8 cur) (\<lambda>(replyIndex, cur).
     obind (parse_u64 cur) (\<lambda>(epoch, cur).
     obind (parse_u16 cur) (\<lambda>(senderPubkeyLen, cur).
     obind (parse_array (unat senderPubkeyLen) cur) (\<lambda>(senderPubkey, cur).
     obind (parse_u32 cur) (\<lambda>(ciphertextLen, cur).
     obind (parse_array (unat ciphertextLen) cur) (\<lambda>(ciphertext, cur).
     Ok (\<lparr>ce_IntermediateReplicas = intermediateReplicas, ce_Dek1 = dek1, ce_Dek2 = dek2,
          ce_ReplyIndex = replyIndex, ce_Epoch = epoch, ce_SenderPubkeyLen = senderPubkeyLen,
          ce_SenderPubkey = senderPubkey, ce_CiphertextLen = ciphertextLen, ce_Ciphertext = ciphertext\<rparr>, cur))))))))))"

definition ParseCourierEnvelope :: "bytes \<Rightarrow> (trunnel_error, CourierEnvelope) outcome" where
  "ParseCourierEnvelope data = obind (CourierEnvelope_Parse data) (\<lambda>(c, _). Ok c)"

definition CourierEnvelope_encodeBinary :: "CourierEnvelope \<Rightarrow> (trunnel_error, bytes) outcome" where
  "CourierEnvelope_encodeBinary c =
     obind (slice (ce_IntermediateReplicas c) 0 2) (\<lambda>intermediateReplicas.
     obind (slice (ce_Dek1 c) 0 60) (\<lambda>dek1.
     obind (slice (ce_Dek2 c) 0 60) (\<lambda>dek2.
     obind (slice (ce_SenderPubkey c) 0 (unat (ce_SenderPubkeyLen c))) (\<lambda>senderPubkey.
     obind (slice (ce_Ciphertext c) 0 (unat (ce_CiphertextLen c))) (\<lambda>ciphertext.
     Ok (intermediateReplicas @ dek1 @ dek2 @ [ce_ReplyIndex c] @ PutUint64 (ce_Epoch c) @
         PutUint16 (ce_SenderPubkeyLen c) @ senderPubkey @ PutUint32 (ce_CiphertextLen c) @
         ciphertext))))))"

definition CourierEnvelope_validate :: "CourierEnvelope \<Rightarrow> (trunnel_error, unit) outcome" where
  "CourierEnvelope_validate c =
     obind (guard_err (length (ce_IntermediateReplicas c) \<noteq> 2) ArrayLengthConstraint) (\<lambda>_.
     obind (guard_err (length (ce_Dek1 c) \<noteq> 60) ArrayLengthConstraint) (\<lambda>_.
     obind (guard_err (length (ce_Dek2 c) \<noteq> 60) ArrayLengthConstraint) (\<lambda>_.
     obind (guard_err (length (ce_SenderPubkey c) \<noteq> unat (ce_SenderPubkeyLen c)) ArrayLengthConstraint) (\<lambda>_.
     guard_err (length (ce_Ciphertext c) \<noteq> unat (ce_CiphertextLen c)) ArrayLengthConstraint))))"

definition CourierEnvelope_MarshalBinary :: "CourierEnvelope \<Rightarrow> (trunnel_error, bytes) outcome" where
  "CourierEnvelope_MarshalBinary c = obind (CourierEnvelope_validate c) (\<lambda>_. CourierEnvelope_encodeBinary c)"

lemmas CourierEnvelope_defs = CourierEnvelope_Parse_def CourierEnvelope_MarshalBinary_def CourierEnvelope_validate_def CourierEnvelope_encodeBinary_def

interpretation ce_codec: trunnel_codec CourierEnvelope_MarshalBinary CourierEnvelope_Parse "\<lambda>_. True"
proof
  show "stable CourierEnvelope_Parse"
    unfolding CourierEnvelope_Parse_def by (intro stable_intros)
  show "CourierEnvelope_Parse b = Ok (m, r) \<longleftrightarrow> True \<and> (\<exists>e. CourierEnvelope_MarshalBinary m = Ok e \<and> b = e @ r)" for b m r
    by (cases m) (auto simp: CourierEnvelope_defs go_simps field_simps01 slice_eq_Ok)
qed (auto simp: CourierEnvelope_defs go_simps slice_def)

section \<open>CourierEnvelopeReply\<close>

record CourierEnvelopeReply =
  cer_EnvelopeHash :: bytes
  cer_ReplyIndex :: byte
  cer_ReplyType :: byte
  cer_PayloadLen :: "32 word"
  cer_Payload :: bytes
  cer_ErrorCode :: byte

definition CourierEnvelopeReply_Parse :: "bytes \<Rightarrow> (trunnel_error, CourierEnvelopeReply \<times> bytes) outcome" where
  "CourierEnvelopeReply_Parse data =
     obind (parse_array 32 data) (\<lambda>(envelopeHash, cur).
     obind (parse_u8 cur) (\<lambda>(replyIndex, cur).
     obind (parse_u8_01 cur) (\<lambda>(replyType, cur).
     obind (parse_u32 cur) (\<lambda>(payloadLen, cur).
     obind (parse_array (unat payloadLen) cur) (\<lambda>(payload, cur).
     obind (parse_u8 cur) (\<lambda>(errorCode, cur).
     Ok (\<lparr>cer_EnvelopeHash = envelopeHash, cer_ReplyIndex = replyIndex, cer_ReplyType = replyType,
          cer_PayloadLen = payloadLen, cer_Payload = payload, cer_ErrorCode = errorCode\<rparr>, cur)))))))"

definition ParseCourierEnvelopeReply :: "bytes \<Rightarrow> (trunnel_error, CourierEnvelopeReply) outcome" where
  "ParseCourierEnvelopeReply data = obind (CourierEnvelopeReply_Parse data) (\<lambda>(c, _). Ok c)"

definition CourierEnvelopeReply_encodeBinary :: "CourierEnvelopeReply \<Rightarrow> (trunnel_error, bytes) outcome" where
  "CourierEnvelopeReply_encodeBinary c =
     obind (slice (cer_EnvelopeHash c) 0 32) (\<lambda>envelopeHash.
     obind (slice (cer_Payload c) 0 (unat (cer_PayloadLen c))) (\<lambda>payload.
     Ok (envelopeHash @ [cer_ReplyIndex c] @ [cer_ReplyType c] @ PutUint32 (cer_PayloadLen c) @
         payload @ [cer_ErrorCode c])))"

definition CourierEnvelopeReply_validate :: "CourierEnvelopeReply \<Rightarrow> (trunnel_error, unit) outcome" where
  "CourierEnvelopeReply_validate c =
     obind (guard_err (length (cer_EnvelopeHash c) \<noteq> 32) ArrayLengthConstraint) (\<lambda>_.
     obind (guard_err (\<not> (cer_ReplyType c = 0 \<or> cer_ReplyType c = 1)) IntegerConstraint) (\<lambda>_.
     guard_err (length (cer_Payload c) \<noteq> unat (cer_PayloadLen c)) ArrayLengthConstraint))"

definition CourierEnvelopeReply_MarshalBinary :: "CourierEnvelopeReply \<Rightarrow> (trunnel_error, bytes) outcome" where
  "CourierEnvelopeReply_MarshalBinary c = obind (CourierEnvelopeReply_validate c) (\<lambda>_. CourierEnvelopeReply_encodeBinary c)"

lemmas CourierEnvelopeReply_defs = CourierEnvelopeReply_Parse_def CourierEnvelopeReply_MarshalBinary_def CourierEnvelopeReply_validate_def CourierEnvelopeReply_encodeBinary_def

interpretation cer_codec: trunnel_codec CourierEnvelopeReply_MarshalBinary CourierEnvelopeReply_Parse "\<lambda>_. True"
proof
  show "stable CourierEnvelopeReply_Parse"
    unfolding CourierEnvelopeReply_Parse_def by (intro stable_intros)
  show "CourierEnvelopeReply_Parse b = Ok (m, r) \<longleftrightarrow> True \<and> (\<exists>e. CourierEnvelopeReply_MarshalBinary m = Ok e \<and> b = e @ r)" for b m r
    by (cases m) (auto simp: CourierEnvelopeReply_defs go_simps field_simps01 slice_eq_Ok)
qed (auto simp: CourierEnvelopeReply_defs go_simps slice_def)

section \<open>CopyCommand\<close>

record CopyCommand =
  cc_WriteCapLen :: "32 word"
  cc_WriteCap :: bytes

definition CopyCommand_Parse :: "bytes \<Rightarrow> (trunnel_error, CopyCommand \<times> bytes) outcome" where
  "CopyCommand_Parse data =
     obind (parse_u32 data) (\<lambda>(writeCapLen, cur).
     obind (parse_array (unat writeCapLen) cur) (\<lambda>(writeCap, cur).
     Ok (\<lparr>cc_WriteCapLen = writeCapLen, cc_WriteCap = writeCap\<rparr>, cur)))"

definition ParseCopyCommand :: "bytes \<Rightarrow> (trunnel_error, CopyCommand) outcome" where
  "ParseCopyCommand data = obind (CopyCommand_Parse data) (\<lambda>(c, _). Ok c)"

definition CopyCommand_encodeBinary :: "CopyCommand \<Rightarrow> (trunnel_error, bytes) outcome" where
  "CopyCommand_encodeBinary c =
     obind (slice (cc_WriteCap c) 0 (unat (cc_WriteCapLen c))) (\<lambda>writeCap.
     Ok (PutUint32 (cc_WriteCapLen c) @ writeCap))"

definition CopyCommand_validate :: "CopyCommand \<Rightarrow> (trunnel_error, unit) outcome" where
  "CopyCommand_validate c =
     guard_err (length (cc_WriteCap c) \<noteq> unat (cc_WriteCapLen c)) ArrayLengthConstraint"

definition CopyCommand_MarshalBinary :: "CopyCommand \<Rightarrow> (trunnel_error, bytes) outcome" where
  "CopyCommand_MarshalBinary c = obind (CopyCommand_validate c) (\<lambda>_. CopyCommand_encodeBinary c)"

lemmas CopyCommand_defs = CopyCommand_Parse_def CopyCommand_MarshalBinary_def CopyCommand_validate_def CopyCommand_encodeBinary_def

interpretation cc_codec: trunnel_codec CopyCommand_MarshalBinary CopyCommand_Parse "\<lambda>_. True"
proof
  show "stable CopyCommand_Parse"
    unfolding CopyCommand_Parse_def by (intro stable_intros)
  show "CopyCommand_Parse b = Ok (m, r) \<longleftrightarrow> True \<and> (\<exists>e. CopyCommand_MarshalBinary m = Ok e \<and> b = e @ r)" for b m r
    by (cases m) (auto simp: CopyCommand_defs go_simps field_simps01 slice_eq_Ok)
qed (auto simp: CopyCommand_defs go_simps slice_def)

section \<open>CopyCommandReply\<close>

record CopyCommandReply =
  ccr_Status :: byte
  ccr_ErrorCode :: byte
  ccr_FailedEnvelopeIndex :: "64 word"

definition CopyCommandReply_Parse :: "bytes \<Rightarrow> (trunnel_error, CopyCommandReply \<times> bytes) outcome" where
  "CopyCommandReply_Parse data =
     obind (parse_u8 data) (\<lambda>(status, cur).
     obind (parse_u8 cur) (\<lambda>(errorCode, cur).
     obind (parse_u64 cur) (\<lambda>(failedEnvelopeIndex, cur).
     Ok (\<lparr>ccr_Status = status, ccr_ErrorCode = errorCode, ccr_FailedEnvelopeIndex = failedEnvelopeIndex\<rparr>, cur))))"

definition ParseCopyCommandReply :: "bytes \<Rightarrow> (trunnel_error, CopyCommandReply) outcome" where
  "ParseCopyCommandReply data = obind (CopyCommandReply_Parse data) (\<lambda>(c, _). Ok c)"

definition CopyCommandReply_encodeBinary :: "CopyCommandReply \<Rightarrow> (trunnel_error, bytes) outcome" where
  "CopyCommandReply_encodeBinary c =
     Ok ([ccr_Status c] @ [ccr_ErrorCode c] @ PutUint64 (ccr_FailedEnvelopeIndex c))"

definition CopyCommandReply_validate :: "CopyCommandReply \<Rightarrow> (trunnel_error, unit) outcome" where
  "CopyCommandReply_validate c = Ok ()"

definition CopyCommandReply_MarshalBinary :: "CopyCommandReply \<Rightarrow> (trunnel_error, bytes) outcome" where
  "CopyCommandReply_MarshalBinary c = obind (CopyCommandReply_validate c) (\<lambda>_. CopyCommandReply_encodeBinary c)"

lemmas CopyCommandReply_defs = CopyCommandReply_Parse_def CopyCommandReply_MarshalBinary_def CopyCommandReply_validate_def CopyCommandReply_encodeBinary_def

interpretation ccr_codec: trunnel_codec CopyCommandReply_MarshalBinary CopyCommandReply_Parse "\<lambda>_. True"
proof
  show "stable CopyCommandReply_Parse"
    unfolding CopyCommandReply_Parse_def by (intro stable_intros)
  show "CopyCommandReply_Parse b = Ok (m, r) \<longleftrightarrow> True \<and> (\<exists>e. CopyCommandReply_MarshalBinary m = Ok e \<and> b = e @ r)" for b m r
    by (cases m) (auto simp: CopyCommandReply_defs go_simps field_simps01 slice_eq_Ok)
qed (auto simp: CopyCommandReply_defs go_simps slice_def)

section \<open>CourierQuery\<close>

record CourierQuery =
  cq_QueryType :: byte
  cq_Envelope :: "CourierEnvelope option"
  cq_CopyCommand :: "CopyCommand option"

definition new_CourierQuery :: CourierQuery where
  "new_CourierQuery = \<lparr>cq_QueryType = 0, cq_Envelope = None, cq_CopyCommand = None\<rparr>"

definition CourierQuery_Parse :: "CourierQuery \<Rightarrow> bytes \<Rightarrow> (trunnel_error, CourierQuery \<times> bytes) outcome" where
  "CourierQuery_Parse c data =
     obind (parse_u8_01 data) (\<lambda>(queryType, cur).
     if queryType = 0 then obind (CourierEnvelope_Parse cur) (\<lambda>(m, cur).
       Ok (c\<lparr>cq_QueryType := queryType, cq_Envelope := Some m\<rparr>, cur))
     else obind (CopyCommand_Parse cur) (\<lambda>(m, cur).
       Ok (c\<lparr>cq_QueryType := queryType, cq_CopyCommand := Some m\<rparr>, cur)))"

definition ParseCourierQuery :: "bytes \<Rightarrow> (trunnel_error, CourierQuery) outcome" where
  "ParseCourierQuery data = obind (CourierQuery_Parse new_CourierQuery data) (\<lambda>(c, _). Ok c)"

definition CourierQuery_encodeBinary :: "CourierQuery \<Rightarrow> (trunnel_error, bytes) outcome" where
  "CourierQuery_encodeBinary c =
     (if cq_QueryType c = 0 then
        (case cq_Envelope c of None \<Rightarrow> Ok [cq_QueryType c]
         | Some m \<Rightarrow> obind (CourierEnvelope_encodeBinary m) (\<lambda>b. Ok ([cq_QueryType c] @ b)))
      else if cq_QueryType c = 1 then
        (case cq_CopyCommand c of None \<Rightarrow> Ok [cq_QueryType c]
         | Some m \<Rightarrow> obind (CopyCommand_encodeBinary m) (\<lambda>b. Ok ([cq_QueryType c] @ b)))
      else Ok [cq_QueryType c])"

definition CourierQuery_validate :: "CourierQuery \<Rightarrow> (trunnel_error, unit) outcome" where
  "CourierQuery_validate c =
     (if \<not> (cq_QueryType c = 0 \<or> cq_QueryType c = 1) then Err IntegerConstraint
      else if cq_QueryType c = 0 then
        (case cq_Envelope c of None \<Rightarrow> Ok () | Some m \<Rightarrow> CourierEnvelope_validate m)
      else (case cq_CopyCommand c of None \<Rightarrow> Ok () | Some m \<Rightarrow> CopyCommand_validate m))"

definition CourierQuery_MarshalBinary :: "CourierQuery \<Rightarrow> (trunnel_error, bytes) outcome" where
  "CourierQuery_MarshalBinary c = obind (CourierQuery_validate c) (\<lambda>_. CourierQuery_encodeBinary c)"

text \<open>Exactly the alternative that the tag selects is set.\<close>

definition CourierQuery_complete :: "CourierQuery \<Rightarrow> bool" where
  "CourierQuery_complete c = (if cq_QueryType c = 0 then cq_Envelope c \<noteq> None \<and> cq_CopyCommand c = None
     else cq_Envelope c = None \<and> cq_CopyCommand c \<noteq> None)"

lemma CourierQuery_MarshalBinary_cases:
  "CourierQuery_MarshalBinary m =
     (if \<not> (cq_QueryType m = 0 \<or> cq_QueryType m = 1) then Err IntegerConstraint
      else if cq_QueryType m = 0 then
        (case cq_Envelope m of None \<Rightarrow> Ok [0] | Some n \<Rightarrow> obind (CourierEnvelope_MarshalBinary n) (\<lambda>b. Ok (0 # b)))
      else (case cq_CopyCommand m of None \<Rightarrow> Ok [1] | Some n \<Rightarrow> obind (CopyCommand_MarshalBinary n) (\<lambda>b. Ok (1 # b))))"
  by (auto simp: CourierQuery_MarshalBinary_def CourierQuery_validate_def CourierQuery_encodeBinary_def
      CourierEnvelope_MarshalBinary_def CopyCommand_MarshalBinary_def obind_assoc split: option.splits)

lemma CourierQuery_Parse_cases:
  "CourierQuery_Parse new_CourierQuery b = Ok (m, r) \<longleftrightarrow>
     (\<exists>c n. b = 0 # c \<and> CourierEnvelope_Parse c = Ok (n, r) \<and> m = \<lparr>cq_QueryType = 0, cq_Envelope = Some n, cq_CopyCommand = None\<rparr>) \<or>
     (\<exists>c n. b = 1 # c \<and> CopyCommand_Parse c = Ok (n, r) \<and> m = \<lparr>cq_QueryType = 1, cq_Envelope = None, cq_CopyCommand = Some n\<rparr>)"
  by (cases b) (auto simp: CourierQuery_Parse_def new_CourierQuery_def parse_u8_01_def go_simps)

lemma CourierQuery_complete_cases:
  "CourierQuery_complete m \<and> CourierQuery_MarshalBinary m = Ok e \<longleftrightarrow>
     (\<exists>n d. m = \<lparr>cq_QueryType = 0, cq_Envelope = Some n, cq_CopyCommand = None\<rparr> \<and> CourierEnvelope_MarshalBinary n = Ok d \<and> e = 0 # d) \<or>
     (\<exists>n d. m = \<lparr>cq_QueryType = 1, cq_Envelope = None, cq_CopyCommand = Some n\<rparr> \<and> CopyCommand_MarshalBinary n = Ok d \<and> e = 1 # d)"
  by (cases m) (auto simp: CourierQuery_complete_def CourierQuery_MarshalBinary_cases go_simps split: if_splits)

interpretation cq_codec: trunnel_codec CourierQuery_MarshalBinary "CourierQuery_Parse new_CourierQuery" CourierQuery_complete
proof
  show "stable (CourierQuery_Parse new_CourierQuery)"
    unfolding CourierQuery_Parse_def by (intro stable_intros ce_codec.parse_stable cc_codec.parse_stable)
  show "CourierQuery_Parse new_CourierQuery b = Ok (m, r) \<longleftrightarrow>
      CourierQuery_complete m \<and> (\<exists>e. CourierQuery_MarshalBinary m = Ok e \<and> b = e @ r)" for b m r
  proof -
    have "CourierQuery_complete m \<and> (\<exists>e. CourierQuery_MarshalBinary m = Ok e \<and> b = e @ r) \<longleftrightarrow>
        (\<exists>e. (CourierQuery_complete m \<and> CourierQuery_MarshalBinary m = Ok e) \<and> b = e @ r)" by blast
    then show ?thesis
      unfolding CourierQuery_Parse_cases CourierQuery_complete_cases ce_codec.parse_iff cc_codec.parse_iff by auto
  qed
  show "CourierQuery_MarshalBinary m \<noteq> Ok []" for m
    by (auto simp: CourierQuery_MarshalBinary_cases go_simps split: option.splits)
  show "CourierQuery_MarshalBinary m \<noteq> Panic" for m
    by (auto simp: CourierQuery_MarshalBinary_cases go_simps ce_codec.marshal_no_panic cc_codec.marshal_no_panic
        split: option.splits)
qed

section \<open>CourierQueryReply\<close>

record CourierQueryReply =
  cqr_ReplyType :: byte
  cqr_EnvelopeReply :: "CourierEnvelopeReply option"
  cqr_CopyCommandReply :: "CopyCommandReply option"

definition new_CourierQueryReply :: CourierQueryReply where
  "new_CourierQueryReply = \<lparr>cqr_ReplyType = 0, cqr_EnvelopeReply = None, cqr_CopyCommandReply = None\<rparr>"

definition CourierQueryReply_Parse :: "CourierQueryReply \<Rightarrow> bytes \<Rightarrow> (trunnel_error, CourierQueryReply \<times> bytes) outcome" where
  "CourierQueryReply_Parse c data =
     obind (parse_u8_01 data) (\<lambda>(replyType, cur).
     if replyType = 0 then obind (CourierEnvelopeReply_Parse cur) (\<lambda>(m, cur).
       Ok (c\<lparr>cqr_ReplyType := replyType, cqr_EnvelopeReply := Some m\<rparr>, cur))
     else obind (CopyCommandReply_Parse cur) (\<lambda>(m, cur).
       Ok (c\<lparr>cqr_ReplyType := replyType, cqr_CopyCommandReply := Some m\<rparr>, cur)))"

definition ParseCourierQueryReply :: "bytes \<Rightarrow> (trunnel_error, CourierQueryReply) outcome" where
  "ParseCourierQueryReply data = obind (CourierQueryReply_Parse new_CourierQueryReply data) (\<lambda>(c, _). Ok c)"

definition CourierQueryReply_encodeBinary :: "CourierQueryReply \<Rightarrow> (trunnel_error, bytes) outcome" where
  "CourierQueryReply_encodeBinary c =
     (if cqr_ReplyType c = 0 then
        (case cqr_EnvelopeReply c of None \<Rightarrow> Ok [cqr_ReplyType c]
         | Some m \<Rightarrow> obind (CourierEnvelopeReply_encodeBinary m) (\<lambda>b. Ok ([cqr_ReplyType c] @ b)))
      else if cqr_ReplyType c = 1 then
        (case cqr_CopyCommandReply c of None \<Rightarrow> Ok [cqr_ReplyType c]
         | Some m \<Rightarrow> obind (CopyCommandReply_encodeBinary m) (\<lambda>b. Ok ([cqr_ReplyType c] @ b)))
      else Ok [cqr_ReplyType c])"

definition CourierQueryReply_validate :: "CourierQueryReply \<Rightarrow> (trunnel_error, unit) outcome" where
  "CourierQueryReply_validate c =
     (if \<not> (cqr_ReplyType c = 0 \<or> cqr_ReplyType c = 1) then Err IntegerConstraint
      else if cqr_ReplyType c = 0 then
        (case cqr_EnvelopeReply c of None \<Rightarrow> Ok () | Some m \<Rightarrow> CourierEnvelopeReply_validate m)
      else (case cqr_CopyCommandReply c of None \<Rightarrow> Ok () | Some m \<Rightarrow> CopyCommandReply_validate m))"

definition CourierQueryReply_MarshalBinary :: "CourierQueryReply \<Rightarrow> (trunnel_error, bytes) outcome" where
  "CourierQueryReply_MarshalBinary c = obind (CourierQueryReply_validate c) (\<lambda>_. CourierQueryReply_encodeBinary c)"

text \<open>Exactly the alternative that the tag selects is set.\<close>

definition CourierQueryReply_complete :: "CourierQueryReply \<Rightarrow> bool" where
  "CourierQueryReply_complete c = (if cqr_ReplyType c = 0 then cqr_EnvelopeReply c \<noteq> None \<and> cqr_CopyCommandReply c = None
     else cqr_EnvelopeReply c = None \<and> cqr_CopyCommandReply c \<noteq> None)"

lemma CourierQueryReply_MarshalBinary_cases:
  "CourierQueryReply_MarshalBinary m =
     (if \<not> (cqr_ReplyType m = 0 \<or> cqr_ReplyType m = 1) then Err IntegerConstraint
      else if cqr_ReplyType m = 0 then
        (case cqr_EnvelopeReply m of None \<Rightarrow> Ok [0] | Some n \<Rightarrow> obind (CourierEnvelopeReply_MarshalBinary n) (\<lambda>b. Ok (0 # b)))
      else (case cqr_CopyCommandReply m of None \<Rightarrow> Ok [1] | Some n \<Rightarrow> obind (CopyCommandReply_MarshalBinary n) (\<lambda>b. Ok (1 # b))))"
  by (auto simp: CourierQueryReply_MarshalBinary_def CourierQueryReply_validate_def CourierQueryReply_encodeBinary_def
      CourierEnvelopeReply_MarshalBinary_def CopyCommandReply_MarshalBinary_def obind_assoc split: option.splits)

lemma CourierQueryReply_Parse_cases:
  "CourierQueryReply_Parse new_CourierQueryReply b = Ok (m, r) \<longleftrightarrow>
     (\<exists>c n. b = 0 # c \<and> CourierEnvelopeReply_Parse c = Ok (n, r) \<and> m = \<lparr>cqr_ReplyType = 0, cqr_EnvelopeReply = Some n, cqr_CopyCommandReply = None\<rparr>) \<or>
     (\<exists>c n. b = 1 # c \<and> CopyCommandReply_Parse c = Ok (n, r) \<and> m = \<lparr>cqr_ReplyType = 1, cqr_EnvelopeReply = None, cqr_CopyCommandReply = Some n\<rparr>)"
  by (cases b) (auto simp: CourierQueryReply_Parse_def new_CourierQueryReply_def parse_u8_01_def go_simps)

lemma CourierQueryReply_complete_cases:
  "CourierQueryReply_complete m \<and> CourierQueryReply_MarshalBinary m = Ok e \<longleftrightarrow>
     (\<exists>n d. m = \<lparr>cqr_ReplyType = 0, cqr_EnvelopeReply = Some n, cqr_CopyCommandReply = None\<rparr> \<and> CourierEnvelopeReply_MarshalBinary n = Ok d \<and> e = 0 # d) \<or>
     (\<exists>n d. m = \<lparr>cqr_ReplyType = 1, cqr_EnvelopeReply = None, cqr_CopyCommandReply = Some n\<rparr> \<and> CopyCommandReply_MarshalBinary n = Ok d \<and> e = 1 # d)"
  by (cases m) (auto simp: CourierQueryReply_complete_def CourierQueryReply_MarshalBinary_cases go_simps split: if_splits)

interpretation cqr_codec: trunnel_codec CourierQueryReply_MarshalBinary "CourierQueryReply_Parse new_CourierQueryReply" CourierQueryReply_complete
proof
  show "stable (CourierQueryReply_Parse new_CourierQueryReply)"
    unfolding CourierQueryReply_Parse_def by (intro stable_intros cer_codec.parse_stable ccr_codec.parse_stable)
  show "CourierQueryReply_Parse new_CourierQueryReply b = Ok (m, r) \<longleftrightarrow>
      CourierQueryReply_complete m \<and> (\<exists>e. CourierQueryReply_MarshalBinary m = Ok e \<and> b = e @ r)" for b m r
  proof -
    have "CourierQueryReply_complete m \<and> (\<exists>e. CourierQueryReply_MarshalBinary m = Ok e \<and> b = e @ r) \<longleftrightarrow>
        (\<exists>e. (CourierQueryReply_complete m \<and> CourierQueryReply_MarshalBinary m = Ok e) \<and> b = e @ r)" by blast
    then show ?thesis
      unfolding CourierQueryReply_Parse_cases CourierQueryReply_complete_cases cer_codec.parse_iff ccr_codec.parse_iff by auto
  qed
  show "CourierQueryReply_MarshalBinary m \<noteq> Ok []" for m
    by (auto simp: CourierQueryReply_MarshalBinary_cases go_simps split: option.splits)
  show "CourierQueryReply_MarshalBinary m \<noteq> Panic" for m
    by (auto simp: CourierQueryReply_MarshalBinary_cases go_simps cer_codec.marshal_no_panic ccr_codec.marshal_no_panic
        split: option.splits)
qed

section \<open>ReplicaRead\<close>

record ReplicaRead =
  rr_BoxID :: bytes

definition ReplicaRead_Parse :: "bytes \<Rightarrow> (trunnel_error, ReplicaRead \<times> bytes) outcome" where
  "ReplicaRead_Parse data =
     obind (parse_array 32 data) (\<lambda>(boxID, cur).
     Ok (\<lparr>rr_BoxID = boxID\<rparr>, cur))"

definition ParseReplicaRead :: "bytes \<Rightarrow> (trunnel_error, ReplicaRead) outcome" where
  "ParseReplicaRead data = obind (ReplicaRead_Parse data) (\<lambda>(r, _). Ok r)"

definition ReplicaRead_encodeBinary :: "ReplicaRead \<Rightarrow> (trunnel_error, bytes) outcome" where
  "ReplicaRead_encodeBinary r =
     obind (slice (rr_BoxID r) 0 32) (\<lambda>boxID.
     Ok (boxID))"

definition ReplicaRead_validate :: "ReplicaRead \<Rightarrow> (trunnel_error, unit) outcome" where
  "ReplicaRead_validate r =
     guard_err (length (rr_BoxID r) \<noteq> 32) ArrayLengthConstraint"

definition ReplicaRead_MarshalBinary :: "ReplicaRead \<Rightarrow> (trunnel_error, bytes) outcome" where
  "ReplicaRead_MarshalBinary r = obind (ReplicaRead_validate r) (\<lambda>_. ReplicaRead_encodeBinary r)"

lemmas ReplicaRead_defs = ReplicaRead_Parse_def ReplicaRead_MarshalBinary_def ReplicaRead_validate_def ReplicaRead_encodeBinary_def

interpretation rr_codec: trunnel_codec ReplicaRead_MarshalBinary ReplicaRead_Parse "\<lambda>_. True"
proof
  show "stable ReplicaRead_Parse"
    unfolding ReplicaRead_Parse_def by (intro stable_intros)
  show "ReplicaRead_Parse b = Ok (m, r) \<longleftrightarrow> True \<and> (\<exists>e. ReplicaRead_MarshalBinary m = Ok e \<and> b = e @ r)" for b m r
    by (cases m) (auto simp: ReplicaRead_defs go_simps field_simps01 slice_eq_Ok)
qed (auto simp: ReplicaRead_defs go_simps slice_def)

section \<open>ReplicaReadReply\<close>

record ReplicaReadReply =
  rrr_ErrorCode :: byte
  rrr_BoxID :: bytes
  rrr_Signature :: bytes
  rrr_PayloadLen :: "32 word"
  rrr_Payload :: bytes

definition ReplicaReadReply_Parse :: "bytes \<Rightarrow> (trunnel_error, ReplicaReadReply \<times> bytes) outcome" where
  "ReplicaReadReply_Parse data =
     obind (parse_u8 data) (\<lambda>(errorCode, cur).
     obind (parse_array 32 cur) (\<lambda>(boxID, cur).
     obind (parse_array 64 cur) (\<lambda>(signature, cur).
     obind (parse_u32 cur) (\<lambda>(payloadLen, cur).
     obind (parse_array (unat payloadLen) cur) (\<lambda>(payload, cur).
     Ok (\<lparr>rrr_ErrorCode = errorCode, rrr_BoxID = boxID, rrr_Signature = signature,
          rrr_PayloadLen = payloadLen, rrr_Payload = payload\<rparr>, cur))))))"

definition ParseReplicaReadReply :: "bytes \<Rightarrow> (trunnel_error, ReplicaReadReply) outcome" where
  "ParseReplicaReadReply data = obind (ReplicaReadReply_Parse data) (\<lambda>(r, _). Ok r)"

definition ReplicaReadReply_encodeBinary :: "ReplicaReadReply \<Rightarrow> (trunnel_error, bytes) outcome" where
  "ReplicaReadReply_encodeBinary r =
     obind (slice (rrr_BoxID r) 0 32) (\<lambda>boxID.
     obind (slice (rrr_Signature r) 0 64) (\<lambda>signature.
     obind (slice (rrr_Payload r) 0 (unat (rrr_PayloadLen r))) (\<lambda>payload.
     Ok ([rrr_ErrorCode r] @ boxID @ signature @ PutUint32 (rrr_PayloadLen r) @ payload))))"

definition ReplicaReadReply_validate :: "ReplicaReadReply \<Rightarrow> (trunnel_error, unit) outcome" where
  "ReplicaReadReply_validate r =
     obind (guard_err (length (rrr_BoxID r) \<noteq> 32) ArrayLengthConstraint) (\<lambda>_.
     obind (guard_err (length (rrr_Signature r) \<noteq> 64) ArrayLengthConstraint) (\<lambda>_.
     guard_err (length (rrr_Payload r) \<noteq> unat (rrr_PayloadLen r)) ArrayLengthConstraint))"

definition ReplicaReadReply_MarshalBinary :: "ReplicaReadReply \<Rightarrow> (trunnel_error, bytes) outcome" where
  "ReplicaReadReply_MarshalBinary r = obind (ReplicaReadReply_validate r) (\<lambda>_. ReplicaReadReply_encodeBinary r)"

lemmas ReplicaReadReply_defs = ReplicaReadReply_Parse_def ReplicaReadReply_MarshalBinary_def ReplicaReadReply_validate_def ReplicaReadReply_encodeBinary_def

interpretation rrr_codec: trunnel_codec ReplicaReadReply_MarshalBinary ReplicaReadReply_Parse "\<lambda>_. True"
proof
  show "stable ReplicaReadReply_Parse"
    unfolding ReplicaReadReply_Parse_def by (intro stable_intros)
  show "ReplicaReadReply_Parse b = Ok (m, r) \<longleftrightarrow> True \<and> (\<exists>e. ReplicaReadReply_MarshalBinary m = Ok e \<and> b = e @ r)" for b m r
    by (cases m) (auto simp: ReplicaReadReply_defs go_simps field_simps01 slice_eq_Ok)
qed (auto simp: ReplicaReadReply_defs go_simps slice_def)

section \<open>ReplicaWrite\<close>

record ReplicaWrite =
  trw_BoxID :: bytes
  trw_Signature :: bytes
  trw_PayloadLen :: "32 word"
  trw_Payload :: bytes

definition ReplicaWrite_Parse :: "bytes \<Rightarrow> (trunnel_error, ReplicaWrite \<times> bytes) outcome" where
  "ReplicaWrite_Parse data =
     obind (parse_array 32 data) (\<lambda>(boxID, cur).
     obind (parse_array 64 cur) (\<lambda>(signature, cur).
     obind (parse_u32 cur) (\<lambda>(payloadLen, cur).
     obind (parse_array (unat payloadLen) cur) (\<lambda>(payload, cur).
     Ok (\<lparr>trw_BoxID = boxID, trw_Signature = signature, trw_PayloadLen = payloadLen,
          trw_Payload = payload\<rparr>, cur)))))"

definition ParseReplicaWrite :: "bytes \<Rightarrow> (trunnel_error, ReplicaWrite) outcome" where
  "ParseReplicaWrite data = obind (ReplicaWrite_Parse data) (\<lambda>(t, _). Ok t)"

definition ReplicaWrite_encodeBinary :: "ReplicaWrite \<Rightarrow> (trunnel_error, bytes) outcome" where
  "ReplicaWrite_encodeBinary t =
     obind (slice (trw_BoxID t) 0 32) (\<lambda>boxID.
     obind (slice (trw_Signature t) 0 64) (\<lambda>signature.
     obind (slice (trw_Payload t) 0 (unat (trw_PayloadLen t))) (\<lambda>payload.
     Ok (boxID @ signature @ PutUint32 (trw_PayloadLen t) @ payload))))"

definition ReplicaWrite_validate :: "ReplicaWrite \<Rightarrow> (trunnel_error, unit) outcome" where
  "ReplicaWrite_validate t =
     obind (guard_err (length (trw_BoxID t) \<noteq> 32) ArrayLengthConstraint) (\<lambda>_.
     obind (guard_err (length (trw_Signature t) \<noteq> 64) ArrayLengthConstraint) (\<lambda>_.
     guard_err (length (trw_Payload t) \<noteq> unat (trw_PayloadLen t)) ArrayLengthConstraint))"

definition ReplicaWrite_MarshalBinary :: "ReplicaWrite \<Rightarrow> (trunnel_error, bytes) outcome" where
  "ReplicaWrite_MarshalBinary t = obind (ReplicaWrite_validate t) (\<lambda>_. ReplicaWrite_encodeBinary t)"

lemmas ReplicaWrite_defs = ReplicaWrite_Parse_def ReplicaWrite_MarshalBinary_def ReplicaWrite_validate_def ReplicaWrite_encodeBinary_def

interpretation trw_codec: trunnel_codec ReplicaWrite_MarshalBinary ReplicaWrite_Parse "\<lambda>_. True"
proof
  show "stable ReplicaWrite_Parse"
    unfolding ReplicaWrite_Parse_def by (intro stable_intros)
  show "ReplicaWrite_Parse b = Ok (m, r) \<longleftrightarrow> True \<and> (\<exists>e. ReplicaWrite_MarshalBinary m = Ok e \<and> b = e @ r)" for b m r
    by (cases m) (auto simp: ReplicaWrite_defs go_simps field_simps01 slice_eq_Ok)
qed (auto simp: ReplicaWrite_defs go_simps slice_def)

section \<open>ReplicaInnerMessage\<close>

record ReplicaInnerMessage =
  rim_MessageType :: byte
  rim_ReadMsg :: "ReplicaRead option"
  rim_WriteMsg :: "ReplicaWrite option"

definition new_ReplicaInnerMessage :: ReplicaInnerMessage where
  "new_ReplicaInnerMessage = \<lparr>rim_MessageType = 0, rim_ReadMsg = None, rim_WriteMsg = None\<rparr>"

definition ReplicaInnerMessage_Parse :: "ReplicaInnerMessage \<Rightarrow> bytes \<Rightarrow> (trunnel_error, ReplicaInnerMessage \<times> bytes) outcome" where
  "ReplicaInnerMessage_Parse r data =
     obind (parse_u8_01 data) (\<lambda>(messageType, cur).
     if messageType = 0 then obind (ReplicaRead_Parse cur) (\<lambda>(m, cur).
       Ok (r\<lparr>rim_MessageType := messageType, rim_ReadMsg := Some m\<rparr>, cur))
     else obind (ReplicaWrite_Parse cur) (\<lambda>(m, cur).
       Ok (r\<lparr>rim_MessageType := messageType, rim_WriteMsg := Some m\<rparr>, cur)))"

definition ParseReplicaInnerMessage :: "bytes \<Rightarrow> (trunnel_error, ReplicaInnerMessage) outcome" where
  "ParseReplicaInnerMessage data = obind (ReplicaInnerMessage_Parse new_ReplicaInnerMessage data) (\<lambda>(r, _). Ok r)"

definition ReplicaInnerMessage_encodeBinary :: "ReplicaInnerMessage \<Rightarrow> (trunnel_error, bytes) outcome" where
  "ReplicaInnerMessage_encodeBinary r =
     (if rim_MessageType r = 0 then
        (case rim_ReadMsg r of None \<Rightarrow> Ok [rim_MessageType r]
         | Some m \<Rightarrow> obind (ReplicaRead_encodeBinary m) (\<lambda>b. Ok ([rim_MessageType r] @ b)))
      else if rim_MessageType r = 1 then
        (case rim_WriteMsg r of None \<Rightarrow> Ok [rim_MessageType r]
         | Some m \<Rightarrow> obind (ReplicaWrite_encodeBinary m) (\<lambda>b. Ok ([rim_MessageType r] @ b)))
      else Ok [rim_MessageType r])"

definition ReplicaInnerMessage_validate :: "ReplicaInnerMessage \<Rightarrow> (trunnel_error, unit) outcome" where
  "ReplicaInnerMessage_validate r =
     (if \<not> (rim_MessageType r = 0 \<or> rim_MessageType r = 1) then Err IntegerConstraint
      else if rim_MessageType r = 0 then
        (case rim_ReadMsg r of None \<Rightarrow> Ok () | Some m \<Rightarrow> ReplicaRead_validate m)
      else (case rim_WriteMsg r of None \<Rightarrow> Ok () | Some m \<Rightarrow> ReplicaWrite_validate m))"

definition ReplicaInnerMessage_MarshalBinary :: "ReplicaInnerMessage \<Rightarrow> (trunnel_error, bytes) outcome" where
  "ReplicaInnerMessage_MarshalBinary r = obind (ReplicaInnerMessage_validate r) (\<lambda>_. ReplicaInnerMessage_encodeBinary r)"

text \<open>Exactly the alternative that the tag selects is set.\<close>

definition ReplicaInnerMessage_complete :: "ReplicaInnerMessage \<Rightarrow> bool" where
  "ReplicaInnerMessage_complete r = (if rim_MessageType r = 0 then rim_ReadMsg r \<noteq> None \<and> rim_WriteMsg r = None
     else rim_ReadMsg r = None \<and> rim_WriteMsg r \<noteq> None)"

lemma ReplicaInnerMessage_MarshalBinary_cases:
  "ReplicaInnerMessage_MarshalBinary m =
     (if \<not> (rim_MessageType m = 0 \<or> rim_MessageType m = 1) then Err IntegerConstraint
      else if rim_MessageType m = 0 then
        (case rim_ReadMsg m of None \<Rightarrow> Ok [0] | Some n \<Rightarrow> obind (ReplicaRead_MarshalBinary n) (\<lambda>b. Ok (0 # b)))
      else (case rim_WriteMsg m of None \<Rightarrow> Ok [1] | Some n \<Rightarrow> obind (ReplicaWrite_MarshalBinary n) (\<lambda>b. Ok (1 # b))))"
  by (auto simp: ReplicaInnerMessage_MarshalBinary_def ReplicaInnerMessage_validate_def ReplicaInnerMessage_encodeBinary_def
      ReplicaRead_MarshalBinary_def ReplicaWrite_MarshalBinary_def obind_assoc split: option.splits)

lemma ReplicaInnerMessage_Parse_cases:
  "ReplicaInnerMessage_Parse new_ReplicaInnerMessage b = Ok (m, r) \<longleftrightarrow>
     (\<exists>c n. b = 0 # c \<and> ReplicaRead_Parse c = Ok (n, r) \<and> m = \<lparr>rim_MessageType = 0, rim_ReadMsg = Some n, rim_WriteMsg = None\<rparr>) \<or>
     (\<exists>c n. b = 1 # c \<and> ReplicaWrite_Parse c = Ok (n, r) \<and> m = \<lparr>rim_MessageType = 1, rim_ReadMsg = None, rim_WriteMsg = Some n\<rparr>)"
  by (cases b) (auto simp: ReplicaInnerMessage_Parse_def new_ReplicaInnerMessage_def parse_u8_01_def go_simps)

lemma ReplicaInnerMessage_complete_cases:
  "ReplicaInnerMessage_complete m \<and> ReplicaInnerMessage_MarshalBinary m = Ok e \<longleftrightarrow>
     (\<exists>n d. m = \<lparr>rim_MessageType = 0, rim_ReadMsg = Some n, rim_WriteMsg = None\<rparr> \<and> ReplicaRead_MarshalBinary n = Ok d \<and> e = 0 # d) \<or>
     (\<exists>n d. m = \<lparr>rim_MessageType = 1, rim_ReadMsg = None, rim_WriteMsg = Some n\<rparr> \<and> ReplicaWrite_MarshalBinary n = Ok d \<and> e = 1 # d)"
  by (cases m) (auto simp: ReplicaInnerMessage_complete_def ReplicaInnerMessage_MarshalBinary_cases go_simps split: if_splits)

interpretation rim_codec: trunnel_codec ReplicaInnerMessage_MarshalBinary "ReplicaInnerMessage_Parse new_ReplicaInnerMessage" ReplicaInnerMessage_complete
proof
  show "stable (ReplicaInnerMessage_Parse new_ReplicaInnerMessage)"
    unfolding ReplicaInnerMessage_Parse_def by (intro stable_intros rr_codec.parse_stable trw_codec.parse_stable)
  show "ReplicaInnerMessage_Parse new_ReplicaInnerMessage b = Ok (m, r) \<longleftrightarrow>
      ReplicaInnerMessage_complete m \<and> (\<exists>e. ReplicaInnerMessage_MarshalBinary m = Ok e \<and> b = e @ r)" for b m r
  proof -
    have "ReplicaInnerMessage_complete m \<and> (\<exists>e. ReplicaInnerMessage_MarshalBinary m = Ok e \<and> b = e @ r) \<longleftrightarrow>
        (\<exists>e. (ReplicaInnerMessage_complete m \<and> ReplicaInnerMessage_MarshalBinary m = Ok e) \<and> b = e @ r)" by blast
    then show ?thesis
      unfolding ReplicaInnerMessage_Parse_cases ReplicaInnerMessage_complete_cases rr_codec.parse_iff trw_codec.parse_iff by auto
  qed
  show "ReplicaInnerMessage_MarshalBinary m \<noteq> Ok []" for m
    by (auto simp: ReplicaInnerMessage_MarshalBinary_cases go_simps split: option.splits)
  show "ReplicaInnerMessage_MarshalBinary m \<noteq> Panic" for m
    by (auto simp: ReplicaInnerMessage_MarshalBinary_cases go_simps rr_codec.marshal_no_panic trw_codec.marshal_no_panic
        split: option.splits)
qed

section \<open>ReplicaWriteReply\<close>

record ReplicaWriteReply =
  rwr_ErrorCode :: byte

definition ReplicaWriteReply_Parse :: "bytes \<Rightarrow> (trunnel_error, ReplicaWriteReply \<times> bytes) outcome" where
  "ReplicaWriteReply_Parse data =
     obind (parse_u8 data) (\<lambda>(errorCode, cur).
     Ok (\<lparr>rwr_ErrorCode = errorCode\<rparr>, cur))"

definition ParseReplicaWriteReply :: "bytes \<Rightarrow> (trunnel_error, ReplicaWriteReply) outcome" where
  "ParseReplicaWriteReply data = obind (ReplicaWriteReply_Parse data) (\<lambda>(r, _). Ok r)"

definition ReplicaWriteReply_encodeBinary :: "ReplicaWriteReply \<Rightarrow> (trunnel_error, bytes) outcome" where
  "ReplicaWriteReply_encodeBinary r =
     Ok ([rwr_ErrorCode r])"

definition ReplicaWriteReply_validate :: "ReplicaWriteReply \<Rightarrow> (trunnel_error, unit) outcome" where
  "ReplicaWriteReply_validate r = Ok ()"

definition ReplicaWriteReply_MarshalBinary :: "ReplicaWriteReply \<Rightarrow> (trunnel_error, bytes) outcome" where
  "ReplicaWriteReply_MarshalBinary r = obind (ReplicaWriteReply_validate r) (\<lambda>_. ReplicaWriteReply_encodeBinary r)"

lemmas ReplicaWriteReply_defs = ReplicaWriteReply_Parse_def ReplicaWriteReply_MarshalBinary_def ReplicaWriteReply_validate_def ReplicaWriteReply_encodeBinary_def

interpretation rwr_codec: trunnel_codec ReplicaWriteReply_MarshalBinary ReplicaWriteReply_Parse "\<lambda>_. True"
proof
  show "stable ReplicaWriteReply_Parse"
    unfolding ReplicaWriteReply_Parse_def by (intro stable_intros)
  show "ReplicaWriteReply_Parse b = Ok (m, r) \<longleftrightarrow> True \<and> (\<exists>e. ReplicaWriteReply_MarshalBinary m = Ok e \<and> b = e @ r)" for b m r
    by (cases m) (auto simp: ReplicaWriteReply_defs go_simps field_simps01 slice_eq_Ok)
qed (auto simp: ReplicaWriteReply_defs go_simps slice_def)

section \<open>ReplicaMessageReplyInnerMessage\<close>

record ReplicaMessageReplyInnerMessage =
  rmi_MessageType :: byte
  rmi_ReadReply :: "ReplicaReadReply option"
  rmi_WriteReply :: "ReplicaWriteReply option"

definition new_ReplicaMessageReplyInnerMessage :: ReplicaMessageReplyInnerMessage where
  "new_ReplicaMessageReplyInnerMessage = \<lparr>rmi_MessageType = 0, rmi_ReadReply = None, rmi_WriteReply = None\<rparr>"

definition ReplicaMessageReplyInnerMessage_Parse :: "ReplicaMessageReplyInnerMessage \<Rightarrow> bytes \<Rightarrow> (trunnel_error, ReplicaMessageReplyInnerMessage \<times> bytes) outcome" where
  "ReplicaMessageReplyInnerMessage_Parse r data =
     obind (parse_u8_01 data) (\<lambda>(messageType, cur).
     if messageType = 0 then obind (ReplicaReadReply_Parse cur) (\<lambda>(m, cur).
       Ok (r\<lparr>rmi_MessageType := messageType, rmi_ReadReply := Some m\<rparr>, cur))
     else obind (ReplicaWriteReply_Parse cur) (\<lambda>(m, cur).
       Ok (r\<lparr>rmi_MessageType := messageType, rmi_WriteReply := Some m\<rparr>, cur)))"

definition ParseReplicaMessageReplyInnerMessage :: "bytes \<Rightarrow> (trunnel_error, ReplicaMessageReplyInnerMessage) outcome" where
  "ParseReplicaMessageReplyInnerMessage data = obind (ReplicaMessageReplyInnerMessage_Parse new_ReplicaMessageReplyInnerMessage data) (\<lambda>(r, _). Ok r)"

definition ReplicaMessageReplyInnerMessage_encodeBinary :: "ReplicaMessageReplyInnerMessage \<Rightarrow> (trunnel_error, bytes) outcome" where
  "ReplicaMessageReplyInnerMessage_encodeBinary r =
     (if rmi_MessageType r = 0 then
        (case rmi_ReadReply r of None \<Rightarrow> Ok [rmi_MessageType r]
         | Some m \<Rightarrow> obind (ReplicaReadReply_encodeBinary m) (\<lambda>b. Ok ([rmi_MessageType r] @ b)))
      else if rmi_MessageType r = 1 then
        (case rmi_WriteReply r of None \<Rightarrow> Ok [rmi_MessageType r]
         | Some m \<Rightarrow> obind (ReplicaWriteReply_encodeBinary m) (\<lambda>b. Ok ([rmi_MessageType r] @ b)))
      else Ok [rmi_MessageType r])"

definition ReplicaMessageReplyInnerMessage_validate :: "ReplicaMessageReplyInnerMessage \<Rightarrow> (trunnel_error, unit) outcome" where
  "ReplicaMessageReplyInnerMessage_validate r =
     (if \<not> (rmi_MessageType r = 0 \<or> rmi_MessageType r = 1) then Err IntegerConstraint
      else if rmi_MessageType r = 0 then
        (case rmi_ReadReply r of None \<Rightarrow> Ok () | Some m \<Rightarrow> ReplicaReadReply_validate m)
      else (case rmi_WriteReply r of None \<Rightarrow> Ok () | Some m \<Rightarrow> ReplicaWriteReply_validate m))"

definition ReplicaMessageReplyInnerMessage_MarshalBinary :: "ReplicaMessageReplyInnerMessage \<Rightarrow> (trunnel_error, bytes) outcome" where
  "ReplicaMessageReplyInnerMessage_MarshalBinary r = obind (ReplicaMessageReplyInnerMessage_validate r) (\<lambda>_. ReplicaMessageReplyInnerMessage_encodeBinary r)"

text \<open>Exactly the alternative that the tag selects is set.\<close>

definition ReplicaMessageReplyInnerMessage_complete :: "ReplicaMessageReplyInnerMessage \<Rightarrow> bool" where
  "ReplicaMessageReplyInnerMessage_complete r = (if rmi_MessageType r = 0 then rmi_ReadReply r \<noteq> None \<and> rmi_WriteReply r = None
     else rmi_ReadReply r = None \<and> rmi_WriteReply r \<noteq> None)"

lemma ReplicaMessageReplyInnerMessage_MarshalBinary_cases:
  "ReplicaMessageReplyInnerMessage_MarshalBinary m =
     (if \<not> (rmi_MessageType m = 0 \<or> rmi_MessageType m = 1) then Err IntegerConstraint
      else if rmi_MessageType m = 0 then
        (case rmi_ReadReply m of None \<Rightarrow> Ok [0] | Some n \<Rightarrow> obind (ReplicaReadReply_MarshalBinary n) (\<lambda>b. Ok (0 # b)))
      else (case rmi_WriteReply m of None \<Rightarrow> Ok [1] | Some n \<Rightarrow> obind (ReplicaWriteReply_MarshalBinary n) (\<lambda>b. Ok (1 # b))))"
  by (auto simp: ReplicaMessageReplyInnerMessage_MarshalBinary_def ReplicaMessageReplyInnerMessage_validate_def ReplicaMessageReplyInnerMessage_encodeBinary_def
      ReplicaReadReply_MarshalBinary_def ReplicaWriteReply_MarshalBinary_def obind_assoc split: option.splits)

lemma ReplicaMessageReplyInnerMessage_Parse_cases:
  "ReplicaMessageReplyInnerMessage_Parse new_ReplicaMessageReplyInnerMessage b = Ok (m, r) \<longleftrightarrow>
     (\<exists>c n. b = 0 # c \<and> ReplicaReadReply_Parse c = Ok (n, r) \<and> m = \<lparr>rmi_MessageType = 0, rmi_ReadReply = Some n, rmi_WriteReply = None\<rparr>) \<or>
     (\<exists>c n. b = 1 # c \<and> ReplicaWriteReply_Parse c = Ok (n, r) \<and> m = \<lparr>rmi_MessageType = 1, rmi_ReadReply = None, rmi_WriteReply = Some n\<rparr>)"
  by (cases b) (auto simp: ReplicaMessageReplyInnerMessage_Parse_def new_ReplicaMessageReplyInnerMessage_def parse_u8_01_def go_simps)

lemma ReplicaMessageReplyInnerMessage_complete_cases:
  "ReplicaMessageReplyInnerMessage_complete m \<and> ReplicaMessageReplyInnerMessage_MarshalBinary m = Ok e \<longleftrightarrow>
     (\<exists>n d. m = \<lparr>rmi_MessageType = 0, rmi_ReadReply = Some n, rmi_WriteReply = None\<rparr> \<and> ReplicaReadReply_MarshalBinary n = Ok d \<and> e = 0 # d) \<or>
     (\<exists>n d. m = \<lparr>rmi_MessageType = 1, rmi_ReadReply = None, rmi_WriteReply = Some n\<rparr> \<and> ReplicaWriteReply_MarshalBinary n = Ok d \<and> e = 1 # d)"
  by (cases m) (auto simp: ReplicaMessageReplyInnerMessage_complete_def ReplicaMessageReplyInnerMessage_MarshalBinary_cases go_simps split: if_splits)

interpretation rmi_codec: trunnel_codec ReplicaMessageReplyInnerMessage_MarshalBinary "ReplicaMessageReplyInnerMessage_Parse new_ReplicaMessageReplyInnerMessage" ReplicaMessageReplyInnerMessage_complete
proof
  show "stable (ReplicaMessageReplyInnerMessage_Parse new_ReplicaMessageReplyInnerMessage)"
    unfolding ReplicaMessageReplyInnerMessage_Parse_def by (intro stable_intros rrr_codec.parse_stable rwr_codec.parse_stable)
  show "ReplicaMessageReplyInnerMessage_Parse new_ReplicaMessageReplyInnerMessage b = Ok (m, r) \<longleftrightarrow>
      ReplicaMessageReplyInnerMessage_complete m \<and> (\<exists>e. ReplicaMessageReplyInnerMessage_MarshalBinary m = Ok e \<and> b = e @ r)" for b m r
  proof -
    have "ReplicaMessageReplyInnerMessage_complete m \<and> (\<exists>e. ReplicaMessageReplyInnerMessage_MarshalBinary m = Ok e \<and> b = e @ r) \<longleftrightarrow>
        (\<exists>e. (ReplicaMessageReplyInnerMessage_complete m \<and> ReplicaMessageReplyInnerMessage_MarshalBinary m = Ok e) \<and> b = e @ r)" by blast
    then show ?thesis
      unfolding ReplicaMessageReplyInnerMessage_Parse_cases ReplicaMessageReplyInnerMessage_complete_cases rrr_codec.parse_iff rwr_codec.parse_iff by auto
  qed
  show "ReplicaMessageReplyInnerMessage_MarshalBinary m \<noteq> Ok []" for m
    by (auto simp: ReplicaMessageReplyInnerMessage_MarshalBinary_cases go_simps split: option.splits)
  show "ReplicaMessageReplyInnerMessage_MarshalBinary m \<noteq> Panic" for m
    by (auto simp: ReplicaMessageReplyInnerMessage_MarshalBinary_cases go_simps rrr_codec.marshal_no_panic rwr_codec.marshal_no_panic
        split: option.splits)
qed

section \<open>Box\<close>

record Box =
  box_BoxID :: bytes
  box_PayloadLen :: "32 word"
  box_Payload :: bytes
  box_Signature :: bytes

definition Box_Parse :: "bytes \<Rightarrow> (trunnel_error, Box \<times> bytes) outcome" where
  "Box_Parse data =
     obind (parse_array 32 data) (\<lambda>(boxID, cur).
     obind (parse_u32 cur) (\<lambda>(payloadLen, cur).
     obind (parse_array (unat payloadLen) cur) (\<lambda>(payload, cur).
     obind (parse_array 64 cur) (\<lambda>(signature, cur).
     Ok (\<lparr>box_BoxID = boxID, box_PayloadLen = payloadLen, box_Payload = payload,
          box_Signature = signature\<rparr>, cur)))))"

definition ParseBox :: "bytes \<Rightarrow> (trunnel_error, Box) outcome" where
  "ParseBox data = obind (Box_Parse data) (\<lambda>(b, _). Ok b)"

definition Box_encodeBinary :: "Box \<Rightarrow> (trunnel_error, bytes) outcome" where
  "Box_encodeBinary b =
     obind (slice (box_BoxID b) 0 32) (\<lambda>boxID.
     obind (slice (box_Payload b) 0 (unat (box_PayloadLen b))) (\<lambda>payload.
     obind (slice (box_Signature b) 0 64) (\<lambda>signature.
     Ok (boxID @ PutUint32 (box_PayloadLen b) @ payload @ signature))))"

definition Box_validate :: "Box \<Rightarrow> (trunnel_error, unit) outcome" where
  "Box_validate b =
     obind (guard_err (length (box_BoxID b) \<noteq> 32) ArrayLengthConstraint) (\<lambda>_.
     obind (guard_err (length (box_Payload b) \<noteq> unat (box_PayloadLen b)) ArrayLengthConstraint) (\<lambda>_.
     guard_err (length (box_Signature b) \<noteq> 64) ArrayLengthConstraint))"

definition Box_MarshalBinary :: "Box \<Rightarrow> (trunnel_error, bytes) outcome" where
  "Box_MarshalBinary b = obind (Box_validate b) (\<lambda>_. Box_encodeBinary b)"

lemmas Box_defs = Box_Parse_def Box_MarshalBinary_def Box_validate_def Box_encodeBinary_def

interpretation box_codec: trunnel_codec Box_MarshalBinary Box_Parse "\<lambda>_. True"
proof
  show "stable Box_Parse"
    unfolding Box_Parse_def by (intro stable_intros)
  show "Box_Parse b = Ok (m, r) \<longleftrightarrow> True \<and> (\<exists>e. Box_MarshalBinary m = Ok e \<and> b = e @ r)" for b m r
    by (cases m) (auto simp: Box_defs go_simps field_simps01 slice_eq_Ok)
qed (auto simp: Box_defs go_simps slice_def)

section \<open>CopyStreamElement\<close>

record CopyStreamElement =
  cse_Flags :: byte
  cse_EnvelopeLen :: "32 word"
  cse_EnvelopeData :: bytes

definition CopyStreamElement_Parse :: "bytes \<Rightarrow> (trunnel_error, CopyStreamElement \<times> bytes) outcome" where
  "CopyStreamElement_Parse data =
     obind (parse_u8 data) (\<lambda>(flags, cur).
     obind (parse_u32 cur) (\<lambda>(envelopeLen, cur).
     obind (parse_array (unat envelopeLen) cur) (\<lambda>(envelopeData, cur).
     Ok (\<lparr>cse_Flags = flags, cse_EnvelopeLen = envelopeLen, cse_EnvelopeData = envelopeData\<rparr>, cur))))"

definition ParseCopyStreamElement :: "bytes \<Rightarrow> (trunnel_error, CopyStreamElement) outcome" where
  "ParseCopyStreamElement data = obind (CopyStreamElement_Parse data) (\<lambda>(c, _). Ok c)"

definition CopyStreamElement_encodeBinary :: "CopyStreamElement \<Rightarrow> (trunnel_error, bytes) outcome" where
  "CopyStreamElement_encodeBinary c =
     obind (slice (cse_EnvelopeData c) 0 (unat (cse_EnvelopeLen c))) (\<lambda>envelopeData.
     Ok ([cse_Flags c] @ PutUint32 (cse_EnvelopeLen c) @ envelopeData))"

definition CopyStreamElement_validate :: "CopyStreamElement \<Rightarrow> (trunnel_error, unit) outcome" where
  "CopyStreamElement_validate c =
     guard_err (length (cse_EnvelopeData c) \<noteq> unat (cse_EnvelopeLen c)) ArrayLengthConstraint"

definition CopyStreamElement_MarshalBinary :: "CopyStreamElement \<Rightarrow> (trunnel_error, bytes) outcome" where
  "CopyStreamElement_MarshalBinary c = obind (CopyStreamElement_validate c) (\<lambda>_. CopyStreamElement_encodeBinary c)"

lemmas CopyStreamElement_defs = CopyStreamElement_Parse_def CopyStreamElement_MarshalBinary_def CopyStreamElement_validate_def CopyStreamElement_encodeBinary_def

interpretation cse_codec: trunnel_codec CopyStreamElement_MarshalBinary CopyStreamElement_Parse "\<lambda>_. True"
proof
  show "stable CopyStreamElement_Parse"
    unfolding CopyStreamElement_Parse_def by (intro stable_intros)
  show "CopyStreamElement_Parse b = Ok (m, r) \<longleftrightarrow> True \<and> (\<exists>e. CopyStreamElement_MarshalBinary m = Ok e \<and> b = e @ r)" for b m r
    by (cases m) (auto simp: CopyStreamElement_defs go_simps field_simps01 slice_eq_Ok)
qed (auto simp: CopyStreamElement_defs go_simps slice_def)
section \<open>The messages as a whole\<close>

text \<open>
  C23. The byte formats of the courier and replica messages are unambiguous and canonical. For each of
  the four union messages, the storage box and the copy stream element: parsing yields a message and
  a remainder exactly when the input is what \<open>MarshalBinary\<close> returns for that message followed by the
  remainder, and the message has the alternative set that its tag selects. So every message that can
  be encoded is parsed back, from a buffer that holds more data too, nothing but the output of the
  encoder is accepted, and no two messages share an encoding.
\<close>

theorem trunnel_roundtrip:
  "(CourierQuery_Parse new_CourierQuery data = Ok (q, rest) \<longleftrightarrow>
      CourierQuery_complete q \<and> (\<exists>b. CourierQuery_MarshalBinary q = Ok b \<and> data = b @ rest)) \<and>
   (CourierQueryReply_Parse new_CourierQueryReply data = Ok (qr, rest) \<longleftrightarrow>
      CourierQueryReply_complete qr \<and> (\<exists>b. CourierQueryReply_MarshalBinary qr = Ok b \<and> data = b @ rest)) \<and>
   (ReplicaInnerMessage_Parse new_ReplicaInnerMessage data = Ok (ri, rest) \<longleftrightarrow>
      ReplicaInnerMessage_complete ri \<and> (\<exists>b. ReplicaInnerMessage_MarshalBinary ri = Ok b \<and> data = b @ rest)) \<and>
   (ReplicaMessageReplyInnerMessage_Parse new_ReplicaMessageReplyInnerMessage data = Ok (rm, rest) \<longleftrightarrow>
      ReplicaMessageReplyInnerMessage_complete rm \<and>
      (\<exists>b. ReplicaMessageReplyInnerMessage_MarshalBinary rm = Ok b \<and> data = b @ rest)) \<and>
   (Box_Parse data = Ok (bx, rest) \<longleftrightarrow> (\<exists>b. Box_MarshalBinary bx = Ok b \<and> data = b @ rest)) \<and>
   (CopyStreamElement_Parse data = Ok (el, rest) \<longleftrightarrow>
      (\<exists>b. CopyStreamElement_MarshalBinary el = Ok b \<and> data = b @ rest))"
  unfolding cq_codec.parse_iff cqr_codec.parse_iff rim_codec.parse_iff rmi_codec.parse_iff
    box_codec.parse_iff cse_codec.parse_iff by (simp only: simp_thms)


definition toy_query :: CourierQuery where
  "toy_query = \<lparr>cq_QueryType = 1, cq_Envelope = None,
     cq_CopyCommand = Some \<lparr>cc_WriteCapLen = 2, cc_WriteCap = [7, 8]\<rparr>\<rparr>"

lemma toy_query_bytes: "CourierQuery_MarshalBinary toy_query = Ok [1, 0, 0, 0, 2, 7, 8]"
  by (simp add: toy_query_def CourierQuery_MarshalBinary_cases CopyCommand_defs slice_def
      PutUint32_bytes)

definition toy_element :: CopyStreamElement where
  "toy_element = \<lparr>cse_Flags = 3, cse_EnvelopeLen = 1, cse_EnvelopeData = [9]\<rparr>"

lemma toy_element_bytes: "CopyStreamElement_MarshalBinary toy_element = Ok [3, 0, 0, 0, 1, 9]"
  by (simp add: toy_element_def CopyStreamElement_defs slice_def PutUint32_bytes)


end
