(* ===== verification/Pigeonhole_Geo.thy ===== *)
theory Pigeonhole_Geo
  imports Sphinx_Geo
begin

text \<open>
  \<open>src/pigeonhole/geo/geometry.go\<close>: the sizes of the Pigeonhole envelopes, and how a Pigeonhole
  geometry and a Sphinx geometry are derived from each other. The sizes of BACAP, MKEM and
  ChaCha20-Poly1305 come from other packages and are the parameter \<open>ext_sizes\<close>.
\<close>

record ext_sizes =
  BoxIDSize :: nat
  SignatureSize :: nat
  DEKSize :: nat
  NonceSize :: nat
  Overhead :: nat

record PGeometry =
  MaxPlaintextPayloadLength :: nat
  CourierQueryReadLength :: nat
  CourierQueryWriteLength :: nat
  CourierQueryReplyReadLength :: nat
  CourierQueryReplyWriteLength :: nat
  pg_NIKEName :: string
  SignatureSchemeName :: string

datatype pgeo_error =
    PGeoTooSmall nat nat
  | PGeoNil
  | PGeoPayloadNotPositive
  | PGeoNoNIKEName
  | PGeoSignatureScheme

section \<open>Field sizes\<close>

definition bacapEncryptionOverhead :: nat where "bacapEncryptionOverhead = 16"
definition lengthPrefixSize :: nat where "lengthPrefixSize = 4"
definition mkemEncryptionOverhead :: "ext_sizes \<Rightarrow> nat" where
  "mkemEncryptionOverhead x = NonceSize x + Overhead x"
definition signatureSchemeName :: string where "signatureSchemeName = ''Ed25519''"
definition messageTypeSize :: nat where "messageTypeSize = 1"
definition errorCodeFieldSize :: nat where "errorCodeFieldSize = 1"
definition successFieldSize :: nat where "successFieldSize = 1"
definition payloadLenFieldSize :: nat where "payloadLenFieldSize = 4"
definition writeReplyLenFieldSize :: nat where "writeReplyLenFieldSize = 4"
definition minimalOkReplySize :: nat where "minimalOkReplySize = 2"
definition errorLenFieldSize :: nat where "errorLenFieldSize = 2"
definition timestampFieldSize :: nat where "timestampFieldSize = 8"
definition ciphertextLenFieldSize :: nat where "ciphertextLenFieldSize = 4"
definition intermediateReplicasSize :: nat where "intermediateReplicasSize = 2"
definition replyIndexSize :: nat where "replyIndexSize = 1"
definition epochSize :: nat where "epochSize = 8"
definition senderPubkeyLenSize :: nat where "senderPubkeyLenSize = 2"
definition queryTypeSize :: nat where "queryTypeSize = 1"

lemmas pgeo_consts [simp] =
  bacapEncryptionOverhead_def lengthPrefixSize_def messageTypeSize_def errorCodeFieldSize_def successFieldSize_def
  payloadLenFieldSize_def writeReplyLenFieldSize_def minimalOkReplySize_def errorLenFieldSize_def timestampFieldSize_def
  ciphertextLenFieldSize_def intermediateReplicasSize_def replyIndexSize_def epochSize_def senderPubkeyLenSize_def
  queryTypeSize_def

definition replicaWriteFixedOverhead :: "ext_sizes \<Rightarrow> nat" where
  "replicaWriteFixedOverhead x = BoxIDSize x + SignatureSize x + payloadLenFieldSize"

definition calculateCourierEnvelopeOverhead :: "ext_sizes \<Rightarrow> nat \<Rightarrow> nat \<Rightarrow> nat" where
  "calculateCourierEnvelopeOverhead x ciphertextSize senderPubkeySize =
     (intermediateReplicasSize + DEKSize x + DEKSize x + replyIndexSize + epochSize + senderPubkeyLenSize +
      ciphertextLenFieldSize) + senderPubkeySize"

definition calculateCourierQueryWrapperOverhead :: "nat \<Rightarrow> nat" where
  "calculateCourierQueryWrapperOverhead envelopeSize = queryTypeSize"

section \<open>Envelope sizes\<close>

text \<open>\<open>None\<close> is the panic of \<open>NIKEScheme\<close> on a name that the registry \<open>nikeByName\<close> does not know.\<close>

definition NIKEScheme :: "(string \<Rightarrow> 'n option) \<Rightarrow> PGeometry \<Rightarrow> 'n option" where
  "NIKEScheme nikeByName g = nikeByName (pg_NIKEName g)"

definition PaddedPayloadLength :: "PGeometry \<Rightarrow> nat" where
  "PaddedPayloadLength g = MaxPlaintextPayloadLength g + lengthPrefixSize"

definition CalculateBoxCiphertextLength :: "PGeometry \<Rightarrow> nat" where
  "CalculateBoxCiphertextLength g = MaxPlaintextPayloadLength g + lengthPrefixSize + bacapEncryptionOverhead"

definition calculateCourierQueryReadLength ::
  "ext_sizes \<Rightarrow> (string \<Rightarrow> ('sk, 'pk) nike_scheme option) \<Rightarrow> PGeometry \<Rightarrow> nat option" where
  "calculateCourierQueryReadLength x nikeByName g =
     Option.bind (NIKEScheme nikeByName g) (\<lambda>nikeScheme.
       let replicaReadSize = BoxIDSize x;
           replicaInnerMessageSize = messageTypeSize + replicaReadSize;
           mkemCiphertextSize = replicaInnerMessageSize + mkemEncryptionOverhead x;
           courierEnvelopeSize =
             calculateCourierEnvelopeOverhead x mkemCiphertextSize (nike_PublicKeySize nikeScheme) + mkemCiphertextSize
       in Some (courierEnvelopeSize + calculateCourierQueryWrapperOverhead courierEnvelopeSize))"

definition calculateCourierQueryWriteLength ::
  "ext_sizes \<Rightarrow> (string \<Rightarrow> ('sk, 'pk) nike_scheme option) \<Rightarrow> PGeometry \<Rightarrow> nat option" where
  "calculateCourierQueryWriteLength x nikeByName g =
     Option.bind (NIKEScheme nikeByName g) (\<lambda>nikeScheme.
       let bacapPayloadSize = MaxPlaintextPayloadLength g + lengthPrefixSize + bacapEncryptionOverhead;
           replicaWriteSize = replicaWriteFixedOverhead x + bacapPayloadSize;
           replicaInnerMessageSize = messageTypeSize + replicaWriteSize;
           mkemCiphertextSize = replicaInnerMessageSize + mkemEncryptionOverhead x;
           courierEnvelopeSize =
             calculateCourierEnvelopeOverhead x mkemCiphertextSize (nike_PublicKeySize nikeScheme) + mkemCiphertextSize
       in Some (courierEnvelopeSize + calculateCourierQueryWrapperOverhead courierEnvelopeSize))"

definition calculateCourierQueryReplyReadLength :: "ext_sizes \<Rightarrow> PGeometry \<Rightarrow> nat" where
  "calculateCourierQueryReplyReadLength x g =
     (let replicaReadReplyFixedSize = BoxIDSize x + successFieldSize + payloadLenFieldSize + SignatureSize x;
          replicaReadReplySize = replicaReadReplyFixedSize + MaxPlaintextPayloadLength g;
          replicaMessageReplySize = messageTypeSize + replicaReadReplySize;
          mkemCiphertextSize = replicaMessageReplySize + mkemEncryptionOverhead x;
          courierEnvelopeReplyFixedSize = successFieldSize + timestampFieldSize + ciphertextLenFieldSize;
          courierEnvelopeReplySize = courierEnvelopeReplyFixedSize + mkemCiphertextSize
      in errorLenFieldSize + courierEnvelopeReplySize)"

definition calculateCourierQueryReplyWriteLength :: "ext_sizes \<Rightarrow> PGeometry \<Rightarrow> nat" where
  "calculateCourierQueryReplyWriteLength x g =
     (let replicaWriteReplySize = writeReplyLenFieldSize + minimalOkReplySize;
          replicaMessageReplySize = messageTypeSize + replicaWriteReplySize;
          mkemCiphertextSize = replicaMessageReplySize + mkemEncryptionOverhead x;
          courierEnvelopeReplyFixedSize = successFieldSize + timestampFieldSize + ciphertextLenFieldSize;
          courierEnvelopeReplySize = courierEnvelopeReplyFixedSize + mkemCiphertextSize
      in errorLenFieldSize + courierEnvelopeReplySize)"

definition ReplicaInnerMessageWriteSize :: "ext_sizes \<Rightarrow> PGeometry \<Rightarrow> nat" where
  "ReplicaInnerMessageWriteSize x g =
     messageTypeSize + (replicaWriteFixedOverhead x + CalculateBoxCiphertextLength g)"

definition ReplicaReplyInnerMessageReadSize :: "ext_sizes \<Rightarrow> PGeometry \<Rightarrow> nat" where
  "ReplicaReplyInnerMessageReadSize x g =
     messageTypeSize +
     (errorCodeFieldSize + BoxIDSize x + SignatureSize x + payloadLenFieldSize + CalculateBoxCiphertextLength g)"

definition CalculateCourierEnvelopeCiphertextSizeRead :: "ext_sizes \<Rightarrow> nat" where
  "CalculateCourierEnvelopeCiphertextSizeRead x = messageTypeSize + BoxIDSize x + mkemEncryptionOverhead x"

definition CalculateCourierEnvelopeCiphertextSizeWrite :: "ext_sizes \<Rightarrow> PGeometry \<Rightarrow> nat" where
  "CalculateCourierEnvelopeCiphertextSizeWrite x g =
     (let replicaWriteSize = replicaWriteFixedOverhead x + CalculateBoxCiphertextLength g;
          replicaInnerMessageSize = messageTypeSize + replicaWriteSize
      in replicaInnerMessageSize + mkemEncryptionOverhead x)"

definition CalculateEnvelopeReplySizeRead :: "ext_sizes \<Rightarrow> PGeometry \<Rightarrow> nat" where
  "CalculateEnvelopeReplySizeRead x g =
     (let replicaReadReplySize = errorCodeFieldSize + BoxIDSize x + SignatureSize x + payloadLenFieldSize +
            CalculateBoxCiphertextLength g;
          replicaMessageReplyInnerSize = messageTypeSize + replicaReadReplySize
      in replicaMessageReplyInnerSize + (NonceSize x + Overhead x))"

definition CalculateEnvelopeReplySizeWrite :: "ext_sizes \<Rightarrow> nat" where
  "CalculateEnvelopeReplySizeWrite x = messageTypeSize + errorCodeFieldSize + (NonceSize x + Overhead x)"

section \<open>Deriving geometries\<close>

definition NewGeometry ::
  "ext_sizes \<Rightarrow> (string \<Rightarrow> ('sk, 'pk) nike_scheme option) \<Rightarrow> nat \<Rightarrow> ('sk, 'pk) nike_scheme \<Rightarrow> PGeometry option" where
  "NewGeometry x nikeByName boxPayloadLength nikeScheme =
     (let g0 = \<lparr>MaxPlaintextPayloadLength = boxPayloadLength, CourierQueryReadLength = 0, CourierQueryWriteLength = 0,
               CourierQueryReplyReadLength = 0, CourierQueryReplyWriteLength = 0,
               pg_NIKEName = nike_Name nikeScheme, SignatureSchemeName = signatureSchemeName\<rparr>
      in Option.bind (calculateCourierQueryReadLength x nikeByName g0) (\<lambda>rd.
         Option.bind (calculateCourierQueryWriteLength x nikeByName g0) (\<lambda>wr.
         Some (g0\<lparr>CourierQueryReadLength := rd, CourierQueryWriteLength := wr,
                  CourierQueryReplyReadLength := calculateCourierQueryReplyReadLength x g0,
                  CourierQueryReplyWriteLength := calculateCourierQueryReplyWriteLength x g0\<rparr>))))"

definition NewGeometryFromSphinx ::
  "ext_sizes \<Rightarrow> (string \<Rightarrow> ('sk, 'pk) nike_scheme option) \<Rightarrow> Geometry \<Rightarrow> ('sk, 'pk) nike_scheme
     \<Rightarrow> (pgeo_error, PGeometry) outcome" where
  "NewGeometryFromSphinx x nikeByName sphinxGeo nikeScheme =
     (let targetSize = UserForwardPayloadLength sphinxGeo;
          totalOverhead = queryTypeSize + calculateCourierEnvelopeOverhead x 0 (nike_PublicKeySize nikeScheme) +
            mkemEncryptionOverhead x + messageTypeSize + replicaWriteFixedOverhead x + bacapEncryptionOverhead +
            lengthPrefixSize
      in if targetSize \<le> totalOverhead then Err (PGeoTooSmall targetSize totalOverhead)
         else of_option (NewGeometry x nikeByName (targetSize - totalOverhead) nikeScheme))"

definition maxInt :: "nat list \<Rightarrow> nat" where
  "maxInt values = (case values of [] \<Rightarrow> 0 | v # vs \<Rightarrow> foldl (\<lambda>m v. if v > m then v else m) v vs)"

definition ToSphinxGeometry ::
  "(string \<Rightarrow> ('sk, 'pk) nike_scheme option) \<Rightarrow> PGeometry \<Rightarrow> nat \<Rightarrow> bool \<Rightarrow> ('e, Geometry) outcome" where
  "ToSphinxGeometry nikeByName g nrHops withSURB =
     obind (of_option (NIKEScheme nikeByName g)) (\<lambda>nikeScheme.
       GeometryFromUserForwardPayloadLength nikeScheme
         (maxInt [CourierQueryReadLength g, CourierQueryWriteLength g, CourierQueryReplyReadLength g,
                  CourierQueryReplyWriteLength g]) withSURB nrHops)"

definition pg_Validate ::
  "(string \<Rightarrow> ('sk, 'pk) nike_scheme option) \<Rightarrow> PGeometry option \<Rightarrow> (pgeo_error, unit) outcome" where
  "pg_Validate nikeByName og =
     (case og of
        None \<Rightarrow> Err PGeoNil
      | Some g \<Rightarrow>
          if MaxPlaintextPayloadLength g = 0 then Err PGeoPayloadNotPositive
          else if pg_NIKEName g = [] then Err PGeoNoNIKEName
          else obind (of_option (NIKEScheme nikeByName g)) (\<lambda>_.
               if SignatureSchemeName g \<noteq> signatureSchemeName then Err PGeoSignatureScheme else Ok ()))"

section \<open>Padded payloads (src/pigeonhole/helpers.go)\<close>

datatype pad_error = PadTooLarge | PadTooShort | PadInvalidLength

definition CreatePaddedPayload :: "bytes \<Rightarrow> nat \<Rightarrow> (pad_error, bytes) outcome" where
  "CreatePaddedPayload message targetSize =
     (if length message + lengthPrefixSize > targetSize then Err PadTooLarge
      else Ok (PutUint32 (of_nat (length message)) @ message @ zeros (targetSize - 4 - length message)))"

text \<open>The end of the slice, \<open>4 + messageLength\<close>, is computed in 32 bits.\<close>

definition ExtractMessageFromPaddedPayload :: "bytes \<Rightarrow> (pad_error, bytes) outcome" where
  "ExtractMessageFromPaddedPayload paddedPayload =
     (if length paddedPayload < lengthPrefixSize then Err PadTooShort
      else
        let messageLength = Uint32 (take 4 paddedPayload)
        in if unat messageLength > length paddedPayload - lengthPrefixSize then Err PadInvalidLength
           else obind (slice paddedPayload 4 (unat (4 + messageLength))) (\<lambda>src.
                Ok (go_copy (zeros (unat messageLength)) src)))"

section \<open>Lemmas\<close>

lemmas pgeo_defs =
  calculateCourierQueryReadLength_def calculateCourierQueryWriteLength_def calculateCourierQueryReplyReadLength_def
  calculateCourierQueryReplyWriteLength_def calculateCourierEnvelopeOverhead_def
  calculateCourierQueryWrapperOverhead_def replicaWriteFixedOverhead_def mkemEncryptionOverhead_def NIKEScheme_def Let_def

text \<open>The envelope sizes in closed form.\<close>

lemma NewGeometry_eq:
  assumes "nikeByName (nike_Name N) = Some N"
  shows "NewGeometry x nikeByName n N =
     Some \<lparr>MaxPlaintextPayloadLength = n,
           CourierQueryReadLength = 19 + 2 * DEKSize x + nike_PublicKeySize N + BoxIDSize x + NonceSize x + Overhead x,
           CourierQueryWriteLength = n + 43 + 2 * DEKSize x + nike_PublicKeySize N + BoxIDSize x + SignatureSize x + NonceSize x + Overhead x,
           CourierQueryReplyReadLength = n + 21 + BoxIDSize x + SignatureSize x + NonceSize x + Overhead x,
           CourierQueryReplyWriteLength = 22 + NonceSize x + Overhead x,
           pg_NIKEName = nike_Name N, SignatureSchemeName = signatureSchemeName\<rparr>"
  using assms by (simp add: NewGeometry_def pgeo_defs)

lemma NewGeometryFromSphinx_eq:
  "NewGeometryFromSphinx x nikeByName sg N =
     (let t = 43 + 2 * DEKSize x + nike_PublicKeySize N + BoxIDSize x + SignatureSize x + NonceSize x + Overhead x
      in if UserForwardPayloadLength sg \<le> t then Err (PGeoTooSmall (UserForwardPayloadLength sg) t)
         else of_option (NewGeometry x nikeByName (UserForwardPayloadLength sg - t) N))"
  by (simp add: NewGeometryFromSphinx_def pgeo_defs ac_simps)

lemma maxInt_4: "maxInt [a, b, c, d] = max (max a b) (max c d)"
  by (auto simp: maxInt_def max_def)

section \<open>Properties\<close>

text \<open>Concrete sizes to apply the theorems at.\<close>

definition example_sizes :: ext_sizes where
  "example_sizes = \<lparr>BoxIDSize = 32, SignatureSize = 64, DEKSize = 60, NonceSize = 12, Overhead = 16\<rparr>"

text \<open>
  C7. A Pigeonhole geometry derived from a Sphinx geometry uses the user payload exactly: a write query
  fills it to the last byte, and a read query, a write reply and a read reply whose envelope has the full
  size of \<open>CalculateEnvelopeReplySizeRead\<close> all fit. Going from a Pigeonhole geometry to a Sphinx geometry that
  accommodates it and back gives the same Pigeonhole geometry.
\<close>

theorem NewGeometryFromSphinx_exact:
  assumes "nikeByName (nike_Name N) = Some N"
  shows "(NewGeometryFromSphinx x nikeByName sg N = Ok g \<longrightarrow>
     CourierQueryWriteLength g = UserForwardPayloadLength sg \<and>
     CourierQueryReadLength g \<le> UserForwardPayloadLength sg \<and>
     CourierQueryReplyWriteLength g \<le> UserForwardPayloadLength sg \<and>
     errorLenFieldSize + (successFieldSize + timestampFieldSize + ciphertextLenFieldSize) +
       CalculateEnvelopeReplySizeRead x g \<le> UserForwardPayloadLength sg \<and>
     0 < MaxPlaintextPayloadLength g) \<and>
     (0 < n \<and> NewGeometry x nikeByName n N = Some g \<and>
       ToSphinxGeometry nikeByName g nrHops withSURB = (Ok sg :: (pgeo_error, Geometry) outcome) \<longrightarrow>
       NewGeometryFromSphinx x nikeByName sg N = Ok g)"
proof
  show "NewGeometryFromSphinx x nikeByName sg N = Ok g \<longrightarrow>
     CourierQueryWriteLength g = UserForwardPayloadLength sg \<and>
     CourierQueryReadLength g \<le> UserForwardPayloadLength sg \<and>
     CourierQueryReplyWriteLength g \<le> UserForwardPayloadLength sg \<and>
     errorLenFieldSize + (successFieldSize + timestampFieldSize + ciphertextLenFieldSize) +
       CalculateEnvelopeReplySizeRead x g \<le> UserForwardPayloadLength sg \<and>
     0 < MaxPlaintextPayloadLength g"
    using assms
    by (auto simp: NewGeometryFromSphinx_eq Let_def NewGeometry_eq CalculateEnvelopeReplySizeRead_def
        CalculateBoxCiphertextLength_def split: if_splits)
  show "0 < n \<and> NewGeometry x nikeByName n N = Some g \<and>
       ToSphinxGeometry nikeByName g nrHops withSURB = (Ok sg :: (pgeo_error, Geometry) outcome) \<longrightarrow>
       NewGeometryFromSphinx x nikeByName sg N = Ok g"
    using assms by (auto simp: NewGeometry_eq ToSphinxGeometry_def NIKEScheme_def nike_geometry maxInt_4
        NewGeometryFromSphinx_eq Let_def)
qed

theorem NewGeometryFromSphinx_exact_witness:
  "\<exists>g sg. NewGeometry example_sizes (\<lambda>_. Some toy_nike) 1000 toy_nike = Some g \<and>
     ToSphinxGeometry (\<lambda>_. Some toy_nike) g 5 True = (Ok sg :: (pgeo_error, Geometry) outcome) \<and>
     NewGeometryFromSphinx example_sizes (\<lambda>_. Some toy_nike) sg toy_nike = Ok g \<and>
     CourierQueryWriteLength g = UserForwardPayloadLength sg"
proof -
  obtain g where g: "NewGeometry example_sizes (\<lambda>_. Some toy_nike) 1000 toy_nike = Some g" by (simp add: NewGeometry_eq)
  obtain sg where sg: "ToSphinxGeometry (\<lambda>_. Some toy_nike) g 5 True = (Ok sg :: (pgeo_error, Geometry) outcome)"
    by (simp add: ToSphinxGeometry_def NIKEScheme_def nike_geometry)
  have "(\<lambda>_. Some toy_nike) (nike_Name toy_nike) = Some toy_nike" by simp
  from NewGeometryFromSphinx_exact [OF this, of example_sizes sg g 1000 5 True] g sg show ?thesis by auto
qed

text \<open>
  \<open>CourierQueryReplyReadLength\<close> leaves out the length prefix and the BACAP overhead of the payload: it
  is 20 bytes less than the two length fields, the envelope reply header and the envelope reply of a read
  that \<open>CalculateEnvelopeReplySizeRead\<close> computes.
\<close>

lemma reply_read_length_short:
  assumes "nikeByName (nike_Name N) = Some N" and "NewGeometry x nikeByName n N = Some g"
  shows "CourierQueryReplyReadLength g + 20 =
     errorLenFieldSize + (successFieldSize + timestampFieldSize + ciphertextLenFieldSize) + CalculateEnvelopeReplySizeRead x g"
  using assms by (auto simp: NewGeometry_eq CalculateEnvelopeReplySizeRead_def CalculateBoxCiphertextLength_def)

theorem reply_read_length_short_witness:
  "\<exists>g. NewGeometry example_sizes (\<lambda>_. Some toy_nike) 1000 toy_nike = Some g \<and>
     CourierQueryReplyReadLength g + 20 =
     errorLenFieldSize + (successFieldSize + timestampFieldSize + ciphertextLenFieldSize) +
     CalculateEnvelopeReplySizeRead example_sizes g"
proof -
  obtain g where g: "NewGeometry example_sizes (\<lambda>_. Some toy_nike) 1000 toy_nike = Some g" by (simp add: NewGeometry_eq)
  from reply_read_length_short [OF _ g] g show ?thesis by auto
qed

lemma padded_payload_extract:
  assumes "length message + 4 \<le> targetSize" and "targetSize < 2 ^ 32"
  shows "\<exists>b. CreatePaddedPayload message targetSize = Ok b \<and> length b = targetSize \<and>
     ExtractMessageFromPaddedPayload b = Ok message"
proof -
  let ?w = "of_nat (length message) :: 32 word"
  have u: "unat ?w = length message" using assms by (simp add: unat_of_nat)
  have "4 + ?w = of_nat (4 + length message)" by simp
  then have e: "unat (4 + ?w) = 4 + length message" using assms by (simp only: unat_of_nat) simp
  have "ExtractMessageFromPaddedPayload (PutUint32 ?w @ message @ zeros (targetSize - 4 - length message)) = Ok message"
    using u e assms by (simp add: ExtractMessageFromPaddedPayload_def Let_def slice_def go_copy_same_length)
  then show ?thesis using assms by (simp add: CreatePaddedPayload_def)
qed

text \<open>
  A padded payload has the target size, and extraction gives the message back.
\<close>

lemma padded_payload_round_trip:
  assumes "length message + 4 \<le> targetSize" and "targetSize < 2 ^ 32"
  shows "\<exists>b. CreatePaddedPayload message targetSize = Ok b \<and> length b = targetSize \<and>
     ExtractMessageFromPaddedPayload b = Ok message"
  using assms by (rule padded_payload_extract)

theorem padded_payload_round_trip_witness:
  "\<exists>b. CreatePaddedPayload [1, 2, 3] 10 = Ok b \<and> length b = 10 \<and> ExtractMessageFromPaddedPayload b = Ok [1, 2, 3]"
  using padded_payload_round_trip [of "[1, 2, 3]" 10] by simp

end
