(* ===== verification/Copy_Stream.thy ===== *)
theory Copy_Stream
  imports Pigeonhole_Messages Pigeonhole_Geo "HOL-Library.Sublist"
begin

text \<open>
  \<open>src/pigeonhole/copy_stream.go\<close>: the stream of courier envelopes that a client writes into the boxes of
  a temporary channel and that the courier reads back box by box when it executes a copy command.
  The encoder prefixes every envelope with its length, cuts the result into chunks that fit a box and
  wraps each chunk in a \<open>CopyStreamElement\<close>; the decoder undoes both layers incrementally.
  The loops of the encoder may not end (a chunk size of 0) or panic (a negative one), so they are
  partial functions over outcomes; the loops of the decoder consume input and always end.
\<close>

datatype copy_error =
    EnvelopeNil
  | EnvelopeMarshal trunnel_error
  | ElementTooBig nat nat
  | ElementParse trunnel_error
  | EnvelopeTooBig nat nat
  | EnvelopeParse trunnel_error
  | EnvelopeTrailing nat

definition CopyStreamFlagStart :: byte where "CopyStreamFlagStart = 1"
definition CopyStreamFlagFinal :: byte where "CopyStreamFlagFinal = 2"
definition CopyStreamElementOverhead :: nat where "CopyStreamElementOverhead = 5"

lemmas copy_consts [simp] = CopyStreamFlagStart_def CopyStreamFlagFinal_def CopyStreamElementOverhead_def

definition IsStart :: "CopyStreamElement \<Rightarrow> bool" where
  "IsStart elem \<longleftrightarrow> cse_Flags elem AND CopyStreamFlagStart \<noteq> 0"

definition IsFinal :: "CopyStreamElement \<Rightarrow> bool" where
  "IsFinal elem \<longleftrightarrow> cse_Flags elem AND CopyStreamFlagFinal \<noteq> 0"

section \<open>The encoder\<close>

record CopyStreamEncoder =
  en_buffer :: bytes
  en_maxChunkSize :: int
  en_isFirstChunk :: bool

definition NewCopyStreamEncoder :: "PGeometry \<Rightarrow> CopyStreamEncoder" where
  "NewCopyStreamEncoder geometry =
     \<lparr>en_buffer = [],
      en_maxChunkSize = int (MaxPlaintextPayloadLength geometry) - int CopyStreamElementOverhead,
      en_isFirstChunk = True\<rparr>"

definition SuppressStart :: "CopyStreamEncoder \<Rightarrow> CopyStreamEncoder" where
  "SuppressStart e = e\<lparr>en_isFirstChunk := False\<rparr>"

text \<open>
  The element that carries a chunk: the flag for the first chunk of the stream, the one for the last,
  and the length as the code truncates it to 32 bits.
\<close>

definition chunk_element :: "bool \<Rightarrow> bool \<Rightarrow> bytes \<Rightarrow> CopyStreamElement" where
  "chunk_element isFirst isFinal chunkData =
     (let flags = (if isFirst then 0 OR CopyStreamFlagStart else 0);
          flags = (if isFinal then flags OR CopyStreamFlagFinal else flags)
      in \<lparr>cse_Flags = flags, cse_EnvelopeLen = of_nat (length chunkData), cse_EnvelopeData = chunkData\<rparr>)"

text \<open>
  The loop of \<open>extractElements\<close>, which \<open>Flush\<close> repeats verbatim. \<open>None\<close> is a loop that does not end. An
  element that cannot be marshalled is dropped.
\<close>

partial_function (option) extractElements ::
  "CopyStreamEncoder \<Rightarrow> bytes list \<Rightarrow> (copy_error, CopyStreamEncoder \<times> bytes list) outcome option" where
  "extractElements e elements =
     (if int (length (en_buffer e)) > en_maxChunkSize e then
        if en_maxChunkSize e < 0 then Some Panic
        else
          let n = nat (en_maxChunkSize e);
              chunkData = take n (en_buffer e);
              e' = e\<lparr>en_buffer := drop n (en_buffer e), en_isFirstChunk := False\<rparr>
          in case CopyStreamElement_MarshalBinary (chunk_element (en_isFirstChunk e) False chunkData) of
               Ok elemBytes \<Rightarrow> extractElements e' (elements @ [elemBytes])
             | Err _ \<Rightarrow> extractElements e' elements
             | Panic \<Rightarrow> Some Panic
      else Some (Ok (e, elements)))"

definition AddEnvelope ::
  "CopyStreamEncoder \<Rightarrow> CourierEnvelope option \<Rightarrow> (copy_error, CopyStreamEncoder \<times> bytes list) outcome option" where
  "AddEnvelope e envelope =
     (case envelope of
        None \<Rightarrow> Some (Err EnvelopeNil)
      | Some env \<Rightarrow>
          (case CourierEnvelope_MarshalBinary env of
             Err err \<Rightarrow> Some (Err (EnvelopeMarshal err))
           | Panic \<Rightarrow> Some Panic
           | Ok envelopeBytes \<Rightarrow>
               let lengthPrefix = PutUint32 (of_nat (length envelopeBytes))
               in extractElements (e\<lparr>en_buffer := (en_buffer e @ lengthPrefix) @ envelopeBytes\<rparr>) []))"

definition Flush ::
  "CopyStreamEncoder \<Rightarrow> (copy_error, CopyStreamEncoder \<times> bytes list) outcome option" where
  "Flush e =
     (if en_buffer e = [] then Some (Ok (e, []))
      else
        (case extractElements e [] of
           None \<Rightarrow> None
         | Some r \<Rightarrow> Some (obind r (\<lambda>(e, elements).
             let chunkData = en_buffer e;
                 e' = e\<lparr>en_buffer := [], en_isFirstChunk := False\<rparr>
             in case CopyStreamElement_MarshalBinary (chunk_element (en_isFirstChunk e) True chunkData) of
                  Ok elemBytes \<Rightarrow> Ok (e', elements @ [elemBytes])
                | Err _ \<Rightarrow> Ok (e', elements)
                | Panic \<Rightarrow> Panic))))"

partial_function (option) flush_loop ::
  "CopyStreamEncoder \<Rightarrow> bytes list \<Rightarrow> (copy_error, CopyStreamEncoder \<times> bytes list) outcome option" where
  "flush_loop e elements =
     (if en_buffer e \<noteq> [] then
        let chunkSize = min (en_maxChunkSize e) (int (length (en_buffer e)))
        in if chunkSize < 0 then Some Panic
           else
             let chunkData = take (nat chunkSize) (en_buffer e);
                 e' = e\<lparr>en_buffer := drop (nat chunkSize) (en_buffer e), en_isFirstChunk := False\<rparr>
             in case CopyStreamElement_MarshalBinary (chunk_element (en_isFirstChunk e) False chunkData) of
                  Ok elemBytes \<Rightarrow> flush_loop e' (elements @ [elemBytes])
                | Err _ \<Rightarrow> flush_loop e' elements
                | Panic \<Rightarrow> Some Panic
      else Some (Ok (e, elements)))"

definition FlushWithoutFinal ::
  "CopyStreamEncoder \<Rightarrow> (copy_error, CopyStreamEncoder \<times> bytes list) outcome option" where
  "FlushWithoutFinal e = (if en_buffer e = [] then Some (Ok (e, [])) else flush_loop e [])"

definition GetBuffer :: "CopyStreamEncoder \<Rightarrow> bytes" where
  "GetBuffer e = en_buffer e"

definition SetBuffer :: "CopyStreamEncoder \<Rightarrow> bytes option \<Rightarrow> CopyStreamEncoder" where
  "SetBuffer e state = (case state of None \<Rightarrow> e | Some b \<Rightarrow> e\<lparr>en_buffer := b\<rparr>)"

section \<open>The decoder\<close>

record CopyStreamDecoder =
  de_buffer :: bytes
  de_maxElementSize :: nat

definition NewCopyStreamDecoder :: "PGeometry \<Rightarrow> CopyStreamDecoder" where
  "NewCopyStreamDecoder geometry =
     \<lparr>de_buffer = [], de_maxElementSize = MaxPlaintextPayloadLength geometry\<rparr>"

definition AddData :: "CopyStreamDecoder \<Rightarrow> bytes \<Rightarrow> CopyStreamDecoder" where
  "AddData d data = d\<lparr>de_buffer := de_buffer d @ data\<rparr>"

definition DecodeAvailable ::
  "CopyStreamDecoder \<Rightarrow> (copy_error, CopyStreamElement option \<times> CopyStreamDecoder) outcome" where
  "DecodeAvailable d =
     (if length (de_buffer d) < CopyStreamElementOverhead then Ok (None, d)
      else obind (slice (de_buffer d) 1 5) (\<lambda>lenBytes.
        let totalSize = CopyStreamElementOverhead + unat (Uint32 lenBytes)
        in if de_maxElementSize d > 0 \<and> totalSize > de_maxElementSize d
           then Err (ElementTooBig totalSize (de_maxElementSize d))
           else (case CopyStreamElement_Parse (de_buffer d) of
                   Err err \<Rightarrow> if err = DataTooShort then Ok (None, d) else Err (ElementParse err)
                 | Panic \<Rightarrow> Panic
                 | Ok (elem, remaining) \<Rightarrow> Ok (Some elem, d\<lparr>de_buffer := remaining\<rparr>))))"

definition dec_Remaining :: "CopyStreamDecoder \<Rightarrow> nat" where
  "dec_Remaining d = length (de_buffer d)"

record CopyStreamEnvelopeDecoder =
  ed_elementDecoder :: CopyStreamDecoder
  ed_envelopeBuffer :: bytes
  ed_sawFinal :: bool
  ed_maxEnvelopeSize :: nat

definition NewCopyStreamEnvelopeDecoder :: "PGeometry \<Rightarrow> CopyStreamEnvelopeDecoder" where
  "NewCopyStreamEnvelopeDecoder geometry =
     \<lparr>ed_elementDecoder = NewCopyStreamDecoder geometry, ed_envelopeBuffer = [], ed_sawFinal = False,
      ed_maxEnvelopeSize = CourierQueryWriteLength geometry\<rparr>"

definition AddBoxData :: "CopyStreamEnvelopeDecoder \<Rightarrow> bytes \<Rightarrow> CopyStreamEnvelopeDecoder" where
  "AddBoxData d data = d\<lparr>ed_elementDecoder := AddData (ed_elementDecoder d) data\<rparr>"

lemma DecodeAvailable_shorter:
  assumes "DecodeAvailable d = Ok (Some elem, d')"
  shows "length (de_buffer d') < length (de_buffer d)"
proof -
  from assms obtain r where p: "CopyStreamElement_Parse (de_buffer d) = Ok (elem, r)" and d': "d' = d\<lparr>de_buffer := r\<rparr>"
    by (auto simp: DecodeAvailable_def go_simps Let_def split: if_splits outcome.splits)
  from p obtain e where "CopyStreamElement_MarshalBinary elem = Ok e" and "de_buffer d = e @ r"
    unfolding cse_codec.parse_iff by blast
  with cse_codec.marshal_nonempty [of elem] d' show ?thesis by auto
qed

text \<open>The first loop of \<open>DecodeEnvelopes\<close>: every complete element, its chunk appended to the buffer.\<close>

function decode_elements ::
  "CopyStreamEnvelopeDecoder \<Rightarrow> CopyStreamEnvelopeDecoder \<times> (copy_error, unit) outcome" where
  "decode_elements d =
     (case DecodeAvailable (ed_elementDecoder d) of
        Err err \<Rightarrow> (d, Err err)
      | Panic \<Rightarrow> (d, Panic)
      | Ok (None, dec) \<Rightarrow> (d\<lparr>ed_elementDecoder := dec\<rparr>, Ok ())
      | Ok (Some elem, dec) \<Rightarrow>
          decode_elements (d\<lparr>ed_elementDecoder := dec,
            ed_envelopeBuffer := ed_envelopeBuffer d @ cse_EnvelopeData elem,
            ed_sawFinal := (if IsFinal elem then True else ed_sawFinal d)\<rparr>))"
  by pat_completeness auto
termination
  by (relation "measure (\<lambda>d. length (de_buffer (ed_elementDecoder d)))") (auto dest: DecodeAvailable_shorter)

declare decode_elements.simps [simp del]

text \<open>
  The second loop: every complete envelope of the buffer. It returns the envelopes found before an
  error together with the error.
\<close>

function decode_envelopes ::
  "CopyStreamEnvelopeDecoder \<Rightarrow> CourierEnvelope list
     \<Rightarrow> CopyStreamEnvelopeDecoder \<times> CourierEnvelope list \<times> (copy_error, unit) outcome" where
  "decode_envelopes d envelopes =
     (let buf = ed_envelopeBuffer d in
      if length buf < 4 then (d, envelopes, Ok ())
      else
        let envelopeLen = unat (Uint32 (take 4 buf)); totalSize = 4 + envelopeLen
        in if ed_maxEnvelopeSize d > 0 \<and> envelopeLen > ed_maxEnvelopeSize d
           then (d, envelopes, Err (EnvelopeTooBig envelopeLen (ed_maxEnvelopeSize d)))
           else if length buf < totalSize then (d, envelopes, Ok ())
           else (case CourierEnvelope_Parse (take envelopeLen (drop 4 buf)) of
                   Err err \<Rightarrow> (d, envelopes, Err (EnvelopeParse err))
                 | Panic \<Rightarrow> (d, envelopes, Panic)
                 | Ok (envelope, remaining) \<Rightarrow>
                     if length remaining > 0 then (d, envelopes, Err (EnvelopeTrailing (length remaining)))
                     else decode_envelopes (d\<lparr>ed_envelopeBuffer := drop totalSize buf\<rparr>) (envelopes @ [envelope])))"
  by pat_completeness auto
termination
  by (relation "measure (\<lambda>(d, _). length (ed_envelopeBuffer d))") auto

declare decode_envelopes.simps [simp del]

text \<open>The envelopes, whether the final element has been seen, and the error, as the Go function returns them.\<close>

definition DecodeEnvelopes ::
  "CopyStreamEnvelopeDecoder
     \<Rightarrow> CopyStreamEnvelopeDecoder \<times> CourierEnvelope list \<times> bool \<times> (copy_error, unit) outcome" where
  "DecodeEnvelopes d =
     (case decode_elements d of
        (d, Ok _) \<Rightarrow>
          (case decode_envelopes d [] of (d, envelopes, r) \<Rightarrow> (d, envelopes, ed_sawFinal d, r))
      | (d, r) \<Rightarrow> (d, [], ed_sawFinal d, r))"

definition Remaining :: "CopyStreamEnvelopeDecoder \<Rightarrow> nat" where
  "Remaining d = dec_Remaining (ed_elementDecoder d) + length (ed_envelopeBuffer d)"

section \<open>What the encoder writes\<close>

text \<open>
  The stream of a list of envelopes, the bytes of an element, and the elements that fit a chunk size:
  the vocabulary of the specification.
\<close>

definition frame :: "CourierEnvelope \<Rightarrow> bytes" where
  "frame env = (let b = data_of (CourierEnvelope_MarshalBinary env) in PutUint32 (of_nat (length b)) @ b)"

definition frames :: "CourierEnvelope list \<Rightarrow> bytes" where
  "frames envs = concat (map frame envs)"

definition elem_bytes :: "CopyStreamElement \<Rightarrow> bytes" where
  "elem_bytes c = data_of (CopyStreamElement_MarshalBinary c)"

definition chunk_data :: "CopyStreamElement list \<Rightarrow> bytes" where
  "chunk_data cs = concat (map cse_EnvelopeData cs)"

definition fits_chunk :: "nat \<Rightarrow> CopyStreamElement \<Rightarrow> bool" where
  "fits_chunk n c \<longleftrightarrow> length (cse_EnvelopeData c) \<le> n \<and> CopyStreamElement_MarshalBinary c = Ok (elem_bytes c)"

lemma frames_simps [simp]: "frames [] = []" "frames (e # es) = frame e @ frames es"
  "frames (es @ fs) = frames es @ frames fs"
  by (simp_all add: frames_def)

lemma chunk_data_simps [simp]: "chunk_data [] = []" "chunk_data (c # cs) = cse_EnvelopeData c @ chunk_data cs"
  "chunk_data (cs @ ds) = chunk_data cs @ chunk_data ds"
  by (simp_all add: chunk_data_def)

lemma chunk_element_simps [simp]:
  "cse_EnvelopeData (chunk_element f l data) = data"
  "IsFinal (chunk_element f l data) = l"
  "IsStart (chunk_element f l data) = f"
  by (simp_all add: chunk_element_def IsFinal_def IsStart_def Let_def)

lemma chunk_element_bytes:
  assumes "length data < 2 ^ 32"
  shows "CopyStreamElement_MarshalBinary (chunk_element f l data) =
    Ok (elem_bytes (chunk_element f l data))"
proof -
  have "unat (word_of_nat (length data) :: 32 word) = length data"
    using assms by (simp add: unat_of_nat)
  then show ?thesis
    by (simp add: elem_bytes_def CopyStreamElement_defs chunk_element_def Let_def slice_def)
qed

lemma fits_chunk_element: "length data \<le> n \<Longrightarrow> n < 2 ^ 32 \<Longrightarrow> fits_chunk n (chunk_element f l data)"
  by (simp add: fits_chunk_def chunk_element_bytes)

text \<open>A fitting element takes the overhead and its chunk, and its length field is that of the chunk.\<close>

lemma fits_chunk_length:
  assumes "fits_chunk n c"
  shows "elem_bytes c = [cse_Flags c] @ PutUint32 (cse_EnvelopeLen c) @ cse_EnvelopeData c"
    and "unat (cse_EnvelopeLen c) = length (cse_EnvelopeData c)"
    and "length (elem_bytes c) = 5 + length (cse_EnvelopeData c)"
proof -
  have m: "CopyStreamElement_MarshalBinary c = Ok (elem_bytes c)" using assms by (simp add: fits_chunk_def)
  show bytes: "elem_bytes c = [cse_Flags c] @ PutUint32 (cse_EnvelopeLen c) @ cse_EnvelopeData c"
    using m by (auto simp: CopyStreamElement_defs go_simps slice_eq_Ok)
  show "unat (cse_EnvelopeLen c) = length (cse_EnvelopeData c)"
    using m by (auto simp: CopyStreamElement_defs go_simps slice_eq_Ok)
  show "length (elem_bytes c) = 5 + length (cse_EnvelopeData c)"
    by (simp add: bytes)
qed

lemma extractElements_spec:
  assumes "en_maxChunkSize e = int n" and "0 < n" and "n < 2 ^ 32"
  shows "\<exists>cs rest. extractElements e els =
      Some (Ok (e\<lparr>en_buffer := rest, en_isFirstChunk := (en_isFirstChunk e \<and> cs = [])\<rparr>, els @ map elem_bytes cs)) \<and>
    en_buffer e = chunk_data cs @ rest \<and> length rest \<le> n \<and> (en_buffer e \<noteq> [] \<longrightarrow> rest \<noteq> []) \<and>
    (\<forall>c\<in>set cs. fits_chunk n c \<and> \<not> IsFinal c)"
  using assms
proof (induction "length (en_buffer e)" arbitrary: e els rule: less_induct)
  case less
  show ?case
  proof (cases "length (en_buffer e) \<le> n")
    case True
    then have "extractElements e els = Some (Ok (e, els))"
      using less.prems by (subst extractElements.simps) simp
    then show ?thesis using True by (intro exI [of _ "[]"] exI [of _ "en_buffer e"]) simp
  next
    case False
    define c where "c = chunk_element (en_isFirstChunk e) False (take n (en_buffer e))"
    define e' where "e' = e\<lparr>en_buffer := drop n (en_buffer e), en_isFirstChunk := False\<rparr>"
    have c: "fits_chunk n c" "\<not> IsFinal c" "cse_EnvelopeData c = take n (en_buffer e)"
      using less.prems False by (simp_all add: c_def fits_chunk_element)
    have step: "extractElements e els = extractElements e' (els @ [elem_bytes c])"
      using less.prems False c(1) unfolding fits_chunk_def c_def e'_def
      by (subst extractElements.simps) (simp add: Let_def)
    have "length (en_buffer e') < length (en_buffer e)" "en_maxChunkSize e' = int n"
      using less.prems False by (simp_all add: e'_def)
    from less.hyps [OF this less.prems(2,3), of "els @ [elem_bytes c]"]
    obtain cs rest where IH: "extractElements e' (els @ [elem_bytes c]) =
          Some (Ok (e'\<lparr>en_buffer := rest, en_isFirstChunk := (en_isFirstChunk e' \<and> cs = [])\<rparr>,
            (els @ [elem_bytes c]) @ map elem_bytes cs))"
        "en_buffer e' = chunk_data cs @ rest" "length rest \<le> n" "en_buffer e' \<noteq> [] \<longrightarrow> rest \<noteq> []"
        "\<forall>c\<in>set cs. fits_chunk n c \<and> \<not> IsFinal c"
      by blast
    have "en_buffer e = chunk_data (c # cs) @ rest"
      using IH(2) c(3) by (simp add: e'_def flip: IH(2))
    moreover have "rest \<noteq> []" using IH(4) False by (simp add: e'_def)
    ultimately show ?thesis
      using IH(1,3,5) c step
      by (intro exI [of _ "c # cs"] exI [of _ rest]) (simp add: e'_def)
  qed
qed

lemma flush_loop_spec:
  assumes "en_maxChunkSize e = int n" and "0 < n" and "n < 2 ^ 32"
  shows "\<exists>cs. flush_loop e els =
      Some (Ok (e\<lparr>en_buffer := [], en_isFirstChunk := (en_isFirstChunk e \<and> cs = [])\<rparr>, els @ map elem_bytes cs)) \<and>
    en_buffer e = chunk_data cs \<and> (\<forall>c\<in>set cs. fits_chunk n c \<and> \<not> IsFinal c)"
  using assms
proof (induction "length (en_buffer e)" arbitrary: e els rule: less_induct)
  case less
  show ?case
  proof (cases "en_buffer e = []")
    case True
    then have "flush_loop e els = Some (Ok (e, els))" by (subst flush_loop.simps) simp
    then show ?thesis using True by (intro exI [of _ "[]"]) simp
  next
    case False
    define k where "k = min n (length (en_buffer e))"
    define c where "c = chunk_element (en_isFirstChunk e) False (take k (en_buffer e))"
    define e' where "e' = e\<lparr>en_buffer := drop k (en_buffer e), en_isFirstChunk := False\<rparr>"
    have k: "min (int n) (int (length (en_buffer e))) = int k" by (simp add: k_def)
    have c: "fits_chunk n c" "\<not> IsFinal c" "cse_EnvelopeData c = take k (en_buffer e)"
      using less.prems by (simp_all add: c_def fits_chunk_element k_def)
    have step: "flush_loop e els = flush_loop e' (els @ [elem_bytes c])"
      using less.prems False c(1) k unfolding fits_chunk_def c_def e'_def
      by (subst flush_loop.simps) (simp add: Let_def)
    have "length (en_buffer e') < length (en_buffer e)" "en_maxChunkSize e' = int n"
      using less.prems False by (simp_all add: e'_def k_def)
    from less.hyps [OF this less.prems(2,3), of "els @ [elem_bytes c]"]
    obtain cs where IH: "flush_loop e' (els @ [elem_bytes c]) =
          Some (Ok (e'\<lparr>en_buffer := [], en_isFirstChunk := (en_isFirstChunk e' \<and> cs = [])\<rparr>,
            (els @ [elem_bytes c]) @ map elem_bytes cs))"
        "en_buffer e' = chunk_data cs" "\<forall>c\<in>set cs. fits_chunk n c \<and> \<not> IsFinal c"
      by blast
    have "en_buffer e = chunk_data (c # cs)"
      using IH(2) c(3) by (simp add: e'_def flip: IH(2))
    then show ?thesis
      using IH c step by (intro exI [of _ "c # cs"]) (simp add: e'_def)
  qed
qed

section \<open>Encoding sessions\<close>

text \<open>
  How the client uses an encoder (\<open>src/client/pigeonhole.go\<close>, the three \<open>createCourierEnvelopesFrom\<close>
  functions): it adds envelopes, ends a call by flushing without the final flag, and between calls
  carries the buffer over to a fresh encoder whose start flag is suppressed. The last call flushes.
\<close>

datatype enc_op = Add CourierEnvelope | EndCall | NextCall

fun enc_step ::
  "PGeometry \<Rightarrow> CopyStreamEncoder \<Rightarrow> enc_op \<Rightarrow> (copy_error, CopyStreamEncoder \<times> bytes list) outcome option" where
  "enc_step g e (Add env) = AddEnvelope e (Some env)"
| "enc_step g e EndCall = FlushWithoutFinal e"
| "enc_step g e NextCall =
     Some (Ok (SuppressStart (SetBuffer (NewCopyStreamEncoder g) (Some (GetBuffer e))), []))"

fun and_then ::
  "(copy_error, CopyStreamEncoder \<times> bytes list) outcome option
     \<Rightarrow> (CopyStreamEncoder \<Rightarrow> (copy_error, CopyStreamEncoder \<times> bytes list) outcome option)
     \<Rightarrow> (copy_error, CopyStreamEncoder \<times> bytes list) outcome option" where
  "and_then (Some (Ok (e, els))) f =
     (case f e of Some (Ok (e', els')) \<Rightarrow> Some (Ok (e', els @ els')) | r \<Rightarrow> r)"
| "and_then r f = r"

fun enc_run ::
  "PGeometry \<Rightarrow> CopyStreamEncoder \<Rightarrow> enc_op list \<Rightarrow> (copy_error, CopyStreamEncoder \<times> bytes list) outcome option" where
  "enc_run g e [] = Flush e"
| "enc_run g e (op # ops) = and_then (enc_step g e op) (\<lambda>e. enc_run g e ops)"

fun envelopes_of :: "enc_op list \<Rightarrow> CourierEnvelope list" where
  "envelopes_of [] = []"
| "envelopes_of (Add env # ops) = env # envelopes_of ops"
| "envelopes_of (_ # ops) = envelopes_of ops"

text \<open>The geometries and envelopes for which the stream format is meant.\<close>

definition stream_geometry :: "PGeometry \<Rightarrow> bool" where
  "stream_geometry g \<longleftrightarrow> 5 < MaxPlaintextPayloadLength g \<and> MaxPlaintextPayloadLength g < 2 ^ 32 \<and>
     CourierQueryWriteLength g < 2 ^ 32"

definition stream_envelope :: "PGeometry \<Rightarrow> CourierEnvelope \<Rightarrow> bool" where
  "stream_envelope g env \<longleftrightarrow>
     (case CourierEnvelope_MarshalBinary env of
        Ok b \<Rightarrow> length b \<le> CourierQueryWriteLength g | _ \<Rightarrow> False)"

text \<open>
  What a step or a session emits: elements \<open>cs\<close> whose chunks, with what is left in the buffer, are the
  old buffer and the frames of the envelopes added.
\<close>

definition emits ::
  "nat \<Rightarrow> CopyStreamEncoder \<Rightarrow> CourierEnvelope list \<Rightarrow> CopyStreamEncoder \<Rightarrow> CopyStreamElement list \<Rightarrow> bool" where
  "emits n e envs e' cs \<longleftrightarrow> en_maxChunkSize e' = int n \<and> (\<forall>c\<in>set cs. fits_chunk n c) \<and>
     en_buffer e @ frames envs = chunk_data cs @ en_buffer e'"

lemma stream_envelope_bytes:
  assumes "stream_envelope g env"
  obtains b where "CourierEnvelope_MarshalBinary env = Ok b" and "length b \<le> CourierQueryWriteLength g"
    and "frame env = PutUint32 (of_nat (length b)) @ b"
  using assms by (auto simp: stream_envelope_def frame_def split: outcome.splits)

lemma AddEnvelope_emits:
  assumes n: "en_maxChunkSize e = int n" "0 < n" "n < 2 ^ 32" and env: "stream_envelope g env"
  shows "\<exists>e' cs. AddEnvelope e (Some env) = Some (Ok (e', map elem_bytes cs)) \<and> emits n e [env] e' cs \<and>
    (\<forall>c\<in>set cs. \<not> IsFinal c) \<and> en_buffer e' \<noteq> []"
proof -
  obtain b where b: "CourierEnvelope_MarshalBinary env = Ok b" "frame env = PutUint32 (of_nat (length b)) @ b"
    using env by (rule stream_envelope_bytes)
  define e1 where "e1 = e\<lparr>en_buffer := en_buffer e @ frame env\<rparr>"
  have add: "AddEnvelope e (Some env) = extractElements e1 []"
    by (simp add: AddEnvelope_def b e1_def)
  have "en_buffer e1 \<noteq> []" by (simp add: e1_def b(2))
  moreover have "en_maxChunkSize e1 = int n" by (simp add: e1_def n)
  ultimately obtain cs rest where "extractElements e1 [] =
        Some (Ok (e1\<lparr>en_buffer := rest, en_isFirstChunk := (en_isFirstChunk e1 \<and> cs = [])\<rparr>, [] @ map elem_bytes cs))"
      "en_buffer e1 = chunk_data cs @ rest" "rest \<noteq> []" "\<forall>c\<in>set cs. fits_chunk n c \<and> \<not> IsFinal c"
    using extractElements_spec [of e1 n "[]"] n(2,3) by blast
  then show ?thesis
    using n by (intro exI [of _ "e1\<lparr>en_buffer := rest, en_isFirstChunk := (en_isFirstChunk e1 \<and> cs = [])\<rparr>"]
        exI [of _ cs]) (simp add: add emits_def e1_def)
qed

lemma FlushWithoutFinal_emits:
  assumes n: "en_maxChunkSize e = int n" "0 < n" "n < 2 ^ 32"
  shows "\<exists>e' cs. FlushWithoutFinal e = Some (Ok (e', map elem_bytes cs)) \<and> emits n e [] e' cs \<and>
    (\<forall>c\<in>set cs. \<not> IsFinal c)"
proof (cases "en_buffer e = []")
  case True
  then show ?thesis
    using n by (intro exI [of _ e] exI [of _ "[]"]) (simp add: FlushWithoutFinal_def emits_def)
next
  case False
  obtain cs where "flush_loop e [] =
        Some (Ok (e\<lparr>en_buffer := [], en_isFirstChunk := (en_isFirstChunk e \<and> cs = [])\<rparr>, [] @ map elem_bytes cs))"
      "en_buffer e = chunk_data cs" "\<forall>c\<in>set cs. fits_chunk n c \<and> \<not> IsFinal c"
    using flush_loop_spec [OF n, of "[]"] by blast
  then show ?thesis
    using n False by (intro exI [of _ "e\<lparr>en_buffer := [], en_isFirstChunk := (en_isFirstChunk e \<and> cs = [])\<rparr>"]
        exI [of _ cs]) (simp add: FlushWithoutFinal_def emits_def)
qed

lemma Flush_emits:
  assumes n: "en_maxChunkSize e = int n" "0 < n" "n < 2 ^ 32" and ne: "en_buffer e \<noteq> []"
  shows "\<exists>e' cs c. Flush e = Some (Ok (e', map elem_bytes (cs @ [c]))) \<and> emits n e [] e' (cs @ [c]) \<and>
    en_buffer e' = [] \<and> (\<forall>c\<in>set cs. \<not> IsFinal c) \<and> IsFinal c"
proof -
  obtain cs rest where ex: "extractElements e [] =
        Some (Ok (e\<lparr>en_buffer := rest, en_isFirstChunk := (en_isFirstChunk e \<and> cs = [])\<rparr>, [] @ map elem_bytes cs))"
      "en_buffer e = chunk_data cs @ rest" "length rest \<le> n" "\<forall>c\<in>set cs. fits_chunk n c \<and> \<not> IsFinal c"
    using extractElements_spec [OF n, of "[]"] by blast
  define c where "c = chunk_element (en_isFirstChunk e \<and> cs = []) True rest"
  have c: "fits_chunk n c" "IsFinal c" "cse_EnvelopeData c = rest"
    using ex(3) n(3) by (simp_all add: c_def fits_chunk_element)
  have "Flush e = Some (Ok (e\<lparr>en_buffer := [], en_isFirstChunk := False\<rparr>, map elem_bytes (cs @ [c])))"
    using ne c(1) by (simp add: Flush_def ex(1) Let_def fits_chunk_def flip: c_def)
  then show ?thesis
    using n c ex(2,4) by (intro exI [of _ "e\<lparr>en_buffer := [], en_isFirstChunk := False\<rparr>"] exI [of _ cs] exI [of _ c])
      (simp add: emits_def)
qed

text \<open>Every session of adds, calls and a last flush terminates and emits its envelopes, closed by one final element.\<close>

fun closing :: "CopyStreamEncoder \<Rightarrow> enc_op list \<Rightarrow> bool" where
  "closing e [] = (en_buffer e \<noteq> [])"
| "closing e (op # ops) = (\<exists>env. last (op # ops) = Add env)"

lemma enc_step_emits:
  assumes "n = MaxPlaintextPayloadLength g - 5" and "stream_geometry g" and "en_maxChunkSize e = int n"
    and "list_all (stream_envelope g) (envelopes_of [op])"
  shows "\<exists>e' cs. enc_step g e op = Some (Ok (e', map elem_bytes cs)) \<and> emits n e (envelopes_of [op]) e' cs \<and>
    (\<forall>c\<in>set cs. \<not> IsFinal c) \<and> ((\<exists>env. op = Add env) \<longrightarrow> en_buffer e' \<noteq> [])"
proof -
  have n: "0 < n" "n < 2 ^ 32" "int (MaxPlaintextPayloadLength g) - 5 = int n"
    using assms(1,2) by (auto simp: stream_geometry_def)
  show ?thesis
  proof (cases op)
    case (Add env)
    then show ?thesis using AddEnvelope_emits [OF assms(3) n(1,2), of g env] assms(4) by auto
  next
    case EndCall
    then show ?thesis using FlushWithoutFinal_emits [OF assms(3) n(1,2)] by simp
  next
    case NextCall
    then show ?thesis
      using n(3) by (intro exI [of _ "SuppressStart (SetBuffer (NewCopyStreamEncoder g) (Some (GetBuffer e)))"]
          exI [of _ "[]"])
        (simp add: SuppressStart_def SetBuffer_def GetBuffer_def NewCopyStreamEncoder_def emits_def)
  qed
qed

lemma emits_trans: "emits n e xs e' cs \<Longrightarrow> emits n e' ys e'' ds \<Longrightarrow> emits n e (xs @ ys) e'' (cs @ ds)"
  unfolding emits_def by (auto simp flip: append_assoc) simp

lemma envelopes_of_Cons: "envelopes_of (op # ops) = envelopes_of [op] @ envelopes_of ops"
  by (cases op) auto

lemma enc_run_emits:
  assumes "n = MaxPlaintextPayloadLength g - 5" and "stream_geometry g" and "en_maxChunkSize e = int n"
    and "list_all (stream_envelope g) (envelopes_of ops)" and "closing e ops"
  shows "\<exists>e' cs c. enc_run g e ops = Some (Ok (e', map elem_bytes (cs @ [c]))) \<and>
    emits n e (envelopes_of ops) e' (cs @ [c]) \<and> en_buffer e' = [] \<and> (\<forall>c\<in>set cs. \<not> IsFinal c) \<and> IsFinal c"
  using assms(3-5)
proof (induction ops arbitrary: e)
  case Nil
  have "0 < n" "n < 2 ^ 32" using assms(1,2) by (auto simp: stream_geometry_def)
  from Flush_emits [OF Nil.prems(1) this] Nil.prems(3) show ?case by simp
next
  case (Cons op ops)
  have "list_all (stream_envelope g) (envelopes_of [op])"
    using Cons.prems(2) envelopes_of_Cons [of op ops] by simp
  from enc_step_emits [OF assms(1,2) Cons.prems(1) this]
  obtain e1 cs1 where s: "enc_step g e op = Some (Ok (e1, map elem_bytes cs1))"
      "emits n e (envelopes_of [op]) e1 cs1" "\<forall>c\<in>set cs1. \<not> IsFinal c"
      "(\<exists>env. op = Add env) \<longrightarrow> en_buffer e1 \<noteq> []" by blast
  have e1: "en_maxChunkSize e1 = int n" using s(2) by (simp add: emits_def)
  have "closing e1 ops" using Cons.prems(3) s(4) by (cases ops) auto
  moreover have "list_all (stream_envelope g) (envelopes_of ops)"
    using Cons.prems(2) envelopes_of_Cons [of op ops] by simp
  ultimately obtain e2 cs2 c where r: "enc_run g e1 ops = Some (Ok (e2, map elem_bytes (cs2 @ [c])))"
      "emits n e1 (envelopes_of ops) e2 (cs2 @ [c])" "en_buffer e2 = []" "\<forall>c\<in>set cs2. \<not> IsFinal c" "IsFinal c"
    using Cons.IH [OF e1] by blast
  have "enc_run g e (op # ops) = Some (Ok (e2, map elem_bytes ((cs1 @ cs2) @ [c])))"
    by (simp add: s(1) r(1))
  moreover have "emits n e (envelopes_of (op # ops)) e2 ((cs1 @ cs2) @ [c])"
    unfolding envelopes_of_Cons [of op ops] append_assoc using s(2) r(2) by (rule emits_trans)
  ultimately show ?case
    using s(3) r(3-5) by (intro exI [of _ e2] exI [of _ "cs1 @ cs2"] exI [of _ c]) auto
qed

section \<open>What the decoder reads\<close>

text \<open>A cut through a concatenation: whole pieces, then a proper prefix of the next piece.\<close>

definition partial :: "bytes \<Rightarrow> bytes list \<Rightarrow> bool" where
  "partial t xss \<longleftrightarrow> t = [] \<or> (\<exists>x xss'. xss = x # xss' \<and> strict_prefix t x)"

lemma concat_cut:
  assumes "x @ y = concat xss"
  shows "\<exists>us vs t. xss = us @ vs \<and> x = concat us @ t \<and> t @ y = concat vs \<and> partial t vs"
  using assms
proof (induction xss arbitrary: x)
  case Nil
  then show ?case by (simp add: partial_def)
next
  case (Cons z zs)
  show ?case
  proof (cases "length x < length z")
    case True
    then have "strict_prefix x z"
      using Cons.prems by (auto simp: strict_prefix_def append_eq_append_conv2 prefix_def)
    then show ?thesis
      using Cons.prems by (intro exI [of _ "[]"] exI [of _ "z # zs"] exI [of _ x]) (simp add: partial_def)
  next
    case False
    then obtain x' where x': "x = z @ x'" "x' @ y = concat zs"
      using Cons.prems by (auto simp: append_eq_append_conv2)
    from Cons.IH [OF x'(2)] obtain us vs t
      where "zs = us @ vs" "x' = concat us @ t" "t @ y = concat vs" "partial t vs" by blast
    then show ?thesis
      using x'(1) by (intro exI [of _ "z # us"] exI [of _ vs] exI [of _ t]) simp
  qed
qed

lemma partial_all: "partial t xss \<Longrightarrow> t = concat xss \<Longrightarrow> [] \<notin> set xss \<Longrightarrow> xss = []"
  by (cases xss) (auto simp: partial_def strict_prefix_def prefix_def)

text \<open>A complete element is taken off the buffer; on a proper prefix of an element the decoder waits.\<close>

lemma DecodeAvailable_element:
  assumes c: "fits_chunk n c" and max: "de_maxElementSize d = n + 5" and buf: "de_buffer d = elem_bytes c @ r"
  shows "DecodeAvailable d = Ok (Some c, d\<lparr>de_buffer := r\<rparr>)"
proof -
  have "CopyStreamElement_Parse (elem_bytes c @ r) = Ok (c, r)"
    using c by (intro cse_codec.parse_marshal) (auto simp: fits_chunk_def)
  moreover have "slice (elem_bytes c @ r) (Suc 0) 5 = (Ok (PutUint32 (cse_EnvelopeLen c)) :: (copy_error, _) outcome)"
    unfolding fits_chunk_length(1) [OF c] by (simp add: slice_def)
  moreover have "5 + unat (cse_EnvelopeLen c) \<le> n + 5"
    using c fits_chunk_length(2) [OF c] by (simp add: fits_chunk_def)
  ultimately show ?thesis
    by (simp add: DecodeAvailable_def buf max fits_chunk_length(3) [OF c])
qed

lemma DecodeAvailable_waits:
  assumes c: "list_all (fits_chunk n) cs" and max: "de_maxElementSize d = n + 5"
    and t: "partial (de_buffer d) (map elem_bytes cs)"
  shows "DecodeAvailable d = Ok (None, d)"
proof (cases "length (de_buffer d) < 5")
  case False
  with t obtain c cs' where cs: "cs = c # cs'" and sp: "strict_prefix (de_buffer d) (elem_bytes c)"
    by (auto simp: partial_def)
  have fc: "fits_chunk n c" using c cs by simp
  obtain k where k: "de_buffer d = take k (elem_bytes c)" "k < length (elem_bytes c)"
    using sp by (metis append_eq_conv_conj prefix_def prefix_length_less strict_prefix_def)
  have short: "CopyStreamElement_Parse (de_buffer d) = Err DataTooShort"
    unfolding k(1) using fc k(2) by (intro cse_codec.parse_truncated [of c]) (auto simp: fits_chunk_def)
  have "slice (de_buffer d) (Suc 0) 5 = (slice (elem_bytes c) (Suc 0) 5 :: (copy_error, _) outcome)"
    using False k by (simp add: slice_def drop_take min_def)
  also have "\<dots> = Ok (PutUint32 (cse_EnvelopeLen c))"
    unfolding fits_chunk_length(1) [OF fc] by (simp add: slice_def)
  finally have sl: "slice (de_buffer d) (Suc 0) 5 = (Ok (PutUint32 (cse_EnvelopeLen c)) :: (copy_error, _) outcome)" .
  have "5 + unat (cse_EnvelopeLen c) \<le> n + 5"
    using fc fits_chunk_length(2) [OF fc] by (simp add: fits_chunk_def)
  then show ?thesis
    using False by (simp add: DecodeAvailable_def sl short max)
qed (simp add: DecodeAvailable_def)

lemma decode_elements_spec:
  assumes "list_all (fits_chunk n) (cs @ cs')" and "de_maxElementSize (ed_elementDecoder d) = n + 5"
    and "de_buffer (ed_elementDecoder d) = concat (map elem_bytes cs) @ t" and "partial t (map elem_bytes cs')"
  shows "decode_elements d =
    (d\<lparr>ed_elementDecoder := (ed_elementDecoder d)\<lparr>de_buffer := t\<rparr>,
       ed_envelopeBuffer := ed_envelopeBuffer d @ chunk_data cs,
       ed_sawFinal := (ed_sawFinal d \<or> list_ex IsFinal cs)\<rparr>, Ok ())"
  using assms
proof (induction cs arbitrary: d)
  case Nil
  have "DecodeAvailable (ed_elementDecoder d) = Ok (None, ed_elementDecoder d)"
    using Nil.prems by (intro DecodeAvailable_waits [of n cs']) simp_all
  moreover have "(ed_elementDecoder d)\<lparr>de_buffer := t\<rparr> = ed_elementDecoder d" using Nil.prems(3) by simp
  ultimately show ?case by (subst decode_elements.simps) simp
next
  case (Cons c cs)
  let ?dec = "(ed_elementDecoder d)\<lparr>de_buffer := concat (map elem_bytes cs) @ t\<rparr>"
  have "DecodeAvailable (ed_elementDecoder d) = Ok (Some c, ?dec)"
    using Cons.prems by (intro DecodeAvailable_element [of n]) simp_all
  then have "decode_elements d = decode_elements (d\<lparr>ed_elementDecoder := ?dec,
       ed_envelopeBuffer := ed_envelopeBuffer d @ cse_EnvelopeData c,
       ed_sawFinal := (if IsFinal c then True else ed_sawFinal d)\<rparr>)"
    by (subst decode_elements.simps) simp
  also have "\<dots> = (d\<lparr>ed_elementDecoder := (ed_elementDecoder d)\<lparr>de_buffer := t\<rparr>,
       ed_envelopeBuffer := ed_envelopeBuffer d @ chunk_data (c # cs),
       ed_sawFinal := (ed_sawFinal d \<or> list_ex IsFinal (c # cs))\<rparr>, Ok ())"
    using Cons.prems by (subst Cons.IH) simp_all
  finally show ?case .
qed

text \<open>The same for the layer of envelopes: their header is a length that the decoder checks and waits for.\<close>

lemma frame_header:
  assumes g: "stream_geometry g" and env: "stream_envelope g env"
  obtains b where "CourierEnvelope_MarshalBinary env = Ok b" and "length b \<le> CourierQueryWriteLength g"
    and "length (frame env) = 4 + length b" and "drop 4 (frame env) = b"
    and "unat (Uint32 (take 4 (frame env))) = length b"
proof -
  obtain b where b: "CourierEnvelope_MarshalBinary env = Ok b" "length b \<le> CourierQueryWriteLength g"
      "frame env = PutUint32 (of_nat (length b)) @ b"
    using env by (rule stream_envelope_bytes)
  have "length b < 2 ^ 32" using b(2) g by (simp add: stream_geometry_def)
  then have "unat (word_of_nat (length b) :: 32 word) = length b" by (simp add: unat_of_nat)
  then show ?thesis using b by (intro that [of b]) simp_all
qed

lemma decode_envelopes_waits:
  assumes g: "stream_geometry g" and envs: "list_all (stream_envelope g) envs"
    and max: "ed_maxEnvelopeSize d = CourierQueryWriteLength g"
    and t: "partial (ed_envelopeBuffer d) (map frame envs)"
  shows "decode_envelopes d acc = (d, acc, Ok ())"
proof (cases "length (ed_envelopeBuffer d) < 4")
  case True
  then show ?thesis by (subst decode_envelopes.simps) simp
next
  case False
  with t obtain env envs' where e: "envs = env # envs'" and sp: "strict_prefix (ed_envelopeBuffer d) (frame env)"
    by (auto simp: partial_def)
  have "stream_envelope g env" using envs e by simp
  with g obtain b where b: "length (b :: bytes) \<le> CourierQueryWriteLength g" "length (frame env) = 4 + length b"
      "unat (Uint32 (take 4 (frame env))) = length b"
    by (rule frame_header)
  have "take 4 (ed_envelopeBuffer d) = take 4 (frame env)"
    using False sp by (auto simp: strict_prefix_def prefix_def)
  then have "unat (Uint32 (take 4 (ed_envelopeBuffer d))) = length b" using b(3) by simp
  moreover have "length (ed_envelopeBuffer d) < 4 + length b"
    using prefix_length_less [OF sp] b(2) by simp
  ultimately show ?thesis
    using False b(1) max by (subst decode_envelopes.simps) (simp add: Let_def)
qed

lemma decode_envelopes_spec:
  assumes g: "stream_geometry g" and "list_all (stream_envelope g) (envs @ envs')"
    and "ed_maxEnvelopeSize d = CourierQueryWriteLength g"
    and "ed_envelopeBuffer d = frames envs @ t" and "partial t (map frame envs')"
  shows "decode_envelopes d acc = (d\<lparr>ed_envelopeBuffer := t\<rparr>, acc @ envs, Ok ())"
  using assms(2-5)
proof (induction envs arbitrary: d acc)
  case Nil
  then have "d\<lparr>ed_envelopeBuffer := t\<rparr> = d" by simp
  then show ?case using Nil decode_envelopes_waits [OF g, of envs' d acc] by simp
next
  case (Cons env envs)
  have "stream_envelope g env" using Cons.prems(1) by simp
  with g obtain b where b: "CourierEnvelope_MarshalBinary env = Ok b" "length b \<le> CourierQueryWriteLength g"
      "length (frame env) = 4 + length b" "drop 4 (frame env) = b"
      "unat (Uint32 (take 4 (frame env))) = length b"
    by (rule frame_header)
  have buf: "ed_envelopeBuffer d = frame env @ frames envs @ t" using Cons.prems(3) by simp
  have p: "CourierEnvelope_Parse b = Ok (env, [])"
    using ce_codec.parse_marshal [OF b(1) TrueI, of "[]"] by simp
  have "decode_envelopes d acc = decode_envelopes (d\<lparr>ed_envelopeBuffer := frames envs @ t\<rparr>) (acc @ [env])"
    using b(2,3) by (subst decode_envelopes.simps) (simp add: Let_def Cons.prems(2) buf b(4,5) p)
  also have "\<dots> = (d\<lparr>ed_envelopeBuffer := t\<rparr>, (acc @ [env]) @ envs, Ok ())"
    using Cons.prems by (subst Cons.IH) simp_all
  finally show ?case by simp
qed

section \<open>The round trip\<close>

text \<open>
  The courier's use of the decoder: one \<open>AddBoxData\<close> and one \<open>DecodeEnvelopes\<close> per box, until an error.
  The result has all envelopes returned so far and the final flag and error of the last call.
\<close>

fun decode_boxes ::
  "CopyStreamEnvelopeDecoder \<Rightarrow> bytes list
     \<Rightarrow> CopyStreamEnvelopeDecoder \<times> CourierEnvelope list \<times> bool \<times> (copy_error, unit) outcome" where
  "decode_boxes d [] = (d, [], ed_sawFinal d, Ok ())"
| "decode_boxes d (p # ps) =
     (case DecodeEnvelopes (AddBoxData d p) of
        (d', envs, fin, Ok _) \<Rightarrow> (case decode_boxes d' ps of (d'', envs', r) \<Rightarrow> (d'', envs @ envs', r))
      | r \<Rightarrow> r)"

text \<open>A list of elements of which exactly the last one is final, and the state of a decoder that waits for \<open>q\<close>.\<close>

definition closed_stream :: "CopyStreamElement list \<Rightarrow> bool" where
  "closed_stream cs \<longleftrightarrow> cs = [] \<or> (list_all (\<lambda>c. \<not> IsFinal c) (butlast cs) \<and> IsFinal (last cs))"

definition awaits ::
  "PGeometry \<Rightarrow> CopyStreamEnvelopeDecoder \<Rightarrow> bytes \<Rightarrow> CopyStreamElement list \<Rightarrow> CourierEnvelope list \<Rightarrow> bool" where
  "awaits g d q cs envs \<longleftrightarrow>
     de_maxElementSize (ed_elementDecoder d) = MaxPlaintextPayloadLength g \<and>
     ed_maxEnvelopeSize d = CourierQueryWriteLength g \<and>
     list_all (fits_chunk (MaxPlaintextPayloadLength g - 5)) cs \<and> list_all (stream_envelope g) envs \<and>
     de_buffer (ed_elementDecoder d) @ q = concat (map elem_bytes cs) \<and>
     partial (de_buffer (ed_elementDecoder d)) (map elem_bytes cs) \<and>
     ed_envelopeBuffer d @ chunk_data cs = frames envs \<and> partial (ed_envelopeBuffer d) (map frame envs) \<and>
     closed_stream cs \<and> (ed_sawFinal d \<longleftrightarrow> cs = [])"

lemma closed_stream_append:
  assumes "closed_stream (us @ vs)"
  shows "closed_stream vs" and "us \<noteq> [] \<Longrightarrow> list_ex IsFinal us \<longleftrightarrow> vs = []"
  using assms unfolding closed_stream_def
  by (auto simp: butlast_append list_all_iff list_ex_iff split: if_splits)

lemma split_map: "map f xs = us @ vs \<Longrightarrow> \<exists>as bs. xs = as @ bs \<and> us = map f as \<and> vs = map f bs"
  by (simp add: map_eq_append_conv)

lemma DecodeEnvelopes_awaits:
  assumes g: "stream_geometry g" and aw: "awaits g d (p @ q) cs envs"
  shows "\<exists>d' out cs' envs'. DecodeEnvelopes (AddBoxData d p) = (d', out, ed_sawFinal d', Ok ()) \<and>
    envs = out @ envs' \<and> awaits g d' q cs' envs'"
proof -
  define n where "n = MaxPlaintextPayloadLength g - 5"
  define d1 where "d1 = AddBoxData d p"
  have n5: "MaxPlaintextPayloadLength g = n + 5" using g by (simp add: n_def stream_geometry_def)
  have buf1: "de_buffer (ed_elementDecoder d1) = de_buffer (ed_elementDecoder d) @ p"
    by (simp add: d1_def AddBoxData_def AddData_def)
  have cat: "de_buffer (ed_elementDecoder d1) @ q = concat (map elem_bytes cs)"
    using aw buf1 by (simp add: awaits_def)
  then obtain us vs t where cut: "map elem_bytes cs = us @ vs" "de_buffer (ed_elementDecoder d1) = concat us @ t"
      "t @ q = concat vs" "partial t vs"
    using concat_cut by blast
  obtain cs1 cs2 where cs: "cs = cs1 @ cs2" and us: "us = map elem_bytes cs1" and vs: "vs = map elem_bytes cs2"
    using split_map [OF cut(1)] by blast
  define d2 where "d2 = d1\<lparr>ed_elementDecoder := (ed_elementDecoder d1)\<lparr>de_buffer := t\<rparr>,
       ed_envelopeBuffer := ed_envelopeBuffer d1 @ chunk_data cs1,
       ed_sawFinal := (ed_sawFinal d1 \<or> list_ex IsFinal cs1)\<rparr>"
  have fit: "list_all (fits_chunk n) (cs1 @ cs2)" using aw cs n_def by (simp add: awaits_def)
  have els: "decode_elements d1 = (d2, Ok ())"
    unfolding d2_def using fit cut(2,4) us vs aw n5
    by (intro decode_elements_spec [of n _ cs2]) (simp_all add: awaits_def d1_def AddBoxData_def AddData_def)
  have env_cat: "ed_envelopeBuffer d2 @ chunk_data cs2 = concat (map frame envs)"
    using aw cs by (simp add: awaits_def d2_def d1_def AddBoxData_def frames_def)
  then obtain fs hs u where ecut: "map frame envs = fs @ hs" "ed_envelopeBuffer d2 = concat fs @ u"
      "u @ chunk_data cs2 = concat hs" "partial u hs"
    using concat_cut by blast
  obtain envs1 envs2 where envs: "envs = envs1 @ envs2" and fs: "fs = map frame envs1" and hs: "hs = map frame envs2"
    using split_map [OF ecut(1)] by blast
  define d3 where "d3 = d2\<lparr>ed_envelopeBuffer := u\<rparr>"
  have "decode_envelopes d2 [] = (d3, [] @ envs1, Ok ())"
    unfolding d3_def using g aw envs ecut(2,4) fs hs
    by (intro decode_envelopes_spec [of g _ envs2])
      (simp_all add: awaits_def d2_def d1_def AddBoxData_def frames_def)
  then have "DecodeEnvelopes d1 = (d3, envs1, ed_sawFinal d3, Ok ())"
    by (simp add: DecodeEnvelopes_def els)
  moreover have "awaits g d3 q cs2 envs2"
  proof -
    have cl: "closed_stream (cs1 @ cs2)" and saw: "ed_sawFinal d \<longleftrightarrow> cs1 @ cs2 = []"
      using aw cs by (simp_all add: awaits_def)
    have "ed_sawFinal d3 \<longleftrightarrow> cs2 = []"
      using saw closed_stream_append(2) [OF cl]
      by (cases cs1) (auto simp: d3_def d2_def d1_def AddBoxData_def)
    then show ?thesis
      using aw cs envs cut(3,4) ecut(3,4) vs hs closed_stream_append(1) [OF cl] fit
      by (simp add: awaits_def d3_def d2_def d1_def AddBoxData_def AddData_def n_def frames_def)
  qed
  ultimately show ?thesis
    unfolding d1_def [symmetric] using envs by blast
qed

lemma decode_boxes_awaits:
  assumes g: "stream_geometry g" and "awaits g d (concat ps @ q) cs envs"
  shows "\<exists>d' out cs' envs'. decode_boxes d ps = (d', out, ed_sawFinal d', Ok ()) \<and>
    envs = out @ envs' \<and> awaits g d' q cs' envs'"
  using assms(2)
proof (induction ps arbitrary: d cs envs)
  case Nil
  then show ?case by (intro exI [of _ d] exI [of _ "[]"] exI [of _ cs] exI [of _ envs]) simp
next
  case (Cons p ps)
  then have "awaits g d (p @ (concat ps @ q)) cs envs" by simp
  from DecodeEnvelopes_awaits [OF g this]
  obtain d1 out cs1 envs1 where s: "DecodeEnvelopes (AddBoxData d p) = (d1, out, ed_sawFinal d1, Ok ())"
      "envs = out @ envs1" "awaits g d1 (concat ps @ q) cs1 envs1" by blast
  from Cons.IH [OF s(3)] obtain d2 out2 cs2 envs2 where
      r: "decode_boxes d1 ps = (d2, out2, ed_sawFinal d2, Ok ())" "envs1 = out2 @ envs2" "awaits g d2 q cs2 envs2"
    by blast
  show ?case
    using s r by (intro exI [of _ d2] exI [of _ "out @ out2"] exI [of _ cs2] exI [of _ envs2]) simp
qed

lemma frame_nonempty: "frame env \<noteq> []"
  by (simp add: frame_def Let_def)

text \<open>With nothing left to come, everything has been delivered.\<close>

lemma awaits_nothing:
  assumes "awaits g d [] cs envs"
  shows "cs = [] \<and> envs = [] \<and> Remaining d = 0"
proof -
  have fit: "list_all (fits_chunk (MaxPlaintextPayloadLength g - 5)) cs"
    and el: "de_buffer (ed_elementDecoder d) = concat (map elem_bytes cs)"
      "partial (de_buffer (ed_elementDecoder d)) (map elem_bytes cs)"
    using assms unfolding awaits_def append_Nil2 by blast+
  have "[] \<notin> set (map elem_bytes cs)"
    using fit fits_chunk_length(3) by (fastforce simp: list_all_iff)
  with partial_all [OF el(2,1)] have cs: "cs = []" by simp
  then have en: "ed_envelopeBuffer d = concat (map frame envs)" "partial (ed_envelopeBuffer d) (map frame envs)"
    using assms unfolding awaits_def frames_def cs chunk_data_simps(1) append_Nil2 by blast+
  have "[] \<notin> set (map frame envs)" using frame_nonempty by (auto dest: sym)
  with partial_all [OF en(2,1)] have "envs = []" by simp
  with cs el(1) en(1) show ?thesis by (simp add: Remaining_def dec_Remaining_def)
qed

lemma awaits_saw_final:
  assumes "awaits g d q cs envs"
  shows "ed_sawFinal d \<longleftrightarrow> q = []"
proof
  assume "ed_sawFinal d"
  then have "cs = []" using assms by (simp add: awaits_def)
  then show "q = []" using assms by (simp add: awaits_def)
next
  assume "q = []"
  with assms awaits_nothing have "cs = []" by blast
  then show "ed_sawFinal d" using assms by (simp add: awaits_def)
qed

text \<open>What an encoding session leaves for the decoder.\<close>

lemma stream_awaits:
  assumes g: "stream_geometry g" and envs: "list_all (stream_envelope g) (envelopes_of ops @ [env])"
  shows "\<exists>e els cs. enc_run g (NewCopyStreamEncoder g) (ops @ [Add env]) = Some (Ok (e, els)) \<and>
    list_all (\<lambda>el. el \<noteq> [] \<and> length el \<le> MaxPlaintextPayloadLength g) els \<and> els \<noteq> [] \<and>
    awaits g (NewCopyStreamEnvelopeDecoder g) (concat els) cs (envelopes_of ops @ [env])"
proof -
  define n where "n = MaxPlaintextPayloadLength g - 5"
  have n5: "MaxPlaintextPayloadLength g = n + 5" using g by (simp add: n_def stream_geometry_def)
  have ev: "envelopes_of (ops @ [Add env]) = envelopes_of ops @ [env]"
    by (induction ops rule: envelopes_of.induct) auto
  have "closing (NewCopyStreamEncoder g) (ops @ [Add env])" by (cases ops) auto
  moreover have "en_maxChunkSize (NewCopyStreamEncoder g) = int n"
    using n5 by (simp add: NewCopyStreamEncoder_def)
  ultimately obtain e cs c where run: "enc_run g (NewCopyStreamEncoder g) (ops @ [Add env]) =
        Some (Ok (e, map elem_bytes (cs @ [c])))"
      and em: "emits n (NewCopyStreamEncoder g) (envelopes_of ops @ [env]) e (cs @ [c])"
      and "en_buffer e = []" and nf: "\<forall>c\<in>set cs. \<not> IsFinal c" and f: "IsFinal c"
    using enc_run_emits [OF n_def g] envs unfolding ev [symmetric] by blast
  then have fit: "list_all (fits_chunk n) (cs @ [c])" and data: "chunk_data (cs @ [c]) = frames (envelopes_of ops @ [env])"
    by (simp_all add: emits_def list_all_iff NewCopyStreamEncoder_def)
  have sizes: "list_all (\<lambda>el. el \<noteq> [] \<and> length el \<le> MaxPlaintextPayloadLength g) (map elem_bytes (cs @ [c]))"
    using fit n5 fits_chunk_length(3) by (fastforce simp: list_all_iff fits_chunk_def)
  have "awaits g (NewCopyStreamEnvelopeDecoder g) (concat (map elem_bytes (cs @ [c]))) (cs @ [c]) (envelopes_of ops @ [env])"
    using fit data nf f envs n_def
    by (simp add: awaits_def NewCopyStreamEnvelopeDecoder_def NewCopyStreamDecoder_def partial_def
        closed_stream_def list_all_iff)
  with run sizes show ?thesis by blast
qed

text \<open>
  C25. Whatever a client writes as a copy stream the courier reads back, for every geometry with room for a
  chunk and every non-empty list of envelopes within its size limit. Every session of \<open>AddEnvelope\<close>,
  \<open>FlushWithoutFinal\<close> and carrying the buffer over to a fresh encoder, closed by an \<open>AddEnvelope\<close> and a
  \<open>Flush\<close>, returns: it does not loop or panic, and each element fits a box. A decoder that is fed the
  elements in pieces cut anywhere never reports an error; its final flag is set exactly when the whole
  stream has been fed; and by then it has returned exactly the envelopes, in order, and kept no byte.
\<close>

theorem copy_stream_roundtrip:
  assumes g: "stream_geometry g" and envs: "list_all (stream_envelope g) (envelopes_of ops @ [env])"
  shows "\<exists>e els. enc_run g (NewCopyStreamEncoder g) (ops @ [Add env]) = Some (Ok (e, els)) \<and>
    list_all (\<lambda>el. length el \<le> MaxPlaintextPayloadLength g) els \<and>
    (\<forall>boxes rest. concat boxes @ rest = concat els \<longrightarrow>
       (\<exists>d out later. decode_boxes (NewCopyStreamEnvelopeDecoder g) boxes = (d, out, rest = [], Ok ()) \<and>
          out @ later = envelopes_of ops @ [env] \<and> (rest = [] \<longrightarrow> later = [] \<and> Remaining d = 0)))"
proof -
  obtain e els cs where run: "enc_run g (NewCopyStreamEncoder g) (ops @ [Add env]) = Some (Ok (e, els))"
      and sizes: "list_all (\<lambda>el. el \<noteq> [] \<and> length el \<le> MaxPlaintextPayloadLength g) els"
      and aw: "awaits g (NewCopyStreamEnvelopeDecoder g) (concat els) cs (envelopes_of ops @ [env])"
    using stream_awaits [OF g envs] by blast
  have "\<exists>d out later. decode_boxes (NewCopyStreamEnvelopeDecoder g) boxes = (d, out, rest = [], Ok ()) \<and>
      out @ later = envelopes_of ops @ [env] \<and> (rest = [] \<longrightarrow> later = [] \<and> Remaining d = 0)"
    if "concat boxes @ rest = concat els" for boxes rest
  proof -
    from decode_boxes_awaits [OF g, of _ boxes rest] aw that obtain d out cs' later where
        d: "decode_boxes (NewCopyStreamEnvelopeDecoder g) boxes = (d, out, ed_sawFinal d, Ok ())"
          "envelopes_of ops @ [env] = out @ later" "awaits g d rest cs' later"
      by metis
    then show ?thesis
      using awaits_saw_final [OF d(3)] awaits_nothing
      by (intro exI [of _ d] exI [of _ out] exI [of _ later]) auto
  qed
  with run sizes show ?thesis by (auto simp: list_all_iff)
qed

definition toy_envelope :: CourierEnvelope where
  "toy_envelope = \<lparr>ce_IntermediateReplicas = [0, 1], ce_Dek1 = zeros 60, ce_Dek2 = zeros 60, ce_ReplyIndex = 0,
     ce_Epoch = 7, ce_SenderPubkeyLen = 1, ce_SenderPubkey = [5], ce_CiphertextLen = 2, ce_Ciphertext = [6, 7]\<rparr>"

definition toy_pgeometry :: PGeometry where
  "toy_pgeometry = \<lparr>MaxPlaintextPayloadLength = 100, CourierQueryReadLength = 200, CourierQueryWriteLength = 200,
     CourierQueryReplyReadLength = 200, CourierQueryReplyWriteLength = 200, pg_NIKEName = ''toy'',
     SignatureSchemeName = ''Ed25519''\<rparr>"

lemma toy_stream: "stream_geometry toy_pgeometry" "stream_envelope toy_pgeometry toy_envelope"
  by (simp_all add: stream_geometry_def stream_envelope_def toy_pgeometry_def toy_envelope_def CourierEnvelope_defs
      slice_def)

theorem copy_stream_roundtrip_witness:
  "\<exists>e els. enc_run toy_pgeometry (NewCopyStreamEncoder toy_pgeometry) [Add toy_envelope, NextCall, Add toy_envelope] =
      Some (Ok (e, els)) \<and>
    (\<exists>d. decode_boxes (NewCopyStreamEnvelopeDecoder toy_pgeometry) els =
       (d, [toy_envelope, toy_envelope], True, Ok ()) \<and> Remaining d = 0)"
proof -
  have "list_all (stream_envelope toy_pgeometry) (envelopes_of [Add toy_envelope, NextCall] @ [toy_envelope])"
    using toy_stream(2) by simp
  from copy_stream_roundtrip [OF toy_stream(1) this] obtain e els where
      r: "enc_run toy_pgeometry (NewCopyStreamEncoder toy_pgeometry) ([Add toy_envelope, NextCall] @ [Add toy_envelope]) =
          Some (Ok (e, els))"
      "\<forall>boxes rest. concat boxes @ rest = concat els \<longrightarrow>
         (\<exists>d out later. decode_boxes (NewCopyStreamEnvelopeDecoder toy_pgeometry) boxes = (d, out, rest = [], Ok ()) \<and>
            out @ later = envelopes_of [Add toy_envelope, NextCall] @ [toy_envelope] \<and>
            (rest = [] \<longrightarrow> later = [] \<and> Remaining d = 0))"
    by (elim exE conjE)
  from r(2) [rule_format, of els "[]"] obtain d where
      "decode_boxes (NewCopyStreamEnvelopeDecoder toy_pgeometry) els = (d, [toy_envelope, toy_envelope], True, Ok ())"
      "Remaining d = 0"
    by auto
  with r(1) show ?thesis by (intro exI [of _ e] exI [of _ els] exI [of _ d] conjI) simp_all
qed

end
