(* ===== verification/Replica_Sharding.thy ===== *)
theory Replica_Sharding
  imports Epoch_Time "HOL-Library.List_Lexorder" "HOL-Library.Multiset"
begin

text \<open>
  Which storage replicas hold a box and through which ones a client reaches them:
  \<open>src/replica/common\<close> (sharding, replica epochs, the replica map), the replica lookups of
  \<open>src/core/pki/document.go\<close> and the random choice of intermediate replicas in \<open>src/pigeonhole/pki.go\<close>.
  The hash (\<open>blake2b.Sum256\<close>) is a parameter, as is the stream of random words that \<open>rand.Reader\<close>
  yields (\<open>None\<close> for a read error). \<open>slices.Compare\<close> on byte slices is the lexicographic order, that of the
  library theory \<open>List_Lexorder\<close>.
\<close>

section \<open>Descriptors and documents\<close>

text \<open>A nil slice is \<open>None\<close> where the code tells it from an empty one.\<close>

record ReplicaDescriptor =
  rd_Name :: string
  rd_ReplicaID :: byte
  rd_Epoch :: "64 word"
  rd_IdentityKey :: "bytes option"
  rd_LinkKey :: "bytes option"
  rd_EnvelopeKeys :: "64 word \<rightharpoonup> bytes"
  rd_Addresses :: "(string \<times> string list) list"

record Document =
  doc_Epoch :: "64 word"
  StorageReplicas :: "ReplicaDescriptor list option"
  ConfiguredReplicaIdentityKeys :: "bytes list option"

datatype shard_error =
    NilConfiguredKeys
  | InsufficientConfigured
  | InvalidDescriptors
  | ReplicaNotFound
  | NoShardOnline
  | NilDocument
  | NilStorageReplicas
  | InsufficientReplicas
  | NoEnvelopeKey byte "64 word"
  | EmptyEnvelopeKey byte "64 word"
  | BadEnvelopeKey byte
  | EntropyError
  | MarshalError
  | IndexNotPositive

definition replicas :: "Document \<Rightarrow> ReplicaDescriptor list" where
  "replicas doc = (case StorageReplicas doc of None \<Rightarrow> [] | Some rs \<Rightarrow> rs)"

definition key_bytes :: "ReplicaDescriptor \<Rightarrow> bytes" where
  "key_bytes r = (case rd_IdentityKey r of None \<Rightarrow> [] | Some k \<Rightarrow> k)"

fun replica_by_id :: "byte \<Rightarrow> ReplicaDescriptor list \<Rightarrow> (shard_error, ReplicaDescriptor) outcome" where
  "replica_by_id i [] = Err ReplicaNotFound"
| "replica_by_id i (r # rs) = (if rd_ReplicaID r = i then Ok r else replica_by_id i rs)"

definition GetReplicaNodeByReplicaID :: "byte \<Rightarrow> Document \<Rightarrow> (shard_error, ReplicaDescriptor) outcome" where
  "GetReplicaNodeByReplicaID replicaID doc = replica_by_id replicaID (replicas doc)"

definition ReplicaNum :: "byte \<Rightarrow> Document \<Rightarrow> (shard_error, ReplicaDescriptor) outcome" where
  "ReplicaNum replicaID doc = GetReplicaNodeByReplicaID replicaID doc"

fun replica_by_hash ::
  "(bytes \<Rightarrow> bytes) \<Rightarrow> bytes \<Rightarrow> ReplicaDescriptor list \<Rightarrow> (shard_error, ReplicaDescriptor) outcome" where
  "replica_by_hash Sum256 keyhash [] = Err ReplicaNotFound"
| "replica_by_hash Sum256 keyhash (r # rs) =
     (case rd_IdentityKey r of
        None \<Rightarrow> Err InvalidDescriptors
      | Some k \<Rightarrow> if Sum256 k = keyhash then Ok r else replica_by_hash Sum256 keyhash rs)"

definition GetReplicaNodeByKeyHash ::
  "(bytes \<Rightarrow> bytes) \<Rightarrow> bytes \<Rightarrow> Document \<Rightarrow> (shard_error, ReplicaDescriptor) outcome" where
  "GetReplicaNodeByKeyHash Sum256 keyhash doc = replica_by_hash Sum256 keyhash (replicas doc)"

fun id_by_key :: "bytes \<Rightarrow> ReplicaDescriptor list \<Rightarrow> (shard_error, byte) outcome" where
  "id_by_key k [] = Err ReplicaNotFound"
| "id_by_key k (r # rs) = (if k = key_bytes r then Ok (rd_ReplicaID r) else id_by_key k rs)"

text \<open>The key is given as the result of its \<open>MarshalBinary\<close>, \<open>None\<close> for an error.\<close>

definition GetReplicaIDByIdentityKey :: "bytes option \<Rightarrow> Document \<Rightarrow> (shard_error, byte) outcome" where
  "GetReplicaIDByIdentityKey keyblob doc =
     (case keyblob of None \<Rightarrow> Err MarshalError | Some k \<Rightarrow> id_by_key k (replicas doc))"

section \<open>Shards\<close>

definition K :: nat where "K = 2"

definition maxHash :: bytes where "maxHash = replicate 32 255"

definition slices_Compare :: "bytes \<Rightarrow> bytes \<Rightarrow> int" where
  "slices_Compare a b = (if a < b then -1 else if a = b then 0 else 1)"

definition GetConfiguredReplicaKeys :: "Document \<Rightarrow> (shard_error, bytes list) outcome" where
  "GetConfiguredReplicaKeys doc =
     (case ConfiguredReplicaIdentityKeys doc of
        None \<Rightarrow> Err NilConfiguredKeys
      | Some keys \<Rightarrow> if length keys < K then Err InsufficientConfigured else Ok keys)"

text \<open>One round of the loop of \<open>Shard2\<close>, with the index computed from the bits of the comparison as in the code.\<close>

definition shard2_step ::
  "(bytes \<Rightarrow> bytes) \<Rightarrow> bytes \<Rightarrow> bytes list \<times> bytes list \<Rightarrow> bytes \<Rightarrow> bytes list \<times> bytes list" where
  "shard2_step Sum256 boxID = (\<lambda>(hashes, keys) key.
     let hash = Sum256 (key @ boxID) in
     if slices_Compare (hashes ! 1) hash = -1 then (hashes, keys)
     else
       let cmpidx = nat (drop_bit 1 (slices_Compare (hashes ! 0) hash AND 2));
           hashes' = hashes[1 - cmpidx := hashes ! 0];
           keys' = keys[1 - cmpidx := keys ! 0]
       in (hashes'[cmpidx := hash], keys'[cmpidx := key]))"

definition Shard2 :: "(bytes \<Rightarrow> bytes) \<Rightarrow> bytes \<Rightarrow> bytes list \<Rightarrow> bytes list" where
  "Shard2 Sum256 boxID serverIdKeys =
     snd (foldl (shard2_step Sum256 boxID) ([maxHash, maxHash], [[], []]) serverIdKeys)"

text \<open>
  The slower variant: sort all servers by hash and take the first two; it panics on fewer. Go's sort is
  not stable, so for servers of equal hash the order below is one of those it may produce.
\<close>

definition Shard :: "(bytes \<Rightarrow> bytes) \<Rightarrow> bytes \<Rightarrow> bytes list \<Rightarrow> (shard_error, bytes list) outcome" where
  "Shard Sum256 boxID serverIdKeys =
     (let servers = map (\<lambda>key. (key, Sum256 (key @ boxID))) serverIdKeys;
          sorted = sort_key snd servers
      in if length sorted < K then Panic else Ok (map fst (take K sorted)))"

fun online_shards ::
  "(bytes \<Rightarrow> bytes) \<Rightarrow> Document \<Rightarrow> bytes list \<Rightarrow> ReplicaDescriptor list" where
  "online_shards Sum256 doc [] = []"
| "online_shards Sum256 doc (key # keys) =
     (case GetReplicaNodeByKeyHash Sum256 (Sum256 key) doc of
        Ok desc \<Rightarrow> desc # online_shards Sum256 doc keys
      | _ \<Rightarrow> online_shards Sum256 doc keys)"

definition GetShards ::
  "(bytes \<Rightarrow> bytes) \<Rightarrow> bytes \<Rightarrow> Document \<Rightarrow> (shard_error, ReplicaDescriptor list) outcome" where
  "GetShards Sum256 boxid doc =
     obind (GetConfiguredReplicaKeys doc) (\<lambda>replicaKeys.
       let orderedKeys = Shard2 Sum256 boxid replicaKeys;
           shards = online_shards Sum256 doc orderedKeys
       in if length shards = 0 then Err NoShardOnline else Ok shards)"

text \<open>The public key as the result of its \<open>MarshalBinary\<close>; an error of it is a panic.\<close>

definition GetRemoteShards ::
  "(bytes \<Rightarrow> bytes) \<Rightarrow> bytes option \<Rightarrow> bytes \<Rightarrow> Document \<Rightarrow> (shard_error, ReplicaDescriptor list) outcome" where
  "GetRemoteShards Sum256 replicaIdPubKey boxid doc =
     obind (GetShards Sum256 boxid doc) (\<lambda>shards.
       case replicaIdPubKey of
         None \<Rightarrow> Panic
       | Some idpubkey \<Rightarrow> Ok (filter (\<lambda>desc. key_bytes desc \<noteq> idpubkey) shards))"

section \<open>The replica map\<close>

type_synonym ReplicaMap = "bytes \<rightharpoonup> ReplicaDescriptor"

definition NewReplicaMap :: ReplicaMap where
  "NewReplicaMap = Map.empty"

definition GetReplicaDescriptor :: "ReplicaMap \<Rightarrow> bytes \<Rightarrow> ReplicaDescriptor option" where
  "GetReplicaDescriptor m nodeID = m nodeID"

definition Replace :: "ReplicaMap \<Rightarrow> ReplicaMap \<Rightarrow> ReplicaMap" where
  "Replace r newMap = newMap"

definition UpdateFromPKIDoc :: "(bytes \<Rightarrow> bytes) \<Rightarrow> ReplicaMap \<Rightarrow> Document \<Rightarrow> ReplicaMap" where
  "UpdateFromPKIDoc Sum256 r doc =
     Replace r (foldl (\<lambda>m replica. m(Sum256 (key_bytes replica) \<mapsto> replica)) Map.empty (replicas doc))"

section \<open>Replica epochs\<close>

definition ReplicaEpochPeriod :: int where
  "ReplicaEpochPeriod = 7 * (24 * (60 * minute))"

text \<open>The code reads the clock three times.\<close>

definition ReplicaNow :: "int \<Rightarrow> int \<Rightarrow> int \<Rightarrow> (64 word \<times> int \<times> int) option" where
  "ReplicaNow t1 t2 t3 =
    (let fromEpoch = time_Sub t1 Epoch in
     if fromEpoch < 0 then None
     else
       let current = word_of_int (fromEpoch div ReplicaEpochPeriod) :: 64 word;
           base = Epoch + Duration_mul (sint current) ReplicaEpochPeriod
       in Some (current, time_Sub t2 base, time_Sub (base + ReplicaEpochPeriod) t3))"

definition ConvertNormalToReplicaEpoch :: "int \<Rightarrow> 64 word \<Rightarrow> 64 word" where
  "ConvertNormalToReplicaEpoch Period normalEpoch =
     (normalEpoch * word_of_int Period) div word_of_int ReplicaEpochPeriod"

section \<open>Random choice of intermediate replicas\<close>

text \<open>\<open>k\<close> counts the words read from the random stream; \<open>None\<close> is a loop that does not end.\<close>

definition reject_bound :: "nat \<Rightarrow> 64 word" where
  "reject_bound n = (0 - of_nat n) mod of_nat n"

definition accepts :: "nat \<Rightarrow> 64 word \<Rightarrow> bool" where
  "accepts n v \<longleftrightarrow> reject_bound n = 0 \<or> v < 0 - reject_bound n"

partial_function (option) sample_index ::
  "(nat \<Rightarrow> 64 word option) \<Rightarrow> nat \<Rightarrow> nat \<Rightarrow> (shard_error, nat \<times> nat) outcome option" where
  "sample_index rnd n k =
     (case rnd k of
        None \<Rightarrow> Some (Err EntropyError)
      | Some v \<Rightarrow> if accepts n v then Some (Ok (unat (v mod of_nat n), Suc k)) else sample_index rnd n (Suc k))"

definition CryptoRandIndex ::
  "(nat \<Rightarrow> 64 word option) \<Rightarrow> int \<Rightarrow> nat \<Rightarrow> (shard_error, nat \<times> nat) outcome option" where
  "CryptoRandIndex rnd n k = (if n \<le> 0 then Some (Err IndexNotPositive) else sample_index rnd (nat n) k)"

fun pbind ::
  "('e, 'a) outcome option \<Rightarrow> ('a \<Rightarrow> ('e, 'b) outcome option) \<Rightarrow> ('e, 'b) outcome option" where
  "pbind None f = None"
| "pbind (Some (Ok x)) f = f x"
| "pbind (Some (Err e)) f = Some (Err e)"
| "pbind (Some Panic) f = Some Panic"

partial_function (option) pickRandomReplicaID ::
  "(nat \<Rightarrow> 64 word option) \<Rightarrow> byte list \<Rightarrow> byte list \<Rightarrow> nat \<Rightarrow> (shard_error, byte \<times> nat) outcome option" where
  "pickRandomReplicaID rnd allReplicaIDs exclude k =
     (case CryptoRandIndex rnd (int (length allReplicaIDs)) k of
        None \<Rightarrow> None
      | Some r \<Rightarrow>
          (case r of
             Err e \<Rightarrow> Some (Err e)
           | Panic \<Rightarrow> Some Panic
           | Ok (idx, k') \<Rightarrow>
               let candidate = allReplicaIDs ! idx
               in if candidate \<in> set exclude then pickRandomReplicaID rnd allReplicaIDs exclude k'
                  else Some (Ok (candidate, k'))))"

fun getReplicaPubKeys ::
  "(bytes \<Rightarrow> 'pk option) \<Rightarrow> Document \<Rightarrow> 64 word \<Rightarrow> byte list \<Rightarrow> (shard_error, 'pk list) outcome" where
  "getReplicaPubKeys unmarshal doc epoch [] = Ok []"
| "getReplicaPubKeys unmarshal doc epoch (r # rs) =
     obind (ReplicaNum r doc) (\<lambda>desc.
       case rd_EnvelopeKeys desc epoch of
         None \<Rightarrow> Err (NoEnvelopeKey r epoch)
       | Some keyBytes \<Rightarrow>
           if keyBytes = [] then Err (EmptyEnvelopeKey r epoch)
           else (case unmarshal keyBytes of
             None \<Rightarrow> Err (BadEnvelopeKey r)
           | Some pk \<Rightarrow> obind (getReplicaPubKeys unmarshal doc epoch rs) (\<lambda>pks. Ok (pk # pks))))"

fun shard_ids :: "Document \<Rightarrow> ReplicaDescriptor list \<Rightarrow> byte list" where
  "shard_ids doc [] = []"
| "shard_ids doc (shard # shards) =
     (case find (\<lambda>replica. key_bytes shard = key_bytes replica) (replicas doc) of
        None \<Rightarrow> shard_ids doc shards
      | Some replica \<Rightarrow> rd_ReplicaID replica # shard_ids doc shards)"

definition with_keys ::
  "(bytes \<Rightarrow> 'pk option) \<Rightarrow> int \<Rightarrow> Document \<Rightarrow> byte \<Rightarrow> byte \<Rightarrow> (shard_error, (byte \<times> byte) \<times> 'pk list) outcome" where
  "with_keys unmarshal now doc replica1 replica2 =
     (case ReplicaNow now now now of
        None \<Rightarrow> Panic
      | Some (replicaEpoch, _, _) \<Rightarrow>
          obind (getReplicaPubKeys unmarshal doc replicaEpoch [replica1, replica2]) (\<lambda>pks.
            Ok ((replica1, replica2), pks)))"

definition GetRandomIntermediateReplicas ::
  "(bytes \<Rightarrow> bytes) \<Rightarrow> (bytes \<Rightarrow> 'pk option) \<Rightarrow> (nat \<Rightarrow> 64 word option) \<Rightarrow> int \<Rightarrow> Document option \<Rightarrow> bytes
     \<Rightarrow> (shard_error, (byte \<times> byte) \<times> 'pk list) outcome option" where
  "GetRandomIntermediateReplicas Sum256 unmarshal rnd now odoc boxid =
     (case odoc of
        None \<Rightarrow> Some (Err NilDocument)
      | Some doc \<Rightarrow>
        (case StorageReplicas doc of
           None \<Rightarrow> Some (Err NilStorageReplicas)
         | Some rs \<Rightarrow>
           let numReplicas = (of_nat (length rs) :: byte) in
           pbind (Some (GetShards Sum256 boxid doc)) (\<lambda>shards.
           let shardReplicaIDs = shard_ids doc shards;
               allReplicaIDs = map rd_ReplicaID rs;
               pick = pickRandomReplicaID rnd allReplicaIDs
           in if numReplicas < 2 then Some (Err InsufficientReplicas)
              else if numReplicas = 2 then
                Some (with_keys unmarshal now doc (allReplicaIDs ! 0) (allReplicaIDs ! 1))
              else if numReplicas = 3 then
                pbind (case shardReplicaIDs of [] \<Rightarrow> pick [] 0 | r # _ \<Rightarrow> Some (Ok (r, 0))) (\<lambda>(replica1, k).
                pbind (pick [replica1] k) (\<lambda>(replica2, _).
                Some (with_keys unmarshal now doc replica1 replica2)))
              else
                pbind (pick shardReplicaIDs 0) (\<lambda>(replica1, k).
                pbind (pick ([replica1] @ shardReplicaIDs) k) (\<lambda>(replica2, _).
                Some (with_keys unmarshal now doc replica1 replica2))))))"

section \<open>Sharding: the fast selection is the sorted one\<close>

text \<open>The two entries kept by the loop, and what \<open>maxHash\<close> fills up.\<close>

definition best_two :: "(bytes \<Rightarrow> bytes) \<Rightarrow> bytes list \<Rightarrow> bytes list \<times> bytes list" where
  "best_two h S = (take 2 (map h S @ [maxHash, maxHash]), take 2 (S @ [[], []]))"

lemma le_maxHash:
  assumes "length xs = 32"
  shows "(xs :: bytes) \<le> maxHash"
proof -
  have le: "length xs = n \<Longrightarrow> xs \<le> replicate n 255" for xs :: bytes and n
  proof (induction n arbitrary: xs)
    case (Suc n)
    then obtain x xs' where xs: "xs = x # xs'" "xs' \<le> replicate n 255" by (cases xs) auto
    have "unat x < 256" using unsigned_less [of x] by simp
    then have "x \<le> 255" by (simp add: word_le_nat_alt)
    then show ?case using xs by (auto simp: less_le)
  qed simp
  show ?thesis using le [OF assms] by (simp add: maxHash_def)
qed

lemma cmpidx: "nat (drop_bit 1 (slices_Compare a b AND 2)) = (if a < b then 1 else 0)"
  by (auto simp: slices_Compare_def drop_bit_Suc)

lemma shard2_step_best:
  assumes "\<And>k. length (Sum256 k) = 32" and "h = (\<lambda>key. Sum256 (key @ boxID))"
    and "sorted (map h S)" and "h x \<notin> h ` set S"
  shows "shard2_step Sum256 boxID (best_two h S) x = best_two h (insort_key h x S)"
proof -
  have max: "\<not> maxHash < h x" using le_maxHash [of "h x"] assms(1,2) by auto
  consider "S = []" | a where "S = [a]" | a b T where "S = a # b # T"
    by (metis list.exhaust)
  then show ?thesis
  proof cases
    case 1
    then show ?thesis
      using max by (simp add: best_two_def shard2_step_def Let_def cmpidx slices_Compare_def assms(2))
  next
    case 2
    then have "h a \<noteq> h x" using assms(4) by auto
    then show ?thesis
      using 2 max by (auto simp: best_two_def shard2_step_def Let_def cmpidx slices_Compare_def assms(2))
  next
    case 3
    then have ne: "h a \<noteq> h x" "h b \<noteq> h x" "h a \<le> h b" using assms(3,4) by auto
    show ?thesis
      using 3 ne by (auto simp: best_two_def shard2_step_def Let_def cmpidx slices_Compare_def assms(2))
  qed
qed

lemma shard2_fold_best:
  assumes "\<And>k. length (Sum256 k) = 32" and h: "h = (\<lambda>key. Sum256 (key @ boxID))"
    and "sorted (map h S)" and "distinct (map h ks)" and "h ` set ks \<inter> h ` set S = {}"
  shows "foldl (shard2_step Sum256 boxID) (best_two h S) ks = best_two h (fold (insort_key h) ks S)"
  using assms(3-5)
proof (induction ks arbitrary: S)
  case (Cons k ks)
  have "shard2_step Sum256 boxID (best_two h S) k = best_two h (insort_key h k S)"
    using Cons.prems by (intro shard2_step_best assms(1) h) auto
  moreover have "sorted (map h (insort_key h k S))" using Cons.prems(1) by (simp add: sorted_insort_key)
  moreover have "h ` set ks \<inter> h ` set (insort_key h k S) = {}"
    using Cons.prems(2,3) by (auto simp: set_insort_key)
  ultimately show ?case using Cons.IH [of "insort_key h k S"] Cons.prems(2) by simp
qed simp

lemma sort_rev_distinct: "distinct (map h ks) \<Longrightarrow> sort_key h (rev ks) = sort_key h ks"
  by (rule sort_key_inj_key_eq) (auto simp: distinct_map)

lemma Shard2_sorted:
  assumes "\<And>k. length (Sum256 k) = 32" and "distinct (map (\<lambda>key. Sum256 (key @ boxID)) ks)"
  shows "Shard2 Sum256 boxID ks = take 2 (sort_key (\<lambda>key. Sum256 (key @ boxID)) ks @ [[], []])"
proof -
  define h where "h = (\<lambda>key. Sum256 (key @ boxID))"
  have "foldl (shard2_step Sum256 boxID) (best_two h []) ks = best_two h (fold (insort_key h) ks [])"
    using assms by (intro shard2_fold_best) (simp_all add: h_def)
  moreover have "fold (insort_key h) ks [] = sort_key h (rev ks)"
    by (simp add: sort_key_def foldr_conv_fold)
  moreover have "best_two h [] = ([maxHash, maxHash], [[], []])" by (simp add: best_two_def)
  ultimately have "Shard2 Sum256 boxID ks = snd (best_two h (sort_key h (rev ks)))"
    by (simp add: Shard2_def)
  also have "sort_key h (rev ks) = sort_key h ks"
    using assms(2) by (intro sort_rev_distinct) (simp add: h_def)
  finally show ?thesis by (simp add: best_two_def h_def)
qed

lemma sort_key_map_pair: "map fst (sort_key snd (map (\<lambda>k. (k, h k)) ks)) = sort_key h ks"
proof (induction ks)
  case (Cons k ks)
  have "map fst (insort_key snd (k, h k) ps) = insort_key h k (map fst ps)" if "\<forall>p\<in>set ps. snd p = h (fst p)" for ps
    using that by (induction ps) auto
  with Cons show ?case by simp
qed simp

lemma sorted_first_two:
  assumes "2 \<le> length ks" and "distinct (map h ks)"
  shows "\<exists>a b. take 2 (sort_key h ks) = [a, b] \<and> a \<in> set ks \<and> b \<in> set ks \<and> h a < h b \<and>
    (\<forall>k\<in>set ks - {a, b}. h b < (h k :: bytes))"
proof -
  have len: "2 \<le> length (sort_key h ks)" using assms(1) by simp
  obtain a b T where S: "sort_key h ks = a # b # T"
  proof (cases "sort_key h ks")
    case Nil
    then show ?thesis using len by simp
  next
    case (Cons a t)
    then show ?thesis using len that by (cases t) auto
  qed
  have srt: "sorted (map h (a # b # T))" by (metis S sorted_sort_key)
  have set: "set (a # b # T) = set ks" by (metis S set_sort)
  have "mset (map h (sort_key h ks)) = mset (map h ks)" by (simp only: mset_map mset_sort)
  then have "distinct (map h (sort_key h ks))" using assms(2) by (metis mset_eq_imp_distinct_iff)
  then have dst: "distinct (map h (a # b # T))" by (simp add: S)
  have "h b < h k" if "k \<in> set ks - {a, b}" for k
  proof -
    have "k \<in> set T" using that set by auto
    then show ?thesis using srt dst by (auto simp: less_le)
  qed
  moreover have "h a < h b" using srt dst by (auto simp: less_le)
  ultimately show ?thesis using set by (intro exI [of _ a] exI [of _ b]) (auto simp: S)
qed

text \<open>
  C26. The two replicas that hold a box are well defined. For a set of at least two configured replica keys
  whose hashes with the box differ, the single-pass selection \<open>Shard2\<close>, with its branch-free index
  arithmetic and sentinel hashes, returns the same list as the sorting reference \<open>Shard\<close>: the two keys of
  least hash, in order. The result does not depend on the order in which a document lists the keys, so
  clients, couriers and replicas agree on it.
\<close>

theorem shard2_is_shard:
  assumes len: "\<And>k. length (Sum256 k) = 32" and two: "2 \<le> length keys"
    and dist: "distinct (map (\<lambda>key. Sum256 (key @ boxID)) keys)" and perm: "mset keys' = mset keys"
  shows "Shard Sum256 boxID keys = Ok (Shard2 Sum256 boxID keys) \<and>
    Shard2 Sum256 boxID keys' = Shard2 Sum256 boxID keys \<and>
    (\<exists>a b. Shard2 Sum256 boxID keys = [a, b] \<and> a \<in> set keys \<and> b \<in> set keys \<and>
       Sum256 (a @ boxID) < Sum256 (b @ boxID) \<and>
       (\<forall>k\<in>set keys - {a, b}. Sum256 (b @ boxID) < Sum256 (k @ boxID)))"
proof -
  define h where "h = (\<lambda>key. Sum256 (key @ boxID))"
  have s2: "Shard2 Sum256 boxID ks = take 2 (sort_key h ks)" if "mset ks = mset keys" for ks
  proof -
    have "mset (map h ks) = mset (map h keys)" using that by simp
    then have "distinct (map h ks)" using dist unfolding h_def by (metis mset_eq_imp_distinct_iff)
    moreover have "2 \<le> length ks" using two that by (metis size_mset)
    ultimately show ?thesis using Shard2_sorted [where boxID = boxID and ks = ks, OF len] by (simp add: h_def)
  qed
  have "sort_key h keys' = sort_key h keys"
    using perm dist by (intro sort_key_inj_key_eq) (auto simp: h_def distinct_map dest: mset_eq_setD)
  moreover have "Shard Sum256 boxID keys = Ok (take 2 (sort_key h keys))"
    using two sort_key_map_pair [of h keys] by (simp add: Shard_def K_def h_def flip: take_map)
  ultimately show ?thesis
    using s2 [of keys] s2 [OF perm] sorted_first_two [OF two, of h] dist unfolding h_def by auto
qed

definition toy_sum :: "bytes \<Rightarrow> bytes" where
  "toy_sum b = take 32 (b @ zeros 32)"

lemma length_toy_sum: "length (toy_sum b) = 32"
  by (simp add: toy_sum_def)

theorem shard2_is_shard_witness:
  "Shard toy_sum [0] [[3], [1], [2]] = Ok (Shard2 toy_sum [0] [[3], [1], [2]]) \<and>
   Shard2 toy_sum [0] [[1], [2], [3]] = Shard2 toy_sum [0] [[3], [1], [2]]"
  using shard2_is_shard [of toy_sum "[[3], [1], [2]]" "[0]" "[[1], [2], [3]]"] length_toy_sum
  by (simp add: toy_sum_def)

section \<open>Random indices are unbiased\<close>

text \<open>Acceptance in terms of naturals: the words below the largest multiple of \<open>n\<close>.\<close>

lemma accepts_iff:
  assumes n: "0 < n" "n < 2 ^ 63"
  shows "accepts n v \<longleftrightarrow> unat v < n * (2 ^ 64 div n)"
proof -
  have un: "unat (word_of_nat n :: 64 word) = n" using n by (simp add: unat_of_nat)
  have neg: "unat (- (word_of_nat m :: 64 word)) = 2 ^ 64 - m" if "0 < m" "m < 2 ^ 64" for m
  proof -
    have "(word_of_nat (2 ^ 64 - m) :: 64 word) + word_of_nat m = word_of_nat (2 ^ 64)"
      using that by (simp flip: of_nat_add)
    also have "\<dots> = 0" by simp
    finally have eq: "- (word_of_nat m :: 64 word) = word_of_nat (2 ^ 64 - m)"
      by (metis add_eq_0_iff add.commute)
    show ?thesis unfolding eq using that by (simp add: unat_of_nat del: of_nat_diff)
  qed
  have "unat (reject_bound n) = (2 ^ 64 - n) mod n"
    using n neg [of n] un by (simp add: reject_bound_def unat_mod)
  also have "\<dots> = 2 ^ 64 mod n" using n by (simp add: le_mod_geq)
  finally have r: "unat (reject_bound n) = 2 ^ 64 mod n" .
  have m: "n * (2 ^ 64 div n) = 2 ^ 64 - 2 ^ 64 mod n" by (simp add: minus_mod_eq_mult_div)
  show ?thesis
  proof (cases "2 ^ 64 mod n = 0")
    case True
    then have "reject_bound n = 0" using r by (simp add: unat_eq_zero)
    moreover have "unat v < 2 ^ 64" using unsigned_less [of v] by simp
    ultimately show ?thesis using True m by (simp add: accepts_def)
  next
    case False
    have lt: "2 ^ 64 mod n < (2 ^ 64 :: nat)"
      using n mod_less_divisor [OF n(1), of "2 ^ 64"] by simp
    have rb: "reject_bound n = word_of_nat (2 ^ 64 mod n)" unfolding r [symmetric] by simp
    have "unat (0 - reject_bound n) = 2 ^ 64 - 2 ^ 64 mod n"
      using neg [of "2 ^ 64 mod n"] False lt by (simp add: rb)
    moreover have "reject_bound n \<noteq> 0" using False r by auto
    ultimately show ?thesis using m by (simp add: accepts_def word_less_nat_alt)
  qed
qed

lemma card_residue:
  assumes "i < n"
  shows "card {v. v < n * q \<and> v mod n = i} = (q :: nat)"
proof -
  have "{v. v < n * q \<and> v mod n = i} = (\<lambda>j. n * j + i) ` {..<q}"
  proof (intro set_eqI iffI)
    fix v
    assume "v \<in> {v. v < n * q \<and> v mod n = i}"
    then have "v = n * (v div n) + i" "v div n < q"
      using less_mult_imp_div_less [of v q n] by (auto simp: mult.commute)
    then show "v \<in> (\<lambda>j. n * j + i) ` {..<q}" by blast
  next
    fix v
    assume "v \<in> (\<lambda>j. n * j + i) ` {..<q}"
    then obtain j where j: "j < q" "v = n * j + i" by blast
    have "n * j + i < n * (j + 1)" using assms by simp
    also have "\<dots> \<le> n * q" using j(1) by (intro mult_le_mono2) simp
    finally show "v \<in> {v. v < n * q \<and> v mod n = i}" using j assms by simp
  qed
  moreover have "inj_on (\<lambda>j. n * j + i) {..<q}" using assms by (auto intro: inj_onI)
  ultimately show ?thesis by (simp add: card_image)
qed

lemma card_word_residue:
  assumes "0 < n" and "n < 2 ^ 63" and "i < n"
  shows "card {v :: 64 word. accepts n v \<and> unat (v mod of_nat n) = i} = 2 ^ 64 div n"
proof -
  have un: "unat (word_of_nat n :: 64 word) = n" using assms(2) by (simp add: unat_of_nat)
  have le: "n * (2 ^ 64 div n) \<le> 2 ^ 64" by simp
  have img: "unat ` {v :: 64 word. accepts n v \<and> unat (v mod of_nat n) = i} = {v. v < n * (2 ^ 64 div n) \<and> v mod n = i}"
  proof (intro set_eqI iffI)
    fix x
    assume "x \<in> {v. v < n * (2 ^ 64 div n) \<and> v mod n = i}"
    then have x: "x < n * (2 ^ 64 div n)" "x mod n = i" by simp_all
    from x(1) le have "x < 2 ^ 64" by (rule less_le_trans)
    then have "unat (word_of_nat x :: 64 word) = x" by (simp add: unat_of_nat)
    then show "x \<in> unat ` {v :: 64 word. accepts n v \<and> unat (v mod of_nat n) = i}"
      using x by (intro image_eqI [of _ _ "word_of_nat x"]) (simp_all add: accepts_iff [OF assms(1,2)] unat_mod un)
  qed (auto simp: accepts_iff [OF assms(1,2)] unat_mod un)
  have "inj_on unat {v :: 64 word. accepts n v \<and> unat (v mod of_nat n) = i}"
    by (rule inj_onI) (rule unsigned_word_eqI)
  from card_image [OF this] show ?thesis
    unfolding img card_residue [OF assms(3)] by (rule sym)
qed

lemma sample_index_first:
  assumes "k \<le> j" and "rnd j = Some v" and "accepts n v" and "\<forall>i<j. rnd i \<noteq> None"
  shows "\<exists>j' v'. k \<le> j' \<and> j' \<le> j \<and> rnd j' = Some v' \<and> accepts n v' \<and>
    (\<forall>i w. k \<le> i \<and> i < j' \<and> rnd i = Some w \<longrightarrow> \<not> accepts n w) \<and>
    sample_index rnd n k = Some (Ok (unat (v' mod of_nat n), Suc j'))"
  using assms
proof (induction "j - k" arbitrary: k)
  case 0
  then have "k = j" by simp
  then show ?case
    using 0 by (intro exI [of _ j] exI [of _ v]) (subst sample_index.simps, auto)
next
  case (Suc d)
  then have kj: "k < j" by simp
  then obtain w where w: "rnd k = Some w" using Suc.prems(4) by blast
  show ?case
  proof (cases "accepts n w")
    case True
    then show ?thesis
      using kj w by (intro exI [of _ k] exI [of _ w]) (subst sample_index.simps, auto)
  next
    case False
    then have s: "sample_index rnd n k = sample_index rnd n (Suc k)"
      using w by (subst sample_index.simps) simp
    have "d = j - Suc k" "Suc k \<le> j" using Suc.hyps(2) kj by simp_all
    from Suc.hyps(1) [OF this Suc.prems(2-4)] obtain j' v' where
        r: "Suc k \<le> j'" "j' \<le> j" "rnd j' = Some v'" "accepts n v'"
          "\<forall>i w. Suc k \<le> i \<and> i < j' \<and> rnd i = Some w \<longrightarrow> \<not> accepts n w"
          "sample_index rnd n (Suc k) = Some (Ok (unat (v' mod of_nat n), Suc j'))" by blast
    have "\<not> accepts n u" if "k \<le> i" "i < j'" "rnd i = Some u" for i u
    proof (cases "i = k")
      case False
      then have "Suc k \<le> i" using that(1) by simp
      then show ?thesis using r(5) that(2,3) by blast
    qed (use that(3) w False in simp)
    then show ?thesis using r s by (intro exI [of _ j'] exI [of _ v']) auto
  qed
qed

text \<open>
  C27. \<open>CryptoRandIndex\<close> draws without bias, and ends. For \<open>0 < n < 2^63\<close>, computed in wrapping 64-bit
  arithmetic: each of the indices below \<open>n\<close> is the image of the same number of accepted random words;
  more than half of all words are accepted, so a draw is retried with probability below one half; and as
  soon as the stream holds an acceptable word the call returns, with the index of the first one.
\<close>

theorem CryptoRandIndex_uniform:
  assumes n: "0 < n" "n < 2 ^ 63"
    and j: "k \<le> j" "rnd j = Some v" "accepts n v" "\<forall>i<j. rnd i \<noteq> None"
  shows "(\<forall>i<n. card {v :: 64 word. accepts n v \<and> unat (v mod of_nat n) = i} = 2 ^ 64 div n) \<and>
    card {v :: 64 word. accepts n v} > 2 ^ 63 \<and>
    (\<exists>j' v'. k \<le> j' \<and> j' \<le> j \<and> rnd j' = Some v' \<and> accepts n v' \<and>
       (\<forall>i w. k \<le> i \<and> i < j' \<and> rnd i = Some w \<longrightarrow> \<not> accepts n w) \<and>
       CryptoRandIndex rnd (int n) k = Some (Ok (unat v' mod n, Suc j')) \<and> unat v' mod n < n)"
proof (intro conjI allI impI)
  show "card {v :: 64 word. accepts n v \<and> unat (v mod of_nat n) = i} = 2 ^ 64 div n" if "i < n" for i
    using card_word_residue [OF n that] .
next
  have le: "n * (2 ^ 64 div n) \<le> 2 ^ 64" by simp
  have img: "unat ` {v :: 64 word. accepts n v} = {..<n * (2 ^ 64 div n)}"
  proof (intro set_eqI iffI)
    fix x
    assume "x \<in> {..<n * (2 ^ 64 div n)}"
    then have x: "x < n * (2 ^ 64 div n)" by simp
    from x le have "x < 2 ^ 64" by (rule less_le_trans)
    then have "unat (word_of_nat x :: 64 word) = x" by (simp add: unat_of_nat)
    then show "x \<in> unat ` {v :: 64 word. accepts n v}"
      using x by (intro image_eqI [of _ _ "word_of_nat x"]) (simp_all add: accepts_iff [OF n])
  qed (auto simp: accepts_iff [OF n])
  have "card {v :: 64 word. accepts n v} = card (unat ` {v :: 64 word. accepts n v})"
    by (intro card_image [symmetric] inj_onI) (rule unsigned_word_eqI)
  also have "\<dots> = n * (2 ^ 64 div n)" by (simp add: img)
  also have "\<dots> > 2 ^ 63"
  proof -
    have half: "2 ^ 63 < a" if "a + b = 2 ^ 64" "b < n" for a b :: nat using that n(2) by simp
    have "2 ^ 64 mod n < n" using n by simp
    then show ?thesis by (intro half [of _ "2 ^ 64 mod n"]) (simp only: mult_div_mod_eq)
  qed
  finally show "card {v :: 64 word. accepts n v} > 2 ^ 63" .
next
  have un: "unat (word_of_nat n :: 64 word) = n" using n by (simp add: unat_of_nat)
  from sample_index_first [OF j] n(1)
  show "\<exists>j' v'. k \<le> j' \<and> j' \<le> j \<and> rnd j' = Some v' \<and> accepts n v' \<and>
       (\<forall>i w. k \<le> i \<and> i < j' \<and> rnd i = Some w \<longrightarrow> \<not> accepts n w) \<and>
       CryptoRandIndex rnd (int n) k = Some (Ok (unat v' mod n, Suc j')) \<and> unat v' mod n < n"
    by (auto simp: CryptoRandIndex_def unat_mod un)
qed

theorem CryptoRandIndex_uniform_witness:
  "card {v :: 64 word. accepts 3 v \<and> unat (v mod of_nat 3) = 2} = 2 ^ 64 div 3 \<and>
   CryptoRandIndex (\<lambda>k. Some (if k = 0 then 5 else 7)) 3 0 = Some (Ok (2, 1))"
proof -
  have a: "accepts 3 5" by (simp add: accepts_iff)
  have "\<forall>i<3. card {v :: 64 word. accepts 3 v \<and> unat (v mod of_nat 3) = i} = 2 ^ 64 div 3"
    using CryptoRandIndex_uniform [of 3 0 0 "\<lambda>k. Some (if k = 0 then 5 else 7)" 5] a by simp
  moreover have "CryptoRandIndex (\<lambda>k. Some (if k = 0 then 5 else 7)) 3 0 = Some (Ok (2, 1))"
    using CryptoRandIndex_uniform [of 3 0 0 "\<lambda>k. Some (if k = 0 then 5 else 7)" 5] a by auto
  ultimately show ?thesis by simp
qed

section \<open>Intermediate replicas\<close>

text \<open>A random stream without errors in which, from any point on, every index is drawn again.\<close>

definition fair :: "(nat \<Rightarrow> 64 word option) \<Rightarrow> nat \<Rightarrow> bool" where
  "fair rnd n \<longleftrightarrow> (\<forall>k. rnd k \<noteq> None) \<and>
     (\<forall>k. \<forall>i<n. \<exists>j v. k \<le> j \<and> rnd j = Some v \<and> accepts n v \<and> unat v mod n = i)"

lemma CryptoRandIndex_first:
  assumes n: "0 < n" "n < 2 ^ 63" and j: "k \<le> j" "rnd j = Some v" "accepts n v" "\<forall>i. rnd i \<noteq> None"
  obtains j' v' where "k \<le> j'" "j' \<le> j" "rnd j' = Some v'"
    "CryptoRandIndex rnd (int n) k = Some (Ok (unat v' mod n, Suc j'))"
proof -
  have un: "unat (word_of_nat n :: 64 word) = n" using n by (simp add: unat_of_nat)
  have "\<forall>i<j. rnd i \<noteq> None" using j(4) by simp
  from sample_index_first [OF j(1-3) this] obtain j' v' where "k \<le> j'" "j' \<le> j" "rnd j' = Some v'"
      "sample_index rnd n k = Some (Ok (unat (v' mod of_nat n), Suc j'))" by blast
  then show ?thesis using that n(1) by (simp add: CryptoRandIndex_def unat_mod un)
qed

lemma pick_returns:
  assumes n: "n = length ids" "0 < n" "n < 2 ^ 63" and some: "\<forall>i. rnd i \<noteq> None"
    and j: "k \<le> j" "rnd j = Some v" "accepts n v" "ids ! (unat v mod n) \<notin> set exclude"
  shows "\<exists>c k'. pickRandomReplicaID rnd ids exclude k = Some (Ok (c, k')) \<and> c \<in> set ids \<and> c \<notin> set exclude"
  using j(1)
proof (induction "j - k" arbitrary: k rule: less_induct)
  case less
  obtain j' v' where c: "k \<le> j'" "j' \<le> j" "rnd j' = Some v'"
      "CryptoRandIndex rnd (int n) k = Some (Ok (unat v' mod n, Suc j'))"
    using CryptoRandIndex_first [OF n(2,3) less.prems j(2,3) some] by blast
  have idx: "unat v' mod n < length ids" using n by simp
  show ?case
  proof (cases "ids ! (unat v' mod n) \<in> set exclude")
    case True
    then have "j' \<noteq> j" using c(3) j(2,4) by auto
    then have "Suc j' \<le> j" "j - Suc j' < j - k" using c(1,2) by simp_all
    from less.hyps [OF this(2,1)] obtain c' k' where
      "pickRandomReplicaID rnd ids exclude (Suc j') = Some (Ok (c', k'))" "c' \<in> set ids" "c' \<notin> set exclude" by blast
    then show ?thesis using c(4) True n(1) by (subst pickRandomReplicaID.simps) (simp add: Let_def)
  next
    case False
    then show ?thesis
      using c(4) n(1) idx by (subst pickRandomReplicaID.simps) (simp add: Let_def)
  qed
qed

lemma pick_fair:
  assumes "fair rnd (length ids)" and "length ids < 2 ^ 63" and "c \<in> set ids" and "c \<notin> set exclude"
  obtains c' k' where "pickRandomReplicaID rnd ids exclude k = Some (Ok (c', k'))" "c' \<in> set ids" "c' \<notin> set exclude"
proof -
  obtain i where i: "i < length ids" "ids ! i = c" using assms(3) by (auto simp: in_set_conv_nth)
  then obtain j v where "k \<le> j" "rnd j = Some v" "accepts (length ids) v" "unat v mod length ids = i"
    using assms(1) unfolding fair_def by blast
  with pick_returns [OF refl _ assms(2), of rnd k j v exclude] i assms(1,4) that show ?thesis
    unfolding fair_def by (metis gr_zeroI not_less_zero)
qed

lemma shard2_step_length: "length (snd (shard2_step Sum256 boxID s k)) = length (snd s)"
  by (cases s) (simp add: shard2_step_def Let_def)

lemma length_Shard2: "length (Shard2 Sum256 boxID ks) = 2"
proof -
  have "length (snd (foldl (shard2_step Sum256 boxID) s ks)) = length (snd s)" for s
    by (induction ks arbitrary: s) (simp_all add: shard2_step_length)
  then show ?thesis by (simp add: Shard2_def)
qed

lemma online_shards_sub: "length (online_shards Sum256 doc ks) \<le> length ks \<and>
    set (online_shards Sum256 doc ks) \<subseteq> set (replicas doc)"
proof (induction ks)
  case (Cons k ks)
  have "r \<in> set rs" if "replica_by_hash Sum256 q rs = Ok r" for q rs r
    using that by (induction rs) (auto split: option.splits if_splits)
  with Cons show ?case by (auto simp: GetReplicaNodeByKeyHash_def split: outcome.splits)
qed simp

lemma GetShards_sub:
  assumes "GetShards Sum256 boxid doc = Ok shards"
  shows "length shards \<le> 2 \<and> set shards \<subseteq> set (replicas doc)"
  using assms online_shards_sub [of Sum256 doc] length_Shard2
  by (auto simp: GetShards_def go_simps Let_def split: if_splits) (metis length_Shard2)

lemma find_self: "distinct (map f xs) \<Longrightarrow> x \<in> set xs \<Longrightarrow> find (\<lambda>y. f x = f y) xs = Some x"
  by (induction xs) (auto, metis imageI)

lemma shard_ids_eq:
  assumes "distinct (map key_bytes (replicas doc))" and "set shards \<subseteq> set (replicas doc)"
  shows "shard_ids doc shards = map rd_ReplicaID shards"
  using assms(2) by (induction shards) (auto simp: find_self [OF assms(1)])

lemma spare_element:
  assumes "distinct xs" and "length ys < length xs"
  obtains c where "c \<in> set xs" "c \<notin> set ys"
proof -
  have "card (set ys) < card (set xs)"
    using assms card_length [of ys] by (simp add: distinct_card)
  then have "\<not> set xs \<subseteq> set ys" by (meson card_mono finite_set not_less)
  then show ?thesis using that by blast
qed

text \<open>A random replica outside a list that does not cover all of them is found.\<close>

lemma pick_outside:
  assumes "distinct ids" "length ids < 2 ^ 63" "fair rnd (length ids)" "length ex < length ids"
  obtains c k' where "pickRandomReplicaID rnd ids ex k = Some (Ok (c, k'))" "c \<in> set ids" "c \<notin> set ex"
proof -
  obtain d where "d \<in> set ids" "d \<notin> set ex" using assms(1,4) by (rule spare_element)
  with assms(3,2) obtain c k' where "pickRandomReplicaID rnd ids ex k = Some (Ok (c, k'))" "c \<in> set ids" "c \<notin> set ex"
    by (rule pick_fair)
  then show thesis by (rule that)
qed

text \<open>With three replicas the first one is a shard, or any replica when no shard is online.\<close>

lemma first_of_three:
  assumes "distinct ids" "length ids < 2 ^ 63" "fair rnd (length ids)" "ids \<noteq> []" "set sids \<subseteq> set ids"
  obtains r k where "(case sids of [] \<Rightarrow> pickRandomReplicaID rnd ids [] 0 | r # _ \<Rightarrow> Some (Ok (r, 0))) = Some (Ok (r, k))" "r \<in> set ids"
proof (cases sids)
  case Nil
  obtain c k where "pickRandomReplicaID rnd ids [] 0 = Some (Ok (c, k))" "c \<in> set ids"
    using pick_outside [OF assms(1-3), of "[]" 0] assms(4) by auto
  then show ?thesis using that Nil by simp
qed (use assms(5) that in simp)

text \<open>The count of replicas in 8 bits.\<close>

lemma byte_count:
  assumes "2 \<le> n" "n < 256"
  shows "(word_of_nat n :: byte) < 2 \<longleftrightarrow> False" "(word_of_nat n :: byte) = 2 \<longleftrightarrow> n = 2" "(word_of_nat n :: byte) = 3 \<longleftrightarrow> n = 3"
proof -
  have u: "unat (word_of_nat n :: byte) = n" using assms(2) by (simp add: unat_of_nat)
  show "(word_of_nat n :: byte) < 2 \<longleftrightarrow> False" using assms(1) u by (simp add: word_less_nat_alt)
  show "(word_of_nat n :: byte) = 2 \<longleftrightarrow> n = 2" "(word_of_nat n :: byte) = 3 \<longleftrightarrow> n = 3"
    using u by (auto dest: arg_cong [where f = unat])
qed

text \<open>The choice itself, for a document whose replicas and shards have the identifiers \<open>ids\<close> and \<open>sids\<close>.\<close>

lemma choice_of_replicas:
  assumes rs: "StorageReplicas doc = Some rs" "2 \<le> length rs" "length rs < 256" "distinct (map rd_ReplicaID rs)"
    and fair: "fair rnd (length rs)" and sh: "GetShards Sum256 boxid doc = Ok shards"
    and sids: "shard_ids doc shards = sids" "length sids \<le> 2" "set sids \<subseteq> set (map rd_ReplicaID rs)"
  obtains r1 r2 where
    "GetRandomIntermediateReplicas Sum256 unmarshal rnd now (Some doc) boxid = Some (with_keys unmarshal now doc r1 r2)"
    "r1 \<noteq> r2" "{r1, r2} \<subseteq> set (map rd_ReplicaID rs)" "4 \<le> length rs \<Longrightarrow> r1 \<notin> set sids \<and> r2 \<notin> set sids"
proof -
  define ids where "ids = map rd_ReplicaID rs"
  have len: "length ids = length rs" "distinct ids" "length ids < 2 ^ 63" using rs(3,4) by (simp_all add: ids_def)
  have fr: "fair rnd (length ids)" using fair len(1) by simp
  note run = GetRandomIntermediateReplicas_def option.case rs(1) sh pbind.simps Let_def byte_count [OF rs(2,3)] if_False sids(1)
    ids_def [symmetric]
  note out = pick_outside [OF len(2,3) fr]
  note found = that [folded ids_def]
  consider "length rs = 2" | "length rs = 3" | "4 \<le> length rs" using rs(2) by linarith
  then show thesis
  proof cases
    case 1
    then show thesis using len nth_mem [of 0 ids] nth_mem [of 1 ids]
      by (intro found [of "ids ! 0" "ids ! 1"]) (simp_all add: run nth_eq_iff_index_eq)
  next
    case 2
    then have "ids \<noteq> []" using len(1) by auto
    then obtain r1 k1 where r1: "(case sids of [] \<Rightarrow> pickRandomReplicaID rnd ids [] 0 | r # _ \<Rightarrow> Some (Ok (r, 0)))
        = Some (Ok (r1, k1))" "r1 \<in> set ids"
      using first_of_three [OF len(2,3) fr _ sids(3) [folded ids_def]] by blast
    obtain r2 k2 where r2: "pickRandomReplicaID rnd ids [r1] k1 = Some (Ok (r2, k2))" "r2 \<in> set ids" "r2 \<notin> set [r1]"
      using out [of "[r1]" k1] 2 len(1) by auto
    show thesis using 2 r1(2) r2(2,3) by (intro found [of r1 r2]) (auto simp: run r1(1) r2(1))
  next
    case 3
    obtain r1 k1 where r1: "pickRandomReplicaID rnd ids sids 0 = Some (Ok (r1, k1))" "r1 \<in> set ids" "r1 \<notin> set sids"
      using out [of sids 0] 3 len(1) sids(2) by auto
    obtain r2 k2 where r2: "pickRandomReplicaID rnd ids ([r1] @ sids) k1 = Some (Ok (r2, k2))" "r2 \<in> set ids" "r2 \<notin> set ([r1] @ sids)"
      using out [of "[r1] @ sids" k1] 3 len(1) sids(2) by auto
    show thesis using 3 r1(2,3) r2 by (intro found [of r1 r2]) (auto simp: run r1(1))
  qed
qed


definition toy_replica :: "byte \<Rightarrow> ReplicaDescriptor" where
  "toy_replica i = \<lparr>rd_Name = ''replica'', rd_ReplicaID = i, rd_Epoch = 0, rd_IdentityKey = Some [i], rd_LinkKey = Some [i],
     rd_EnvelopeKeys = Map.empty, rd_Addresses = []\<rparr>"

definition toy_document :: Document where
  "toy_document = \<lparr>doc_Epoch = 0, StorageReplicas = Some [toy_replica 1, toy_replica 2, toy_replica 3],
     ConfiguredReplicaIdentityKeys = Some [[1], [2], [3]]\<rparr>"

lemma toy_fair: "fair (\<lambda>k. Some (of_nat (k mod 3))) 3"
  unfolding fair_def
proof (intro conjI allI impI)
  fix k i :: nat
  assume i: "i < 3"
  have "unat (word_of_nat i :: 64 word) = i" using i by (simp add: unat_of_nat)
  then have "accepts 3 (word_of_nat i)" using i by (simp add: accepts_iff)
  then show "\<exists>j v. k \<le> j \<and> Some (word_of_nat (j mod 3)) = Some v \<and> accepts 3 v \<and> unat v mod 3 = i"
    using i \<open>unat (word_of_nat i :: 64 word) = i\<close> by (intro exI [of _ "3 * k + i"] exI [of _ "word_of_nat i"]) simp
qed simp

lemma toy_sum_short: "toy_sum [i] = i # zeros 31" "toy_sum [i, j] = i # j # zeros 30"
  by (simp_all add: toy_sum_def)

lemma toy_shards: "GetShards toy_sum [0] toy_document = Ok [toy_replica 1, toy_replica 2]"
proof -
  have "Shard2 toy_sum [0] [[1], [2], [3]] = [[1], [2]]"
    by (subst Shard2_sorted) (simp_all add: length_toy_sum toy_sum_short)
  then show ?thesis
    by (simp add: GetShards_def GetConfiguredReplicaKeys_def toy_document_def K_def replicas_def
        GetReplicaNodeByKeyHash_def toy_replica_def toy_sum_short)
qed


end
