(* ===== verification/Replica_Store.thy ===== *)
theory Replica_Store
  imports Pigeonhole_Messages Pigeonhole_Geo "HOL-Library.List_Lexorder"
begin

text \<open>
  The box store of a storage replica: the error codes of \<open>src/pigeonhole/errors.go\<close>, the database layer of
  \<open>src/replica/state.go\<close> and \<open>src/replica/state_gc.go\<close>, and the handlers \<open>handleReplicaRead\<close>,
  \<open>handleReplicaWrite\<close> and \<open>handleTombstone\<close> of \<open>src/replica/handlers.go\<close>. RocksDB is a map from keys to
  values (a missing key reads as an empty value); a fault record says which of its calls fail. The signature
  scheme is a parameter. A handler runs at one replica epoch, the one it reads from the clock.
\<close>

section \<open>Error codes\<close>

definition ReplicaSuccess :: byte where "ReplicaSuccess = 0"
definition ReplicaErrorBoxIDNotFound :: byte where "ReplicaErrorBoxIDNotFound = 1"
definition ReplicaErrorInvalidBoxID :: byte where "ReplicaErrorInvalidBoxID = 2"
definition ReplicaErrorInvalidSignature :: byte where "ReplicaErrorInvalidSignature = 3"
definition ReplicaErrorDatabaseFailure :: byte where "ReplicaErrorDatabaseFailure = 4"
definition ReplicaErrorInvalidPayload :: byte where "ReplicaErrorInvalidPayload = 5"
definition ReplicaErrorStorageFull :: byte where "ReplicaErrorStorageFull = 6"
definition ReplicaErrorInternalError :: byte where "ReplicaErrorInternalError = 7"
definition ReplicaErrorInvalidEpoch :: byte where "ReplicaErrorInvalidEpoch = 8"
definition ReplicaErrorReplicationFailed :: byte where "ReplicaErrorReplicationFailed = 9"
definition ReplicaErrorBoxAlreadyExists :: byte where "ReplicaErrorBoxAlreadyExists = 10"
definition ReplicaErrorTombstone :: byte where "ReplicaErrorTombstone = 11"

lemmas replica_codes =
  ReplicaSuccess_def ReplicaErrorBoxIDNotFound_def ReplicaErrorInvalidBoxID_def ReplicaErrorInvalidSignature_def
  ReplicaErrorDatabaseFailure_def ReplicaErrorInvalidPayload_def ReplicaErrorStorageFull_def
  ReplicaErrorInternalError_def ReplicaErrorInvalidEpoch_def ReplicaErrorReplicationFailed_def
  ReplicaErrorBoxAlreadyExists_def ReplicaErrorTombstone_def

section \<open>Keys and epochs\<close>

definition keyEpochSize :: nat where "keyEpochSize = 8"

definition epochPrefix :: "64 word \<Rightarrow> bytes" where
  "epochPrefix epoch = PutUint64 epoch"

definition boxKey :: "64 word \<Rightarrow> bytes \<Rightarrow> bytes" where
  "boxKey epoch boxID = PutUint64 epoch @ boxID"

definition keptEpochs :: "64 word \<Rightarrow> 64 word list" where
  "keptEpochs current = (if current = 0 then [0] else [current, current - 1])"

section \<open>The state\<close>

datatype state_error =
    ErrBoxIDNotFound
  | ErrBoxAlreadyExists
  | ErrFailedDBRead
  | ErrFailedToDeserialize
  | ErrDBClosed
  | ErrStorageFull
  | errDatabaseClosed
  | errCheckExisting
  | errPut
  | errDeleteRange

record state =
  db :: "(bytes \<rightharpoonup> bytes) option"
  storageFull :: bool

record db_faults =
  get_fails :: "bytes \<Rightarrow> bool"
  put_fails :: "bytes \<Rightarrow> bool"
  delete_fails :: bool

definition no_faults :: db_faults where
  "no_faults = \<lparr>get_fails = \<lambda>_. False, put_fails = \<lambda>_. False, delete_fails = False\<rparr>"

definition db_Get :: "db_faults \<Rightarrow> (bytes \<rightharpoonup> bytes) \<Rightarrow> bytes \<Rightarrow> bytes option" where
  "db_Get f m key = (if get_fails f key then None else Some (case m key of None \<Rightarrow> [] | Some v \<Rightarrow> v))"

definition BoxFromBytes :: "bytes \<Rightarrow> (trunnel_error, Box) outcome" where
  "BoxFromBytes data = ParseBox data"

definition Box_Bytes :: "Box \<Rightarrow> bytes" where
  "Box_Bytes b = data_of (Box_MarshalBinary b)"

fun read_epochs ::
  "db_faults \<Rightarrow> (bytes \<rightharpoonup> bytes) \<Rightarrow> bytes \<Rightarrow> 64 word list \<Rightarrow> (state_error, Box) outcome" where
  "read_epochs f m boxID [] = Err ErrBoxIDNotFound"
| "read_epochs f m boxID (ep # eps) =
     (case db_Get f m (boxKey ep boxID) of
        None \<Rightarrow> Err ErrFailedDBRead
      | Some value \<Rightarrow>
          if length value = 0 then read_epochs f m boxID eps
          else (case BoxFromBytes value of
            Ok box \<Rightarrow> Ok box
          | Err e \<Rightarrow> Err ErrFailedToDeserialize
          | Panic \<Rightarrow> Panic))"

definition stateHandleReplicaRead ::
  "db_faults \<Rightarrow> 64 word \<Rightarrow> state \<Rightarrow> ReplicaRead \<Rightarrow> (state_error, Box) outcome" where
  "stateHandleReplicaRead f cur s replicaRead =
     (case db s of
        None \<Rightarrow> Err ErrDBClosed
      | Some m \<Rightarrow> read_epochs f m (rr_BoxID replicaRead) (keptEpochs cur))"

text \<open>
  The existence check of a write over the kept epochs: \<open>Ok True\<close> for a stored box with the same payload and
  signature, \<open>Ok False\<close> when nothing is stored.
\<close>

fun check_existing ::
  "db_faults \<Rightarrow> (bytes \<rightharpoonup> bytes) \<Rightarrow> bytes \<Rightarrow> bytes \<Rightarrow> bytes \<Rightarrow> 64 word list \<Rightarrow> (state_error, bool) outcome" where
  "check_existing f m boxID signature payload [] = Ok False"
| "check_existing f m boxID signature payload (ep # eps) =
     (case db_Get f m (boxKey ep boxID) of
        None \<Rightarrow> Err errCheckExisting
      | Some existing \<Rightarrow>
          if length existing = 0 then check_existing f m boxID signature payload eps
          else (case BoxFromBytes existing of
            Ok storedBox \<Rightarrow>
              if box_Payload storedBox = payload \<and> box_Signature storedBox = signature then Ok True
              else Err ErrBoxAlreadyExists
          | Err e \<Rightarrow> Err ErrBoxAlreadyExists
          | Panic \<Rightarrow> Panic))"

definition put_box ::
  "db_faults \<Rightarrow> 64 word \<Rightarrow> state \<Rightarrow> (bytes \<rightharpoonup> bytes) \<Rightarrow> Box \<Rightarrow> (state_error, unit) outcome \<times> state" where
  "put_box f cur s m box =
     (let key = boxKey cur (box_BoxID box)
      in if put_fails f key then (Err errPut, s) else (Ok (), s\<lparr>db := Some (m(key \<mapsto> Box_Bytes box))\<rparr>))"

text \<open>The write arrives as a wire command, here by its fields; the lock of the box makes the rest one step.\<close>

definition state_handleReplicaWrite ::
  "db_faults \<Rightarrow> 64 word \<Rightarrow> state \<Rightarrow> bytes \<Rightarrow> bytes \<Rightarrow> bytes \<Rightarrow> (state_error, unit) outcome \<times> state" where
  "state_handleReplicaWrite f cur s boxID signature payload =
     (case db s of
        None \<Rightarrow> (Err errDatabaseClosed, s)
      | Some m \<Rightarrow>
          if storageFull s then (Err ErrStorageFull, s)
          else (case check_existing f m boxID signature payload (keptEpochs cur) of
            Err e \<Rightarrow> (Err e, s)
          | Panic \<Rightarrow> (Panic, s)
          | Ok True \<Rightarrow> (Ok (), s)
          | Ok False \<Rightarrow>
              put_box f cur s m
                \<lparr>box_BoxID = go_copy (zeros 32) boxID, box_PayloadLen = of_nat (length payload),
                 box_Payload = payload, box_Signature = go_copy (zeros 64) signature\<rparr>))"

definition handleReplicaTombstone ::
  "db_faults \<Rightarrow> 64 word \<Rightarrow> state \<Rightarrow> bytes \<Rightarrow> bytes \<Rightarrow> (state_error, unit) outcome \<times> state" where
  "handleReplicaTombstone f cur s boxID signature =
     (case db s of
        None \<Rightarrow> (Err errDatabaseClosed, s)
      | Some m \<Rightarrow>
          put_box f cur s m
            \<lparr>box_BoxID = go_copy (zeros 32) boxID, box_PayloadLen = 0, box_Payload = [],
             box_Signature = go_copy (zeros 64) signature\<rparr>)"

text \<open>\<open>DeleteRangeCF\<close> removes the keys from \<open>start\<close> up to but not including \<open>end\<close>, in byte order.\<close>

definition DeleteRange :: "bytes \<Rightarrow> bytes \<Rightarrow> (bytes \<rightharpoonup> bytes) \<Rightarrow> (bytes \<rightharpoonup> bytes)" where
  "DeleteRange start stop m = (\<lambda>k. if start \<le> k \<and> k < stop then None else m k)"

definition WipeStaleBoxes :: "db_faults \<Rightarrow> 64 word \<Rightarrow> state \<Rightarrow> (state_error, unit) outcome \<times> state" where
  "WipeStaleBoxes f cur s =
     (case db s of
        None \<Rightarrow> (Err errDatabaseClosed, s)
      | Some m \<Rightarrow>
          if cur < 2 then (Ok (), s)
          else
            let cutoff = cur - 1 in
            if delete_fails f then (Err errDeleteRange, s)
            else (Ok (), s\<lparr>db := Some (DeleteRange (epochPrefix 0) (epochPrefix cutoff) m)\<rparr>))"

text \<open>\<open>used\<close> and \<open>avail\<close> are the sizes that RocksDB and the file system report, \<open>None\<close> for a failed probe.\<close>

definition refreshStorageFull ::
  "int \<Rightarrow> int \<Rightarrow> 64 word option \<Rightarrow> 64 word option \<Rightarrow> state \<Rightarrow> state" where
  "refreshStorageFull maxStorageBytes minFreeStorageBytes used avail s =
     (let full = 0 < maxStorageBytes \<and> (case used of None \<Rightarrow> False | Some u \<Rightarrow> word_of_int maxStorageBytes \<le> u);
          full = full \<or> 0 < minFreeStorageBytes \<and>
            (case avail of None \<Rightarrow> False | Some a \<Rightarrow> a < word_of_int minFreeStorageBytes)
      in s\<lparr>storageFull := full\<rparr>)"

definition state_Close :: "state \<Rightarrow> state" where
  "state_Close s = s\<lparr>db := None\<rparr>"

section \<open>The handlers\<close>

record 'k sig_scheme =
  sig_UnmarshalBinaryPublicKey :: "bytes \<Rightarrow> 'k option"
  sig_Verify :: "'k \<Rightarrow> bytes \<Rightarrow> bytes \<Rightarrow> bool"

definition write_reply :: "byte \<Rightarrow> ReplicaWriteReply" where
  "write_reply code = \<lparr>rwr_ErrorCode = code\<rparr>"

definition handleTombstone ::
  "'k sig_scheme \<Rightarrow> db_faults \<Rightarrow> 64 word \<Rightarrow> state \<Rightarrow> ReplicaWrite \<Rightarrow> ReplicaWriteReply \<times> state" where
  "handleTombstone S f cur s replicaWrite =
     (case sig_UnmarshalBinaryPublicKey S (trw_BoxID replicaWrite) of
        None \<Rightarrow> (write_reply ReplicaErrorInvalidBoxID, s)
      | Some verifyKey \<Rightarrow>
          if \<not> sig_Verify S verifyKey [] (trw_Signature replicaWrite)
          then (write_reply ReplicaErrorInvalidSignature, s)
          else (case handleReplicaTombstone f cur s (trw_BoxID replicaWrite) (trw_Signature replicaWrite) of
            (Ok _, s') \<Rightarrow> (write_reply ReplicaSuccess, s')
          | (_, s') \<Rightarrow> (write_reply ReplicaErrorDatabaseFailure, s')))"

text \<open>\<open>geo\<close> is the result of \<open>NewGeometryFromSphinx\<close> for the replica's configuration, \<open>None\<close> for an error.\<close>

definition handleReplicaWrite ::
  "'k sig_scheme \<Rightarrow> PGeometry option \<Rightarrow> db_faults \<Rightarrow> 64 word \<Rightarrow> state \<Rightarrow> ReplicaWrite
     \<Rightarrow> ReplicaWriteReply \<times> state" where
  "handleReplicaWrite S geo f cur s replicaWrite =
     (if trw_PayloadLen replicaWrite = 0 \<or> length (trw_Payload replicaWrite) = 0
      then handleTombstone S f cur s replicaWrite
      else (case geo of
        None \<Rightarrow> (write_reply ReplicaErrorInternalError, s)
      | Some pigeonholeGeo \<Rightarrow>
          if length (trw_Payload replicaWrite) \<noteq> CalculateBoxCiphertextLength pigeonholeGeo
          then (write_reply ReplicaErrorInvalidPayload, s)
          else (case sig_UnmarshalBinaryPublicKey S (trw_BoxID replicaWrite) of
            None \<Rightarrow> (write_reply ReplicaErrorInvalidBoxID, s)
          | Some verifyKey \<Rightarrow>
              if \<not> sig_Verify S verifyKey (trw_Payload replicaWrite) (trw_Signature replicaWrite)
              then (write_reply ReplicaErrorInvalidSignature, s)
              else (case state_handleReplicaWrite f cur s (trw_BoxID replicaWrite) (trw_Signature replicaWrite)
                  (trw_Payload replicaWrite) of
                (Ok _, s') \<Rightarrow> (write_reply ReplicaSuccess, s')
              | (Err ErrBoxAlreadyExists, s') \<Rightarrow> (write_reply ReplicaErrorBoxAlreadyExists, s')
              | (Err ErrStorageFull, s') \<Rightarrow> (write_reply ReplicaErrorStorageFull, s')
              | (_, s') \<Rightarrow> (write_reply ReplicaErrorDatabaseFailure, s')))))"

definition read_error_reply :: "byte \<Rightarrow> bytes \<Rightarrow> bytes \<Rightarrow> ReplicaReadReply" where
  "read_error_reply code boxID signature =
     \<lparr>rrr_ErrorCode = code, rrr_BoxID = boxID, rrr_Signature = signature, rrr_PayloadLen = 0, rrr_Payload = []\<rparr>"

definition handleReplicaRead ::
  "db_faults \<Rightarrow> 64 word \<Rightarrow> state \<Rightarrow> ReplicaRead \<Rightarrow> (state_error, ReplicaReadReply) outcome" where
  "handleReplicaRead f cur s replicaRead =
     (case stateHandleReplicaRead f cur s replicaRead of
        Ok resp \<Rightarrow>
          if length (box_Payload resp) = 0
          then Ok (read_error_reply ReplicaErrorTombstone (box_BoxID resp) (box_Signature resp))
          else Ok \<lparr>rrr_ErrorCode = ReplicaSuccess, rrr_BoxID = box_BoxID resp, rrr_Signature = box_Signature resp,
                rrr_PayloadLen = of_nat (length (box_Payload resp)), rrr_Payload = box_Payload resp\<rparr>
      | Err ErrBoxIDNotFound \<Rightarrow> Ok (read_error_reply ReplicaErrorBoxIDNotFound (rr_BoxID replicaRead) (zeros 64))
      | Err _ \<Rightarrow> Ok (read_error_reply ReplicaErrorDatabaseFailure (zeros 32) (zeros 64))
      | Panic \<Rightarrow> Panic)"


section \<open>Keys are ordered by epoch\<close>

lemma lex_snoc:
  fixes xs ys :: bytes
  assumes "length xs = length ys"
  shows "xs @ [x] < ys @ [y] \<longleftrightarrow> xs < ys \<or> xs = ys \<and> x < y"
  using assms by (induction xs ys rule: list_induct2) auto

lemma lex_append_left:
  fixes xs ys :: bytes
  assumes "length xs = length ys"
  shows "xs @ zs < ys \<longleftrightarrow> xs < ys"
  using assms by (induction xs ys rule: list_induct2) auto

lemma lex_le_append:
  fixes xs ys :: bytes
  assumes "length xs = length ys" "xs \<le> ys"
  shows "xs \<le> ys @ zs"
  using assms by (induction xs ys rule: list_induct2) auto

lemma be_put_less: "v < 256 ^ n \<Longrightarrow> w < 256 ^ n \<Longrightarrow> be_put n v < be_put n w \<longleftrightarrow> v < w"
proof (induction n arbitrary: v w)
  case (Suc n)
  have b: "v div 256 < 256 ^ n" "w div 256 < 256 ^ n" using Suc.prems by (simp_all add: less_mult_imp_div_less mult.commute)
  have eq: "be_put n (v div 256) = be_put n (w div 256) \<longleftrightarrow> v div 256 = w div 256"
    using be_get_put [of n "v div 256"] be_get_put [of n "w div 256"] b by (metis mod_less)
  have lt: "(of_nat v :: byte) < of_nat w \<longleftrightarrow> v mod 256 < w mod 256"
    by (simp add: word_less_nat_alt unat_of_nat)
  have "v < w \<longleftrightarrow> v div 256 < w div 256 \<or> v div 256 = w div 256 \<and> v mod 256 < w mod 256"
    using div_mult_mod_eq [of v 256] div_mult_mod_eq [of w 256] mod_less_divisor [of 256 v] mod_less_divisor [of 256 w]
    by linarith
  then show ?case using Suc.IH [OF b] by (simp add: lex_snoc eq lt)
qed simp

lemma epochPrefix_less: "epochPrefix a < epochPrefix b \<longleftrightarrow> a < b"
  unfolding epochPrefix_def PutUint64_def word_less_nat_alt
  using unsigned_less [of a] unsigned_less [of b] by (subst be_put_less) simp_all

lemma length_epochPrefix [simp]: "length (epochPrefix e) = 8"
  by (simp add: epochPrefix_def)

lemma epochPrefix_inj [simp]: "epochPrefix a = epochPrefix b \<longleftrightarrow> a = b"
  using epochPrefix_less by (metis less_irrefl neqE)

lemma boxKey_eq: "boxKey e i = epochPrefix e @ i"
  by (simp add: boxKey_def epochPrefix_def)

lemma boxKey_inj [simp]: "boxKey e i = boxKey e' i' \<longleftrightarrow> e = e' \<and> i = i'"
  by (simp add: boxKey_eq)

text \<open>The range that the garbage collection deletes holds exactly the boxes of older epochs.\<close>

lemma DeleteRange_boxKey:
  "DeleteRange (epochPrefix 0) (epochPrefix cutoff) m (boxKey ep i) = (if ep < cutoff then None else m (boxKey ep i))"
proof -
  have "epochPrefix 0 \<le> epochPrefix ep" using epochPrefix_less [of ep 0] by (simp add: not_less)
  then have "epochPrefix 0 \<le> boxKey ep i" by (simp add: boxKey_eq lex_le_append)
  then show ?thesis by (simp add: DeleteRange_def boxKey_eq lex_append_left epochPrefix_less)
qed


section \<open>The store invariant\<close>

definition authentic :: "'k sig_scheme \<Rightarrow> Box \<Rightarrow> bool" where
  "authentic S b \<longleftrightarrow>
     (case sig_UnmarshalBinaryPublicKey S (box_BoxID b) of
        None \<Rightarrow> False
      | Some vk \<Rightarrow> sig_Verify S vk (box_Payload b) (box_Signature b))"

definition stored :: "state \<Rightarrow> 64 word \<Rightarrow> bytes \<Rightarrow> Box option" where
  "stored s ep boxID =
     (case db s of
        None \<Rightarrow> None
      | Some m \<Rightarrow> (case m (boxKey ep boxID) of None \<Rightarrow> None | Some v \<Rightarrow> ok_value (ParseBox v)))"

definition newest :: "state \<Rightarrow> 64 word \<Rightarrow> bytes \<Rightarrow> Box option" where
  "newest s cur boxID =
     (case stored s cur boxID of
        Some b \<Rightarrow> Some b
      | None \<Rightarrow> if cur = 0 then None else stored s (cur - 1) boxID)"

text \<open>
  Every entry is the encoding of an authentic box under its own key, from no later than the current epoch, and
  a box that follows an entry of the previous epoch is a tombstone.
\<close>

definition store_ok :: "'k sig_scheme \<Rightarrow> 64 word \<Rightarrow> state \<Rightarrow> bool" where
  "store_ok S cur s \<longleftrightarrow>
     (\<exists>m. db s = Some m \<and>
       (\<forall>k v. m k = Some v \<longrightarrow>
          (\<exists>ep b. k = boxKey ep (box_BoxID b) \<and> ep \<le> cur \<and> Box_MarshalBinary b = Ok v \<and> authentic S b))) \<and>
     (\<forall>ep i b b'. 0 < ep \<longrightarrow> stored s ep i = Some b \<longrightarrow> stored s (ep - 1) i = Some b' \<longrightarrow> box_Payload b = [])"

definition empty_state :: state where
  "empty_state = \<lparr>db = Some Map.empty, storageFull = False\<rparr>"

lemma store_ok_empty: "store_ok S cur empty_state"
  by (simp add: store_ok_def empty_state_def stored_def)

lemma ParseBox_marshal: "Box_MarshalBinary b = Ok v \<Longrightarrow> ParseBox v = Ok b"
  using box_codec.parse_marshal [of b v "[]"] by (simp add: ParseBox_def)

lemma store_ok_entry:
  assumes "store_ok S cur s" "db s = Some m" "m (boxKey ep i) = Some v"
  obtains b where "stored s ep i = Some b" "ParseBox v = Ok b" "v \<noteq> []" "box_BoxID b = i" "authentic S b" "ep \<le> cur"
    "Box_MarshalBinary b = Ok v"
proof -
  from assms obtain b where b: "i = box_BoxID b" "ep \<le> cur" "Box_MarshalBinary b = Ok v" "authentic S b"
    unfolding store_ok_def by fastforce
  moreover have "v \<noteq> []" using b(3) box_codec.marshal_nonempty [of b] by auto
  moreover note p = ParseBox_marshal [OF b(3)]
  moreover have "stored s ep i = Some b" using assms(2,3) p by (simp add: stored_def)
  ultimately show ?thesis using that by blast
qed

lemma store_ok_Get:
  assumes ok: "store_ok S cur s" and m: "db s = Some m"
  shows "db_Get f m (boxKey ep i) =
    (if get_fails f (boxKey ep i) then None else Some (case stored s ep i of None \<Rightarrow> [] | Some b \<Rightarrow> Box_Bytes b))"
proof (cases "m (boxKey ep i)")
  case None
  then show ?thesis using m by (simp add: db_Get_def stored_def)
next
  case (Some v)
  show ?thesis by (rule store_ok_entry [OF ok m Some]) (simp add: db_Get_def Box_Bytes_def Some)
qed

lemma stored_Bytes:
  assumes ok: "store_ok S cur s" and st: "stored s ep i = Some b"
  shows "BoxFromBytes (Box_Bytes b) = Ok b" "Box_Bytes b \<noteq> []" "box_BoxID b = i" "authentic S b" "ep \<le> cur"
    "Box_MarshalBinary b = Ok (Box_Bytes b)"
proof -
  from st obtain m v where m: "db s = Some m" "m (boxKey ep i) = Some v"
    by (auto simp: stored_def split: option.splits)
  obtain c where c: "stored s ep i = Some c" "ParseBox v = Ok c" "v \<noteq> []" "box_BoxID c = i" "authentic S c" "ep \<le> cur"
    "Box_MarshalBinary c = Ok v"
    by (rule store_ok_entry [OF ok m])
  then have "c = b" using st by simp
  with c show "BoxFromBytes (Box_Bytes b) = Ok b" "Box_Bytes b \<noteq> []" "box_BoxID b = i" "authentic S b" "ep \<le> cur"
    "Box_MarshalBinary b = Ok (Box_Bytes b)"
    by (simp_all add: Box_Bytes_def BoxFromBytes_def)
qed

lemma read_newest:
  assumes ok: "store_ok S cur s"
  shows "stateHandleReplicaRead no_faults cur s r =
    (case newest s cur (rr_BoxID r) of None \<Rightarrow> Err ErrBoxIDNotFound | Some b \<Rightarrow> Ok b)"
proof -
  from ok obtain m where m: "db s = Some m" unfolding store_ok_def by blast
  show ?thesis
    by (auto simp: stateHandleReplicaRead_def m keptEpochs_def newest_def store_ok_Get [OF ok m] no_faults_def
        stored_Bytes [OF ok] split: option.splits)
qed

lemma check_newest:
  assumes ok: "store_ok S cur s" and m: "db s = Some m"
  shows "check_existing f m i sig pl (keptEpochs cur) = Err errCheckExisting \<or>
    check_existing f m i sig pl (keptEpochs cur) =
      (case newest s cur i of
         None \<Rightarrow> Ok False
       | Some b \<Rightarrow> if box_Payload b = pl \<and> box_Signature b = sig then Ok True else Err ErrBoxAlreadyExists)"
  by (auto simp: keptEpochs_def newest_def store_ok_Get [OF ok m] stored_Bytes [OF ok] split: option.splits)

lemma check_newest_no_faults:
  assumes ok: "store_ok S cur s" and m: "db s = Some m" and f: "f = no_faults"
  shows "check_existing f m i sig pl (keptEpochs cur) =
      (case newest s cur i of
         None \<Rightarrow> Ok False
       | Some b \<Rightarrow> if box_Payload b = pl \<and> box_Signature b = sig then Ok True else Err ErrBoxAlreadyExists)"
  by (auto simp: f no_faults_def keptEpochs_def newest_def store_ok_Get [OF ok m] stored_Bytes [OF ok] split: option.splits)

section \<open>One box is stored\<close>

definition stored_put :: "64 word \<Rightarrow> Box \<Rightarrow> state \<Rightarrow> state" where
  "stored_put cur b s = s\<lparr>db := Some ((the (db s))(boxKey cur (box_BoxID b) \<mapsto> Box_Bytes b))\<rparr>"

lemma stored_stored_put:
  assumes "db s = Some m" "Box_MarshalBinary b = Ok v"
  shows "stored (stored_put cur b s) ep i = (if ep = cur \<and> i = box_BoxID b then Some b else stored s ep i)"
  using assms by (auto simp: stored_def stored_put_def Box_Bytes_def ParseBox_marshal)

lemma newest_stored_put:
  assumes "db s = Some m" "Box_MarshalBinary b = Ok v"
  shows "newest (stored_put cur b s) cur i = (if i = box_BoxID b then Some b else newest s cur i)"
  by (simp add: newest_def stored_stored_put [OF assms] split: option.split)

lemma pred_less: "0 < (ep :: 64 word) \<Longrightarrow> ep - 1 < ep"
proof -
  assume "0 < ep"
  then have n: "ep \<noteq> 0" by auto
  then have "unat ep \<noteq> 0" by (simp add: unat_eq_0)
  then show ?thesis using unat_minus_one [OF n] by (simp add: word_less_nat_alt)
qed

lemma store_ok_put:
  assumes ok: "store_ok S cur s" and b: "Box_MarshalBinary b = Ok v" "authentic S b"
    and new: "box_Payload b = [] \<or> newest s cur (box_BoxID b) = None"
  shows "store_ok S cur (stored_put cur b s)"
proof -
  from ok obtain m where m: "db s = Some m"
    and ent: "\<And>k v. m k = Some v \<Longrightarrow>
      \<exists>ep b. k = boxKey ep (box_BoxID b) \<and> ep \<le> cur \<and> Box_MarshalBinary b = Ok v \<and> authentic S b"
    and tomb: "\<And>ep i b b'. 0 < ep \<Longrightarrow> stored s ep i = Some b \<Longrightarrow> stored s (ep - 1) i = Some b' \<Longrightarrow> box_Payload b = []"
    unfolding store_ok_def by blast
  have later: "\<not> (0 < ep \<and> ep - 1 = cur)" if "stored s ep i = Some x" for ep i x
  proof
    assume "0 < ep \<and> ep - 1 = cur"
    then have "cur < ep" using pred_less by blast
    with stored_Bytes(5) [OF ok that] show False by simp
  qed
  have m': "db (stored_put cur b s) = Some (m(boxKey cur (box_BoxID b) \<mapsto> v))"
    using m b(1) by (simp add: stored_put_def Box_Bytes_def)
  have e: "\<exists>ep c. k = boxKey ep (box_BoxID c) \<and> ep \<le> cur \<and> Box_MarshalBinary c = Ok w \<and> authentic S c"
    if "(m(boxKey cur (box_BoxID b) \<mapsto> v)) k = Some w" for k w
    using ent [of k w] b that by (cases "k = boxKey cur (box_BoxID b)") auto
  have t: "box_Payload c = []"
    if "0 < ep" "stored (stored_put cur b s) ep i = Some c" "stored (stored_put cur b s) (ep - 1) i = Some c'" for ep i c c'
    using that tomb [of ep i c c'] later [of ep i c] new
    unfolding stored_stored_put [OF m b(1)] by (auto simp: newest_def split: if_splits option.splits)
  show ?thesis unfolding store_ok_def using m' e t by blast
qed


section \<open>The store refines a write-once register\<close>

text \<open>What a replica promises for one box: it can be written once and deleted, and a deletion is final.\<close>

datatype register = Absent | Holds bytes bytes | Deleted

datatype request = Invalid byte | StoreReq bytes bytes | DeleteReq

fun reg_step :: "bool \<Rightarrow> register \<Rightarrow> request \<Rightarrow> byte \<times> register" where
  "reg_step full r (Invalid code) = (code, r)"
| "reg_step full r DeleteReq = (ReplicaSuccess, Deleted)"
| "reg_step full r (StoreReq payload signature) =
     (if full then (ReplicaErrorStorageFull, r)
      else case r of
        Absent \<Rightarrow> (ReplicaSuccess, Holds payload signature)
      | Holds p g \<Rightarrow> (if p = payload \<and> g = signature then ReplicaSuccess else ReplicaErrorBoxAlreadyExists, r)
      | Deleted \<Rightarrow> (ReplicaErrorBoxAlreadyExists, r))"

definition register_of :: "state \<Rightarrow> 64 word \<Rightarrow> bytes \<Rightarrow> register" where
  "register_of s cur i =
     (case newest s cur i of
        None \<Rightarrow> Absent
      | Some b \<Rightarrow> if box_Payload b = [] then Deleted else Holds (box_Payload b) (box_Signature b))"

definition verifies :: "'k sig_scheme \<Rightarrow> bytes \<Rightarrow> bytes \<Rightarrow> bytes \<Rightarrow> request \<Rightarrow> request" where
  "verifies S boxID payload signature req =
     (case sig_UnmarshalBinaryPublicKey S boxID of
        None \<Rightarrow> Invalid ReplicaErrorInvalidBoxID
      | Some vk \<Rightarrow> if sig_Verify S vk payload signature then req else Invalid ReplicaErrorInvalidSignature)"

definition request_of :: "'k sig_scheme \<Rightarrow> PGeometry option \<Rightarrow> ReplicaWrite \<Rightarrow> request" where
  "request_of S geo w =
     (if trw_PayloadLen w = 0 \<or> trw_Payload w = [] then verifies S (trw_BoxID w) [] (trw_Signature w) DeleteReq
      else case geo of
        None \<Rightarrow> Invalid ReplicaErrorInternalError
      | Some g \<Rightarrow>
          if length (trw_Payload w) \<noteq> CalculateBoxCiphertextLength g then Invalid ReplicaErrorInvalidPayload
          else verifies S (trw_BoxID w) (trw_Payload w) (trw_Signature w) (StoreReq (trw_Payload w) (trw_Signature w)))"

text \<open>The array types of the message, and a geometry whose boxes fit the 32-bit length field.\<close>

definition typed_write :: "ReplicaWrite \<Rightarrow> bool" where
  "typed_write w \<longleftrightarrow> length (trw_BoxID w) = 32 \<and> length (trw_Signature w) = 64"

definition geo_fits :: "PGeometry option \<Rightarrow> bool" where
  "geo_fits geo \<longleftrightarrow> (case geo of None \<Rightarrow> True | Some g \<Rightarrow> CalculateBoxCiphertextLength g < 2 ^ 32)"

definition box_of :: "bytes \<Rightarrow> bytes \<Rightarrow> bytes \<Rightarrow> Box" where
  "box_of i g p = \<lparr>box_BoxID = i, box_PayloadLen = of_nat (length p), box_Payload = p, box_Signature = g\<rparr>"

lemma CalculateBoxCiphertextLength_pos [simp]: "CalculateBoxCiphertextLength g \<noteq> 0"
  by (simp add: CalculateBoxCiphertextLength_def lengthPrefixSize_def)

lemma box_of_simps [simp]:
  "box_BoxID (box_of i g p) = i" "box_Payload (box_of i g p) = p" "box_Signature (box_of i g p) = g"
  by (simp_all add: box_of_def)

lemma box_of_marshal:
  assumes "length i = 32" "length g = 64" "length p < 2 ^ 32"
  shows "\<exists>v. Box_MarshalBinary (box_of i g p) = Ok v"
  using assms by (simp add: Box_MarshalBinary_def Box_validate_def Box_encodeBinary_def box_of_def slice_def unat_of_nat)

lemma put_box_eq:
  assumes "db s = Some m"
  shows "put_box f cur s m b =
    (if put_fails f (boxKey cur (box_BoxID b)) then (Err errPut, s) else (Ok (), stored_put cur b s))"
  using assms by (simp add: put_box_def stored_put_def Let_def)

lemma state_write_cases:
  assumes ok: "store_ok S cur s" and len: "length i = 32" "length g = 64"
  shows "(f \<noteq> no_faults \<and> (\<exists>e. state_handleReplicaWrite f cur s i g p = (Err e, s) \<and> e \<in> {errCheckExisting, errPut})) \<or>
    state_handleReplicaWrite f cur s i g p =
      (if storageFull s then (Err ErrStorageFull, s)
       else case newest s cur i of
         None \<Rightarrow> (Ok (), stored_put cur (box_of i g p) s)
       | Some b \<Rightarrow> if box_Payload b = p \<and> box_Signature b = g then (Ok (), s) else (Err ErrBoxAlreadyExists, s))"
proof -
  from ok obtain m where m: "db s = Some m" unfolding store_ok_def by blast
  have box: "\<lparr>box_BoxID = go_copy (zeros 32) i, box_PayloadLen = of_nat (length p), box_Payload = p,
      box_Signature = go_copy (zeros 64) g\<rparr> = box_of i g p"
    using len by (simp add: box_of_def go_copy_same_length)
  show ?thesis
    using check_newest [OF ok m, of f i g p] check_newest_no_faults [OF ok m, of f i g p]
    unfolding state_handleReplicaWrite_def m option.case box put_box_eq [OF m]
    by (auto simp: no_faults_def split: option.splits)
qed


lemma register_put:
  assumes "db s = Some m" "Box_MarshalBinary b = Ok v"
  shows "register_of (stored_put cur b s) cur i =
    (if i = box_BoxID b then (if box_Payload b = [] then Deleted else Holds (box_Payload b) (box_Signature b))
     else register_of s cur i)"
  by (simp add: register_of_def newest_stored_put [OF assms])

lemma storageFull_put [simp]: "storageFull (stored_put cur b s) = storageFull s"
  by (simp add: stored_put_def)

text \<open>What a step of the register means for the store: the state is unchanged, or one box was put.\<close>

definition box_step ::
  "'k sig_scheme \<Rightarrow> 64 word \<Rightarrow> state \<Rightarrow> bytes \<Rightarrow> request \<Rightarrow> byte \<Rightarrow> state \<Rightarrow> bool" where
  "box_step S cur s i req code s' \<longleftrightarrow>
     (code, register_of s' cur i) = reg_step (storageFull s) (register_of s cur i) req \<and>
     (s' = s \<or>
      (\<exists>b v. s' = stored_put cur b s \<and> box_BoxID b = i \<and> Box_MarshalBinary b = Ok v \<and> authentic S b \<and>
        (box_Payload b = [] \<or> newest s cur i = None)))"

lemma box_step_Invalid: "box_step S cur s i (Invalid code) code s"
  by (simp add: box_step_def)

lemma box_step_verifies:
  assumes "authentic S (box_of i g p) \<Longrightarrow> box_step S cur s i req code s'"
    and "\<not> authentic S (box_of i g p) \<Longrightarrow>
      s' = s \<and> code = (if sig_UnmarshalBinaryPublicKey S i = None then ReplicaErrorInvalidBoxID else ReplicaErrorInvalidSignature)"
  shows "box_step S cur s i (verifies S i p g req) code s'"
  using assms by (auto simp: verifies_def authentic_def box_step_Invalid split: option.splits if_splits)

lemma tombstone_step:
  assumes ok: "store_ok S cur s" and typed: "typed_write w" and h: "handleTombstone S f cur s w = (reply, s')"
  shows "(f \<noteq> no_faults \<and> reply = write_reply ReplicaErrorDatabaseFailure \<and> s' = s) \<or>
    box_step S cur s (trw_BoxID w) (verifies S (trw_BoxID w) [] (trw_Signature w) DeleteReq) (rwr_ErrorCode reply) s'"
proof -
  from ok obtain m where m: "db s = Some m" unfolding store_ok_def by blast
  let ?b = "box_of (trw_BoxID w) (trw_Signature w) []"
  have len: "length (trw_BoxID w) = 32" "length (trw_Signature w) = 64" using typed by (simp_all add: typed_write_def)
  obtain v where v: "Box_MarshalBinary ?b = Ok v" using box_of_marshal [OF len, of "[]"] by auto
  have "\<lparr>box_BoxID = go_copy (zeros 32) (trw_BoxID w), box_PayloadLen = 0, box_Payload = [],
      box_Signature = go_copy (zeros 64) (trw_Signature w)\<rparr> = ?b"
    using len by (simp add: box_of_def go_copy_same_length)
  then have t: "handleReplicaTombstone f cur s (trw_BoxID w) (trw_Signature w) =
      (if put_fails f (boxKey cur (trw_BoxID w)) then (Err errPut, s) else (Ok (), stored_put cur ?b s))"
    by (simp add: handleReplicaTombstone_def m put_box_eq [OF m])
  have put: "box_step S cur s (trw_BoxID w) DeleteReq ReplicaSuccess (stored_put cur ?b s)" if "authentic S ?b"
    using v that by (auto simp: box_step_def register_put [OF m v])
  show ?thesis
  proof (cases "authentic S ?b \<and> put_fails f (boxKey cur (trw_BoxID w))")
    case True
    then show ?thesis using h t
      by (auto simp: handleTombstone_def authentic_def no_faults_def split: option.splits)
  next
    case False
    have "box_step S cur s (trw_BoxID w) (verifies S (trw_BoxID w) [] (trw_Signature w) DeleteReq) (rwr_ErrorCode reply) s'"
      by (rule box_step_verifies)
        (use h t put False in \<open>auto simp: handleTombstone_def authentic_def write_reply_def split: option.splits if_splits\<close>)
    then show ?thesis ..
  qed
qed

lemma store_req_step:
  assumes ok: "store_ok S cur s" and typed: "typed_write w" and p: "trw_Payload w = p" "p \<noteq> []" "length p < 2 ^ 32"
    and auth: "authentic S (box_of (trw_BoxID w) (trw_Signature w) p)"
    and h: "state_handleReplicaWrite f cur s (trw_BoxID w) (trw_Signature w) p = (res, s')"
  shows "(f \<noteq> no_faults \<and> (\<exists>e. res = Err e \<and> e \<in> {errCheckExisting, errPut}) \<and> s' = s) \<or>
    ((res = Ok () \<and> box_step S cur s (trw_BoxID w) (StoreReq p (trw_Signature w)) ReplicaSuccess s') \<or>
     (res = Err ErrStorageFull \<and> box_step S cur s (trw_BoxID w) (StoreReq p (trw_Signature w)) ReplicaErrorStorageFull s') \<or>
     (res = Err ErrBoxAlreadyExists \<and>
        box_step S cur s (trw_BoxID w) (StoreReq p (trw_Signature w)) ReplicaErrorBoxAlreadyExists s'))"
proof -
  from ok obtain m where m: "db s = Some m" unfolding store_ok_def by blast
  let ?b = "box_of (trw_BoxID w) (trw_Signature w) p"
  have len: "length (trw_BoxID w) = 32" "length (trw_Signature w) = 64" using typed by (simp_all add: typed_write_def)
  obtain v where v: "Box_MarshalBinary ?b = Ok v" using box_of_marshal [OF len p(3)] by auto
  have put: "box_step S cur s (trw_BoxID w) (StoreReq p (trw_Signature w)) ReplicaSuccess (stored_put cur ?b s)"
    if "newest s cur (trw_BoxID w) = None" "\<not> storageFull s"
    using v auth p(2) that by (auto simp: box_step_def newest_stored_put [OF m v] register_of_def)
  have keep: "box_step S cur s (trw_BoxID w) (StoreReq p (trw_Signature w))
      (if box_Payload b = p \<and> box_Signature b = trw_Signature w then ReplicaSuccess else ReplicaErrorBoxAlreadyExists) s"
    if "newest s cur (trw_BoxID w) = Some b" "\<not> storageFull s" for b
    using p(2) that by (auto simp: box_step_def register_of_def)
  have full: "box_step S cur s (trw_BoxID w) (StoreReq p (trw_Signature w)) ReplicaErrorStorageFull s" if "storageFull s"
    using that by (simp add: box_step_def)
  show ?thesis
    using state_write_cases [OF ok len, of f p] h put keep full by (auto split: option.splits if_splits)
qed


lemma handleReplicaWrite_step:
  assumes ok: "store_ok S cur s" and typed: "typed_write w" and geo: "geo_fits geo"
    and h: "handleReplicaWrite S geo f cur s w = (reply, s')"
  shows "(f \<noteq> no_faults \<and> reply = write_reply ReplicaErrorDatabaseFailure \<and> s' = s) \<or>
    box_step S cur s (trw_BoxID w) (request_of S geo w) (rwr_ErrorCode reply) s'"
proof (cases "trw_PayloadLen w = 0 \<or> trw_Payload w = []")
  case True
  then show ?thesis using tombstone_step [OF ok typed] h by (simp add: handleReplicaWrite_def request_of_def)
next
  case False
  note pl = False
  show ?thesis
  proof (cases "\<exists>g. geo = Some g \<and> length (trw_Payload w) = CalculateBoxCiphertextLength g")
    case False
    then show ?thesis using h pl
      by (auto simp: handleReplicaWrite_def request_of_def write_reply_def box_step_Invalid split: option.splits)
  next
    case True
    then obtain g where g: "geo = Some g" "length (trw_Payload w) = CalculateBoxCiphertextLength g" by blast
    have len: "length (trw_Payload w) < 2 ^ 32" using g geo by (simp add: geo_fits_def)
    obtain res s'' where st: "state_handleReplicaWrite f cur s (trw_BoxID w) (trw_Signature w) (trw_Payload w) = (res, s'')"
      by fastforce
    have req: "request_of S geo w = verifies S (trw_BoxID w) (trw_Payload w) (trw_Signature w)
        (StoreReq (trw_Payload w) (trw_Signature w))"
      using g pl by (simp add: request_of_def)
    note step = store_req_step [OF ok typed refl _ len _ st]
    show ?thesis
    proof (cases "authentic S (box_of (trw_BoxID w) (trw_Signature w) (trw_Payload w))")
      case True
      then obtain vk where "sig_UnmarshalBinaryPublicKey S (trw_BoxID w) = Some vk"
          "sig_Verify S vk (trw_Payload w) (trw_Signature w)"
        by (auto simp: authentic_def split: option.splits)
      note vk = this
      have "handleReplicaWrite S geo f cur s w = (case (res, s'') of
            (Ok _, s') \<Rightarrow> (write_reply ReplicaSuccess, s')
          | (Err ErrBoxAlreadyExists, s') \<Rightarrow> (write_reply ReplicaErrorBoxAlreadyExists, s')
          | (Err ErrStorageFull, s') \<Rightarrow> (write_reply ReplicaErrorStorageFull, s')
          | (_, s') \<Rightarrow> (write_reply ReplicaErrorDatabaseFailure, s'))"
        using pl g vk st by (simp add: handleReplicaWrite_def)
      moreover have "request_of S geo w = StoreReq (trw_Payload w) (trw_Signature w)"
        unfolding req using vk by (simp add: verifies_def)
      ultimately show ?thesis using h step True pl by (auto simp: write_reply_def)
    next
      case False
      then show ?thesis unfolding req using pl g h
        by (auto simp: handleReplicaWrite_def verifies_def authentic_def write_reply_def box_step_Invalid split: option.splits)
    qed
  qed
qed

lemma box_step_ok:
  assumes ok: "store_ok S cur s" and st: "box_step S cur s i req code s'"
  shows "store_ok S cur s'" "storageFull s' = storageFull s"
    "i' \<noteq> i \<Longrightarrow> register_of s' cur i' = register_of s cur i'"
proof -
  from ok obtain m where m: "db s = Some m" unfolding store_ok_def by blast
  show "store_ok S cur s'" "storageFull s' = storageFull s"
    "i' \<noteq> i \<Longrightarrow> register_of s' cur i' = register_of s cur i'"
    using st store_ok_put [OF ok] ok unfolding box_step_def by (auto simp: register_put [OF m])
qed

fun read_reply_of :: "register \<Rightarrow> byte \<times> bytes" where
  "read_reply_of Absent = (ReplicaErrorBoxIDNotFound, [])"
| "read_reply_of (Holds p g) = (ReplicaSuccess, p)"
| "read_reply_of Deleted = (ReplicaErrorTombstone, [])"

lemma handleReplicaRead_register:
  assumes ok: "store_ok S cur s"
  shows "\<exists>r. handleReplicaRead no_faults cur s q = Ok r \<and>
    (rrr_ErrorCode r, rrr_Payload r) = read_reply_of (register_of s cur (rr_BoxID q)) \<and>
    rrr_BoxID r = rr_BoxID q"
proof (cases "newest s cur (rr_BoxID q)")
  case None
  then show ?thesis by (simp add: handleReplicaRead_def read_newest [OF ok] register_of_def read_error_reply_def)
next
  case (Some b)
  then have "box_BoxID b = rr_BoxID q"
    using stored_Bytes(3) [OF ok] by (auto simp: newest_def split: option.splits if_splits)
  then show ?thesis using Some
    by (simp add: handleReplicaRead_def read_newest [OF ok] register_of_def read_error_reply_def)
qed

text \<open>
  C29. The box store of a replica refines a write-once register per box. For every write or tombstone, whatever
  database calls fail, the handler either answers \<open>ReplicaErrorDatabaseFailure\<close> and changes nothing, or its
  answer and the new content of the box are those of the register: an invalid request is rejected with its
  code, a write to a free box is stored, the same write again succeeds without effect, a different one is
  refused, a valid tombstone deletes for good, and storage pressure blocks writes but not tombstones. The other
  boxes do not change, the invariant of the store is kept, and \<open>handleReplicaRead\<close> reports the register.
\<close>

theorem store_refines_register:
  assumes "store_ok S cur s" "typed_write w" "geo_fits geo" "handleReplicaWrite S geo f cur s w = (reply, s')"
  shows "((f \<noteq> no_faults \<and> rwr_ErrorCode reply = ReplicaErrorDatabaseFailure \<and> s' = s) \<or>
      (rwr_ErrorCode reply, register_of s' cur (trw_BoxID w)) =
        reg_step (storageFull s) (register_of s cur (trw_BoxID w)) (request_of S geo w)) \<and>
    (\<forall>i. i = trw_BoxID w \<or> register_of s' cur i = register_of s cur i) \<and>
    store_ok S cur s' \<and>
    (\<exists>r. handleReplicaRead no_faults cur s' q = Ok r \<and>
      (rrr_ErrorCode r, rrr_Payload r) = read_reply_of (register_of s' cur (rr_BoxID q)) \<and>
      rrr_BoxID r = rr_BoxID q)"
proof -
  have ok: "store_ok S cur s'"
    using handleReplicaWrite_step [OF assms] box_step_ok(1) [OF assms(1)] assms(1) by blast
  show ?thesis
  proof (intro conjI allI)
    show "(f \<noteq> no_faults \<and> rwr_ErrorCode reply = ReplicaErrorDatabaseFailure \<and> s' = s) \<or>
        (rwr_ErrorCode reply, register_of s' cur (trw_BoxID w)) =
          reg_step (storageFull s) (register_of s cur (trw_BoxID w)) (request_of S geo w)"
      using handleReplicaWrite_step [OF assms] unfolding box_step_def write_reply_def by fastforce
    show "i = trw_BoxID w \<or> register_of s' cur i = register_of s cur i" for i
      using handleReplicaWrite_step [OF assms] box_step_ok(3) [OF assms(1), of "trw_BoxID w" _ _ s' i] by blast
  qed (rule ok, rule handleReplicaRead_register [OF ok])
qed


definition toy_sig :: "bytes sig_scheme" where
  "toy_sig = \<lparr>sig_UnmarshalBinaryPublicKey = Some, sig_Verify = \<lambda>k m g. g = k @ k\<rparr>"

definition toy_box_geometry :: PGeometry where
  "toy_box_geometry = \<lparr>MaxPlaintextPayloadLength = 1, CourierQueryReadLength = 0, CourierQueryWriteLength = 0,
     CourierQueryReplyReadLength = 0, CourierQueryReplyWriteLength = 0, pg_NIKEName = ''toy'', SignatureSchemeName = ''Ed25519''\<rparr>"

definition toy_write :: ReplicaWrite where
  "toy_write = \<lparr>trw_BoxID = zeros 32, trw_Signature = zeros 64, trw_PayloadLen = 21, trw_Payload = replicate 21 7\<rparr>"

definition toy_tombstone :: ReplicaWrite where
  "toy_tombstone = toy_write\<lparr>trw_PayloadLen := 0, trw_Payload := []\<rparr>"

lemma toy_typed: "typed_write toy_write" "typed_write toy_tombstone" "geo_fits (Some toy_box_geometry)"
  by (simp_all add: typed_write_def toy_write_def toy_tombstone_def geo_fits_def toy_box_geometry_def CalculateBoxCiphertextLength_def
      lengthPrefixSize_def bacapEncryptionOverhead_def)

lemma toy_requests:
  "request_of toy_sig (Some toy_box_geometry) toy_write = StoreReq (replicate 21 7) (zeros 64)"
  "request_of toy_sig (Some toy_box_geometry) toy_tombstone = DeleteReq"
  by (simp_all add: request_of_def verifies_def toy_sig_def toy_write_def toy_tombstone_def toy_box_geometry_def zeros_append
      CalculateBoxCiphertextLength_def lengthPrefixSize_def bacapEncryptionOverhead_def)

theorem store_refines_register_witness:
  "\<exists>reply s'. handleReplicaWrite toy_sig (Some toy_box_geometry) no_faults 5 empty_state toy_write = (reply, s') \<and>
     rwr_ErrorCode reply = ReplicaSuccess \<and> register_of s' 5 (zeros 32) = Holds (replicate 21 7) (zeros 64) \<and>
     register_of s' 5 [] = Absent"
proof -
  obtain reply s' where h: "handleReplicaWrite toy_sig (Some toy_box_geometry) no_faults 5 empty_state toy_write = (reply, s')"
    by fastforce
  have e: "register_of empty_state 5 i = Absent" "storageFull empty_state = False" for i
    by (simp_all add: register_of_def newest_def stored_def empty_state_def)
  have i: "trw_BoxID toy_write = zeros 32" "zeros 32 \<noteq> ([] :: bytes)" by (simp_all add: toy_write_def flip: length_0_conv)
  show ?thesis
    using store_refines_register [OF store_ok_empty toy_typed(1,3) h] h
    by (intro exI [of _ reply] exI [of _ s']) (simp add: toy_requests e i, metis i(2) e(1))
qed

section \<open>Runs of the store\<close>

text \<open>Requests, garbage collection, samples of the free space and the passage of replica epochs, in any order.\<close>

inductive store_run ::
  "'k sig_scheme \<Rightarrow> PGeometry option \<Rightarrow> state \<Rightarrow> 64 word \<Rightarrow> state \<Rightarrow> 64 word \<Rightarrow> bool"
  for S :: "'k sig_scheme" and geo :: "PGeometry option" and s0 :: state and c0 :: "64 word" where
  run_start: "store_run S geo s0 c0 s0 c0"
| run_write: "store_run S geo s0 c0 s c \<Longrightarrow> typed_write w \<Longrightarrow> handleReplicaWrite S geo f c s w = (reply, s') \<Longrightarrow>
    store_run S geo s0 c0 s' c"
| run_gc: "store_run S geo s0 c0 s c \<Longrightarrow> WipeStaleBoxes f c s = (res, s') \<Longrightarrow> store_run S geo s0 c0 s' c"
| run_watch: "store_run S geo s0 c0 s c \<Longrightarrow> store_run S geo s0 c0 (refreshStorageFull maxB minB used avail s) c"
| run_tick: "store_run S geo s0 c0 s c \<Longrightarrow> c < c' \<Longrightarrow> store_run S geo s0 c0 s c'"

lemma stored_refresh [simp]: "stored (refreshStorageFull maxB minB used avail s) ep i = stored s ep i"
  by (simp add: refreshStorageFull_def stored_def Let_def)

lemma store_ok_refresh: "store_ok S c s \<Longrightarrow> store_ok S c (refreshStorageFull maxB minB used avail s)"
  unfolding store_ok_def stored_refresh by (simp add: refreshStorageFull_def Let_def)

lemma store_ok_mono: "store_ok S c s \<Longrightarrow> c \<le> c' \<Longrightarrow> store_ok S c' s"
  unfolding store_ok_def by (meson order_trans)

lemma stored_wipe:
  assumes "WipeStaleBoxes f c s = (res, s')"
  shows "stored s' ep i = (if res = Ok () \<and> 2 \<le> c \<and> ep < c - 1 then None else stored s ep i)"
  using assms by (auto simp: WipeStaleBoxes_def stored_def DeleteRange_boxKey Let_def split: option.splits if_splits)

lemma store_ok_wipe:
  assumes "WipeStaleBoxes f c s = (res, s')" "store_ok S c s"
  shows "store_ok S c s'"
proof -
  from assms(2) obtain m where m: "db s = Some m"
    and ent: "\<And>k v. m k = Some v \<Longrightarrow>
      \<exists>ep b. k = boxKey ep (box_BoxID b) \<and> ep \<le> c \<and> Box_MarshalBinary b = Ok v \<and> authentic S b"
    and tomb: "\<And>ep i b b'. 0 < ep \<Longrightarrow> stored s ep i = Some b \<Longrightarrow> stored s (ep - 1) i = Some b' \<Longrightarrow> box_Payload b = []"
    unfolding store_ok_def by blast
  have "\<exists>m'. db s' = Some m' \<and> (\<forall>k v. m' k = Some v \<longrightarrow> m k = Some v)"
    using assms(1) m by (auto simp: WipeStaleBoxes_def DeleteRange_def Let_def split: if_splits)
  then obtain m' where m': "db s' = Some m'" "\<And>k v. m' k = Some v \<Longrightarrow> m k = Some v" by blast
  have sub: "stored s ep i = Some b" if "stored s' ep i = Some b" for ep i b
    using that unfolding stored_wipe [OF assms(1)] by (simp split: if_splits)
  show ?thesis
    unfolding store_ok_def
  proof
    show "\<exists>m. db s' = Some m \<and> (\<forall>k v. m k = Some v \<longrightarrow>
        (\<exists>ep b. k = boxKey ep (box_BoxID b) \<and> ep \<le> c \<and> Box_MarshalBinary b = Ok v \<and> authentic S b))"
      using m'(1) ent [OF m'(2)] by blast
    show "\<forall>ep i b b'. 0 < ep \<longrightarrow> stored s' ep i = Some b \<longrightarrow> stored s' (ep - 1) i = Some b' \<longrightarrow> box_Payload b = []"
      using tomb [OF _ sub sub] by blast
  qed
qed


lemma run_ok:
  assumes "store_run S geo s0 c0 s c" "store_ok S c0 s0" "geo_fits geo"
  shows "store_ok S c s \<and> c0 \<le> c"
  using assms
proof (induction rule: store_run.induct)
  case (run_write s c w f reply s')
  then show ?case using handleReplicaWrite_step [of S c s w geo f reply s'] box_step_ok(1) [of S c s] by blast
next
  case (run_gc s c f res s')
  then show ?case using store_ok_wipe by blast
next
  case (run_watch s c maxB minB used avail)
  then show ?case using store_ok_refresh by blast
next
  case (run_tick s c c')
  then show ?case using store_ok_mono [of S c s c'] by (meson less_imp_le order_trans)
qed simp

lemma kept_earlier:
  fixes e c c' :: "64 word"
  assumes "e \<in> set (keptEpochs c')" "e \<le> c" "c < c'"
  shows "e \<in> set (keptEpochs c)"
proof -
  have "c' \<noteq> 0" using assms(3) by auto
  with assms have "e = c' - 1" by (auto simp: keptEpochs_def split: if_splits)
  moreover have "unat (c' - 1) = unat c' - 1" using \<open>c' \<noteq> 0\<close> by (rule unat_minus_one)
  ultimately have "unat e = unat c" using assms(2,3) by (simp add: word_less_nat_alt word_le_nat_alt)
  then have "e = c" by (rule unsigned_word_eqI)
  then show ?thesis by (simp add: keptEpochs_def)
qed

text \<open>The two kept epochs, as a range.\<close>

lemma kept_iff: "e \<in> set (keptEpochs c) \<longleftrightarrow> e \<le> c \<and> \<not> (2 \<le> c \<and> e < c - 1)"
proof (cases "c = 0")
  case False
  have p: "unat (c - 1) = unat c - 1" using False by (rule unat_minus_one)
  have "(e = c \<or> e = c - 1) \<longleftrightarrow> unat e = unat c \<or> unat e = unat c - 1"
    using p by (metis unsigned_word_eqI)
  also have "\<dots> \<longleftrightarrow> unat e \<le> unat c \<and> \<not> (2 \<le> unat c \<and> unat e < unat c - 1)"
    using False by (cases "unat c") (auto simp: unat_eq_0)
  finally show ?thesis using False p by (simp add: keptEpochs_def word_less_nat_alt word_le_nat_alt)
qed (simp add: keptEpochs_def)

text \<open>A box stays in its epoch, unchanged or deleted, as long as the epoch is kept.\<close>

lemma run_keeps:
  assumes "store_run S geo s0 c0 s c" "store_ok S c0 s0" "geo_fits geo" "stored s0 e i = Some b" "e \<in> set (keptEpochs c)"
  shows "\<exists>b'. stored s e i = Some b' \<and> (b' = b \<or> box_Payload b' = []) \<and> (box_Payload b = [] \<longrightarrow> box_Payload b' = [])"
  using assms
proof (induction rule: store_run.induct)
  case (run_write s c w f reply s')
  have ok: "store_ok S c s" using run_ok [OF run_write.hyps(1)] run_write.prems by blast
  then obtain m where m: "db s = Some m" unfolding store_ok_def by blast
  from run_write obtain b' where b': "stored s e i = Some b'" "b' = b \<or> box_Payload b' = []"
    "box_Payload b = [] \<longrightarrow> box_Payload b' = []" by blast
  consider "s' = s" | b2 v where "s' = stored_put c b2 s" "Box_MarshalBinary b2 = Ok v" "box_BoxID b2 = trw_BoxID w"
      "box_Payload b2 = [] \<or> newest s c (trw_BoxID w) = None"
    using handleReplicaWrite_step [OF ok run_write.hyps(2) run_write.prems(2) run_write.hyps(3)]
    unfolding box_step_def by blast
  then show ?case
  proof cases
    case (2 b2 v)
    then show ?thesis using b' by (auto simp: stored_stored_put [OF m 2(2)] newest_def)
  qed (use b' in blast)
next
  case (run_gc s c f res s')
  have "\<not> (2 \<le> c \<and> e < c - 1)"
    using run_gc.prems(4) kept_iff by blast
  then show ?case using run_gc unfolding stored_wipe [OF run_gc.hyps(2)] by auto
next
  case (run_watch s c maxB minB used avail)
  then show ?case by simp
next
  case (run_tick s c c')
  have "e \<le> c" using run_ok [OF run_tick.hyps(1) run_tick.prems(1,2)] stored_Bytes(5) [OF run_tick.prems(1,3)]
    by (blast intro: order_trans)
  then show ?case using run_tick kept_earlier by blast
qed blast

text \<open>
  C30. Boxes are immutable, deletions are final and both are durable. Take any run of the store from an empty
  database, with requests, garbage collections, faults and replica epochs in any order, in which box \<open>i\<close> gets
  stored in epoch \<open>e\<close>. After every further run, as long as \<open>e\<close> is one of the kept epochs, reading the box gives
  the stored box or a tombstone, never something else and never nothing; a tombstone stays one; and what is read
  was signed with the key that is the name of the box. Garbage collection removes exactly the epochs that are no
  longer kept.
\<close>

theorem box_write_once:
  assumes geo: "geo_fits geo" and r1: "store_run S geo empty_state c0 s1 c1" and r2: "store_run S geo s1 c1 s2 c2"
    and st: "stored s1 e i = Some b" and kept: "e \<in> set (keptEpochs c2)"
  shows "(\<exists>b'. stateHandleReplicaRead no_faults c2 s2 \<lparr>rr_BoxID = i\<rparr> = Ok b' \<and>
      (b' = b \<or> box_Payload b' = []) \<and> (box_Payload b = [] \<longrightarrow> box_Payload b' = []) \<and>
      box_BoxID b' = i \<and> authentic S b') \<and>
    (\<forall>s3 e' j. WipeStaleBoxes no_faults c2 s2 = (Ok (), s3) \<longrightarrow>
      stored s3 e' j = (if e' \<in> set (keptEpochs c2) then stored s2 e' j else None))"
proof
  have ok1: "store_ok S c1 s1" using run_ok [OF r1 store_ok_empty geo] by blast
  have ok2: "store_ok S c2 s2" using run_ok [OF r2 ok1 geo] by blast
  obtain b' where b': "stored s2 e i = Some b'" "b' = b \<or> box_Payload b' = []" "box_Payload b = [] \<longrightarrow> box_Payload b' = []"
    using run_keeps [OF r2 ok1 geo st kept] by blast
  have "\<exists>b''. newest s2 c2 i = Some b'' \<and> (b'' = b' \<or> box_Payload b'' = []) \<and> (\<exists>ep. stored s2 ep i = Some b'')"
  proof (cases "e = c2")
    case True
    then show ?thesis using b'(1) by (auto simp: newest_def)
  next
    case False
    then have e: "c2 \<noteq> 0" "e = c2 - 1" using kept by (auto simp: keptEpochs_def split: if_splits)
    then have "box_Payload x = []" if "stored s2 c2 i = Some x" for x
      using ok2 b'(1) that unfolding store_ok_def by (metis word_neq_0_conv)
    then show ?thesis using e b'(1) by (cases "stored s2 c2 i") (auto simp: newest_def)
  qed
  then show "\<exists>b'. stateHandleReplicaRead no_faults c2 s2 \<lparr>rr_BoxID = i\<rparr> = Ok b' \<and>
      (b' = b \<or> box_Payload b' = []) \<and> (box_Payload b = [] \<longrightarrow> box_Payload b' = []) \<and>
      box_BoxID b' = i \<and> authentic S b'"
    using b'(2,3) stored_Bytes(3,4) [OF ok2] by (auto simp: read_newest [OF ok2])
  show "\<forall>s3 e' j. WipeStaleBoxes no_faults c2 s2 = (Ok (), s3) \<longrightarrow>
      stored s3 e' j = (if e' \<in> set (keptEpochs c2) then stored s2 e' j else None)"
  proof (intro allI impI)
    fix s3 e' j
    assume w: "WipeStaleBoxes no_faults c2 s2 = (Ok (), s3)"
    have "e' \<le> c2" if "stored s2 e' j = Some x" for x using stored_Bytes(5) [OF ok2 that] .
    then show "stored s3 e' j = (if e' \<in> set (keptEpochs c2) then stored s2 e' j else None)"
      unfolding stored_wipe [OF w] kept_iff by (cases "stored s2 e' j") auto
  qed
qed


lemma toy_stored:
  obtains reply s1 b where
    "handleReplicaWrite toy_sig (Some toy_box_geometry) no_faults 5 empty_state toy_write = (reply, s1)"
    "stored s1 5 (zeros 32) = Some b" "box_Payload b = replicate 21 7"
    "store_ok toy_sig 5 s1" "register_of s1 5 (zeros 32) = Holds (replicate 21 7) (zeros 64)"
    "box_step toy_sig 5 empty_state (zeros 32) (request_of toy_sig (Some toy_box_geometry) toy_write) (rwr_ErrorCode reply) s1"
proof -
  obtain reply s1 where h: "handleReplicaWrite toy_sig (Some toy_box_geometry) no_faults 5 empty_state toy_write = (reply, s1)"
    by fastforce
  have e: "register_of empty_state 5 i = Absent" "storageFull empty_state = False" "db empty_state = Some Map.empty" for i
    by (simp_all add: register_of_def newest_def stored_def empty_state_def)
  have i: "trw_BoxID toy_write = zeros 32" by (simp add: toy_write_def)
  have st: "box_step toy_sig 5 empty_state (zeros 32) (request_of toy_sig (Some toy_box_geometry) toy_write) (rwr_ErrorCode reply) s1"
    using handleReplicaWrite_step [OF store_ok_empty toy_typed(1,3) h] by (simp add: i)
  then have reg: "register_of s1 5 (zeros 32) = Holds (replicate 21 7) (zeros 64)" by (simp add: box_step_def e toy_requests)
  with st e(1) obtain b v where b: "s1 = stored_put 5 b empty_state" "box_BoxID b = zeros 32" "Box_MarshalBinary b = Ok v"
    unfolding box_step_def by fastforce
  have s: "stored s1 5 (zeros 32) = Some b" unfolding b(1) by (simp add: stored_stored_put [OF e(3) b(3)] b(2))
  with reg have "box_Payload b = replicate 21 7" by (simp add: register_of_def newest_def split: if_splits)
  with h s st reg box_step_ok(1) [OF store_ok_empty st] show ?thesis using that by blast
qed

theorem box_write_once_witness:
  "\<exists>s b'. store_run toy_sig (Some toy_box_geometry) empty_state 5 s 6 \<and>
     stateHandleReplicaRead no_faults 6 s \<lparr>rr_BoxID = zeros 32\<rparr> = Ok b' \<and> authentic toy_sig b' \<and>
     (box_Payload b' = replicate 21 7 \<or> box_Payload b' = [])"
proof -
  obtain reply s1 b where h: "handleReplicaWrite toy_sig (Some toy_box_geometry) no_faults 5 empty_state toy_write = (reply, s1)"
    and st: "stored s1 5 (zeros 32) = Some b" and pl: "box_Payload b = replicate 21 7"
    by (rule toy_stored)
  have r1: "store_run toy_sig (Some toy_box_geometry) empty_state 5 s1 5"
    by (rule run_write [OF run_start toy_typed(1) h])
  have r2: "store_run toy_sig (Some toy_box_geometry) s1 5 s1 6" by (rule run_tick [OF run_start]) simp
  have k: "5 \<in> set (keptEpochs 6)" by (simp add: keptEpochs_def)
  have "store_run toy_sig (Some toy_box_geometry) empty_state 5 s1 6" by (rule run_tick [OF r1]) simp
  then show ?thesis using box_write_once [OF toy_typed(3) r1 r2 st k, THEN conjunct1] pl by blast
qed

end
