(* ===== verification/Pigeonhole_Helpers.thy ===== *)
theory Pigeonhole_Helpers
  imports Replica_Store Replica_Sharding
begin

text \<open>
  What couriers and replicas share: the remaining codes of \<open>src/pigeonhole/errors.go\<close>, the helpers of
  \<open>src/pigeonhole/helpers.go\<close> and \<open>src/pigeonhole/conversions.go\<close>, the fields of the link commands between them
  (\<open>src/core/wire/commands/storage_replica_commands.go\<close>), and the interface of the multi-recipient encryption
  (\<open>hpqc/kem/mkem\<close>, a parameter).
\<close>

section \<open>Codes\<close>

definition ReplyTypeACK :: byte where "ReplyTypeACK = 0"
definition ReplyTypePayload :: byte where "ReplyTypePayload = 1"
definition EnvelopeErrorSuccess :: byte where "EnvelopeErrorSuccess = 0"
definition EnvelopeErrorInvalidEnvelope :: byte where "EnvelopeErrorInvalidEnvelope = 1"
definition EnvelopeErrorCacheCorruption :: byte where "EnvelopeErrorCacheCorruption = 2"
definition EnvelopeErrorPropagationError :: byte where "EnvelopeErrorPropagationError = 3"
definition EnvelopeErrorInvalidEpoch :: byte where "EnvelopeErrorInvalidEpoch = 4"
definition CopyStatusSucceeded :: byte where "CopyStatusSucceeded = 0"
definition CopyStatusInProgress :: byte where "CopyStatusInProgress = 1"
definition CopyStatusFailed :: byte where "CopyStatusFailed = 2"

lemmas courier_codes =
  ReplyTypeACK_def ReplyTypePayload_def EnvelopeErrorSuccess_def EnvelopeErrorInvalidEnvelope_def
  EnvelopeErrorCacheCorruption_def EnvelopeErrorPropagationError_def EnvelopeErrorInvalidEpoch_def
  CopyStatusSucceeded_def CopyStatusInProgress_def CopyStatusFailed_def

section \<open>Link commands, by their fields\<close>

record ReplicaMessage =
  rm_SenderEPubKey :: bytes
  rm_DEK :: bytes
  rm_Ciphertext :: bytes

record ReplicaMessageReply =
  mr_ErrorCode :: byte
  mr_EnvelopeHash :: bytes
  mr_ReplicaID :: byte
  mr_EnvelopeReply :: bytes

record wire_ReplicaWrite =
  ww_BoxID :: bytes
  ww_Signature :: bytes
  ww_Payload :: bytes

definition ReplicaMessage_EnvelopeHash :: "(bytes \<Rightarrow> bytes) \<Rightarrow> ReplicaMessage \<Rightarrow> bytes" where
  "ReplicaMessage_EnvelopeHash Sum256 c = go_copy (zeros 32) (Sum256 (rm_SenderEPubKey c @ rm_Ciphertext c))"

definition CourierEnvelope_EnvelopeHash :: "(bytes \<Rightarrow> bytes) \<Rightarrow> CourierEnvelope \<Rightarrow> bytes" where
  "CourierEnvelope_EnvelopeHash Sum256 c = go_copy (zeros 32) (Sum256 (ce_SenderPubkey c @ ce_Ciphertext c))"

text \<open>The conversions keep a nil pointer (\<open>None\<close>).\<close>

definition TrunnelReplicaWriteToWireCommand :: "ReplicaWrite option \<Rightarrow> wire_ReplicaWrite option" where
  "TrunnelReplicaWriteToWireCommand trunnelWrite =
     (case trunnelWrite of
        None \<Rightarrow> None
      | Some t \<Rightarrow> Some \<lparr>ww_BoxID = go_copy (zeros 32) (trw_BoxID t), ww_Signature = go_copy (zeros 64) (trw_Signature t),
            ww_Payload = trw_Payload t\<rparr>)"

definition WireCommandToTrunnelReplicaWrite :: "wire_ReplicaWrite option \<Rightarrow> ReplicaWrite option" where
  "WireCommandToTrunnelReplicaWrite wireWrite =
     (case wireWrite of
        None \<Rightarrow> None
      | Some w \<Rightarrow> Some \<lparr>trw_BoxID = go_copy (zeros 32) (ww_BoxID w), trw_Signature = go_copy (zeros 64) (ww_Signature w),
            trw_PayloadLen = of_nat (length (ww_Payload w)),
            trw_Payload = go_copy (zeros (length (ww_Payload w))) (ww_Payload w)\<rparr>)"

section \<open>Serialisation helpers\<close>

text \<open>The \<open>Bytes\<close> methods drop the error of \<open>MarshalBinary\<close>.\<close>

definition CourierQueryFromBytes :: "bytes \<Rightarrow> (trunnel_error, CourierQuery) outcome" where
  "CourierQueryFromBytes data = ParseCourierQuery data"

definition CourierQueryReply_Bytes :: "CourierQueryReply \<Rightarrow> bytes" where
  "CourierQueryReply_Bytes c = data_of (CourierQueryReply_MarshalBinary c)"

definition ReplicaInnerMessage_Bytes :: "ReplicaInnerMessage \<Rightarrow> bytes" where
  "ReplicaInnerMessage_Bytes r = data_of (ReplicaInnerMessage_MarshalBinary r)"

definition ReplicaMessageReplyInnerMessage_Bytes :: "ReplicaMessageReplyInnerMessage \<Rightarrow> bytes" where
  "ReplicaMessageReplyInnerMessage_Bytes r = data_of (ReplicaMessageReplyInnerMessage_MarshalBinary r)"

datatype helper_error = ErrPadDataExceedsTarget | ErrNilGeometry

definition PadToSize :: "bytes \<Rightarrow> nat \<Rightarrow> (helper_error, bytes) outcome" where
  "PadToSize data targetSize =
     (if length data > targetSize then Err ErrPadDataExceedsTarget
      else if length data = targetSize then Ok data
      else Ok (data @ zeros (targetSize - length data)))"

definition PadInnerMessageForEncryption ::
  "ext_sizes \<Rightarrow> ReplicaInnerMessage \<Rightarrow> PGeometry option \<Rightarrow> (helper_error, bytes) outcome" where
  "PadInnerMessageForEncryption x msg geo =
     (case geo of
        None \<Rightarrow> Err ErrNilGeometry
      | Some g \<Rightarrow> PadToSize (ReplicaInnerMessage_Bytes msg) (ReplicaInnerMessageWriteSize x g))"

definition PadReplyInnerMessageForEncryption ::
  "ext_sizes \<Rightarrow> ReplicaMessageReplyInnerMessage \<Rightarrow> PGeometry option \<Rightarrow> (helper_error, bytes) outcome" where
  "PadReplyInnerMessageForEncryption x msg geo =
     (case geo of
        None \<Rightarrow> Err ErrNilGeometry
      | Some g \<Rightarrow> PadToSize (ReplicaMessageReplyInnerMessage_Bytes msg) (ReplicaReplyInnerMessageReadSize x g))"

section \<open>Multi-recipient encryption\<close>

record 'pk Ciphertext =
  ct_EphemeralPublicKey :: 'pk
  ct_DEKCiphertexts :: "bytes list"
  ct_Envelope :: bytes

text \<open>\<open>Encapsulate\<close> draws a fresh key pair; the model passes the entropy.\<close>

record ('sk, 'pk, 'rnd) mkem =
  mk_Encapsulate :: "'rnd \<Rightarrow> 'pk list \<Rightarrow> bytes \<Rightarrow> 'sk \<times> 'pk Ciphertext"
  mk_Decapsulate :: "'sk \<Rightarrow> 'pk Ciphertext \<Rightarrow> bytes option"
  mk_EnvelopeReply :: "'sk \<Rightarrow> 'pk \<Rightarrow> bytes \<Rightarrow> bytes"
  mk_DecryptEnvelope :: "'sk \<Rightarrow> 'pk \<Rightarrow> bytes \<Rightarrow> bytes option"
  mk_public :: "'sk \<Rightarrow> 'pk"
  mk_PublicBytes :: "'pk \<Rightarrow> bytes"
  mk_UnmarshalPublicKey :: "bytes \<Rightarrow> 'pk option"

section \<open>Lemmas\<close>

lemma PadToSize_Ok: "length data \<le> n \<Longrightarrow> PadToSize data n = Ok (data @ zeros (n - length data))"
  by (auto simp: PadToSize_def)

lemma PadToSize_eq_Ok: "PadToSize data n = Ok b \<longleftrightarrow> length data \<le> n \<and> b = data @ zeros (n - length data)"
  by (auto simp: PadToSize_def)

lemma conversion_roundtrip:
  assumes "length (trw_BoxID t) = 32" "length (trw_Signature t) = 64" "trw_PayloadLen t = of_nat (length (trw_Payload t))"
  shows "WireCommandToTrunnelReplicaWrite (TrunnelReplicaWriteToWireCommand (Some t)) = Some t"
  using assms by (simp add: WireCommandToTrunnelReplicaWrite_def TrunnelReplicaWriteToWireCommand_def go_copy_same_length)

text \<open>Sizes of the replies that replicas send, and that padding does not disturb parsing.\<close>

lemma rrr_marshal_length: "ReplicaReadReply_MarshalBinary r = Ok b \<Longrightarrow> length b = 101 + unat (rrr_PayloadLen r)"
  by (auto simp: ReplicaReadReply_defs go_simps slice_eq_Ok)

lemma rwr_marshal: "ReplicaWriteReply_MarshalBinary r = Ok [rwr_ErrorCode r]"
  by (simp add: ReplicaWriteReply_MarshalBinary_def ReplicaWriteReply_validate_def ReplicaWriteReply_encodeBinary_def)

lemma rmi_parse_padded:
  assumes "ReplicaMessageReplyInnerMessage_MarshalBinary m = Ok b" "ReplicaMessageReplyInnerMessage_complete m"
  shows "ParseReplicaMessageReplyInnerMessage (b @ z) = Ok m"
  using rmi_codec.parse_marshal [OF assms, of z] by (simp add: ParseReplicaMessageReplyInnerMessage_def)

lemma rim_parse_padded:
  assumes "ReplicaInnerMessage_MarshalBinary m = Ok b" "ReplicaInnerMessage_complete m"
  shows "ParseReplicaInnerMessage (b @ z) = Ok m"
  using rim_codec.parse_marshal [OF assms, of z] by (simp add: ParseReplicaInnerMessage_def)

end
