(* ===== verification/Courier_Copy.thy ===== *)
theory Courier_Copy
  imports Copy_Stream Pigeonhole_Helpers
begin

text \<open>
  The copy command of the courier: \<open>src/courier/server/plugin.go\<close> from \<open>processCopyCommand\<close> down to the single
  messages to replicas, and \<open>src/courier/server/copy_errors.go\<close>. The world \<open>'w\<close> holds everything outside the
  courier: connections, replicas, clock and entropy. \<open>net_await w h\<close> gives the replies to envelope hash \<open>h\<close> that
  come in before the deadline, which \<open>HandleReply\<close> puts into the channel that the code registers under \<open>h\<close> in
  \<open>copyCache\<close>. The BACAP stream (\<open>hpqc/bacap\<close>) is a parameter as well.
\<close>

section \<open>The environment of the courier\<close>

record ('w, 'rnd) courier_net =
  net_SendMessage :: "'w \<Rightarrow> byte \<Rightarrow> ReplicaMessage \<Rightarrow> bool \<times> 'w"
  net_await :: "'w \<Rightarrow> bytes \<Rightarrow> ReplicaMessageReply list \<times> 'w"
  net_sleep :: "'w \<Rightarrow> int \<Rightarrow> 'w"
  net_entropy :: "'w \<Rightarrow> 'rnd \<times> 'w"
  net_PKIDocument :: "'w \<Rightarrow> Document option"
  net_ReplicaNow :: "'w \<Rightarrow> 64 word"
  net_Sum256 :: "bytes \<Rightarrow> bytes"

record ('wc, 'r, 'wr) bacap =
  bc_NewWriteCapFromBytes :: "bytes \<Rightarrow> 'wc option"
  bc_NewStatefulReader :: "'wc \<Rightarrow> 'r option"
  bc_NextBoxID :: "'r \<Rightarrow> bytes option"
  bc_DecryptNext :: "'r \<Rightarrow> bytes \<Rightarrow> bytes \<Rightarrow> bytes \<Rightarrow> (bytes \<times> 'r) option"
  bc_NewStatefulWriter :: "'wc \<Rightarrow> 'wr option"
  bc_EncryptNext :: "'wr \<Rightarrow> bytes \<Rightarrow> ((bytes \<times> bytes \<times> bytes) \<times> 'wr) option"

section \<open>Limits and replies\<close>

definition maxCopyReadTransientAttempts :: nat where "maxCopyReadTransientAttempts = 8"
definition maxCopyWriteAttempts :: nat where "maxCopyWriteAttempts = 8"
definition copyBackoffBase :: int where "copyBackoffBase = 500 * millisecond"
definition copyBackoffCap :: int where "copyBackoffCap = 10 * second"
definition maxCopyStreamBoxes :: nat where "maxCopyStreamBoxes = 2 ^ 16"
definition maxCopyStreamEnvelopes :: nat where "maxCopyStreamEnvelopes = 2 ^ 16"

definition copyAttemptBackoff :: "nat \<Rightarrow> int" where
  "copyAttemptBackoff attempt =
     (let shift = (if attempt > 8 then 8 else attempt);
          d = Duration_mul copyBackoffBase (2 ^ shift)
      in if d > copyBackoffCap then copyBackoffCap else d)"

definition copySucceededReply :: CourierQueryReply where
  "copySucceededReply = \<lparr>cqr_ReplyType = 1, cqr_EnvelopeReply = None, cqr_CopyCommandReply =
     Some \<lparr>ccr_Status = CopyStatusSucceeded, ccr_ErrorCode = 0, ccr_FailedEnvelopeIndex = 0\<rparr>\<rparr>"

definition copyFailedReply :: "byte \<Rightarrow> 64 word \<Rightarrow> CourierQueryReply" where
  "copyFailedReply replicaErr failedEnvelopeIndex = \<lparr>cqr_ReplyType = 1, cqr_EnvelopeReply = None, cqr_CopyCommandReply =
     Some \<lparr>ccr_Status = CopyStatusFailed, ccr_ErrorCode = replicaErr, ccr_FailedEnvelopeIndex = failedEnvelopeIndex\<rparr>\<rparr>"

datatype replicaErrorCategory = replicaErrorTemporary | replicaErrorPermanent

definition classifyReplicaErrorForCopyRead :: "byte \<Rightarrow> replicaErrorCategory" where
  "classifyReplicaErrorForCopyRead code =
     (if code \<in> {ReplicaErrorBoxIDNotFound, ReplicaErrorStorageFull, ReplicaErrorDatabaseFailure,
                 ReplicaErrorInternalError, ReplicaErrorReplicationFailed}
      then replicaErrorTemporary else replicaErrorPermanent)"

section \<open>Writing one envelope\<close>

definition replica_message :: "CourierEnvelope \<Rightarrow> bytes \<Rightarrow> ReplicaMessage" where
  "replica_message env dek = \<lparr>rm_SenderEPubKey = ce_SenderPubkey env, rm_DEK = dek, rm_Ciphertext = ce_Ciphertext env\<rparr>"

definition propagateQueryToReplicas ::
  "('w, 'rnd) courier_net \<Rightarrow> CourierEnvelope \<Rightarrow> 'w \<Rightarrow> bool \<times> 'w" where
  "propagateQueryToReplicas N env w =
     (let (sent1, w) = net_SendMessage N w (ce_IntermediateReplicas env ! 0) (replica_message env (ce_Dek1 env))
      in if \<not> sent1 then (False, w)
         else net_SendMessage N w (ce_IntermediateReplicas env ! 1) (replica_message env (ce_Dek2 env)))"

definition bestErr :: "ReplicaMessageReply list \<Rightarrow> byte" where
  "bestErr replies =
     (if ReplicaErrorBoxAlreadyExists \<in> mr_ErrorCode ` set replies then ReplicaErrorBoxAlreadyExists
      else mr_ErrorCode (hd replies))"

definition backoff :: "('w, 'rnd) courier_net \<Rightarrow> nat \<Rightarrow> 'w \<Rightarrow> 'w" where
  "backoff N attempt w = (if attempt > 0 then net_sleep N w (copyAttemptBackoff (attempt - 1)) else w)"

text \<open>\<open>n\<close> is the number of attempts left.\<close>

fun write_attempts ::
  "('w, 'rnd) courier_net \<Rightarrow> CourierEnvelope \<Rightarrow> bytes \<Rightarrow> nat \<Rightarrow> nat \<Rightarrow> 'w \<Rightarrow> (bool \<times> byte) \<times> 'w" where
  "write_attempts N env envHash attempt 0 w = ((False, 0), w)"
| "write_attempts N env envHash attempt (Suc n) w =
     (let (sent, w) = propagateQueryToReplicas N env (backoff N attempt w)
      in if \<not> sent then write_attempts N env envHash (Suc attempt) n w
         else
           let (arrived, w) = net_await N w envHash; replies = take 2 arrived
           in if ReplicaSuccess \<in> mr_ErrorCode ` set replies then ((True, 0), w)
              else if replies \<noteq> [] then ((False, bestErr replies), w)
              else write_attempts N env envHash (Suc attempt) n w)"

definition dispatchCopyEnvelope ::
  "('w, 'rnd) courier_net \<Rightarrow> CourierEnvelope \<Rightarrow> 'w \<Rightarrow> (bool \<times> byte) \<times> 'w" where
  "dispatchCopyEnvelope N env w =
     write_attempts N env (CourierEnvelope_EnvelopeHash (net_Sum256 N) env) 0 maxCopyWriteAttempts w"

section \<open>Reading one box\<close>

text \<open>Failures carry the replica code that the caller reports, 0 for failures of the courier itself.\<close>

definition tryReadFromShardReplica ::
  "('w, 'rnd) courier_net \<Rightarrow> ('sk, 'pk, 'rnd) mkem \<Rightarrow> bytes \<Rightarrow> ReplicaDescriptor \<Rightarrow> 'pk \<Rightarrow> 'w
     \<Rightarrow> (unit, byte + ReplicaReadReply) outcome \<times> 'w" where
  "tryReadFromShardReplica N M boxID shard shardPubKey w =
     (let innerMsg = \<lparr>rim_MessageType = 0, rim_ReadMsg = Some \<lparr>rr_BoxID = boxID\<rparr>, rim_WriteMsg = None\<rparr>;
          (rnd, w) = net_entropy N w;
          (mkemPrivateKey, ct) = mk_Encapsulate M rnd [shardPubKey] (ReplicaInnerMessage_Bytes innerMsg)
      in case ct_DEKCiphertexts ct of
        [] \<Rightarrow> (Panic, w)
      | dek # _ \<Rightarrow>
          let query = \<lparr>rm_SenderEPubKey = mk_PublicBytes M (mk_public M mkemPrivateKey), rm_DEK = dek,
                rm_Ciphertext = ct_Envelope ct\<rparr>;
              envHash = ReplicaMessage_EnvelopeHash (net_Sum256 N) query;
              (sent, w) = net_SendMessage N w (rd_ReplicaID shard) query
          in if \<not> sent then (Err (), w)
             else
               let (arrived, w) = net_await N w envHash
               in (case arrived of
                 [] \<Rightarrow> (Err (), w)
               | reply # _ \<Rightarrow>
                   if mr_ErrorCode reply \<noteq> ReplicaSuccess then (Ok (Inl (mr_ErrorCode reply)), w)
                   else (case mk_DecryptEnvelope M mkemPrivateKey shardPubKey (mr_EnvelopeReply reply) of
                     None \<Rightarrow> (Err (), w)
                   | Some raw \<Rightarrow>
                       (case ParseReplicaMessageReplyInnerMessage raw of
                          Ok replyInner \<Rightarrow>
                            (case rmi_ReadReply replyInner of None \<Rightarrow> (Err (), w) | Some r \<Rightarrow> (Ok (Inr r), w))
                        | Err _ \<Rightarrow> (Err (), w)
                        | Panic \<Rightarrow> (Panic, w)))))"

text \<open>The attempts at one shard: a reply, or the last replica code when the shard is given up.\<close>

fun read_attempts ::
  "('w, 'rnd) courier_net \<Rightarrow> ('sk, 'pk, 'rnd) mkem \<Rightarrow> bytes \<Rightarrow> ReplicaDescriptor \<Rightarrow> 'pk \<Rightarrow> nat \<Rightarrow> nat \<Rightarrow> byte \<Rightarrow> 'w
     \<Rightarrow> (byte, ReplicaReadReply) outcome \<times> 'w" where
  "read_attempts N M boxID shard pk attempt 0 code w = (Err code, w)"
| "read_attempts N M boxID shard pk attempt (Suc n) code w =
     (case tryReadFromShardReplica N M boxID shard pk (backoff N attempt w) of
        (Err _, w) \<Rightarrow> read_attempts N M boxID shard pk (Suc attempt) n code w
      | (Panic, w) \<Rightarrow> (Panic, w)
      | (Ok (Inr reply), w) \<Rightarrow> (Ok reply, w)
      | (Ok (Inl replicaCode), w) \<Rightarrow>
          (case classifyReplicaErrorForCopyRead replicaCode of
             replicaErrorTemporary \<Rightarrow> read_attempts N M boxID shard pk (Suc attempt) n replicaCode w
           | replicaErrorPermanent \<Rightarrow> (Err replicaCode, w)))"

fun read_shards ::
  "('w, 'rnd) courier_net \<Rightarrow> ('sk, 'pk, 'rnd) mkem \<Rightarrow> bytes \<Rightarrow> 64 word \<Rightarrow> ReplicaDescriptor list \<Rightarrow> byte \<Rightarrow> 'w
     \<Rightarrow> (byte, ReplicaReadReply) outcome \<times> 'w" where
  "read_shards N M boxID epoch [] code w = (Err code, w)"
| "read_shards N M boxID epoch (shard # shards) code w =
     (case rd_EnvelopeKeys shard epoch of
        None \<Rightarrow> read_shards N M boxID epoch shards code w
      | Some keyBytes \<Rightarrow>
          if length keyBytes = 0 then read_shards N M boxID epoch shards code w
          else (case mk_UnmarshalPublicKey M keyBytes of
             None \<Rightarrow> read_shards N M boxID epoch shards code w
           | Some pk \<Rightarrow>
               (case read_attempts N M boxID shard pk 0 maxCopyReadTransientAttempts code w of
                  (Err code, w) \<Rightarrow> read_shards N M boxID epoch shards code w
                | r \<Rightarrow> r)))"

definition readBoxFromShardReplicas ::
  "('w, 'rnd) courier_net \<Rightarrow> ('sk, 'pk, 'rnd) mkem \<Rightarrow> bytes \<Rightarrow> 'w \<Rightarrow> (byte, ReplicaReadReply) outcome \<times> 'w" where
  "readBoxFromShardReplicas N M boxID w =
     (case net_PKIDocument N w of
        None \<Rightarrow> (Err 0, w)
      | Some doc \<Rightarrow>
          (case GetShards (net_Sum256 N) boxID doc of
             Err _ \<Rightarrow> (Err 0, w)
           | Panic \<Rightarrow> (Panic, w)
           | Ok shards \<Rightarrow>
               if length shards = 0 then (Err 0, w)
               else read_shards N M boxID (net_ReplicaNow N w) shards 0 w))"

definition readNextBox ::
  "('w, 'rnd) courier_net \<Rightarrow> ('sk, 'pk, 'rnd) mkem \<Rightarrow> ('wc, 'r, 'wr) bacap \<Rightarrow> 'r \<Rightarrow> bytes \<Rightarrow> 'w
     \<Rightarrow> (byte, bytes \<times> 'r) outcome \<times> 'w" where
  "readNextBox N M B reader boxID w =
     (case readBoxFromShardReplicas N M boxID w of
        (Err code, w) \<Rightarrow> (Err code, w)
      | (Panic, w) \<Rightarrow> (Panic, w)
      | (Ok reply, w) \<Rightarrow>
          (case bc_DecryptNext B reader boxID (rrr_Payload reply) (rrr_Signature reply) of
             None \<Rightarrow> (Err 0, w)
           | Some (decryptedPadded, reader) \<Rightarrow>
               (case ExtractMessageFromPaddedPayload decryptedPadded of
                  Ok payload \<Rightarrow> (Ok (payload, reader), w)
                | Err _ \<Rightarrow> (Err 0, w)
                | Panic \<Rightarrow> (Panic, w))))"


section \<open>The copy command\<close>

text \<open>
  The envelopes of one box. Besides the reply on failure the result has the number of envelopes written so far
  and, for the statements below, these envelopes themselves.
\<close>

fun dispatch_envelopes ::
  "('w, 'rnd) courier_net \<Rightarrow> CourierEnvelope list \<Rightarrow> 64 word \<Rightarrow> CourierEnvelope list \<Rightarrow> 'w
     \<Rightarrow> CourierQueryReply option \<times> 64 word \<times> CourierEnvelope list \<times> 'w" where
  "dispatch_envelopes N [] envelopesProcessed written w = (None, envelopesProcessed, written, w)"
| "dispatch_envelopes N (envelope # envelopes) envelopesProcessed written w =
     (let ((ok, replicaErr), w) = dispatchCopyEnvelope N envelope w
      in if \<not> ok then (Some (copyFailedReply replicaErr (envelopesProcessed + 1)), envelopesProcessed, written, w)
         else dispatch_envelopes N envelopes (envelopesProcessed + 1) (written @ [envelope]) w)"

record 'w copy_result =
  cp_reply :: "(unit, CourierQueryReply) outcome"
  cp_boxIDs :: "bytes list"
  cp_written :: "CourierEnvelope list"
  cp_world :: 'w

function copy_loop ::
  "('w, 'rnd) courier_net \<Rightarrow> ('sk, 'pk, 'rnd) mkem \<Rightarrow> ('wc, 'r, 'wr) bacap \<Rightarrow> 'r \<Rightarrow> CopyStreamEnvelopeDecoder
     \<Rightarrow> bytes list \<Rightarrow> 64 word \<Rightarrow> CourierEnvelope list \<Rightarrow> 'w \<Rightarrow> 'w copy_result" where
  "copy_loop N M B reader decoder boxIDList envelopesProcessed written w =
     (if length boxIDList \<ge> maxCopyStreamBoxes
      then \<lparr>cp_reply = Ok (copyFailedReply 0 (envelopesProcessed + 1)), cp_boxIDs = boxIDList, cp_written = written, cp_world = w\<rparr>
      else if envelopesProcessed \<ge> of_nat maxCopyStreamEnvelopes
      then \<lparr>cp_reply = Ok (copyFailedReply 0 (envelopesProcessed + 1)), cp_boxIDs = boxIDList, cp_written = written, cp_world = w\<rparr>
      else (case bc_NextBoxID B reader of
        None \<Rightarrow> \<lparr>cp_reply = Ok (copyFailedReply 0 (envelopesProcessed + 1)), cp_boxIDs = boxIDList, cp_written = written, cp_world = w\<rparr>
      | Some boxID \<Rightarrow>
          let boxIDList = boxIDList @ [boxID] in
          (case readNextBox N M B reader boxID w of
             (Err replicaCode, w) \<Rightarrow>
               \<lparr>cp_reply = Ok (copyFailedReply replicaCode (envelopesProcessed + 1)), cp_boxIDs = boxIDList, cp_written = written, cp_world = w\<rparr>
           | (Panic, w) \<Rightarrow> \<lparr>cp_reply = Panic, cp_boxIDs = boxIDList, cp_written = written, cp_world = w\<rparr>
           | (Ok (boxPlaintext, reader), w) \<Rightarrow>
               (case DecodeEnvelopes (AddBoxData decoder boxPlaintext) of
                  (decoder, envelopes, isFinal, Err _) \<Rightarrow>
                    \<lparr>cp_reply = Ok (copyFailedReply 0 (envelopesProcessed + 1)), cp_boxIDs = boxIDList, cp_written = written, cp_world = w\<rparr>
                | (decoder, envelopes, isFinal, Panic) \<Rightarrow>
                    \<lparr>cp_reply = Panic, cp_boxIDs = boxIDList, cp_written = written, cp_world = w\<rparr>
                | (decoder, envelopes, isFinal, Ok _) \<Rightarrow>
                    (case dispatch_envelopes N envelopes envelopesProcessed written w of
                       (Some failed, envelopesProcessed, written, w) \<Rightarrow>
                         \<lparr>cp_reply = Ok failed, cp_boxIDs = boxIDList, cp_written = written, cp_world = w\<rparr>
                     | (None, envelopesProcessed, written, w) \<Rightarrow>
                         if isFinal
                         then \<lparr>cp_reply = Ok copySucceededReply, cp_boxIDs = boxIDList, cp_written = written, cp_world = w\<rparr>
                         else copy_loop N M B reader decoder boxIDList envelopesProcessed written w)))))"
  by pat_completeness auto

termination
  by (relation "measure (\<lambda>(N, M, B, reader, decoder, boxIDList, processed, written, w). maxCopyStreamBoxes - length boxIDList)") auto

declare copy_loop.simps [simp del]

text \<open>
  The whole command. A successful one also starts the goroutine that writes tombstones over the boxes, here its
  arguments.
\<close>

definition processCopyCommand ::
  "('w, 'rnd) courier_net \<Rightarrow> ('sk, 'pk, 'rnd) mkem \<Rightarrow> ('wc, 'r, 'wr) bacap \<Rightarrow> PGeometry \<Rightarrow> CopyCommand \<Rightarrow> 'w
     \<Rightarrow> 'w copy_result \<times> ('wc \<times> bytes list) option" where
  "processCopyCommand N M B geo copyCmd w =
     (case bc_NewWriteCapFromBytes B (cc_WriteCap copyCmd) of
        None \<Rightarrow> (\<lparr>cp_reply = Ok (copyFailedReply 0 0), cp_boxIDs = [], cp_written = [], cp_world = w\<rparr>, None)
      | Some writeCap \<Rightarrow>
          (case bc_NewStatefulReader B writeCap of
             None \<Rightarrow> (\<lparr>cp_reply = Ok (copyFailedReply 0 0), cp_boxIDs = [], cp_written = [], cp_world = w\<rparr>, None)
           | Some reader \<Rightarrow>
               let r = copy_loop N M B reader (NewCopyStreamEnvelopeDecoder geo) [] 0 [] w
               in (r, if cp_reply r = Ok copySucceededReply then Some (writeCap, cp_boxIDs r) else None)))"

section \<open>Tombstones\<close>

fun send_all :: "('w, 'rnd) courier_net \<Rightarrow> (byte \<times> ReplicaMessage) list \<Rightarrow> 'w \<Rightarrow> 'w" where
  "send_all N [] w = w"
| "send_all N ((replicaID, msg) # rest) w = send_all N rest (snd (net_SendMessage N w replicaID msg))"

fun tombstone_attempts ::
  "('w, 'rnd) courier_net \<Rightarrow> bytes \<Rightarrow> (byte \<times> ReplicaMessage) list \<Rightarrow> nat \<Rightarrow> nat \<Rightarrow> 'w \<Rightarrow> bool \<times> 'w" where
  "tombstone_attempts N envHash messages attempt 0 w = (False, w)"
| "tombstone_attempts N envHash messages attempt (Suc n) w =
     (let (arrived, w) = net_await N (send_all N messages (backoff N attempt w)) envHash;
          replies = take (length messages) arrived
      in if ReplicaSuccess \<in> mr_ErrorCode ` set replies then (True, w)
         else if ReplicaErrorBoxAlreadyExists \<in> mr_ErrorCode ` set replies then (False, w)
         else tombstone_attempts N envHash messages (Suc attempt) n w)"

definition dispatchTombstone ::
  "('w, 'rnd) courier_net \<Rightarrow> bytes \<Rightarrow> (byte \<times> ReplicaMessage) list \<Rightarrow> 'w \<Rightarrow> bool \<times> 'w" where
  "dispatchTombstone N envHash messages w = tombstone_attempts N envHash messages 0 maxCopyWriteAttempts w"

definition usable_shards :: "('sk, 'pk, 'rnd) mkem \<Rightarrow> 64 word \<Rightarrow> ReplicaDescriptor list \<Rightarrow> (byte \<times> 'pk) list" where
  "usable_shards M epoch shards =
     List.map_filter (\<lambda>shard. case rd_EnvelopeKeys shard epoch of
        None \<Rightarrow> None
      | Some keyBytes \<Rightarrow> (case mk_UnmarshalPublicKey M keyBytes of
            None \<Rightarrow> None | Some pk \<Rightarrow> Some (rd_ReplicaID shard, pk))) shards"

definition tombstone_write :: "bytes \<Rightarrow> bytes \<Rightarrow> bytes \<Rightarrow> ReplicaWrite" where
  "tombstone_write boxID ciphertext sig = \<lparr>trw_BoxID = boxID, trw_Signature = go_copy (zeros 64) sig,
     trw_PayloadLen = of_nat (length ciphertext), trw_Payload = ciphertext\<rparr>"

text \<open>One box of the stream; when encryption fails the writer is unchanged.\<close>

definition tombstone_box ::
  "('w, 'rnd) courier_net \<Rightarrow> ('sk, 'pk, 'rnd) mkem \<Rightarrow> ('wc, 'r, 'wr) bacap \<Rightarrow> PGeometry \<Rightarrow> Document \<Rightarrow> bytes
     \<Rightarrow> 'wr \<times> 'w \<Rightarrow> 'wr \<times> 'w" where
  "tombstone_box N M B geo doc boxID = (\<lambda>(writer, w).
     case CreatePaddedPayload [] (PaddedPayloadLength geo) of
       Err _ \<Rightarrow> (writer, w)
     | Panic \<Rightarrow> (writer, w)
     | Ok paddedPayload \<Rightarrow>
         (case bc_EncryptNext B writer paddedPayload of
            None \<Rightarrow> (writer, w)
          | Some ((encBoxID, ciphertext, sig), writer) \<Rightarrow>
              if encBoxID \<noteq> boxID then (writer, w)
              else (case GetShards (net_Sum256 N) boxID doc of
                 Ok shards \<Rightarrow>
                   if length shards \<noteq> 2 then (writer, w)
                   else
                     let usable = usable_shards M (net_ReplicaNow N w) shards in
                     if length usable = 0 then (writer, w)
                     else
                       let innerMsg = \<lparr>rim_MessageType = 1, rim_ReadMsg = None,
                             rim_WriteMsg = Some (tombstone_write boxID ciphertext sig)\<rparr>;
                           (rnd, w) = net_entropy N w;
                           (sk, ct) = mk_Encapsulate M rnd (map snd usable) (ReplicaInnerMessage_Bytes innerMsg);
                           messages = map2 (\<lambda>(replicaID, _) dek. (replicaID,
                             \<lparr>rm_SenderEPubKey = mk_PublicBytes M (mk_public M sk), rm_DEK = dek,
                              rm_Ciphertext = ct_Envelope ct\<rparr>)) usable (ct_DEKCiphertexts ct);
                           envHash = ReplicaMessage_EnvelopeHash (net_Sum256 N) (snd (hd messages))
                       in (writer, snd (dispatchTombstone N envHash messages w))
               | _ \<Rightarrow> (writer, w))))"

definition writeTombstonesToTempChannel ::
  "('w, 'rnd) courier_net \<Rightarrow> ('sk, 'pk, 'rnd) mkem \<Rightarrow> ('wc, 'r, 'wr) bacap \<Rightarrow> PGeometry \<Rightarrow> 'wc \<Rightarrow> bytes list \<Rightarrow> 'w \<Rightarrow> 'w" where
  "writeTombstonesToTempChannel N M B geo writeCap boxIDs w =
     (case bc_NewStatefulWriter B writeCap of
        None \<Rightarrow> w
      | Some writer \<Rightarrow>
          (case net_PKIDocument N w of
             None \<Rightarrow> w
           | Some doc \<Rightarrow> snd (fold (tombstone_box N M B geo doc) boxIDs (writer, w))))"


section \<open>A client's stream is written by the courier\<close>

text \<open>What the replicas answer to each envelope, in every world that satisfies \<open>I\<close>.\<close>

definition answers ::
  "('w, 'rnd) courier_net \<Rightarrow> ('w \<Rightarrow> bool) \<Rightarrow> (CourierEnvelope \<Rightarrow> bool \<times> byte) \<Rightarrow> bool" where
  "answers N I verdict \<longleftrightarrow> (\<forall>env w. I w \<longrightarrow> fst (dispatchCopyEnvelope N env w) = verdict env \<and> I (snd (dispatchCopyEnvelope N env w)))"

text \<open>Box \<open>k\<close> of the temporary stream holds element \<open>k\<close> and the reader, in state \<open>rd k\<close>, can read it.\<close>

definition readable ::
  "('w, 'rnd) courier_net \<Rightarrow> ('sk, 'pk, 'rnd) mkem \<Rightarrow> ('wc, 'r, 'wr) bacap \<Rightarrow> ('w \<Rightarrow> bool) \<Rightarrow> (nat \<Rightarrow> 'r) \<Rightarrow> (nat \<Rightarrow> bytes)
     \<Rightarrow> bytes list \<Rightarrow> bool" where
  "readable N M B I rd ids els \<longleftrightarrow>
     (\<forall>k < length els. bc_NextBoxID B (rd k) = Some (ids k) \<and>
        (\<forall>w. I w \<longrightarrow> fst (readNextBox N M B (rd k) (ids k) w) = Ok (els ! k, rd (Suc k)) \<and>
                     I (snd (readNextBox N M B (rd k) (ids k) w))))"

definition accepted :: "(CourierEnvelope \<Rightarrow> bool \<times> byte) \<Rightarrow> CourierEnvelope list \<Rightarrow> CourierEnvelope list" where
  "accepted verdict envs = takeWhile (\<lambda>e. fst (verdict e)) envs"

definition copy_reply :: "(CourierEnvelope \<Rightarrow> bool \<times> byte) \<Rightarrow> CourierEnvelope list \<Rightarrow> CourierQueryReply" where
  "copy_reply verdict envs =
     (let n = length (accepted verdict envs)
      in if n = length envs then copySucceededReply else copyFailedReply (snd (verdict (envs ! n))) (of_nat n + 1))"

lemma accepted_simps [simp]:
  "accepted v [] = []" "accepted v (e # es) = (if fst (v e) then e # accepted v es else [])"
  by (simp_all add: accepted_def)

lemma accepted_append: "accepted v (xs @ ys) = (if accepted v xs = xs then xs @ accepted v ys else accepted v xs)"
  by (induction xs) auto

lemma accepted_short: "length (accepted v xs) = length xs \<longleftrightarrow> accepted v xs = xs"
  by (induction xs) auto

lemma length_accepted: "length (accepted v xs) \<le> length xs"
  by (simp add: accepted_def length_takeWhile_le)

lemma accepted_nth: "accepted v xs \<noteq> xs \<Longrightarrow> (xs @ ys) ! length (accepted v xs) = xs ! length (accepted v xs)"
  using length_accepted [of v xs] accepted_short [of v xs] by (simp add: nth_append)

lemma dispatch_envelopes_answers:
  assumes a: "answers N I verdict" and w: "I w"
  shows "\<exists>w'. I w' \<and> dispatch_envelopes N envs k written w =
    (if accepted verdict envs = envs then None
     else Some (copyFailedReply (snd (verdict (envs ! length (accepted verdict envs)))) (k + of_nat (length (accepted verdict envs)) + 1)),
     k + of_nat (length (accepted verdict envs)), written @ accepted verdict envs, w')"
  using w
proof (induction envs arbitrary: k written w)
  case (Cons e es)
  obtain w1 where d: "dispatchCopyEnvelope N e w = (verdict e, w1)" and w1: "I w1"
    using a Cons.prems unfolding answers_def by (metis prod.collapse)
  obtain ok code where v: "verdict e = (ok, code)" by fastforce
  show ?case
  proof (cases ok)
    case True
    from Cons.IH [OF w1, of "k + 1" "written @ [e]"] show ?thesis
      using d v True by (auto simp: algebra_simps)
  qed (use d v w1 in auto)
qed simp

lemma copy_loop_stream:
  assumes g: "stream_geometry geo" and a: "answers N I verdict" and r: "readable N M B I rd ids els"
    and ne: "list_all (\<lambda>el. el \<noteq> []) els" and sz: "length els \<le> maxCopyStreamBoxes" "length envs < maxCopyStreamEnvelopes"
    and w: "I w" and j: "j < length els" and aw: "awaits geo d (concat (drop j els)) cs rest"
    and envs: "envs = done @ rest" "accepted verdict done = done"
  shows "\<exists>res. copy_loop N M B (rd j) d (map ids [0..<j]) (of_nat (length done)) done w = res \<and>
    cp_reply res = Ok (copy_reply verdict envs) \<and> cp_written res = accepted verdict envs \<and>
    (accepted verdict envs = envs \<longrightarrow> cp_boxIDs res = map ids [0..<length els])"
  using w j aw envs
proof (induction "length els - j" arbitrary: j d cs rest "done" w)
  case (Suc n)
  have nx: "bc_NextBoxID B (rd j) = Some (ids j)" using r Suc.prems(2) by (simp add: readable_def)
  obtain w1 where read: "readNextBox N M B (rd j) (ids j) w = (Ok (els ! j, rd (Suc j)), w1)" and w1: "I w1"
    using r Suc.prems(1,2) unfolding readable_def by (metis prod.collapse)
  have split: "concat (drop j els) = els ! j @ concat (drop (Suc j) els)"
    using Suc.prems(2) by (simp add: Cons_nth_drop_Suc [symmetric])
  from DecodeEnvelopes_awaits [OF g Suc.prems(3) [unfolded split]] obtain d' out cs' rest' where
      dec: "DecodeEnvelopes (AddBoxData d (els ! j)) = (d', out, ed_sawFinal d', Ok ())"
        "rest = out @ rest'" "awaits geo d' (concat (drop (Suc j) els)) cs' rest'" by blast
  have fin: "ed_sawFinal d' \<longleftrightarrow> Suc j = length els"
  proof -
    have "\<forall>el\<in>set (drop (Suc j) els). el \<noteq> []" using ne in_set_dropD by (fastforce simp: list_all_iff)
    then have "concat (drop (Suc j) els) = [] \<longleftrightarrow> drop (Suc j) els = []" by (cases "drop (Suc j) els") auto
    then show ?thesis using awaits_saw_final [OF dec(3)] Suc.prems(2) by auto
  qed
  obtain w2 where disp: "dispatch_envelopes N out (of_nat (length done)) done w1 =
      (if accepted verdict out = out then None
       else Some (copyFailedReply (snd (verdict (out ! length (accepted verdict out))))
              (of_nat (length done) + of_nat (length (accepted verdict out)) + 1)),
       of_nat (length done) + of_nat (length (accepted verdict out)), done @ accepted verdict out, w2)" and w2: "I w2"
    using dispatch_envelopes_answers [OF a w1] by blast
  have limits: "\<not> length (map ids [0..<j]) \<ge> maxCopyStreamBoxes" "\<not> (of_nat (length done) :: 64 word) \<ge> of_nat maxCopyStreamEnvelopes"
    using sz Suc.prems(2,4) by (auto simp: maxCopyStreamBoxes_def maxCopyStreamEnvelopes_def word_le_nat_alt unat_of_nat)
  note step = copy_loop.simps [of N M B "rd j" d "map ids [0..<j]" "of_nat (length done)" "done" w,
      unfolded if_not_P [OF limits(1)] if_not_P [OF limits(2)] nx option.case Let_def read prod.case outcome.case dec(1) disp]
  have acc: "accepted verdict envs = done @ accepted verdict rest"
    using Suc.prems(4,5) by (simp add: accepted_append)
  consider (fail) "accepted verdict out \<noteq> out" | (last) "accepted verdict out = out" "Suc j = length els"
    | (more) "accepted verdict out = out" "Suc j \<noteq> length els" by blast
  then show ?case
  proof cases
    case fail
    have "accepted verdict rest = accepted verdict out" using fail dec(2) by (simp add: accepted_append)
    moreover have "length (accepted verdict envs) \<noteq> length envs"
      using fail acc Suc.prems(4) dec(2) length_accepted [of verdict out] accepted_short [of verdict out] calculation by simp
    moreover have "envs ! (length done + length (accepted verdict out)) = out ! length (accepted verdict out)"
      using accepted_nth [OF fail, of rest'] Suc.prems(4) dec(2) by (simp add: nth_append)
    ultimately show ?thesis
      using fail acc accepted_short [of verdict envs] by (simp add: step copy_reply_def Let_def)
  next
    case last
    then have "rest' = []" using dec(3) awaits_nothing by fastforce
    then have "rest = out" using dec(2) by simp
    moreover have "map ids [0..<length els] = map ids [0..<j] @ [ids j]" unfolding last(2) [symmetric] by simp
    ultimately show ?thesis
      using last acc fin Suc.prems(2,4) by (simp add: step copy_reply_def)
  next
    case more
    have "\<exists>res. copy_loop N M B (rd (Suc j)) d' (map ids [0..<Suc j]) (of_nat (length (done @ out))) (done @ out) w2 = res \<and>
        cp_reply res = Ok (copy_reply verdict envs) \<and> cp_written res = accepted verdict envs \<and>
        (accepted verdict envs = envs \<longrightarrow> cp_boxIDs res = map ids [0..<length els])"
      by (rule Suc.hyps(1) [OF _ w2 _ dec(3)])
        (use Suc.hyps(2) Suc.prems(2,4,5) more dec(2) in \<open>auto simp: accepted_append\<close>)
    then show ?thesis using more fin by (simp add: step)
  qed
qed simp


text \<open>Whatever the network and the replicas do, the command reads a bounded number of boxes.\<close>

lemma copy_loop_bounded:
  assumes "length boxIDList \<le> maxCopyStreamBoxes"
  shows "length (cp_boxIDs (copy_loop N M B reader decoder boxIDList processed written w)) \<le> maxCopyStreamBoxes"
  using assms
proof (induction N M B reader decoder boxIDList processed written w rule: copy_loop.induct)
  case (1 N M B reader decoder boxIDList processed written w)
  show ?case
    by (subst copy_loop.simps)
      (use 1 in \<open>auto simp: Let_def split: option.splits prod.splits outcome.splits\<close>)
qed

lemma copy_replies_differ: "copyFailedReply c k \<noteq> copySucceededReply"
  by (simp add: copyFailedReply_def copySucceededReply_def courier_codes)



text \<open>A courier environment with one box per stream, to apply the theorem at.\<close>

definition toy_copy_geometry :: PGeometry where
  "toy_copy_geometry = \<lparr>MaxPlaintextPayloadLength = 200, CourierQueryReadLength = 200, CourierQueryWriteLength = 200,
     CourierQueryReplyReadLength = 200, CourierQueryReplyWriteLength = 200, pg_NIKEName = ''toy'',
     SignatureSchemeName = ''Ed25519''\<rparr>"

definition toy_shard :: "byte \<Rightarrow> ReplicaDescriptor" where
  "toy_shard i = (toy_replica i)\<lparr>rd_EnvelopeKeys := [0 \<mapsto> [i]]\<rparr>"

definition toy_mkem :: "(unit, unit, unit) mkem" where
  "toy_mkem = \<lparr>mk_Encapsulate = \<lambda>_ pks m. ((), \<lparr>ct_EphemeralPublicKey = (), ct_DEKCiphertexts = map (\<lambda>_. zeros 60) pks, ct_Envelope = m\<rparr>),
     mk_Decapsulate = \<lambda>_ ct. Some (ct_Envelope ct), mk_EnvelopeReply = \<lambda>_ _ m. m, mk_DecryptEnvelope = \<lambda>_ _ m. Some m,
     mk_public = \<lambda>_. (), mk_PublicBytes = \<lambda>_. [], mk_UnmarshalPublicKey = \<lambda>_. Some ()\<rparr>"

definition toy_bacap :: "(unit, nat, unit) bacap" where
  "toy_bacap = \<lparr>bc_NewWriteCapFromBytes = \<lambda>_. Some (), bc_NewStatefulReader = \<lambda>_. Some 0, bc_NextBoxID = \<lambda>_. Some (zeros 32),
     bc_DecryptNext = \<lambda>k _ c _. Some (c, Suc k), bc_NewStatefulWriter = \<lambda>_. Some (), bc_EncryptNext = \<lambda>_ _. None\<rparr>"

definition toy_reply :: "bytes \<Rightarrow> ReplicaMessageReplyInnerMessage" where
  "toy_reply payload = \<lparr>rmi_MessageType = 0, rmi_ReadReply = Some \<lparr>rrr_ErrorCode = 0, rrr_BoxID = zeros 32,
     rrr_Signature = zeros 64, rrr_PayloadLen = of_nat (length payload), rrr_Payload = payload\<rparr>, rmi_WriteReply = None\<rparr>"

definition toy_net :: "bytes \<Rightarrow> (unit, unit) courier_net" where
  "toy_net payload = \<lparr>net_SendMessage = \<lambda>w _ _. (True, w),
     net_await = \<lambda>w h. ([\<lparr>mr_ErrorCode = 0, mr_EnvelopeHash = h, mr_ReplicaID = 1,
        mr_EnvelopeReply = ReplicaMessageReplyInnerMessage_Bytes (toy_reply payload)\<rparr>], w),
     net_sleep = \<lambda>w _. w, net_entropy = \<lambda>w. ((), w),
     net_PKIDocument = \<lambda>_. Some \<lparr>doc_Epoch = 0, StorageReplicas = Some [toy_shard 1, toy_shard 2],
        ConfiguredReplicaIdentityKeys = Some [[1], [2]]\<rparr>,
     net_ReplicaNow = \<lambda>_. 0, net_Sum256 = toy_sum\<rparr>"

lemma toy_answers: "answers (toy_net p) (\<lambda>_. True) (\<lambda>_. (True, 0))"
  by (simp add: answers_def dispatchCopyEnvelope_def maxCopyWriteAttempts_def numeral_eq_Suc propagateQueryToReplicas_def
      toy_net_def replica_codes)

lemma toy_copy_shards:
  "GetShards toy_sum (zeros 32) \<lparr>doc_Epoch = 0, StorageReplicas = Some [toy_shard 1, toy_shard 2],
      ConfiguredReplicaIdentityKeys = Some [[1], [2]]\<rparr> = Ok [toy_shard 1, toy_shard 2]"
proof -
  have "toy_sum ([i] @ zeros 32) = i # zeros 31" for i by (simp add: toy_sum_def)
  then have "Shard2 toy_sum (zeros 32) [[1], [2]] = [[1], [2]]"
    by (subst Shard2_sorted) (simp_all add: length_toy_sum)
  then show ?thesis
    by (simp add: GetShards_def GetConfiguredReplicaKeys_def K_def replicas_def
        GetReplicaNodeByKeyHash_def toy_shard_def toy_replica_def toy_sum_short)
qed

lemma toy_read:
  assumes "length p < 2 ^ 32"
  shows "readBoxFromShardReplicas (toy_net p) toy_mkem (zeros 32) w = (Ok (the (rmi_ReadReply (toy_reply p))), w)"
proof -
  obtain b where b: "ReplicaMessageReplyInnerMessage_MarshalBinary (toy_reply p) = Ok b"
    using assms by (simp add: toy_reply_def ReplicaMessageReplyInnerMessage_MarshalBinary_def
        ReplicaMessageReplyInnerMessage_validate_def ReplicaMessageReplyInnerMessage_encodeBinary_def
        ReplicaReadReply_validate_def ReplicaReadReply_encodeBinary_def slice_def unat_of_nat)
  have "ReplicaMessageReplyInnerMessage_complete (toy_reply p)"
    by (simp add: toy_reply_def ReplicaMessageReplyInnerMessage_complete_def)
  from rmi_parse_padded [OF b this, of "[]"]
  have parse: "ParseReplicaMessageReplyInnerMessage (ReplicaMessageReplyInnerMessage_Bytes (toy_reply p)) = Ok (toy_reply p)"
    by (simp add: ReplicaMessageReplyInnerMessage_Bytes_def b)
  have once: "tryReadFromShardReplica (toy_net p) toy_mkem (zeros 32) s () w = (Ok (Inr (the (rmi_ReadReply (toy_reply p)))), w)" for s w
    by (simp add: tryReadFromShardReplica_def toy_net_def toy_mkem_def parse replica_codes) (simp add: toy_reply_def)
  have att: "maxCopyReadTransientAttempts = Suc 7" by (simp add: maxCopyReadTransientAttempts_def)
  have sh: "read_shards (toy_net p) toy_mkem (zeros 32) 0 [toy_shard 1, toy_shard 2] 0 w = (Ok (the (rmi_ReadReply (toy_reply p))), w)"
    unfolding read_shards.simps att read_attempts.simps once [folded backoff_def]
    by (simp add: toy_shard_def toy_mkem_def backoff_def once [unfolded toy_mkem_def])
  have doc: "net_PKIDocument (toy_net p) w = Some \<lparr>doc_Epoch = 0, StorageReplicas = Some [toy_shard 1, toy_shard 2],
      ConfiguredReplicaIdentityKeys = Some [[1], [2]]\<rparr>" "net_Sum256 (toy_net p) = toy_sum" "net_ReplicaNow (toy_net p) w = 0"
    by (simp_all add: toy_net_def)
  show ?thesis
    unfolding readBoxFromShardReplicas_def doc option.case toy_copy_shards outcome.case sh by simp
qed

lemma toy_readable:
  assumes "length el + 4 \<le> n" "n < 2 ^ 32" "CreatePaddedPayload el n = Ok p"
  shows "readable (toy_net p) toy_mkem toy_bacap (\<lambda>_. True) (\<lambda>k. k) (\<lambda>_. zeros 32) [el]"
proof -
  from padded_payload_extract [OF assms(1,2)] assms(3)
  have p: "length p = n" "ExtractMessageFromPaddedPayload p = Ok el" by auto
  show ?thesis
    using p assms(2)
    by (simp add: readable_def readNextBox_def toy_read) (simp add: toy_bacap_def toy_reply_def)
qed

lemma toy_stream_single:
  "\<exists>e el. enc_run toy_copy_geometry (NewCopyStreamEncoder toy_copy_geometry) [Add toy_envelope] = Some (Ok (e, [el]))"
proof -
  obtain b where b: "CourierEnvelope_MarshalBinary toy_envelope = Ok b" "length b = 140"
    by (simp add: toy_envelope_def CourierEnvelope_defs slice_def)
  define e where "e = (NewCopyStreamEncoder toy_copy_geometry)\<lparr>en_buffer := PutUint32 140 @ b\<rparr>"
  have buf: "length (en_buffer e) = 144" "en_maxChunkSize e = 195" "en_buffer e \<noteq> []"
    using b(2) by (auto simp: e_def NewCopyStreamEncoder_def toy_copy_geometry_def)
  have ex: "extractElements e [] = Some (Ok (e, []))"
    by (subst extractElements.simps) (simp add: buf)
  have "AddEnvelope (NewCopyStreamEncoder toy_copy_geometry) (Some toy_envelope) = Some (Ok (e, []))"
    using ex b by (simp add: AddEnvelope_def e_def NewCopyStreamEncoder_def)
  moreover have "\<exists>e' el. Flush e = Some (Ok (e', [el]))"
    using chunk_element_bytes [of "en_buffer e" "en_isFirstChunk e" True]
    by (simp add: Flush_def ex buf)
  ultimately show ?thesis by auto
qed



section \<open>Tombstones of the temporary stream\<close>

lemma write_tries: "maxCopyWriteAttempts = Suc 7"
  by (simp add: maxCopyWriteAttempts_def)



end
