(* ===== verification/Courier_Cache.thy ===== *)
theory Courier_Cache
  imports Courier_Copy
begin

text \<open>
  The caches of the courier (\<open>src/courier/server/plugin.go\<close>): the cache of replica replies by envelope hash, the
  set of dispatches in flight with the semaphore that bounds them, and the cache of copy commands with their
  workers; and the epoch window of \<open>src/courier/server/envelope_epoch.go\<close>. Handlers pass the state along and are
  atomic, goroutines are values of the state: a dispatch has its hash, its envelope and whether it holds a slot of
  \<open>dispatchSem\<close>; a copy worker has its command, its key and the address of its \<open>CopyCommandState\<close>. The state of a
  copy command is shared by its worker and the cache, so these objects live in a store, and the cache and the
  workers hold addresses (positions in the list \<open>copyStates\<close>). A handler reads the clock once.
\<close>

section \<open>State\<close>

record CourierBookKeeping =
  bk_Epoch :: "64 word"
  bk_CreatedAt :: int
  bk_QueryType :: byte
  bk_IntermediateReplicas :: bytes
  bk_EnvelopeReplies :: "ReplicaMessageReply option list"

record CopyCommandState =
  cs_InProgress :: bool
  cs_Done :: bool
  cs_Result :: "CourierQueryReply option"
  cs_CompletedAt :: int

text \<open>A channel is its capacity and its contents.\<close>

record Courier =
  dedupCache :: "bytes \<rightharpoonup> CourierBookKeeping"
  copyCache :: "bytes \<rightharpoonup> nat \<times> ReplicaMessageReply list"
  copyDedupCache :: "bytes \<rightharpoonup> nat"
  copyStates :: "CopyCommandState list"
  inFlight :: "bytes set"
  dispatches :: "(bytes \<times> CourierEnvelope \<times> bool) list"
  workers :: "(CopyCommand \<times> bytes \<times> nat) list"

definition NewCourier :: Courier where
  "NewCourier = \<lparr>dedupCache = Map.empty, copyCache = Map.empty, copyDedupCache = Map.empty, copyStates = [],
     inFlight = {}, dispatches = [], workers = []\<rparr>"

definition CopyDedupCacheTTL :: int where "CopyDedupCacheTTL = 30 * minute"
definition DedupCacheTTL :: int where "DedupCacheTTL = 5 * minute"
definition maxConcurrentReplicaDispatch :: nat where "maxConcurrentReplicaDispatch = 256"
definition ValidCourierEnvelopeEpochWindow :: "64 word" where "ValidCourierEnvelopeEpochWindow = 1"

section \<open>Replies of replicas\<close>

fun index_of :: "byte \<Rightarrow> bytes \<Rightarrow> int \<Rightarrow> int" where
  "index_of replicaID [] i = -1"
| "index_of replicaID (x # ids) i = (if x = replicaID then i else index_of replicaID ids (i + 1))"

definition findReplicaIndex :: "CourierBookKeeping \<Rightarrow> byte \<Rightarrow> int" where
  "findReplicaIndex entry replicaID = index_of replicaID (bk_IntermediateReplicas entry) 0"

definition storeOrReplaceReply :: "CourierBookKeeping \<Rightarrow> ReplicaMessageReply \<Rightarrow> nat \<Rightarrow> CourierBookKeeping" where
  "storeOrReplaceReply entry reply i =
     (case bk_EnvelopeReplies entry ! i of
        None \<Rightarrow> entry\<lparr>bk_EnvelopeReplies := (bk_EnvelopeReplies entry)[i := Some reply]\<rparr>
      | Some existing \<Rightarrow>
          if mr_ErrorCode existing \<noteq> 0
          then entry\<lparr>bk_EnvelopeReplies := (bk_EnvelopeReplies entry)[i := Some reply]\<rparr>
          else entry)"

text \<open>The first unused slot at or after \<open>i\<close> takes the reply.\<close>

fun use_slot :: "CourierBookKeeping \<Rightarrow> ReplicaMessageReply \<Rightarrow> nat list \<Rightarrow> CourierBookKeeping" where
  "use_slot entry reply [] = entry"
| "use_slot entry reply (i # rest) =
     (if bk_IntermediateReplicas entry ! i = 255 \<and> bk_EnvelopeReplies entry ! i = None
      then entry\<lparr>bk_IntermediateReplicas := (bk_IntermediateReplicas entry)[i := mr_ReplicaID reply],
                 bk_EnvelopeReplies := (bk_EnvelopeReplies entry)[i := Some reply]\<rparr>
      else use_slot entry reply rest)"

definition handleExistingEntry :: "CourierBookKeeping \<Rightarrow> ReplicaMessageReply \<Rightarrow> CourierBookKeeping" where
  "handleExistingEntry entry reply =
     (let replyIndex = findReplicaIndex entry (mr_ReplicaID reply)
      in if replyIndex \<ge> 0 then storeOrReplaceReply entry reply (nat replyIndex)
         else use_slot entry reply [0..<length (bk_IntermediateReplicas entry)])"

definition CacheReply :: "Courier \<Rightarrow> ReplicaMessageReply \<Rightarrow> Courier" where
  "CacheReply e reply =
     (case dedupCache e (mr_EnvelopeHash reply) of
        None \<Rightarrow> e
      | Some entry \<Rightarrow> e\<lparr>dedupCache := (dedupCache e)(mr_EnvelopeHash reply \<mapsto> handleExistingEntry entry reply)\<rparr>)"

text \<open>\<open>None\<close>: the channel is full and the send blocks.\<close>

definition HandleReply :: "Courier \<Rightarrow> ReplicaMessageReply \<Rightarrow> Courier option" where
  "HandleReply e reply =
     (case copyCache e (mr_EnvelopeHash reply) of
        Some (capacity, buffered) \<Rightarrow>
          if length buffered < capacity
          then Some (e\<lparr>copyCache := (copyCache e)(mr_EnvelopeHash reply \<mapsto> (capacity, buffered @ [reply]))\<rparr>)
          else None
      | None \<Rightarrow> Some (CacheReply e reply))"

section \<open>Pruning\<close>

definition pruneDedupCacheLocked :: "int \<Rightarrow> int \<Rightarrow> (bytes \<rightharpoonup> CourierBookKeeping) \<Rightarrow> (bytes \<rightharpoonup> CourierBookKeeping)" where
  "pruneDedupCacheLocked now ttl cache = (\<lambda>key.
     case cache key of
       None \<Rightarrow> None
     | Some entry \<Rightarrow> if now - bk_CreatedAt entry > ttl then None else Some entry)"

definition pruneCopyDedupCacheLocked :: "CopyCommandState list \<Rightarrow> int \<Rightarrow> int \<Rightarrow> (bytes \<rightharpoonup> nat) \<Rightarrow> (bytes \<rightharpoonup> nat)" where
  "pruneCopyDedupCacheLocked states now ttl cache = (\<lambda>key.
     case cache key of
       None \<Rightarrow> None
     | Some a \<Rightarrow>
         if cs_InProgress (states ! a) then Some a
         else if now - cs_CompletedAt (states ! a) > ttl then None
         else Some a)"

section \<open>Envelopes of clients\<close>

definition envelope_reply :: "bytes \<Rightarrow> byte \<Rightarrow> byte \<Rightarrow> bytes \<Rightarrow> byte \<Rightarrow> CourierQueryReply" where
  "envelope_reply envHash replyIndex replyType payload errorCode =
     \<lparr>cqr_ReplyType = 0, cqr_EnvelopeReply = Some \<lparr>cer_EnvelopeHash = envHash, cer_ReplyIndex = replyIndex,
        cer_ReplyType = replyType, cer_PayloadLen = of_nat (length payload), cer_Payload = payload,
        cer_ErrorCode = errorCode\<rparr>, cqr_CopyCommandReply = None\<rparr>"

definition ackReply :: "bytes \<Rightarrow> byte \<Rightarrow> CourierQueryReply" where
  "ackReply envHash replyIndex = envelope_reply envHash replyIndex ReplyTypeACK [] EnvelopeErrorSuccess"

definition createEnvelopeErrorReply :: "bytes \<Rightarrow> byte \<Rightarrow> byte \<Rightarrow> CourierQueryReply" where
  "createEnvelopeErrorReply envHash errorCode replyIndex = envelope_reply envHash replyIndex ReplyTypeACK [] errorCode"

definition isEnvelopeEpochAcceptable :: "64 word \<Rightarrow> 64 word \<Rightarrow> bool" where
  "isEnvelopeEpochAcceptable envelopeEpoch currentEpoch =
     (if envelopeEpoch > currentEpoch then envelopeEpoch - currentEpoch \<le> ValidCourierEnvelopeEpochWindow
      else currentEpoch - envelopeEpoch \<le> ValidCourierEnvelopeEpochWindow)"

definition scheduleReplicaDispatch :: "Courier \<Rightarrow> bytes \<Rightarrow> CourierEnvelope \<Rightarrow> Courier" where
  "scheduleReplicaDispatch e envHash courierMessage =
     (if envHash \<in> inFlight e then e
      else e\<lparr>inFlight := insert envHash (inFlight e),
             dispatches := (envHash, courierMessage, False) # dispatches e\<rparr>)"

definition cacheEntryHasOnlyErrors :: "CourierBookKeeping \<Rightarrow> bool" where
  "cacheEntryHasOnlyErrors entry =
     (let replies = List.map_filter (\<lambda>reply. reply) (bk_EnvelopeReplies entry)
      in (\<forall>reply\<in>set replies. mr_ErrorCode reply \<noteq> 0) \<and> replies \<noteq> [])"

text \<open>The slot of the answer and its payload; an index out of range of the replies is a panic.\<close>

definition old_payload :: "CourierBookKeeping \<Rightarrow> byte \<Rightarrow> (unit, byte \<times> bytes) outcome" where
  "old_payload entry replyIndex =
     (if unat replyIndex \<ge> length (bk_EnvelopeReplies entry) \<or> unat (replyIndex XOR 1) \<ge> length (bk_EnvelopeReplies entry)
      then Panic
      else
        let other = replyIndex XOR 1 in
        case (bk_EnvelopeReplies entry ! unat replyIndex, bk_EnvelopeReplies entry ! unat other) of
          (Some r, Some r') \<Rightarrow>
            if length (mr_EnvelopeReply r) = 0 \<and> length (mr_EnvelopeReply r') > 0 then Ok (other, mr_EnvelopeReply r')
            else Ok (replyIndex, mr_EnvelopeReply r)
        | (Some r, None) \<Rightarrow> Ok (replyIndex, mr_EnvelopeReply r)
        | (None, Some r') \<Rightarrow> Ok (other, mr_EnvelopeReply r')
        | (None, None) \<Rightarrow> Ok (replyIndex, []))"

definition handleOldMessage ::
  "CourierBookKeeping option \<Rightarrow> bytes \<Rightarrow> CourierEnvelope \<Rightarrow> (unit, CourierQueryReply) outcome" where
  "handleOldMessage cacheEntry envHash courierMessage =
     (if ce_ReplyIndex courierMessage > 1 then Ok (createEnvelopeErrorReply envHash EnvelopeErrorInvalidEnvelope 0)
      else (case cacheEntry of
        None \<Rightarrow> Ok (createEnvelopeErrorReply envHash EnvelopeErrorCacheCorruption (ce_ReplyIndex courierMessage))
      | Some entry \<Rightarrow>
          obind (old_payload entry (ce_ReplyIndex courierMessage)) (\<lambda>(replyIndex, payload).
          let replyType = (if length payload > 0 then ReplyTypePayload else ReplyTypeACK)
          in Ok (envelope_reply envHash replyIndex replyType payload EnvelopeErrorSuccess))))"

definition getCurrentEpoch :: "64 word option \<Rightarrow> 64 word" where
  "getCurrentEpoch pkiDoc = (case pkiDoc of Some epoch \<Rightarrow> epoch | None \<Rightarrow> 0)"

text \<open>What a handler reads of its surroundings.\<close>

record clock_reads =
  at_now :: int
  at_replica_epoch :: "64 word"
  at_pki_epoch :: "64 word option"

definition cacheHandleCourierEnvelope ::
  "(bytes \<Rightarrow> bytes) \<Rightarrow> clock_reads \<Rightarrow> Courier \<Rightarrow> byte \<Rightarrow> CourierEnvelope \<Rightarrow> (unit, CourierQueryReply \<times> Courier) outcome" where
  "cacheHandleCourierEnvelope Sum256 R e queryType courierMessage =
     (let envHash = CourierEnvelope_EnvelopeHash Sum256 courierMessage in
      if \<not> isEnvelopeEpochAcceptable (ce_Epoch courierMessage) (at_replica_epoch R)
      then Ok (createEnvelopeErrorReply envHash EnvelopeErrorInvalidEpoch (ce_ReplyIndex courierMessage), e)
      else (case dedupCache e envHash of
        None \<Rightarrow>
          let entry = \<lparr>bk_Epoch = getCurrentEpoch (at_pki_epoch R), bk_CreatedAt = at_now R, bk_QueryType = queryType,
                bk_IntermediateReplicas = ce_IntermediateReplicas courierMessage, bk_EnvelopeReplies = [None, None]\<rparr>;
              e = e\<lparr>dedupCache := (pruneDedupCacheLocked (at_now R) DedupCacheTTL (dedupCache e))(envHash \<mapsto> entry)\<rparr>
          in Ok (ackReply envHash (ce_ReplyIndex courierMessage), scheduleReplicaDispatch e envHash courierMessage)
      | Some cacheEntry \<Rightarrow>
          let e = (if cacheEntryHasOnlyErrors cacheEntry then scheduleReplicaDispatch e envHash courierMessage else e)
          in obind (handleOldMessage (Some cacheEntry) envHash courierMessage) (\<lambda>reply. Ok (reply, e))))"

text \<open>
  The goroutine of a dispatch: it waits for a slot of the semaphore (\<open>None\<close>: none is free), and when it has sent
  its messages, failed, or seen the shutdown, it gives the slot back and leaves \<open>inFlight\<close>.
\<close>

definition slots_held :: "Courier \<Rightarrow> nat" where
  "slots_held e = length (filter (\<lambda>(_, _, holds). holds) (dispatches e))"

definition acquire_slot :: "Courier \<Rightarrow> nat \<Rightarrow> Courier option" where
  "acquire_slot e i =
     (case dispatches e ! i of
        (envHash, courierMessage, holds) \<Rightarrow>
          if holds \<or> slots_held e \<ge> maxConcurrentReplicaDispatch then None
          else Some (e\<lparr>dispatches := (dispatches e)[i := (envHash, courierMessage, True)]\<rparr>))"

definition end_dispatch :: "Courier \<Rightarrow> nat \<Rightarrow> Courier" where
  "end_dispatch e i = e\<lparr>dispatches := take i (dispatches e) @ drop (Suc i) (dispatches e),
     inFlight := inFlight e - {fst (dispatches e ! i)}\<rparr>"

section \<open>Copy commands\<close>

definition inProgressReply :: CourierQueryReply where
  "inProgressReply = \<lparr>cqr_ReplyType = 1, cqr_EnvelopeReply = None, cqr_CopyCommandReply =
     Some \<lparr>ccr_Status = CopyStatusInProgress, ccr_ErrorCode = 0, ccr_FailedEnvelopeIndex = 0\<rparr>\<rparr>"

text \<open>The result is \<open>None\<close> for a nil pointer.\<close>

definition start_copy :: "int \<Rightarrow> Courier \<Rightarrow> CopyCommand \<Rightarrow> bytes \<Rightarrow> CourierQueryReply option \<times> Courier" where
  "start_copy now e copyCmd copyKey =
     (let state = \<lparr>cs_InProgress = True, cs_Done = False, cs_Result = None, cs_CompletedAt = 0\<rparr>;
          a = length (copyStates e);
          cache = pruneCopyDedupCacheLocked (copyStates e) now CopyDedupCacheTTL (copyDedupCache e)
      in (Some inProgressReply, e\<lparr>copyDedupCache := cache(copyKey \<mapsto> a), copyStates := copyStates e @ [state],
            workers := (copyCmd, copyKey, a) # workers e\<rparr>))"

definition handleCopyCommand ::
  "(bytes \<Rightarrow> bytes) \<Rightarrow> int \<Rightarrow> Courier \<Rightarrow> CopyCommand \<Rightarrow> CourierQueryReply option \<times> Courier" where
  "handleCopyCommand Sum256 now e copyCmd =
     (let copyKey = Sum256 (cc_WriteCap copyCmd) in
      case copyDedupCache e copyKey of
        Some a \<Rightarrow>
          if cs_InProgress (copyStates e ! a) then (Some inProgressReply, e)
          else if now - cs_CompletedAt (copyStates e ! a) < CopyDedupCacheTTL then (cs_Result (copyStates e ! a), e)
          else start_copy now (e\<lparr>copyDedupCache := (copyDedupCache e)(copyKey := None)\<rparr>) copyCmd copyKey
      | None \<Rightarrow> start_copy now e copyCmd copyKey)"

text \<open>
  The end of a worker, whose work returned a reply or panicked. \<open>None\<close> is a panic of the closing itself, of a
  channel that is closed already.
\<close>

definition worker_result :: "(unit, CourierQueryReply) outcome \<Rightarrow> CourierQueryReply" where
  "worker_result work =
     (case work of
        Ok reply \<Rightarrow> reply
      | _ \<Rightarrow> \<lparr>cqr_ReplyType = 1, cqr_EnvelopeReply = None, cqr_CopyCommandReply =
          Some \<lparr>ccr_Status = CopyStatusFailed, ccr_ErrorCode = 0, ccr_FailedEnvelopeIndex = 0\<rparr>\<rparr>)"

definition runCopyCommand ::
  "int \<Rightarrow> Courier \<Rightarrow> CopyCommand \<times> bytes \<times> nat \<Rightarrow> (unit, CourierQueryReply) outcome \<Rightarrow> Courier option" where
  "runCopyCommand now e worker work =
     (let a = snd (snd worker)
      in if cs_Done (copyStates e ! a) then None
         else Some (e\<lparr>copyStates := (copyStates e)[a := \<lparr>cs_InProgress = False, cs_Done = True,
                         cs_Result = Some (worker_result work), cs_CompletedAt = now\<rparr>],
                      workers := filter (\<lambda>v. v \<noteq> worker) (workers e)\<rparr>))"

section \<open>The plugin\<close>

datatype plugin_error = ErrInvalidCommand | ErrDecodingFailed

text \<open>The payload of the response, if there is one. A nil result of a copy command is a panic in \<open>Bytes\<close>.\<close>

definition OnCommand ::
  "(bytes \<Rightarrow> bytes) \<Rightarrow> clock_reads \<Rightarrow> Courier \<Rightarrow> bytes \<Rightarrow> (plugin_error, bytes option \<times> Courier) outcome" where
  "OnCommand Sum256 R e payload =
     (case CourierQueryFromBytes payload of
        Err _ \<Rightarrow> Err ErrDecodingFailed
      | Panic \<Rightarrow> Panic
      | Ok courierQuery \<Rightarrow>
          (case cq_Envelope courierQuery of
             Some envelope \<Rightarrow>
               (case cacheHandleCourierEnvelope Sum256 R e (cq_QueryType courierQuery) envelope of
                  Ok (reply, e) \<Rightarrow> Ok (Some (CourierQueryReply_Bytes reply), e)
                | _ \<Rightarrow> Panic)
           | None \<Rightarrow>
               (case cq_CopyCommand courierQuery of
                  Some copyCmd \<Rightarrow>
                    (case handleCopyCommand Sum256 (at_now R) e copyCmd of
                       (Some reply, e) \<Rightarrow> Ok (Some (CourierQueryReply_Bytes reply), e)
                     | (None, e) \<Rightarrow> Panic)
                | None \<Rightarrow> Ok (None, e))))"

section \<open>Runs\<close>

text \<open>
  The courier with the clock and all replies that replicas have sent so far. The channels of \<open>copyCache\<close> belong to
  the copy workers, which register, empty and remove them at any time.
\<close>

type_synonym courier_sys = "Courier \<times> int \<times> ReplicaMessageReply list"

inductive courier_step :: "(bytes \<Rightarrow> bytes) \<Rightarrow> courier_sys \<Rightarrow> courier_sys \<Rightarrow> bool" for Sum256 where
  step_time: "now \<le> now' \<Longrightarrow> courier_step Sum256 (e, now, got) (e, now', got)"
| step_command: "OnCommand Sum256 R e payload = Ok (response, e') \<Longrightarrow> at_now R = now \<Longrightarrow>
    courier_step Sum256 (e, now, got) (e', now, got)"
| step_reply: "HandleReply e reply = Some e' \<Longrightarrow> courier_step Sum256 (e, now, got) (e', now, reply # got)"
| step_channels: "courier_step Sum256 (e, now, got) (e\<lparr>copyCache := channels\<rparr>, now, got)"
| step_acquire: "i < length (dispatches e) \<Longrightarrow> acquire_slot e i = Some e' \<Longrightarrow> courier_step Sum256 (e, now, got) (e', now, got)"
| step_sent: "i < length (dispatches e) \<Longrightarrow> courier_step Sum256 (e, now, got) (end_dispatch e i, now, got)"
| step_copied: "worker \<in> set (workers e) \<Longrightarrow> runCopyCommand now e worker work = Some e' \<Longrightarrow>
    courier_step Sum256 (e, now, got) (e', now, got)"

abbreviation courier_run :: "(bytes \<Rightarrow> bytes) \<Rightarrow> courier_sys \<Rightarrow> courier_sys \<Rightarrow> bool" where
  "courier_run Sum256 \<equiv> (courier_step Sum256)\<^sup>*\<^sup>*"

inductive_cases courier_stepE: "courier_step Sum256 (e, now, got) s'"

section \<open>Pruning caches\<close>

text \<open>Both caches drop their expired entries and nothing else.\<close>

locale ttl_pruner =
  fixes prune :: "int \<Rightarrow> int \<Rightarrow> (bytes \<rightharpoonup> 'v) \<Rightarrow> (bytes \<rightharpoonup> 'v)"
    and expired :: "int \<Rightarrow> int \<Rightarrow> 'v \<Rightarrow> bool"
  assumes prune_Some: "prune now ttl m k = Some v \<longleftrightarrow> m k = Some v \<and> \<not> expired now ttl v"
begin

lemma prune_sub: "prune now ttl m \<subseteq>\<^sub>m m"
  unfolding map_le_def by (metis domD prune_Some)

lemma prune_keeps: "m k = Some v \<Longrightarrow> \<not> expired now ttl v \<Longrightarrow> prune now ttl m k = Some v"
  by (simp add: prune_Some)

lemma prune_idem: "prune now ttl (prune now ttl m) = prune now ttl m"
proof
  show "prune now ttl (prune now ttl m) k = prune now ttl m k" for k
  proof (cases "prune now ttl m k")
    case None
    then show ?thesis by (metis not_Some_eq prune_Some)
  next
    case (Some v)
    then have "\<not> expired now ttl v" by (simp add: prune_Some)
    with Some show ?thesis using prune_keeps by metis
  qed
qed

end

interpretation dedup: ttl_pruner pruneDedupCacheLocked "\<lambda>now ttl entry. now - bk_CreatedAt entry > ttl"
  by unfold_locales (auto simp: pruneDedupCacheLocked_def split: option.splits)

interpretation copy_dedup: ttl_pruner "pruneCopyDedupCacheLocked states"
  "\<lambda>now ttl a. \<not> cs_InProgress (states ! a) \<and> now - cs_CompletedAt (states ! a) > ttl" for states
  by unfold_locales (auto simp: pruneCopyDedupCacheLocked_def split: option.splits)

section \<open>The invariant\<close>

definition entry_ok :: "bytes \<Rightarrow> ReplicaMessageReply list \<Rightarrow> CourierBookKeeping \<Rightarrow> bool" where
  "entry_ok h got entry \<longleftrightarrow>
     length (bk_IntermediateReplicas entry) = 2 \<and> length (bk_EnvelopeReplies entry) = 2 \<and>
     (\<forall>i<2. \<forall>m. bk_EnvelopeReplies entry ! i = Some m \<longrightarrow>
        m \<in> set got \<and> mr_EnvelopeHash m = h \<and> mr_ReplicaID m = bk_IntermediateReplicas entry ! i)"

definition cache_ok :: "Courier \<Rightarrow> ReplicaMessageReply list \<Rightarrow> bool" where
  "cache_ok e got \<longleftrightarrow> (\<forall>h entry. dedupCache e h = Some entry \<longrightarrow> entry_ok h got entry)"

definition dispatch_ok :: "Courier \<Rightarrow> bool" where
  "dispatch_ok e \<longleftrightarrow> distinct (map fst (dispatches e)) \<and> fst ` set (dispatches e) = inFlight e \<and>
     slots_held e \<le> maxConcurrentReplicaDispatch"

definition copy_ok :: "(bytes \<Rightarrow> bytes) \<Rightarrow> Courier \<Rightarrow> bool" where
  "copy_ok Sum256 e \<longleftrightarrow>
     (\<forall>key a. copyDedupCache e key = Some a \<longrightarrow> a < length (copyStates e) \<and>
        (if cs_InProgress (copyStates e ! a) then \<exists>cmd. (cmd, key, a) \<in> set (workers e)
         else cs_Result (copyStates e ! a) \<noteq> None)) \<and>
     (\<forall>key key' a. copyDedupCache e key = Some a \<and> copyDedupCache e key' = Some a \<longrightarrow> key = key') \<and>
     (\<forall>(cmd, key, a)\<in>set (workers e). key = Sum256 (cc_WriteCap cmd) \<and> copyDedupCache e key = Some a \<and>
        cs_InProgress (copyStates e ! a) \<and> \<not> cs_Done (copyStates e ! a)) \<and>
     distinct (map (fst \<circ> snd) (workers e))"

lemma index_of_Some: "index_of x xs i \<ge> i \<and> nat (index_of x xs i - i) < length xs \<and> xs ! nat (index_of x xs i - i) = x \<or> index_of x xs i = -1"
  if "i \<ge> 0"
  using that
proof (induction xs arbitrary: i)
  case (Cons y ys)
  show ?case
  proof (cases "y = x \<or> index_of x ys (i + 1) = -1")
    case False
    then have "index_of x ys (i + 1) \<ge> i + 1" "nat (index_of x ys (i + 1) - (i + 1)) < length ys"
        "ys ! nat (index_of x ys (i + 1) - (i + 1)) = x"
      using Cons.IH [of "i + 1"] Cons.prems by auto
    moreover from this(1) have "nat (index_of x ys (i + 1) - i) = Suc (nat (index_of x ys (i + 1) - (i + 1)))" by linarith
    ultimately show ?thesis using False by simp
  qed auto
qed simp

lemma findReplicaIndex_nth:
  "findReplicaIndex entry replicaID \<ge> 0 \<Longrightarrow> nat (findReplicaIndex entry replicaID) < length (bk_IntermediateReplicas entry) \<and>
     bk_IntermediateReplicas entry ! nat (findReplicaIndex entry replicaID) = replicaID"
  using index_of_Some [of 0 replicaID "bk_IntermediateReplicas entry"] by (auto simp: findReplicaIndex_def)

text \<open>A reply takes one slot that was free or held an error, or is dropped.\<close>

lemma use_slot_cases:
  "use_slot entry reply is = entry \<or>
   (\<exists>i\<in>set is. bk_EnvelopeReplies entry ! i = None \<and>
      use_slot entry reply is = entry\<lparr>bk_IntermediateReplicas := (bk_IntermediateReplicas entry)[i := mr_ReplicaID reply],
        bk_EnvelopeReplies := (bk_EnvelopeReplies entry)[i := Some reply]\<rparr>)"
  by (induction "is") auto

lemma handleExistingEntry_cases:
  assumes l: "length (bk_IntermediateReplicas entry) = 2"
  shows "handleExistingEntry entry reply = entry \<or>
    (\<exists>i<2. (\<forall>m. bk_EnvelopeReplies entry ! i = Some m \<longrightarrow> mr_ErrorCode m \<noteq> 0) \<and>
       handleExistingEntry entry reply = entry\<lparr>bk_IntermediateReplicas := (bk_IntermediateReplicas entry)[i := mr_ReplicaID reply],
         bk_EnvelopeReplies := (bk_EnvelopeReplies entry)[i := Some reply]\<rparr>)"
proof (cases "findReplicaIndex entry (mr_ReplicaID reply) \<ge> 0")
  case True
  let ?i = "nat (findReplicaIndex entry (mr_ReplicaID reply))"
  from findReplicaIndex_nth [OF True] l
  have i: "?i < 2" "(bk_IntermediateReplicas entry)[?i := mr_ReplicaID reply] = bk_IntermediateReplicas entry"
    by (simp_all add: list_update_same_conv)
  have h: "handleExistingEntry entry reply = storeOrReplaceReply entry reply ?i"
    using True by (simp add: handleExistingEntry_def)
  show ?thesis unfolding h using i
    by (auto simp: storeOrReplaceReply_def split: option.splits if_splits intro!: exI [of _ ?i])
next
  case False
  then show ?thesis using use_slot_cases [of entry reply "[0..<2]"] l
    by (auto simp: handleExistingEntry_def)
qed

lemma entry_ok_reply:
  assumes "entry_ok h got entry" "mr_EnvelopeHash reply = h"
  shows "entry_ok h (reply # got) (handleExistingEntry entry reply)"
proof -
  have l: "length (bk_IntermediateReplicas entry) = 2" "length (bk_EnvelopeReplies entry) = 2"
    using assms(1) by (simp_all add: entry_ok_def)
  show ?thesis using handleExistingEntry_cases [OF l(1), of reply] assms l
    by (auto simp: entry_ok_def nth_list_update split: if_splits)
qed

lemma entry_ok_mono: "entry_ok h got entry \<Longrightarrow> entry_ok h (reply # got) entry"
  by (auto simp: entry_ok_def)

lemma cache_ok_CacheReply: "cache_ok e got \<Longrightarrow> cache_ok (CacheReply e reply) (reply # got)"
  by (auto simp: cache_ok_def CacheReply_def entry_ok_reply entry_ok_mono split: option.splits)

lemma HandleReply_fields:
  "HandleReply e reply = Some e' \<Longrightarrow> e' = CacheReply e reply \<or> (\<exists>channels. e' = e\<lparr>copyCache := channels\<rparr>)"
  by (auto simp: HandleReply_def split: option.splits if_splits prod.splits)

text \<open>Each of the three invariants reads its own part of the state.\<close>

lemma inv_updates [simp]:
  "cache_ok (e\<lparr>copyCache := x1\<rparr>) got = cache_ok e got" "cache_ok (e\<lparr>inFlight := x2, dispatches := x3\<rparr>) got = cache_ok e got"
  "cache_ok (e\<lparr>dispatches := x3\<rparr>) got = cache_ok e got" "cache_ok (e\<lparr>dispatches := x3, inFlight := x2\<rparr>) got = cache_ok e got"
  "dispatch_ok (e\<lparr>copyCache := x1\<rparr>) = dispatch_ok e" "dispatch_ok (e\<lparr>dedupCache := x4\<rparr>) = dispatch_ok e"
  "copy_ok Sum256 (e\<lparr>copyCache := x1\<rparr>) = copy_ok Sum256 e" "copy_ok Sum256 (e\<lparr>dedupCache := x4\<rparr>) = copy_ok Sum256 e"
  "copy_ok Sum256 (e\<lparr>inFlight := x2, dispatches := x3\<rparr>) = copy_ok Sum256 e" "copy_ok Sum256 (e\<lparr>dispatches := x3\<rparr>) = copy_ok Sum256 e"
  "copy_ok Sum256 (e\<lparr>dispatches := x3, inFlight := x2\<rparr>) = copy_ok Sum256 e"
  by (simp_all add: cache_ok_def dispatch_ok_def slots_held_def copy_ok_def)

text \<open>What the parts of the state that a call leaves alone keep.\<close>

lemma cache_ok_frame: "cache_ok e got \<Longrightarrow> dedupCache e' = dedupCache e \<Longrightarrow> cache_ok e' got"
  by (simp add: cache_ok_def)

lemma dispatch_ok_frame: "dispatch_ok e \<Longrightarrow> dispatches e' = dispatches e \<Longrightarrow> inFlight e' = inFlight e \<Longrightarrow> dispatch_ok e'"
  by (simp add: dispatch_ok_def slots_held_def)

lemma copy_ok_frame:
  "copy_ok Sum256 e \<Longrightarrow> copyDedupCache e' = copyDedupCache e \<Longrightarrow> copyStates e' = copyStates e \<Longrightarrow> workers e' = workers e \<Longrightarrow>
     copy_ok Sum256 e'"
  by (simp add: copy_ok_def)

lemma CacheReply_frame:
  "dispatches (CacheReply e r) = dispatches e" "inFlight (CacheReply e r) = inFlight e"
  "copyDedupCache (CacheReply e r) = copyDedupCache e" "copyStates (CacheReply e r) = copyStates e"
  "workers (CacheReply e r) = workers e"
  by (simp_all add: CacheReply_def split: option.splits)

lemma scheduleReplicaDispatch_frame [simp]:
  "dedupCache (scheduleReplicaDispatch e h m) = dedupCache e"
  "copyDedupCache (scheduleReplicaDispatch e h m) = copyDedupCache e"
  "copyStates (scheduleReplicaDispatch e h m) = copyStates e"
  "workers (scheduleReplicaDispatch e h m) = workers e"
  by (simp_all add: scheduleReplicaDispatch_def)

lemma dispatch_ok_schedule: "dispatch_ok e \<Longrightarrow> dispatch_ok (scheduleReplicaDispatch e h m)"
  by (auto simp: scheduleReplicaDispatch_def dispatch_ok_def slots_held_def)

lemma dispatch_ok_acquire:
  assumes "dispatch_ok e" "i < length (dispatches e)" "acquire_slot e i = Some e'"
  shows "dispatch_ok e'"
proof -
  obtain h m where d: "dispatches e ! i = (h, m, False)" and free: "slots_held e < maxConcurrentReplicaDispatch"
    and e': "e' = e\<lparr>dispatches := (dispatches e)[i := (h, m, True)]\<rparr>"
    using assms(3) by (auto simp: acquire_slot_def split: prod.splits if_splits)
  have split: "dispatches e = take i (dispatches e) @ (h, m, False) # drop (Suc i) (dispatches e)"
    using id_take_nth_drop [OF assms(2)] d by simp
  have upd: "dispatches e' = take i (dispatches e) @ (h, m, True) # drop (Suc i) (dispatches e)"
    using assms(2) by (simp add: e' upd_conv_take_nth_drop)
  have "map fst (dispatches e') = map fst (dispatches e)" by (subst split, subst upd) simp
  moreover from this have "fst ` set (dispatches e') = fst ` set (dispatches e)" by (metis list.set_map)
  moreover have "slots_held e' = Suc (slots_held e)"
    unfolding slots_held_def by (subst split, subst upd) simp
  ultimately show ?thesis using assms(1) free by (simp add: dispatch_ok_def e')
qed

lemma dispatch_ok_end:
  assumes "dispatch_ok e" "i < length (dispatches e)"
  shows "dispatch_ok (end_dispatch e i)"
proof -
  obtain xs h m b ys where d: "dispatches e = xs @ (h, m, b) # ys" "length xs = i"
    using id_take_nth_drop [OF assms(2)] assms(2) by (metis length_take less_imp_le min.absorb2 prod_cases3)
  have e: "dispatches (end_dispatch e i) = xs @ ys" "inFlight (end_dispatch e i) = inFlight e - {h}"
    using d(2) by (simp_all add: end_dispatch_def d(1) nth_append)
  have "distinct (map fst (xs @ (h, m, b) # ys))" "inFlight e = fst ` set (xs @ (h, m, b) # ys)"
      "length (filter (\<lambda>(_, _, holds). holds) (xs @ (h, m, b) # ys)) \<le> maxConcurrentReplicaDispatch"
    using assms(1) d(1) by (auto simp: dispatch_ok_def slots_held_def)
  then show ?thesis unfolding dispatch_ok_def slots_held_def e by (auto simp: image_Un split: if_splits)
qed

lemma copy_okD:
  assumes "copy_ok Sum256 e"
  shows "copyDedupCache e key = Some a \<Longrightarrow> a < length (copyStates e)"
    and "copyDedupCache e key = Some a \<Longrightarrow> cs_InProgress (copyStates e ! a) \<Longrightarrow> \<exists>cmd. (cmd, key, a) \<in> set (workers e)"
    and "copyDedupCache e key = Some a \<Longrightarrow> \<not> cs_InProgress (copyStates e ! a) \<Longrightarrow> \<exists>r. cs_Result (copyStates e ! a) = Some r"
    and "copyDedupCache e key = Some a \<Longrightarrow> copyDedupCache e key' = Some a \<Longrightarrow> key = key'"
    and "(cmd, key, a) \<in> set (workers e) \<Longrightarrow> key = Sum256 (cc_WriteCap cmd) \<and> copyDedupCache e key = Some a \<and>
      cs_InProgress (copyStates e ! a) \<and> \<not> cs_Done (copyStates e ! a)"
    and "distinct (map (fst \<circ> snd) (workers e))"
  using assms unfolding copy_ok_def by (auto split: if_splits)

lemma copy_ok_insert:
  assumes ok: "copy_ok Sum256 e" and sub: "c \<subseteq>\<^sub>m copyDedupCache e"
    and keep: "\<And>cmd k a. (cmd, k, a) \<in> set (workers e) \<Longrightarrow> c k = Some a \<and> k \<noteq> key"
    and key: "key = Sum256 (cc_WriteCap cmd)" and s: "cs_InProgress s" "\<not> cs_Done s"
  shows "copy_ok Sum256 (e\<lparr>copyDedupCache := c(key \<mapsto> length (copyStates e)), copyStates := copyStates e @ [s],
    workers := (cmd, key, length (copyStates e)) # workers e\<rparr>)"
proof -
  have c: "c k = Some a \<Longrightarrow> copyDedupCache e k = Some a" for k a
    using sub unfolding map_le_def by (metis domI)
  have less: "c k = Some a \<Longrightarrow> a < length (copyStates e)" for k a
    using copy_okD(1) [OF ok c] .
  have w: "(cmd', k, a) \<in> set (workers e) \<Longrightarrow> a < length (copyStates e) \<and> cs_InProgress (copyStates e ! a) \<and>
      \<not> cs_Done (copyStates e ! a) \<and> k = Sum256 (cc_WriteCap cmd')" for cmd' k a
    using copy_okD(5) [OF ok] copy_okD(1) [OF ok] by blast
  have new: "(cmd', Sum256 (cc_WriteCap cmd), a) \<notin> set (workers e)" for cmd' a using keep key by blast
  have "key \<notin> set (map (fst \<circ> snd) (workers e))" using keep by force
  moreover have "k = k'" if "c k = Some a" "c k' = Some a" for k k' a
    using copy_okD(4) [OF ok c c] that by blast
  moreover have "if cs_InProgress (copyStates e ! a) then \<exists>cmd. (cmd, k, a) \<in> set (workers e) else cs_Result (copyStates e ! a) \<noteq> None"
    if "c k = Some a" for k a
    using copy_okD(2,3) [OF ok c [OF that]] by auto
  ultimately show ?thesis
    using s copy_okD(6) [OF ok] less w keep key unfolding copy_ok_def
    by (auto simp: nth_append new dest: less split: if_splits)
qed

lemma start_copy_ok:
  assumes ok: "copy_ok Sum256 e" and key: "key = Sum256 (cc_WriteCap cmd)"
    and idle: "\<And>a. copyDedupCache e key = Some a \<Longrightarrow> \<not> cs_InProgress (copyStates e ! a)"
    and c: "c = copyDedupCache e \<or> c = (copyDedupCache e)(key := None)"
  shows "copy_ok Sum256 (snd (start_copy now (e\<lparr>copyDedupCache := c\<rparr>) cmd key))"
proof -
  let ?c = "pruneCopyDedupCacheLocked (copyStates e) now CopyDedupCacheTTL c"
  have sub: "?c \<subseteq>\<^sub>m copyDedupCache e"
    using copy_dedup.prune_sub [of "copyStates e" now CopyDedupCacheTTL c] c unfolding map_le_def
    by (auto simp: dom_def split: if_splits)
  have "?c k = Some a \<and> k \<noteq> key" if "(cmd', k, a) \<in> set (workers e)" for cmd' k a
  proof -
    have w: "copyDedupCache e k = Some a" "cs_InProgress (copyStates e ! a)" using copy_okD(5) [OF ok that] by auto
    then have "k \<noteq> key" using idle by auto
    moreover from this w c have "c k = Some a" by auto
    ultimately show ?thesis using copy_dedup.prune_keeps w(2) by blast
  qed
  from copy_ok_insert [OF ok sub this key, where s = "\<lparr>cs_InProgress = True, cs_Done = False, cs_Result = None, cs_CompletedAt = 0\<rparr>"]
  show ?thesis by (simp add: start_copy_def Let_def)
qed

lemma handleCopyCommand_cases:
  assumes ok: "copy_ok Sum256 e"
  obtains (running) cmd' a where "(cmd', Sum256 (cc_WriteCap cmd), a) \<in> set (workers e)"
      "handleCopyCommand Sum256 now e cmd = (Some inProgressReply, e)"
  | (cached) a r where "copyDedupCache e (Sum256 (cc_WriteCap cmd)) = Some a" "\<not> cs_InProgress (copyStates e ! a)"
      "now - cs_CompletedAt (copyStates e ! a) < CopyDedupCacheTTL" "cs_Result (copyStates e ! a) = Some r"
      "handleCopyCommand Sum256 now e cmd = (Some r, e)"
  | (started) c where "c = copyDedupCache e \<or> c = (copyDedupCache e)(Sum256 (cc_WriteCap cmd) := None)"
      "\<And>a. copyDedupCache e (Sum256 (cc_WriteCap cmd)) = Some a \<Longrightarrow> \<not> cs_InProgress (copyStates e ! a) \<and>
         now - cs_CompletedAt (copyStates e ! a) \<ge> CopyDedupCacheTTL"
      "handleCopyCommand Sum256 now e cmd = start_copy now (e\<lparr>copyDedupCache := c\<rparr>) cmd (Sum256 (cc_WriteCap cmd))"
proof (cases "copyDedupCache e (Sum256 (cc_WriteCap cmd))")
  case None
  then show ?thesis using started [of "copyDedupCache e"] by (simp add: handleCopyCommand_def)
next
  case (Some a)
  show ?thesis
  proof (cases "cs_InProgress (copyStates e ! a)")
    case True
    then show ?thesis using copy_okD(2) [OF ok Some True] running Some by (auto simp: handleCopyCommand_def)
  next
    case False
    from copy_okD(3) [OF ok Some False] obtain r where "cs_Result (copyStates e ! a) = Some r" ..
    then show ?thesis using cached [OF Some False] started [of "(copyDedupCache e)(Sum256 (cc_WriteCap cmd) := None)"] Some False
      by (cases "now - cs_CompletedAt (copyStates e ! a) < CopyDedupCacheTTL") (auto simp: handleCopyCommand_def Let_def)
  qed
qed

lemma start_copy_frame [simp]:
  "dedupCache (snd (start_copy now e cmd key)) = dedupCache e" "dispatches (snd (start_copy now e cmd key)) = dispatches e"
  "inFlight (snd (start_copy now e cmd key)) = inFlight e" "fst (start_copy now e cmd key) = Some inProgressReply"
  by (simp_all add: start_copy_def Let_def)

lemma copy_ok_handle:
  assumes "copy_ok Sum256 e"
  shows "copy_ok Sum256 (snd (handleCopyCommand Sum256 now e cmd)) \<and> (\<exists>r. fst (handleCopyCommand Sum256 now e cmd) = Some r)"
  using assms
proof (cases rule: handleCopyCommand_cases [of Sum256 e cmd now])
  case (started c)
  have "copy_ok Sum256 (snd (start_copy now (e\<lparr>copyDedupCache := c\<rparr>) cmd (Sum256 (cc_WriteCap cmd))))"
    by (rule start_copy_ok [OF assms refl _ started(1)]) (use started(2) in blast)
  then show ?thesis by (simp add: started(3))
qed (use assms in auto)

lemma handleCopyCommand_frame:
  "dedupCache (snd (handleCopyCommand Sum256 now e cmd)) = dedupCache e"
  "dispatches (snd (handleCopyCommand Sum256 now e cmd)) = dispatches e"
  "inFlight (snd (handleCopyCommand Sum256 now e cmd)) = inFlight e"
  by (simp_all add: handleCopyCommand_def Let_def split: option.splits)

lemma copy_ok_run:
  assumes ok: "copy_ok Sum256 e" and w: "worker \<in> set (workers e)"
  shows "\<exists>e'. runCopyCommand now e worker work = Some e' \<and> copy_ok Sum256 e' \<and> dedupCache e' = dedupCache e \<and>
    dispatches e' = dispatches e \<and> inFlight e' = inFlight e"
proof -
  obtain cmd key a where wk: "worker = (cmd, key, a)" by (cases worker)
  let ?s = "\<lparr>cs_InProgress = False, cs_Done = True, cs_Result = Some (worker_result work), cs_CompletedAt = now\<rparr>"
  let ?e = "e\<lparr>copyStates := (copyStates e)[a := ?s], workers := filter (\<lambda>v. v \<noteq> worker) (workers e)\<rparr>"
  have own: "copyDedupCache e key = Some a" "\<not> cs_Done (copyStates e ! a)" and less: "a < length (copyStates e)"
    using copy_okD(5) [OF ok, of cmd key a] copy_okD(1) [OF ok] w wk by auto
  have run: "runCopyCommand now e worker work = Some ?e" using own(2) by (simp add: runCopyCommand_def wk)
  have other: "b \<noteq> a" if "(cmd', k, b) \<in> set (workers e)" "(cmd', k, b) \<noteq> worker" for cmd' k b
  proof
    assume b: "b = a"
    then have k: "k = key" using copy_okD(4,5) [OF ok] own(1) that(1) by metis
    have "inj_on (fst \<circ> snd) (set (workers e))" using copy_okD(6) [OF ok] by (simp add: distinct_map)
    from inj_onD [OF this, of "(cmd', k, b)" worker] that w wk k show False by simp
  qed
  then have same: "(copyStates e)[a := ?s] ! b = copyStates e ! b" if "(cmd', k, b) \<in> set (workers e)" "(cmd', k, b) \<noteq> worker" for cmd' k b
    using that by (metis nth_list_update_neq)
  have "copy_ok Sum256 ?e" unfolding copy_ok_def
  proof (intro conjI allI impI)
    fix k b
    assume "copyDedupCache ?e k = Some b"
    then have k: "copyDedupCache e k = Some b" by simp
    then show "b < length (copyStates ?e)" using copy_okD(1) [OF ok] by simp
    show "if cs_InProgress (copyStates ?e ! b) then \<exists>cmd. (cmd, k, b) \<in> set (workers ?e) else cs_Result (copyStates ?e ! b) \<noteq> None"
    proof (cases "b = a")
      case True
      then show ?thesis using less by simp
    next
      case False
      then show ?thesis using copy_okD(2,3) [OF ok k] wk by auto
    qed
  next
    show "\<forall>(cmd, key, a)\<in>set (workers ?e). key = Sum256 (cc_WriteCap cmd) \<and> copyDedupCache ?e key = Some a \<and>
        cs_InProgress (copyStates ?e ! a) \<and> \<not> cs_Done (copyStates ?e ! a)"
      using copy_okD(5) [OF ok] same by auto
    show "distinct (map (fst \<circ> snd) (workers ?e))" using copy_okD(6) [OF ok] by (simp add: distinct_map_filter)
  qed (use copy_okD(4) [OF ok] in auto)
  then show ?thesis using run by auto
qed

section \<open>Requests\<close>

lemma byte_le_1: "\<not> x > 1 \<Longrightarrow> x = 0 \<or> x = 1" for x :: byte
  by unat_arith

lemma old_payload_ok:
  assumes ok: "entry_ok h got entry" and x: "x = 0 \<or> x = 1"
  obtains j p where "old_payload entry x = Ok (j, p)"
    "p = [] \<or> (\<exists>m\<in>set got. mr_EnvelopeHash m = h \<and> mr_EnvelopeReply m = p)"
proof -
  have l: "length (bk_EnvelopeReplies entry) = 2" using ok by (simp add: entry_ok_def)
  have slot: "bk_EnvelopeReplies entry ! i = Some m \<Longrightarrow> m \<in> set got \<and> mr_EnvelopeHash m = h" if "i < 2" for i m
    using ok that by (simp add: entry_ok_def)
  note r = slot [of 0, simplified] slot [of "Suc 0", simplified]
  have "\<exists>j p. old_payload entry x = Ok (j, p) \<and> (p = [] \<or> (\<exists>m\<in>set got. mr_EnvelopeHash m = h \<and> mr_EnvelopeReply m = p))"
    using x
  proof
    assume "x = 0"
    with l show ?thesis
      by (cases "bk_EnvelopeReplies entry ! 0"; cases "bk_EnvelopeReplies entry ! 1")
        (auto simp: old_payload_def Let_def dest!: r)
  next
    assume "x = 1"
    with l show ?thesis
      by (cases "bk_EnvelopeReplies entry ! 0"; cases "bk_EnvelopeReplies entry ! 1")
        (auto simp: old_payload_def Let_def dest!: r)
  qed
  then show ?thesis using that by blast
qed

text \<open>The answer is for the envelope, and a payload in it is the reply of a replica to this very envelope.\<close>

definition answers_from :: "ReplicaMessageReply list \<Rightarrow> bytes \<Rightarrow> CourierQueryReply \<Rightarrow> bool" where
  "answers_from got h reply \<longleftrightarrow> cqr_ReplyType reply = 0 \<and>
     (\<exists>r. cqr_EnvelopeReply reply = Some r \<and> cer_EnvelopeHash r = h \<and>
        (if cer_ReplyType r = ReplyTypePayload
         then cer_Payload r \<noteq> [] \<and> (\<exists>m\<in>set got. mr_EnvelopeHash m = h \<and> mr_EnvelopeReply m = cer_Payload r)
         else cer_ReplyType r = ReplyTypeACK \<and> cer_Payload r = []))"

lemma answers_from_simps [simp]:
  "answers_from got h (ackReply h i)" "answers_from got h (createEnvelopeErrorReply h code i)"
  by (simp_all add: answers_from_def ackReply_def createEnvelopeErrorReply_def envelope_reply_def courier_codes)

lemma handleOldMessage_ok:
  assumes "entry_ok h got entry"
  obtains reply where "handleOldMessage (Some entry) h m = Ok reply" "answers_from got h reply"
proof (cases "ce_ReplyIndex m > 1")
  case True
  then show ?thesis using that by (simp add: handleOldMessage_def)
next
  case False
  obtain j p where "old_payload entry (ce_ReplyIndex m) = Ok (j, p)"
      "p = [] \<or> (\<exists>m\<in>set got. mr_EnvelopeHash m = h \<and> mr_EnvelopeReply m = p)"
    by (rule old_payload_ok [OF assms byte_le_1 [OF False]])
  note p = this
  have "handleOldMessage (Some entry) h m =
      Ok (envelope_reply h j (if length p > 0 then ReplyTypePayload else ReplyTypeACK) p EnvelopeErrorSuccess)"
    using False p(1) by (simp add: handleOldMessage_def)
  moreover have "answers_from got h (envelope_reply h j (if length p > 0 then ReplyTypePayload else ReplyTypeACK) p EnvelopeErrorSuccess)"
    using p(2) by (auto simp: answers_from_def envelope_reply_def courier_codes)
  ultimately show ?thesis by (rule that)
qed

lemma cache_ok_new:
  assumes "cache_ok e got" "length ids = 2"
  shows "cache_ok (e\<lparr>dedupCache := (pruneDedupCacheLocked now ttl (dedupCache e))(h \<mapsto>
    \<lparr>bk_Epoch = ep, bk_CreatedAt = t, bk_QueryType = q, bk_IntermediateReplicas = ids, bk_EnvelopeReplies = [None, None]\<rparr>)\<rparr>) got"
  using assms by (auto simp: cache_ok_def entry_ok_def dedup.prune_Some less_2_cases_iff)

lemma envelope_request:
  assumes "cache_ok e got" "dispatch_ok e" "length (ce_IntermediateReplicas m) = 2"
  obtains reply e' where "cacheHandleCourierEnvelope Sum256 R e q m = Ok (reply, e')"
    "answers_from got (CourierEnvelope_EnvelopeHash Sum256 m) reply" "cache_ok e' got" "dispatch_ok e'"
    "copyDedupCache e' = copyDedupCache e" "copyStates e' = copyStates e" "workers e' = workers e"
proof (cases "isEnvelopeEpochAcceptable (ce_Epoch m) (at_replica_epoch R)")
  case False
  then show ?thesis using that assms by (simp add: cacheHandleCourierEnvelope_def)
next
  case True
  let ?h = "CourierEnvelope_EnvelopeHash Sum256 m"
  show ?thesis
  proof (cases "dedupCache e ?h")
    case None
    let ?e = "e\<lparr>dedupCache := (pruneDedupCacheLocked (at_now R) DedupCacheTTL (dedupCache e))(?h \<mapsto>
      \<lparr>bk_Epoch = getCurrentEpoch (at_pki_epoch R), bk_CreatedAt = at_now R, bk_QueryType = q,
       bk_IntermediateReplicas = ce_IntermediateReplicas m, bk_EnvelopeReplies = [None, None]\<rparr>)\<rparr>"
    have h: "cacheHandleCourierEnvelope Sum256 R e q m = Ok (ackReply ?h (ce_ReplyIndex m), scheduleReplicaDispatch ?e ?h m)"
      using True None by (simp add: cacheHandleCourierEnvelope_def Let_def)
    have "cache_ok (scheduleReplicaDispatch ?e ?h m) got"
      by (rule cache_ok_frame [OF cache_ok_new [OF assms(1,3)]]) simp
    moreover have "dispatch_ok (scheduleReplicaDispatch ?e ?h m)" using assms(2) by (simp add: dispatch_ok_schedule)
    ultimately show ?thesis by (intro that [OF h]) simp_all
  next
    case (Some entry)
    let ?e = "if cacheEntryHasOnlyErrors entry then scheduleReplicaDispatch e ?h m else e"
    have "entry_ok ?h got entry" using assms(1) Some by (simp add: cache_ok_def)
    then obtain reply where "handleOldMessage (Some entry) ?h m = Ok reply" and from_got: "answers_from got ?h reply"
      by (rule handleOldMessage_ok)
    then have h: "cacheHandleCourierEnvelope Sum256 R e q m = Ok (reply, ?e)"
      using True Some by (simp add: cacheHandleCourierEnvelope_def Let_def)
    have "cache_ok ?e got" by (rule cache_ok_frame [OF assms(1)]) simp
    moreover have "dispatch_ok ?e" using assms(2) by (simp add: dispatch_ok_schedule)
    ultimately show ?thesis by (intro that [OF h from_got]) simp_all
  qed
qed

lemma query_envelope:
  "CourierQueryFromBytes p = Ok query \<Longrightarrow> cq_Envelope query = Some m \<Longrightarrow> length (ce_IntermediateReplicas m) = 2"
  by (auto simp: CourierQueryFromBytes_def ParseCourierQuery_def go_simps CourierQuery_Parse_cases CourierEnvelope_Parse_def parse_array_Ok)

lemma query_no_panic: "CourierQueryFromBytes p \<noteq> Panic"
  using cq_codec.parse_no_panic by (auto simp: CourierQueryFromBytes_def ParseCourierQuery_def go_simps)

fun sys_ok :: "(bytes \<Rightarrow> bytes) \<Rightarrow> courier_sys \<Rightarrow> bool" where
  "sys_ok Sum256 (e, now, got) \<longleftrightarrow> cache_ok e got \<and> dispatch_ok e \<and> copy_ok Sum256 e"

lemma OnCommand_ok:
  assumes "sys_ok Sum256 (e, now, got)"
  shows "OnCommand Sum256 R e p \<noteq> Panic"
    and "OnCommand Sum256 R e p = Ok (response, e') \<Longrightarrow> sys_ok Sum256 (e', now, got)"
proof -
  have inv: "cache_ok e got" "dispatch_ok e" "copy_ok Sum256 e" using assms by simp_all
  have "OnCommand Sum256 R e p \<noteq> Panic \<and> (OnCommand Sum256 R e p = Ok (response, e') \<longrightarrow> sys_ok Sum256 (e', now, got))"
  proof (cases "CourierQueryFromBytes p")
    case (Ok query)
    show ?thesis
    proof (cases "cq_Envelope query")
      case (Some m)
      obtain reply e1 where "cacheHandleCourierEnvelope Sum256 R e (cq_QueryType query) m = Ok (reply, e1)"
          "cache_ok e1 got" "dispatch_ok e1" "copyDedupCache e1 = copyDedupCache e" "copyStates e1 = copyStates e" "workers e1 = workers e"
        by (rule envelope_request [OF inv(1,2) query_envelope [OF Ok Some]])
      moreover from this(4-6) have "copy_ok Sum256 e1" by (rule copy_ok_frame [OF inv(3)])
      ultimately show ?thesis using Ok Some by (auto simp: OnCommand_def)
    next
      case None
      show ?thesis
      proof (cases "cq_CopyCommand query")
        case (Some cmd)
        obtain r e1 where h: "handleCopyCommand Sum256 (at_now R) e cmd = (Some r, e1)"
          using copy_ok_handle [OF inv(3), of "at_now R" cmd] by (metis prod.collapse)
        then have c: "copy_ok Sum256 e1" and f: "dedupCache e1 = dedupCache e" "dispatches e1 = dispatches e" "inFlight e1 = inFlight e"
          using copy_ok_handle [OF inv(3), of "at_now R" cmd] handleCopyCommand_frame [of Sum256 "at_now R" e cmd] by simp_all
        then show ?thesis using Ok None Some h cache_ok_frame [OF inv(1) f(1)] dispatch_ok_frame [OF inv(2) f(2,3)]
          by (auto simp: OnCommand_def)
      qed (use Ok None assms in \<open>auto simp: OnCommand_def\<close>)
    qed
  qed (auto simp: OnCommand_def query_no_panic)
  then show "OnCommand Sum256 R e p \<noteq> Panic"
    and "OnCommand Sum256 R e p = Ok (response, e') \<Longrightarrow> sys_ok Sum256 (e', now, got)" by auto
qed

lemma sys_ok_step: "courier_step Sum256 s s' \<Longrightarrow> sys_ok Sum256 s \<Longrightarrow> sys_ok Sum256 s'"
proof (induction rule: courier_step.induct)
  case (step_command R e payload response e' now got)
  then show ?case using OnCommand_ok(2) by blast
next
  case (step_reply e reply e' now got)
  then have inv: "cache_ok e got" "dispatch_ok e" "copy_ok Sum256 e" by simp_all
  have "cache_ok e (reply # got)" using inv(1) by (auto simp: cache_ok_def entry_ok_mono)
  moreover have "sys_ok Sum256 (CacheReply e reply, now, reply # got)"
    using cache_ok_CacheReply [OF inv(1)] dispatch_ok_frame [OF inv(2)] copy_ok_frame [OF inv(3)] by (simp add: CacheReply_frame)
  ultimately show ?case using HandleReply_fields [OF step_reply.hyps] inv by auto
next
  case (step_acquire i e e' now got)
  then have "\<exists>ds. e' = e\<lparr>dispatches := ds\<rparr>" by (auto simp: acquire_slot_def split: prod.splits if_splits)
  then show ?case using step_acquire dispatch_ok_acquire by auto
next
  case (step_sent i e now got)
  then have "dispatch_ok (end_dispatch e i)" using dispatch_ok_end by simp
  then show ?case using step_sent.prems by (simp add: end_dispatch_def)
next
  case (step_copied worker e now work e' got)
  then have inv: "cache_ok e got" "dispatch_ok e" "copy_ok Sum256 e" by simp_all
  from copy_ok_run [OF inv(3) step_copied.hyps(1), of now work] step_copied.hyps(2)
  show ?case using cache_ok_frame [OF inv(1)] dispatch_ok_frame [OF inv(2)] by simp
qed auto

lemma sys_ok_new: "sys_ok Sum256 (NewCourier, now, got)"
  by (simp add: NewCourier_def cache_ok_def dispatch_ok_def slots_held_def copy_ok_def)

lemma sys_ok_run: "courier_run Sum256 s s' \<Longrightarrow> sys_ok Sum256 s \<Longrightarrow> sys_ok Sum256 s'"
  by (induction rule: rtranclp_induct) (auto intro: sys_ok_step)

lemma clock_step: "courier_step Sum256 s s' \<Longrightarrow> fst (snd s) \<le> fst (snd s')"
  by (induction rule: courier_step.induct) auto

text \<open>What every step keeps until a deadline, a run keeps until the deadline.\<close>

lemma run_until:
  assumes run: "courier_run Sum256 s s'" and ok: "sys_ok Sum256 s" and deadline: "fst (snd s') \<le> d" and Q: "Q s"
    and keep: "\<And>u u'. courier_step Sum256 u u' \<Longrightarrow> sys_ok Sum256 u \<Longrightarrow> Q u \<Longrightarrow> fst (snd u') \<le> d \<Longrightarrow> Q u'"
  shows "Q s'"
  using run deadline
proof (induction rule: rtranclp_induct)
  case (step u u')
  have "fst (snd u) \<le> d" using clock_step [OF step.hyps(2)] step.prems by simp
  then show ?case using keep [OF step.hyps(2) sys_ok_run [OF step.hyps(1) ok] step.IH step.prems] by simp
qed (rule Q)

section \<open>Serving replies\<close>

text \<open>
  C33. In every reachable state of the courier, under any interleaving of client requests, replies of replicas,
  dispatches, copy workers and time: no request of a client makes it panic, whatever its bytes; every envelope has
  at most one dispatch in flight, the set \<open>inFlight\<close> is exact, and at most 256 dispatches are at work; and the
  answer to an envelope carries its hash and either no payload or a payload that a replica sent for this envelope.
\<close>

theorem courier_serves_own_replies:
  assumes run: "courier_run Sum256 (NewCourier, start, []) (e, now, got)"
  shows "OnCommand Sum256 R e payload \<noteq> Panic \<and>
    distinct (map fst (dispatches e)) \<and> fst ` set (dispatches e) = inFlight e \<and> slots_held e \<le> 256 \<and>
    (CourierQueryFromBytes payload = Ok query \<and> cq_Envelope query = Some m \<longrightarrow>
       (\<exists>reply e'. cacheHandleCourierEnvelope Sum256 R e (cq_QueryType query) m = Ok (reply, e') \<and>
          OnCommand Sum256 R e payload = Ok (Some (CourierQueryReply_Bytes reply), e') \<and>
          answers_from got (CourierEnvelope_EnvelopeHash Sum256 m) reply))"
proof (intro conjI impI)
  have ok: "sys_ok Sum256 (e, now, got)" by (rule sys_ok_run [OF run sys_ok_new])
  then have inv: "cache_ok e got" "dispatch_ok e" by simp_all
  show "OnCommand Sum256 R e payload \<noteq> Panic" by (rule OnCommand_ok(1) [OF ok])
  show "distinct (map fst (dispatches e))" "fst ` set (dispatches e) = inFlight e" "slots_held e \<le> 256"
    using inv(2) by (simp_all add: dispatch_ok_def maxConcurrentReplicaDispatch_def)
  assume q: "CourierQueryFromBytes payload = Ok query \<and> cq_Envelope query = Some m"
  obtain reply e' where "cacheHandleCourierEnvelope Sum256 R e (cq_QueryType query) m = Ok (reply, e')"
      "answers_from got (CourierEnvelope_EnvelopeHash Sum256 m) reply"
    by (rule envelope_request [OF inv query_envelope [OF q [THEN conjunct1] q [THEN conjunct2]]])
  then show "\<exists>reply e'. cacheHandleCourierEnvelope Sum256 R e (cq_QueryType query) m = Ok (reply, e') \<and>
      OnCommand Sum256 R e payload = Ok (Some (CourierQueryReply_Bytes reply), e') \<and>
      answers_from got (CourierEnvelope_EnvelopeHash Sum256 m) reply"
    using q by (auto simp: OnCommand_def)
qed

definition holds_reply :: "bytes \<Rightarrow> int \<Rightarrow> nat \<Rightarrow> ReplicaMessageReply \<Rightarrow> Courier \<Rightarrow> bool" where
  "holds_reply h t i r e \<longleftrightarrow> (\<exists>entry. dedupCache e h = Some entry \<and> bk_CreatedAt entry = t \<and> bk_EnvelopeReplies entry ! i = Some r)"

lemma envelope_cache_change:
  assumes "cacheHandleCourierEnvelope Sum256 R e q m = Ok (reply, e')"
  shows "dedupCache e' = dedupCache e \<or> (\<exists>h entry. dedupCache e h = None \<and>
    dedupCache e' = (pruneDedupCacheLocked (at_now R) DedupCacheTTL (dedupCache e))(h \<mapsto> entry))"
proof (cases "dedupCache e (CourierEnvelope_EnvelopeHash Sum256 m)")
  case None
  show ?thesis
  proof (cases "isEnvelopeEpochAcceptable (ce_Epoch m) (at_replica_epoch R)")
    case True
    with None assms have "\<exists>entry. dedupCache e' = (pruneDedupCacheLocked (at_now R) DedupCacheTTL (dedupCache e))
        (CourierEnvelope_EnvelopeHash Sum256 m \<mapsto> entry)"
      by (auto simp: cacheHandleCourierEnvelope_def Let_def)
    with None show ?thesis by blast
  qed (use assms in \<open>simp add: cacheHandleCourierEnvelope_def Let_def\<close>)
next
  case (Some entry)
  with assms show ?thesis by (auto simp: cacheHandleCourierEnvelope_def Let_def go_simps split: if_splits)
qed

lemma OnCommand_change:
  assumes "OnCommand Sum256 R e payload = Ok (response, e')"
  obtains q m reply where "cacheHandleCourierEnvelope Sum256 R e q m = Ok (reply, e')"
    | cmd where "e' = snd (handleCopyCommand Sum256 (at_now R) e cmd)" | "e' = e"
  using assms by (auto simp: OnCommand_def split: outcome.splits option.splits prod.splits) (metis snd_conv)

lemma command_cache_change:
  assumes "OnCommand Sum256 R e payload = Ok (response, e')"
  shows "dedupCache e' = dedupCache e \<or> (\<exists>h entry. dedupCache e h = None \<and>
    dedupCache e' = (pruneDedupCacheLocked (at_now R) DedupCacheTTL (dedupCache e))(h \<mapsto> entry))"
  using assms by (cases rule: OnCommand_change) (auto dest: envelope_cache_change simp: handleCopyCommand_frame)

lemma CacheReply_keeps:
  assumes "cache_ok e got" "holds_reply h t i r e" "mr_ErrorCode r = 0" "i < 2"
  shows "holds_reply h t i r (CacheReply e reply)"
proof (cases "mr_EnvelopeHash reply = h")
  case True
  obtain entry where en: "dedupCache e h = Some entry" "bk_CreatedAt entry = t" "bk_EnvelopeReplies entry ! i = Some r"
    using assms(2) by (auto simp: holds_reply_def)
  then have "length (bk_IntermediateReplicas entry) = 2" "length (bk_EnvelopeReplies entry) = 2"
    using assms(1) by (auto simp: cache_ok_def entry_ok_def)
  from handleExistingEntry_cases [OF this(1), of reply] this(2) en assms(3,4)
  have "bk_CreatedAt (handleExistingEntry entry reply) = t" "bk_EnvelopeReplies (handleExistingEntry entry reply) ! i = Some r"
    by (auto simp: nth_list_update)
  then show ?thesis using True en(1) by (simp add: holds_reply_def CacheReply_def)
next
  case False
  then show ?thesis using assms(2) by (auto simp: holds_reply_def CacheReply_def split: option.splits)
qed

lemma reply_kept:
  assumes "courier_step Sum256 u u'" "sys_ok Sum256 u" "holds_reply h t i r (fst u)" "fst (snd u') \<le> t + DedupCacheTTL"
    and r: "mr_ErrorCode r = 0" "i < 2"
  shows "holds_reply h t i r (fst u')"
  using assms(1-4)
proof (induction rule: courier_step.induct)
  case (step_command R e payload response e' now got)
  then show ?case using command_cache_change [OF step_command.hyps(1)] by (auto simp: holds_reply_def dedup.prune_Some)
next
  case (step_reply e reply e' now got)
  then show ?case using HandleReply_fields [OF step_reply.hyps] CacheReply_keeps [OF _ _ r] by (auto simp: holds_reply_def)
next
  case (step_acquire i e e' now got)
  then show ?case by (auto simp: acquire_slot_def holds_reply_def split: prod.splits if_splits)
next
  case (step_copied worker e now work e' got)
  then show ?case by (auto simp: runCopyCommand_def Let_def holds_reply_def split: if_splits)
qed (auto simp: holds_reply_def end_dispatch_def)

lemma held_reply_served:
  assumes "cache_ok e got" "holds_reply (CourierEnvelope_EnvelopeHash Sum256 m) t (unat (ce_ReplyIndex m)) r e"
    and r: "mr_ErrorCode r = 0" "mr_EnvelopeReply r \<noteq> []" and i: "unat (ce_ReplyIndex m) < 2"
    and ep: "isEnvelopeEpochAcceptable (ce_Epoch m) (at_replica_epoch R)"
  shows "cacheHandleCourierEnvelope Sum256 R e q m = Ok (envelope_reply (CourierEnvelope_EnvelopeHash Sum256 m) (ce_ReplyIndex m)
    ReplyTypePayload (mr_EnvelopeReply r) EnvelopeErrorSuccess, e)"
proof -
  obtain entry where en: "dedupCache e (CourierEnvelope_EnvelopeHash Sum256 m) = Some entry"
      "bk_EnvelopeReplies entry ! unat (ce_ReplyIndex m) = Some r" "length (bk_EnvelopeReplies entry) = 2"
    using assms(1,2) by (auto simp: holds_reply_def cache_ok_def entry_ok_def)
  have x: "\<not> ce_ReplyIndex m > 1" using i by (simp add: word_less_nat_alt)
  from byte_le_1 [OF x] en r(2) have "old_payload entry (ce_ReplyIndex m) = Ok (ce_ReplyIndex m, mr_EnvelopeReply r)"
    by (auto simp: old_payload_def Let_def split: option.splits)
  then have "handleOldMessage (Some entry) (CourierEnvelope_EnvelopeHash Sum256 m) m = Ok (envelope_reply
      (CourierEnvelope_EnvelopeHash Sum256 m) (ce_ReplyIndex m) ReplyTypePayload (mr_EnvelopeReply r) EnvelopeErrorSuccess)"
    using x r(2) by (simp add: handleOldMessage_def)
  moreover have "Some r \<in> set (bk_EnvelopeReplies entry)" using en(2,3) i by (metis nth_mem)
  then have "\<not> cacheEntryHasOnlyErrors entry"
    using r(1) by (force simp: cacheEntryHasOnlyErrors_def Let_def map_filter_def)
  ultimately show ?thesis using en(1) ep by (simp add: cacheHandleCourierEnvelope_def Let_def)
qed

text \<open>
  C34. A successful reply of a replica stays available: once the cache holds it in the slot that a client asks
  for, then whatever the courier does in the meantime, every retransmission of the envelope within five minutes of
  its first arrival is answered with exactly this payload, and causes no further dispatch.
\<close>

theorem courier_reply_stays:
  assumes run: "courier_run Sum256 (NewCourier, start, []) (e, now, got)"
    and entry: "dedupCache e (CourierEnvelope_EnvelopeHash Sum256 m) = Some entry" "unat (ce_ReplyIndex m) < 2"
      "bk_EnvelopeReplies entry ! unat (ce_ReplyIndex m) = Some r"
    and r: "mr_ErrorCode r = 0" "mr_EnvelopeReply r \<noteq> []"
    and later: "courier_run Sum256 (e, now, got) (e', now', got')" "now' \<le> bk_CreatedAt entry + DedupCacheTTL"
    and epoch: "isEnvelopeEpochAcceptable (ce_Epoch m) (at_replica_epoch R)"
  shows "cacheHandleCourierEnvelope Sum256 R e' q m = Ok (envelope_reply (CourierEnvelope_EnvelopeHash Sum256 m)
    (ce_ReplyIndex m) ReplyTypePayload (mr_EnvelopeReply r) EnvelopeErrorSuccess, e')"
proof -
  have ok: "sys_ok Sum256 (e, now, got)" by (rule sys_ok_run [OF run sys_ok_new])
  have held: "holds_reply (CourierEnvelope_EnvelopeHash Sum256 m) (bk_CreatedAt entry) (unat (ce_ReplyIndex m)) r e"
    using entry by (simp add: holds_reply_def)
  have "holds_reply (CourierEnvelope_EnvelopeHash Sum256 m) (bk_CreatedAt entry) (unat (ce_ReplyIndex m)) r e'"
    using run_until [OF later(1) ok, of "bk_CreatedAt entry + DedupCacheTTL" "\<lambda>u. holds_reply _ _ _ r (fst u)"]
      reply_kept [OF _ _ _ _ r(1) entry(2)] later(2) held by simp
  moreover have "cache_ok e' got'" using sys_ok_run [OF later(1) ok] by simp
  ultimately show ?thesis using held_reply_served r entry(2) epoch by blast
qed

section \<open>Copy commands run once\<close>

definition holds_result :: "bytes \<Rightarrow> nat \<Rightarrow> CopyCommandState \<Rightarrow> Courier \<Rightarrow> bool" where
  "holds_result key a s e \<longleftrightarrow> copyDedupCache e key = Some a \<and> copyStates e ! a = s"

lemma handleCopyCommand_keeps:
  assumes ok: "copy_ok Sum256 e" and held: "holds_result key a s e" and s: "\<not> cs_InProgress s" "now - cs_CompletedAt s < CopyDedupCacheTTL"
  shows "holds_result key a s (snd (handleCopyCommand Sum256 now e cmd))"
  using ok
proof (cases rule: handleCopyCommand_cases [of Sum256 e cmd now])
  case (started c)
  have h: "copyDedupCache e key = Some a" "copyStates e ! a = s" using held by (simp_all add: holds_result_def)
  then have other: "key \<noteq> Sum256 (cc_WriteCap cmd)" using started(2) s(2) by fastforce
  with started(1) h(1) have "c key = Some a" by auto
  then have "pruneCopyDedupCacheLocked (copyStates e) now CopyDedupCacheTTL c key = Some a"
    by (rule copy_dedup.prune_keeps) (use s h(2) in auto)
  then show ?thesis using other h copy_okD(1) [OF ok h(1)]
    by (simp add: started(3) start_copy_def Let_def holds_result_def nth_append)
qed (use held in auto)

lemma command_copy_change:
  assumes "OnCommand Sum256 R e payload = Ok (response, e')"
  shows "(copyDedupCache e' = copyDedupCache e \<and> copyStates e' = copyStates e) \<or>
    (\<exists>cmd. e' = snd (handleCopyCommand Sum256 (at_now R) e cmd))"
  using assms
  by (cases rule: OnCommand_change) (auto simp: cacheHandleCourierEnvelope_def Let_def go_simps split: if_splits option.splits)

lemma result_kept:
  assumes "courier_step Sum256 u u'" "sys_ok Sum256 u" "holds_result key a s (fst u)" "fst (snd u') \<le> cs_CompletedAt s + CopyDedupCacheTTL - 1"
    and s: "\<not> cs_InProgress s"
  shows "holds_result key a s (fst u')"
  using assms(1-4)
proof (induction rule: courier_step.induct)
  case (step_command R e payload response e' now got)
  then have "now - cs_CompletedAt s < CopyDedupCacheTTL" "copy_ok Sum256 e" "holds_result key a s e" by simp_all
  then show ?case using command_copy_change [OF step_command.hyps(1)] handleCopyCommand_keeps [OF _ _ s] step_command.hyps(2)
    by (auto simp: holds_result_def)
next
  case (step_reply e reply e' now got)
  then show ?case using HandleReply_fields [OF step_reply.hyps] by (auto simp: holds_result_def CacheReply_frame)
next
  case (step_acquire i e e' now got)
  then show ?case by (auto simp: acquire_slot_def holds_result_def split: prod.splits if_splits)
next
  case (step_copied worker e now work e' got)
  obtain cmd k b where w: "worker = (cmd, k, b)" by (cases worker)
  have "cs_InProgress (copyStates e ! b)" using copy_okD(5) [of Sum256 e cmd k b] step_copied w by simp
  then have "b \<noteq> a" using step_copied.prems(2) s by (auto simp: holds_result_def)
  then show ?case using step_copied by (auto simp: w runCopyCommand_def Let_def holds_result_def split: if_splits)
qed (auto simp: holds_result_def end_dispatch_def)

text \<open>
  C35. A copy command runs once. In every reachable state there is at most one worker for a write capability, and
  while it works a command with this capability is answered with \<open>InProgress\<close> and changes nothing. When the worker
  ends, with any reply or a panic, it does not fail to publish the result, and for thirty minutes every command
  with this capability, whatever happens in between, is answered with this result and starts no worker.
\<close>

theorem copy_command_runs_once:
  assumes run: "courier_run Sum256 (NewCourier, start, []) (e, now, got)"
  shows "distinct (map (fst \<circ> snd) (workers e)) \<and>
    ((cmd, key, a) \<in> set (workers e) \<and> Sum256 (cc_WriteCap cmd') = key \<longrightarrow>
       handleCopyCommand Sum256 now e cmd' = (Some inProgressReply, e) \<and>
       (\<exists>e1. runCopyCommand now e (cmd, key, a) work = Some e1 \<and>
          (\<forall>e2 now2 got2. courier_run Sum256 (e1, now, got) (e2, now2, got2) \<and> now2 - now < CopyDedupCacheTTL \<longrightarrow>
             handleCopyCommand Sum256 now2 e2 cmd' = (Some (worker_result work), e2))))"
proof (intro conjI impI)
  have ok: "sys_ok Sum256 (e, now, got)" by (rule sys_ok_run [OF run sys_ok_new])
  then have cp: "copy_ok Sum256 e" by simp
  show "distinct (map (fst \<circ> snd) (workers e))" by (rule copy_okD(6) [OF cp])
  assume "(cmd, key, a) \<in> set (workers e) \<and> Sum256 (cc_WriteCap cmd') = key"
  then have w: "(cmd, key, a) \<in> set (workers e)" and key: "Sum256 (cc_WriteCap cmd') = key" by auto
  have own: "copyDedupCache e key = Some a" "cs_InProgress (copyStates e ! a)" "a < length (copyStates e)"
    using copy_okD(5) [OF cp w] copy_okD(1) [OF cp] by auto
  show "handleCopyCommand Sum256 now e cmd' = (Some inProgressReply, e)"
    using own(1,2) by (simp add: handleCopyCommand_def key)
  let ?s = "\<lparr>cs_InProgress = False, cs_Done = True, cs_Result = Some (worker_result work), cs_CompletedAt = now\<rparr>"
  obtain e1 where e1: "runCopyCommand now e (cmd, key, a) work = Some e1" using copy_ok_run [OF cp w] by blast
  then have held: "holds_result key a ?s e1"
    using own by (auto simp: runCopyCommand_def Let_def holds_result_def split: if_splits)
  have ok1: "sys_ok Sum256 (e1, now, got)" by (rule sys_ok_step [OF step_copied [OF w e1] ok])
  have "handleCopyCommand Sum256 now2 e2 cmd' = (Some (worker_result work), e2)"
    if later: "courier_run Sum256 (e1, now, got) (e2, now2, got2)" and young: "now2 - now < CopyDedupCacheTTL" for e2 now2 got2
  proof -
    have "holds_result key a ?s e2"
      using run_until [OF later ok1, of "now + CopyDedupCacheTTL - 1" "\<lambda>u. holds_result key a ?s (fst u)"]
        result_kept [of Sum256 _ _ key a ?s] held young by simp
    then show ?thesis using young by (simp add: handleCopyCommand_def key holds_result_def)
  qed
  then show "\<exists>e1. runCopyCommand now e (cmd, key, a) work = Some e1 \<and>
      (\<forall>e2 now2 got2. courier_run Sum256 (e1, now, got) (e2, now2, got2) \<and> now2 - now < CopyDedupCacheTTL \<longrightarrow>
         handleCopyCommand Sum256 now2 e2 cmd' = (Some (worker_result work), e2))"
    using e1 by blast
qed

section \<open>A run\<close>

text \<open>A client sends an envelope, a replica answers it; another client starts a copy command.\<close>

definition toy_reads :: clock_reads where
  "toy_reads = \<lparr>at_now = 0, at_replica_epoch = ce_Epoch toy_envelope, at_pki_epoch = None\<rparr>"

definition toy_answer :: ReplicaMessageReply where
  "toy_answer = \<lparr>mr_ErrorCode = 0, mr_EnvelopeHash = zeros 32, mr_ReplicaID = 0, mr_EnvelopeReply = [5]\<rparr>"

lemma toy_envelope_query:
  obtains b where "CourierQueryFromBytes b = Ok \<lparr>cq_QueryType = 0, cq_Envelope = Some toy_envelope, cq_CopyCommand = None\<rparr>"
proof -
  obtain d where "CourierEnvelope_MarshalBinary toy_envelope = Ok d"
    by (simp add: toy_envelope_def CourierEnvelope_defs slice_def)
  then have "CourierQuery_Parse new_CourierQuery (0 # d) = Ok (\<lparr>cq_QueryType = 0, cq_Envelope = Some toy_envelope, cq_CopyCommand = None\<rparr>, [])"
    using ce_codec.parse_marshal [of toy_envelope d "[]"] by (simp add: CourierQuery_Parse_cases)
  then show ?thesis using that [of "0 # d"] by (simp add: CourierQueryFromBytes_def ParseCourierQuery_def)
qed

lemma toy_hash [simp]: "CourierEnvelope_EnvelopeHash (\<lambda>_. zeros 32) m = zeros 32"
  by (simp add: CourierEnvelope_EnvelopeHash_def go_copy_same_length)

lemma toy_courier_run:
  obtains e entry where "courier_run (\<lambda>_. zeros 32) (NewCourier, 0, []) (e, 0, [toy_answer])"
    "dedupCache e (zeros 32) = Some entry" "bk_EnvelopeReplies entry ! 0 = Some toy_answer" "bk_CreatedAt entry = 0"
proof -
  obtain b where b: "CourierQueryFromBytes b = Ok \<lparr>cq_QueryType = 0, cq_Envelope = Some toy_envelope, cq_CopyCommand = None\<rparr>"
    by (rule toy_envelope_query)
  let ?entry = "\<lparr>bk_Epoch = 0, bk_CreatedAt = 0, bk_QueryType = 0, bk_IntermediateReplicas = [0, 1], bk_EnvelopeReplies = [None, None]\<rparr>"
  have ep: "isEnvelopeEpochAcceptable x x" for x by (simp add: isEnvelopeEpochAcceptable_def ValidCourierEnvelopeEpochWindow_def)
  obtain resp e1 where e1: "OnCommand (\<lambda>_. zeros 32) toy_reads NewCourier b = Ok (resp, e1)"
      "dedupCache e1 (zeros 32) = Some ?entry" "copyCache e1 = Map.empty"
    by (simp add: OnCommand_def b cacheHandleCourierEnvelope_def ep toy_reads_def NewCourier_def getCurrentEpoch_def
        scheduleReplicaDispatch_def toy_envelope_def Let_def)
  have "courier_step (\<lambda>_. zeros 32) (NewCourier, 0, []) (e1, 0, [])"
    by (rule step_command [OF e1(1)]) (simp add: toy_reads_def)
  moreover have r: "HandleReply e1 toy_answer = Some (CacheReply e1 toy_answer)" by (simp add: HandleReply_def e1(3))
  have "courier_step (\<lambda>_. zeros 32) (e1, 0, []) (CacheReply e1 toy_answer, 0, [toy_answer])" by (rule step_reply [OF r])
  ultimately have "courier_run (\<lambda>_. zeros 32) (NewCourier, 0, []) (CacheReply e1 toy_answer, 0, [toy_answer])"
    by (meson r_into_rtranclp rtranclp_trans)
  moreover have "dedupCache (CacheReply e1 toy_answer) (zeros 32) = Some (?entry\<lparr>bk_EnvelopeReplies := [Some toy_answer, None]\<rparr>)"
    by (simp add: CacheReply_def e1(2) toy_answer_def handleExistingEntry_def findReplicaIndex_def storeOrReplaceReply_def)
  ultimately show ?thesis by (rule that) simp_all
qed

theorem courier_serves_own_replies_witness:
  "\<exists>e now got m reply e'. courier_run (\<lambda>_. zeros 32) (NewCourier, 0, []) (e, now, got) \<and> got \<noteq> [] \<and> slots_held e \<le> 256 \<and>
     cacheHandleCourierEnvelope (\<lambda>_. zeros 32) toy_reads e 0 m = Ok (reply, e') \<and> answers_from got (zeros 32) reply"
proof -
  obtain e entry where run: "courier_run (\<lambda>_. zeros 32) (NewCourier, 0, []) (e, 0, [toy_answer])"
    by (rule toy_courier_run)
  obtain b where b: "CourierQueryFromBytes b = Ok \<lparr>cq_QueryType = 0, cq_Envelope = Some toy_envelope, cq_CopyCommand = None\<rparr>"
    by (rule toy_envelope_query)
  from courier_serves_own_replies [OF run, of toy_reads b "\<lparr>cq_QueryType = 0, cq_Envelope = Some toy_envelope, cq_CopyCommand = None\<rparr>" toy_envelope] b run
  show ?thesis by fastforce
qed

theorem courier_reply_stays_witness:
  "\<exists>e e'. courier_run (\<lambda>_. zeros 32) (NewCourier, 0, []) (e, minute, [toy_answer]) \<and>
     cacheHandleCourierEnvelope (\<lambda>_. zeros 32) toy_reads e 0 toy_envelope =
       Ok (envelope_reply (zeros 32) 0 ReplyTypePayload [5] EnvelopeErrorSuccess, e')"
proof -
  obtain e entry where run: "courier_run (\<lambda>_. zeros 32) (NewCourier, 0, []) (e, 0, [toy_answer])"
    and en: "dedupCache e (zeros 32) = Some entry" "bk_EnvelopeReplies entry ! 0 = Some toy_answer" "bk_CreatedAt entry = 0"
    by (rule toy_courier_run)
  have later: "courier_run (\<lambda>_. zeros 32) (e, 0, [toy_answer]) (e, minute, [toy_answer])"
    by (rule r_into_rtranclp, rule step_time) (simp add: minute_def second_def)
  have "minute \<le> bk_CreatedAt entry + DedupCacheTTL" by (simp add: en(3) DedupCacheTTL_def minute_def second_def)
  from courier_reply_stays [OF run _ _ _ _ _ later this, where m = toy_envelope and r = toy_answer and R = toy_reads and q = 0] en
  have "cacheHandleCourierEnvelope (\<lambda>_. zeros 32) toy_reads e 0 toy_envelope =
      Ok (envelope_reply (zeros 32) 0 ReplyTypePayload [5] EnvelopeErrorSuccess, e)"
    by (simp add: toy_envelope_def toy_answer_def toy_reads_def isEnvelopeEpochAcceptable_def ValidCourierEnvelopeEpochWindow_def)
  then show ?thesis using rtranclp_trans [OF run later] by blast
qed

theorem copy_command_runs_once_witness:
  "\<exists>e e1. courier_run (\<lambda>b. b) (NewCourier, 0, []) (e, 0, []) \<and>
     runCopyCommand 0 e (\<lparr>cc_WriteCapLen = 2, cc_WriteCap = [7, 8]\<rparr>, [7, 8], 0) Panic = Some e1 \<and>
     handleCopyCommand (\<lambda>b. b) minute e1 \<lparr>cc_WriteCapLen = 2, cc_WriteCap = [7, 8]\<rparr> = (Some (copyFailedReply 0 0), e1)"
proof -
  let ?cmd = "\<lparr>cc_WriteCapLen = 2, cc_WriteCap = [7, 8]\<rparr>"
  have q: "CourierQueryFromBytes [1, 0, 0, 0, 2, 7, 8] = Ok toy_query"
    using cq_codec.parse_marshal [OF toy_query_bytes, of "[]"]
    by (simp add: CourierQueryFromBytes_def ParseCourierQuery_def toy_query_def CourierQuery_complete_def)
  obtain resp e where e: "OnCommand (\<lambda>b. b) toy_reads NewCourier [1, 0, 0, 0, 2, 7, 8] = Ok (resp, e)" "(?cmd, [7, 8], 0) \<in> set (workers e)"
    by (simp add: OnCommand_def q toy_query_def handleCopyCommand_def start_copy_def NewCourier_def Let_def)
  have run: "courier_run (\<lambda>b. b) (NewCourier, 0, []) (e, 0, [])"
    by (rule r_into_rtranclp, rule step_command [OF e(1)]) (simp add: toy_reads_def)
  from copy_command_runs_once [OF run, of ?cmd "[7, 8]" 0 ?cmd Panic] e(2) obtain e1 where
    e1: "runCopyCommand 0 e (?cmd, [7, 8], 0) Panic = Some e1"
      "\<And>e2 now2 got2. courier_run (\<lambda>b. b) (e1, 0, []) (e2, now2, got2) \<Longrightarrow> now2 < CopyDedupCacheTTL \<Longrightarrow>
         handleCopyCommand (\<lambda>b. b) now2 e2 ?cmd = (Some (worker_result Panic), e2)" by auto
  have "courier_run (\<lambda>b. b) (e1, 0, []) (e1, minute, [])"
    by (rule r_into_rtranclp, rule step_time) (simp add: minute_def second_def)
  from e1(2) [OF this] e1(1) run show ?thesis
    by (auto simp: CopyDedupCacheTTL_def minute_def second_def worker_result_def copyFailedReply_def)
qed

end
