(* ===== verification/Replica_Handlers.thy ===== *)
theory Replica_Handlers
  imports Pigeonhole_Helpers
begin

text \<open>
  Messages that couriers send to a storage replica: \<open>src/replica/handlers.go\<close> from \<open>handleReplicaMessage\<close> to the
  two proxies, the envelope keys of \<open>src/replica/keys.go\<close>, and \<open>src/replica/envelope_epoch.go\<close>. The box store is
  that of \<open>Replica_Store\<close>. The world \<open>'w\<close> holds the other replicas, entropy and random words;
  \<open>sendProxyRequestSync\<close> is a parameter that sends a message and gives the reply, \<open>None\<close> on a timeout, an error or a
  shutdown. A handler reads the clock once.
\<close>

section \<open>Envelope keys\<close>

record ('sk, 'pk) EnvelopeKey =
  ek_PrivateKey :: 'sk
  ek_PublicKey :: 'pk

record ('sk, 'pk) EnvelopeKeys =
  ks_keys :: "64 word \<rightharpoonup> ('sk, 'pk) EnvelopeKey"
  ks_files :: "64 word \<rightharpoonup> ('sk, 'pk) EnvelopeKey"

definition GetKeypair :: "('sk, 'pk) EnvelopeKeys \<Rightarrow> 64 word \<Rightarrow> ('sk, 'pk) EnvelopeKey option" where
  "GetKeypair k replicaEpoch = ks_keys k replicaEpoch"

text \<open>\<open>keypair\<close> is the fresh key pair, \<open>written\<close> whether its files could be written.\<close>

definition keys_Generate :: "('sk, 'pk) EnvelopeKey \<Rightarrow> bool \<Rightarrow> ('sk, 'pk) EnvelopeKeys \<Rightarrow> 64 word \<Rightarrow> bool \<times> ('sk, 'pk) EnvelopeKeys" where
  "keys_Generate keypair written k replicaEpoch =
     (if \<not> written then (False, k)
      else (True, k\<lparr>ks_keys := (ks_keys k)(replicaEpoch \<mapsto> keypair), ks_files := (ks_files k)(replicaEpoch \<mapsto> keypair)\<rparr>))"

definition NewEnvelopeKeys ::
  "('sk, 'pk) EnvelopeKey \<Rightarrow> bool \<Rightarrow> (64 word \<rightharpoonup> ('sk, 'pk) EnvelopeKey) \<Rightarrow> 64 word \<Rightarrow> ('sk, 'pk) EnvelopeKeys option" where
  "NewEnvelopeKeys keypair written files epoch =
     (let e = \<lparr>ks_keys = Map.empty, ks_files = files\<rparr>;
          (ok, e) = (case files epoch of
              Some loaded \<Rightarrow> (True, e\<lparr>ks_keys := [epoch \<mapsto> loaded]\<rparr>)
            | None \<Rightarrow> keys_Generate keypair written e epoch)
      in if \<not> ok then None
         else if epoch > 0 then
           (case files (epoch - 1) of
              Some prevKey \<Rightarrow> Some (e\<lparr>ks_keys := (ks_keys e)(epoch - 1 \<mapsto> prevKey)\<rparr>)
            | None \<Rightarrow> Some e)
         else Some e)"

definition keys_Prune :: "64 word \<Rightarrow> ('sk, 'pk) EnvelopeKeys \<Rightarrow> ('sk, 'pk) EnvelopeKeys" where
  "keys_Prune epoch k =
     k\<lparr>ks_keys := (\<lambda>key. if key < epoch - 1 then None else ks_keys k key),
       ks_files := (\<lambda>key. if key < epoch - 1 \<and> ks_keys k key \<noteq> None then None else ks_files k key)\<rparr>"

definition EnsureKey ::
  "('sk, 'pk) EnvelopeKey \<Rightarrow> bool \<Rightarrow> 64 word \<Rightarrow> ('sk, 'pk) EnvelopeKeys \<Rightarrow> 64 word
     \<Rightarrow> ('sk, 'pk) EnvelopeKey option \<times> ('sk, 'pk) EnvelopeKeys" where
  "EnsureKey keypair written currentEpoch k replicaEpoch =
     (if replicaEpoch < currentEpoch then (GetKeypair k replicaEpoch, k)
      else (case GetKeypair k replicaEpoch of
        Some found \<Rightarrow> (Some found, k)
      | None \<Rightarrow>
          let (ok, k) = keys_Generate keypair written k replicaEpoch
          in if \<not> ok then (None, k) else (GetKeypair k replicaEpoch, k)))"

section \<open>The epoch window\<close>

definition ValidEnvelopeEpochWindow :: "64 word" where "ValidEnvelopeEpochWindow = 1"

text \<open>The epochs that are tried, in the order of the loop over \<open>delta\<close>.\<close>

definition window_epochs :: "64 word \<Rightarrow> 64 word list" where
  "window_epochs currentEpoch =
     (if ValidEnvelopeEpochWindow > currentEpoch then [] else [currentEpoch - ValidEnvelopeEpochWindow]) @
     [currentEpoch, currentEpoch + ValidEnvelopeEpochWindow]"

datatype decap_error = NoKeysInWindow | DecapsulationFailed

fun try_epochs ::
  "('sk, 'pk, 'rnd) mkem \<Rightarrow> ('sk, 'pk) EnvelopeKeys \<Rightarrow> 'pk Ciphertext \<Rightarrow> decap_error \<Rightarrow> 64 word list
     \<Rightarrow> (decap_error, bytes \<times> ('sk, 'pk) EnvelopeKey \<times> 64 word) outcome" where
  "try_epochs M keys ct lastErr [] = Err lastErr"
| "try_epochs M keys ct lastErr (epoch # epochs) =
     (case GetKeypair keys epoch of
        None \<Rightarrow> try_epochs M keys ct lastErr epochs
      | Some keypair \<Rightarrow>
          (case mk_Decapsulate M (ek_PrivateKey keypair) ct of
             None \<Rightarrow> try_epochs M keys ct DecapsulationFailed epochs
           | Some plaintext \<Rightarrow> Ok (plaintext, keypair, epoch)))"

definition tryDecapsulateAcrossEpochWindow ::
  "('sk, 'pk, 'rnd) mkem \<Rightarrow> ('sk, 'pk) EnvelopeKeys \<Rightarrow> 'pk Ciphertext \<Rightarrow> 64 word
     \<Rightarrow> (decap_error, bytes \<times> ('sk, 'pk) EnvelopeKey \<times> 64 word) outcome" where
  "tryDecapsulateAcrossEpochWindow M keys ct currentEpoch = try_epochs M keys ct NoKeysInWindow (window_epochs currentEpoch)"

section \<open>The replica\<close>

record ('sk, 'pk, 'rnd, 'k, 'w) replica_env =
  re_mkem :: "('sk, 'pk, 'rnd) mkem"
  re_sizes :: ext_sizes
  re_sig :: "'k sig_scheme"
  re_Sum256 :: "bytes \<Rightarrow> bytes"
  re_send :: "'w \<Rightarrow> ReplicaMessage \<Rightarrow> bytes \<Rightarrow> ReplicaMessageReply option \<times> 'w"
  re_entropy :: "'w \<Rightarrow> 'rnd \<times> 'w"
  re_words :: "'w \<Rightarrow> nat \<Rightarrow> 64 word option"
  re_used :: "'w \<Rightarrow> nat \<Rightarrow> 'w"

text \<open>
  \<open>rp_geo\<close> is the result of \<open>NewGeometryFromSphinx\<close>, \<open>rp_identity\<close> that of marshalling the identity key, \<open>rp_replicated\<close> the
  writes given to \<open>DispatchReplication\<close>.
\<close>

record ('sk, 'pk) replica =
  rp_geo :: "PGeometry option"
  rp_identity :: "bytes option"
  rp_doc :: "Document option"
  rp_epoch :: "64 word"
  rp_faults :: db_faults
  rp_keys :: "('sk, 'pk) EnvelopeKeys"
  rp_state :: state
  rp_replicated :: "wire_ReplicaWrite list"

definition createReplicaMessageReply ::
  "PGeometry option \<Rightarrow> byte \<Rightarrow> bytes \<Rightarrow> bytes \<Rightarrow> byte \<Rightarrow> (unit, ReplicaMessageReply) outcome" where
  "createReplicaMessageReply geo errorCode envelopeHash envelopeReply replicaID =
     (case geo of
        None \<Rightarrow> Panic
      | Some _ \<Rightarrow> Ok \<lparr>mr_ErrorCode = errorCode, mr_EnvelopeHash = envelopeHash, mr_ReplicaID = replicaID,
            mr_EnvelopeReply = envelopeReply\<rparr>)"

text \<open>Padding a reply, encrypting it for the sender, and the command around it.\<close>

definition sealed_reply ::
  "('sk, 'pk, 'rnd, 'k, 'w) replica_env \<Rightarrow> ('sk, 'pk) replica \<Rightarrow> ('sk, 'pk) EnvelopeKey \<Rightarrow> 'pk \<Rightarrow> bytes \<Rightarrow> byte \<Rightarrow> byte
     \<Rightarrow> ReplicaMessageReplyInnerMessage \<Rightarrow> (unit, ReplicaMessageReply) outcome" where
  "sealed_reply E c keypair senderpubkey envelopeHash errorCode replicaID replyInnerMessage =
     (case rp_geo c of
        None \<Rightarrow> createReplicaMessageReply (rp_geo c) ReplicaErrorInternalError envelopeHash [] replicaID
      | Some g \<Rightarrow>
          (case PadReplyInnerMessageForEncryption (re_sizes E) replyInnerMessage (Some g) of
             Ok blob \<Rightarrow> createReplicaMessageReply (rp_geo c) errorCode envelopeHash
               (mk_EnvelopeReply (re_mkem E) (ek_PrivateKey keypair) senderpubkey blob) replicaID
           | _ \<Rightarrow> createReplicaMessageReply (rp_geo c) ReplicaErrorInternalError envelopeHash [] replicaID))"

definition isShard :: "ReplicaDescriptor list \<Rightarrow> bytes \<Rightarrow> bool" where
  "isShard shards myIdentityKey \<longleftrightarrow> (\<exists>shard\<in>set shards. key_bytes shard = myIdentityKey)"

section \<open>Proxying\<close>

text \<open>
  The part that both proxies share: choosing a shard, encrypting the request for it and sending it. The result is
  the reply to give up with, or the keys, the reply of the shard and the identifier of this replica. \<open>None\<close>: no word
  of the random source is ever accepted.
\<close>

definition proxy_send ::
  "('sk, 'pk, 'rnd, 'k, 'w) replica_env \<Rightarrow> ('sk, 'pk) replica \<Rightarrow> bytes \<Rightarrow> ReplicaInnerMessage \<Rightarrow> bytes \<Rightarrow> 'w
     \<Rightarrow> ((unit, ReplicaMessageReply + ('sk, 'pk) EnvelopeKey \<times> 'sk \<times> 'pk \<times> ReplicaMessageReply \<times> byte) outcome \<times> 'w) option" where
  "proxy_send E c boxID innerMessage originalEnvelopeHash w =
     (let fail = (\<lambda>code replicaID. obind (createReplicaMessageReply (rp_geo c) code originalEnvelopeHash [] replicaID) (\<lambda>r. Ok (Inl r))) in
      case rp_doc c of
        None \<Rightarrow> Some (fail ReplicaErrorInternalError 0, w)
      | Some doc \<Rightarrow>
        (case GetReplicaIDByIdentityKey (rp_identity c) doc of
           Ok replicaID \<Rightarrow>
             (case GetShards (re_Sum256 E) boxID doc of
                Ok shards \<Rightarrow>
                  (case CryptoRandIndex (re_words E w) (int (length shards)) 0 of
                     None \<Rightarrow> None
                   | Some (Ok (idx, used)) \<Rightarrow>
                       let w = re_used E w used; targetShard = shards ! idx in
                       (case GetKeypair (rp_keys c) (rp_epoch c) of
                          None \<Rightarrow> Some (fail ReplicaErrorInternalError 0, w)
                        | Some keypair \<Rightarrow>
                            (case rd_EnvelopeKeys targetShard (rp_epoch c) of
                               None \<Rightarrow> Some (fail ReplicaErrorInternalError 0, w)
                             | Some targetEnvelopeKeyBytes \<Rightarrow>
                                 (case mk_UnmarshalPublicKey (re_mkem E) targetEnvelopeKeyBytes of
                                    None \<Rightarrow> Some (fail ReplicaErrorInternalError 0, w)
                                  | Some targetEnvelopeKey \<Rightarrow>
                                      let (rnd, w) = re_entropy E w;
                                          (mkemPrivateKey, envelope) =
                                            mk_Encapsulate (re_mkem E) rnd [targetEnvelopeKey] (ReplicaInnerMessage_Bytes innerMessage)
                                      in (case ct_DEKCiphertexts envelope of
                                        [] \<Rightarrow> Some (Panic, w)
                                      | dek # _ \<Rightarrow>
                                          let replicaMessage = \<lparr>rm_SenderEPubKey = mk_PublicBytes (re_mkem E) (ct_EphemeralPublicKey envelope),
                                                rm_DEK = dek, rm_Ciphertext = ct_Envelope envelope\<rparr>;
                                              (reply, w) = re_send E w replicaMessage (re_Sum256 E (key_bytes targetShard))
                                          in (case reply of
                                            None \<Rightarrow> Some (fail ReplicaErrorReplicationFailed replicaID, w)
                                          | Some reply \<Rightarrow>
                                              Some (Ok (Inr (keypair, mkemPrivateKey, targetEnvelopeKey, reply, replicaID)), w))))))
                   | Some _ \<Rightarrow> Some (fail ReplicaErrorInternalError 0, w))
              | Err _ \<Rightarrow> Some (fail ReplicaErrorInternalError 0, w)
              | Panic \<Rightarrow> Some (Panic, w))
         | _ \<Rightarrow> Some (fail ReplicaErrorInternalError 0, w)))"

definition proxyReadRequest ::
  "('sk, 'pk, 'rnd, 'k, 'w) replica_env \<Rightarrow> ('sk, 'pk) replica \<Rightarrow> ReplicaRead \<Rightarrow> 'pk \<Rightarrow> bytes \<Rightarrow> 'w
     \<Rightarrow> ((unit, ReplicaMessageReply) outcome \<times> 'w) option" where
  "proxyReadRequest E c replicaRead originalSenderPubkey originalEnvelopeHash w =
     (case proxy_send E c (rr_BoxID replicaRead) \<lparr>rim_MessageType = 0, rim_ReadMsg = Some replicaRead, rim_WriteMsg = None\<rparr> originalEnvelopeHash w of
        None \<Rightarrow> None
      | Some (Ok (Inl failed), w) \<Rightarrow> Some (Ok failed, w)
      | Some (Ok (Inr (keypair, mkemPrivateKey, targetEnvelopeKey, reply, replicaID)), w) \<Rightarrow>
          Some (let fail = createReplicaMessageReply (rp_geo c) ReplicaErrorInternalError originalEnvelopeHash [] replicaID in
            if length (mr_EnvelopeReply reply) > 0 then
              (case mk_DecryptEnvelope (re_mkem E) mkemPrivateKey targetEnvelopeKey (mr_EnvelopeReply reply) of
                 None \<Rightarrow> fail
               | Some decryptedReply \<Rightarrow>
                   (case ParseReplicaMessageReplyInnerMessage decryptedReply of
                      Ok replyInnerMessage \<Rightarrow>
                        (case rmi_ReadReply replyInnerMessage of
                           None \<Rightarrow> fail
                         | Some readReply \<Rightarrow>
                             sealed_reply E c keypair originalSenderPubkey originalEnvelopeHash (rrr_ErrorCode readReply) replicaID
                               \<lparr>rmi_MessageType = 0, rmi_ReadReply = Some readReply, rmi_WriteReply = None\<rparr>)
                    | Err _ \<Rightarrow> fail
                    | Panic \<Rightarrow> Panic))
            else createReplicaMessageReply (rp_geo c) (mr_ErrorCode reply) originalEnvelopeHash [] replicaID, w)
      | Some (_, w) \<Rightarrow> Some (Panic, w))"

definition proxyWriteRequest ::
  "('sk, 'pk, 'rnd, 'k, 'w) replica_env \<Rightarrow> ('sk, 'pk) replica \<Rightarrow> ReplicaWrite \<Rightarrow> 'pk \<Rightarrow> bytes \<Rightarrow> 'w
     \<Rightarrow> ((unit, ReplicaMessageReply) outcome \<times> 'w) option" where
  "proxyWriteRequest E c replicaWrite originalSenderPubkey originalEnvelopeHash w =
     (case proxy_send E c (trw_BoxID replicaWrite) \<lparr>rim_MessageType = 1, rim_ReadMsg = None, rim_WriteMsg = Some replicaWrite\<rparr> originalEnvelopeHash w of
        None \<Rightarrow> None
      | Some (Ok (Inl failed), w) \<Rightarrow> Some (Ok failed, w)
      | Some (Ok (Inr (keypair, mkemPrivateKey, targetEnvelopeKey, reply, replicaID)), w) \<Rightarrow>
          Some (let fail = createReplicaMessageReply (rp_geo c) ReplicaErrorInternalError originalEnvelopeHash [] replicaID in
            if length (mr_EnvelopeReply reply) > 0 then
              (case mk_DecryptEnvelope (re_mkem E) mkemPrivateKey targetEnvelopeKey (mr_EnvelopeReply reply) of
                 None \<Rightarrow> fail
               | Some decryptedReply \<Rightarrow>
                   (case ParseReplicaMessageReplyInnerMessage decryptedReply of
                      Ok replyInnerMessage \<Rightarrow>
                        (case rmi_WriteReply replyInnerMessage of
                           None \<Rightarrow> fail
                         | Some writeReply \<Rightarrow>
                             sealed_reply E c keypair originalSenderPubkey originalEnvelopeHash (rwr_ErrorCode writeReply) replicaID
                               \<lparr>rmi_MessageType = 1, rmi_ReadReply = None, rmi_WriteReply = Some writeReply\<rparr>)
                    | Err _ \<Rightarrow> fail
                    | Panic \<Rightarrow> Panic))
            else createReplicaMessageReply (rp_geo c) (mr_ErrorCode reply) originalEnvelopeHash [] replicaID, w)
      | Some (_, w) \<Rightarrow> Some (Panic, w))"

section \<open>Messages of couriers\<close>

definition handleReplicaMessage ::
  "('sk, 'pk, 'rnd, 'k, 'w) replica_env \<Rightarrow> ('sk, 'pk) replica \<Rightarrow> ReplicaMessage \<Rightarrow> 'w
     \<Rightarrow> ((unit, ReplicaMessageReply) outcome \<times> ('sk, 'pk) replica \<times> 'w) option" where
  "handleReplicaMessage E c replicaMessage w =
     (let envelopeHash = ReplicaMessage_EnvelopeHash (re_Sum256 E) replicaMessage;
          fail = (\<lambda>code. Some (createReplicaMessageReply (rp_geo c) code envelopeHash [] 0, c, w))
      in case mk_UnmarshalPublicKey (re_mkem E) (rm_SenderEPubKey replicaMessage) of
        None \<Rightarrow> fail ReplicaErrorInternalError
      | Some ephemeralPublicKey \<Rightarrow>
        (case tryDecapsulateAcrossEpochWindow (re_mkem E) (rp_keys c)
            \<lparr>ct_EphemeralPublicKey = ephemeralPublicKey, ct_DEKCiphertexts = [rm_DEK replicaMessage], ct_Envelope = rm_Ciphertext replicaMessage\<rparr>
            (rp_epoch c) of
           Ok (requestRaw, keypair, successEpoch) \<Rightarrow>
             (case ParseReplicaInnerMessage requestRaw of
                Ok msg \<Rightarrow>
                  (case rp_doc c of
                     None \<Rightarrow> fail ReplicaErrorInvalidEpoch
                   | Some doc \<Rightarrow>
                     (case GetReplicaIDByIdentityKey (rp_identity c) doc of
                        Ok replicaID \<Rightarrow>
                          (case rim_ReadMsg msg of
                             Some myCmd \<Rightarrow>
                               (case GetShards (re_Sum256 E) (rr_BoxID myCmd) doc of
                                  Ok shards \<Rightarrow>
                                    if length shards = 0 then fail ReplicaErrorInternalError
                                    else (case rp_identity c of
                                      None \<Rightarrow> fail ReplicaErrorInternalError
                                    | Some myIdentityKey \<Rightarrow>
                                        if isShard shards myIdentityKey then
                                          (case handleReplicaRead (rp_faults c) (rp_epoch c) (rp_state c) myCmd of
                                             Ok readReply \<Rightarrow>
                                               Some (sealed_reply E c keypair ephemeralPublicKey envelopeHash (rrr_ErrorCode readReply) replicaID
                                                 \<lparr>rmi_MessageType = 0, rmi_ReadReply = Some readReply, rmi_WriteReply = None\<rparr>, c, w)
                                           | _ \<Rightarrow> Some (Panic, c, w))
                                        else map_option (\<lambda>(reply, w). (reply, c, w)) (proxyReadRequest E c myCmd ephemeralPublicKey envelopeHash w))
                                | Err _ \<Rightarrow> fail ReplicaErrorInternalError
                                | Panic \<Rightarrow> Some (Panic, c, w))
                           | None \<Rightarrow>
                             (case rim_WriteMsg msg of
                                Some myCmd \<Rightarrow>
                                  (case GetShards (re_Sum256 E) (trw_BoxID myCmd) doc of
                                     Ok shards \<Rightarrow>
                                       (case rp_identity c of
                                         None \<Rightarrow> fail ReplicaErrorInternalError
                                       | Some myIdentityKey \<Rightarrow>
                                           if isShard shards myIdentityKey then
                                             (let (writeReply, s) = handleReplicaWrite (re_sig E) (rp_geo c) (rp_faults c) (rp_epoch c) (rp_state c) myCmd;
                                                  c = c\<lparr>rp_state := s\<rparr>;
                                                  c = (if rwr_ErrorCode writeReply = ReplicaSuccess
                                                       then (case TrunnelReplicaWriteToWireCommand (Some myCmd) of
                                                            Some wireWrite \<Rightarrow> c\<lparr>rp_replicated := rp_replicated c @ [wireWrite]\<rparr> | None \<Rightarrow> c)
                                                       else c)
                                              in Some (sealed_reply E c keypair ephemeralPublicKey envelopeHash (rwr_ErrorCode writeReply) replicaID
                                                   \<lparr>rmi_MessageType = 1, rmi_ReadReply = None, rmi_WriteReply = Some writeReply\<rparr>, c, w))
                                           else map_option (\<lambda>(reply, w). (reply, c, w)) (proxyWriteRequest E c myCmd ephemeralPublicKey envelopeHash w))
                                   | Err _ \<Rightarrow> fail ReplicaErrorInternalError
                                   | Panic \<Rightarrow> Some (Panic, c, w))
                              | None \<Rightarrow> fail ReplicaErrorInternalError))
                      | _ \<Rightarrow> fail ReplicaErrorInternalError))
              | Err _ \<Rightarrow> fail ReplicaErrorInvalidPayload
              | Panic \<Rightarrow> Some (Panic, c, w))
         | _ \<Rightarrow> fail ReplicaErrorInvalidEpoch))"

section \<open>What the replica relies on\<close>

text \<open>
  Multi-recipient encryption: every recipient decrypts with its own part of the key material, replies decrypt at the
  sender under the public key of the replica, and a reply grows by a nonce and a tag.
\<close>

definition mkem_ok :: "('sk, 'pk, 'rnd) mkem \<Rightarrow> ext_sizes \<Rightarrow> bool" where
  "mkem_ok M x \<longleftrightarrow>
     (\<forall>rnd pks m sk ct. mk_Encapsulate M rnd pks m = (sk, ct) \<longrightarrow>
        ct_EphemeralPublicKey ct = mk_public M sk \<and> length (ct_DEKCiphertexts ct) = length pks \<and>
        (\<forall>i<length pks. \<forall>k. pks ! i = mk_public M k \<longrightarrow>
           mk_Decapsulate M k (ct\<lparr>ct_DEKCiphertexts := [ct_DEKCiphertexts ct ! i]\<rparr>) = Some m)) \<and>
     (\<forall>sk k m. mk_DecryptEnvelope M sk (mk_public M k) (mk_EnvelopeReply M k (mk_public M sk) m) = Some m) \<and>
     (\<forall>k pk m. length (mk_EnvelopeReply M k pk m) = length m + (NonceSize x + Overhead x)) \<and>
     (\<forall>pk. mk_UnmarshalPublicKey M (mk_PublicBytes M pk) = Some pk)"

lemma mkem_okD:
  assumes "mkem_ok M x"
  shows "mk_Encapsulate M rnd pks m = (sk, ct) \<Longrightarrow> ct_EphemeralPublicKey ct = mk_public M sk \<and> length (ct_DEKCiphertexts ct) = length pks"
    and "mk_Encapsulate M rnd pks m = (sk, ct) \<Longrightarrow> i < length pks \<Longrightarrow> pks ! i = mk_public M k \<Longrightarrow>
      mk_Decapsulate M k (ct\<lparr>ct_DEKCiphertexts := [ct_DEKCiphertexts ct ! i]\<rparr>) = Some m"
    and "mk_DecryptEnvelope M sk (mk_public M k) (mk_EnvelopeReply M k (mk_public M sk) m) = Some m"
    and "length (mk_EnvelopeReply M k pk m) = length m + (NonceSize x + Overhead x)"
    and "mk_UnmarshalPublicKey M (mk_PublicBytes M pk) = Some pk"
  using assms unfolding mkem_ok_def by blast+

text \<open>The sizes of the box fields, and keys that are pairs.\<close>

definition box_sizes :: "ext_sizes \<Rightarrow> bool" where
  "box_sizes x \<longleftrightarrow> BoxIDSize x = 32 \<and> SignatureSize x = 64"

definition key_pair :: "('sk, 'pk, 'rnd) mkem \<Rightarrow> ('sk, 'pk) EnvelopeKey \<Rightarrow> bool" where
  "key_pair M k \<longleftrightarrow> ek_PublicKey k = mk_public M (ek_PrivateKey k)"

text \<open>
  A request of a client with private key \<open>sk\<close>: \<open>msg\<close> is the part for one replica of an envelope around \<open>inner\<close>, the
  replica holds the key \<open>kp\<close> that the client used in its window, and no other key of the window opens the envelope.
\<close>

definition request_to ::
  "('sk, 'pk, 'rnd) mkem \<Rightarrow> ('sk, 'pk) EnvelopeKeys \<Rightarrow> 64 word \<Rightarrow> ('sk, 'pk) EnvelopeKey \<Rightarrow> 'sk \<Rightarrow> ReplicaInnerMessage
     \<Rightarrow> ReplicaMessage \<Rightarrow> bool" where
  "request_to M keys epoch kp sk inner msg \<longleftrightarrow> key_pair M kp \<and>
     (\<exists>ep rnd pks ct i b pad. ep \<in> set (window_epochs epoch) \<and> GetKeypair keys ep = Some kp \<and>
        ReplicaInnerMessage_MarshalBinary inner = Ok b \<and> ReplicaInnerMessage_complete inner \<and>
        mk_Encapsulate M rnd pks (b @ zeros pad) = (sk, ct) \<and> i < length pks \<and> pks ! i = ek_PublicKey kp \<and>
        msg = \<lparr>rm_SenderEPubKey = mk_PublicBytes M (ct_EphemeralPublicKey ct), rm_DEK = ct_DEKCiphertexts ct ! i,
          rm_Ciphertext = ct_Envelope ct\<rparr> \<and>
        (\<forall>ep' kp'. ep' \<in> set (window_epochs epoch) \<and> GetKeypair keys ep' = Some kp' \<and> kp' \<noteq> kp \<longrightarrow>
           mk_Decapsulate M (ek_PrivateKey kp') (ct\<lparr>ct_DEKCiphertexts := [ct_DEKCiphertexts ct ! i]\<rparr>) = None))"

text \<open>The replica knows itself in the document, and whether it is a shard of the box.\<close>

definition placed ::
  "('sk, 'pk, 'rnd, 'k, 'w) replica_env \<Rightarrow> ('sk, 'pk) replica \<Rightarrow> bytes \<Rightarrow> byte \<Rightarrow> ReplicaDescriptor list \<Rightarrow> bool \<Rightarrow> bool" where
  "placed E c boxID replicaID shards shard \<longleftrightarrow>
     (\<exists>doc me. rp_doc c = Some doc \<and> rp_identity c = Some me \<and> GetReplicaIDByIdentityKey (rp_identity c) doc = Ok replicaID \<and>
        GetShards (re_Sum256 E) boxID doc = Ok shards \<and> shards \<noteq> [] \<and> isShard shards me = shard)"

section \<open>Decapsulation\<close>

lemma try_epochs_finds:
  assumes "ep \<in> set eps" "GetKeypair keys ep = Some kp" "mk_Decapsulate M (ek_PrivateKey kp) ct = Some m"
    and "\<And>ep' kp'. ep' \<in> set eps \<Longrightarrow> GetKeypair keys ep' = Some kp' \<Longrightarrow> kp' \<noteq> kp \<Longrightarrow> mk_Decapsulate M (ek_PrivateKey kp') ct = None"
  shows "\<exists>ep'. try_epochs M keys ct e eps = Ok (m, kp, ep')"
  using assms
proof (induction eps arbitrary: e)
  case (Cons a eps)
  show ?case
  proof (cases "GetKeypair keys a = Some kp")
    case True
    then show ?thesis using Cons.prems(3) by simp
  next
    case False
    then have "ep \<in> set eps" using Cons.prems(1,2) by auto
    then have IH: "\<exists>ep'. try_epochs M keys ct e eps = Ok (m, kp, ep')" for e
      by (rule Cons.IH) (use Cons.prems in auto)
    show ?thesis
    proof (cases "GetKeypair keys a")
      case (Some kp')
      then have "mk_Decapsulate M (ek_PrivateKey kp') ct = None" using Cons.prems(4) [of a kp'] False by simp
      then show ?thesis using Some IH by simp
    qed (use IH in simp)
  qed
qed simp

lemma request_decapsulates:
  assumes M: "mkem_ok M x" and req: "request_to M keys epoch kp sk inner msg"
  obtains raw ep where "mk_UnmarshalPublicKey M (rm_SenderEPubKey msg) = Some (mk_public M sk)"
    "tryDecapsulateAcrossEpochWindow M keys \<lparr>ct_EphemeralPublicKey = mk_public M sk, ct_DEKCiphertexts = [rm_DEK msg],
       ct_Envelope = rm_Ciphertext msg\<rparr> epoch = Ok (raw, kp, ep)"
    "ParseReplicaInnerMessage raw = Ok inner"
proof -
  from req obtain ep rnd pks ct i b pad where ep: "ep \<in> set (window_epochs epoch)" "GetKeypair keys ep = Some kp"
    and b: "ReplicaInnerMessage_MarshalBinary inner = Ok b" "ReplicaInnerMessage_complete inner"
    and enc: "mk_Encapsulate M rnd pks (b @ zeros pad) = (sk, ct)" "i < length pks" "pks ! i = ek_PublicKey kp"
    and msg: "msg = \<lparr>rm_SenderEPubKey = mk_PublicBytes M (ct_EphemeralPublicKey ct), rm_DEK = ct_DEKCiphertexts ct ! i,
          rm_Ciphertext = ct_Envelope ct\<rparr>"
    and only: "\<And>ep' kp'. ep' \<in> set (window_epochs epoch) \<Longrightarrow> GetKeypair keys ep' = Some kp' \<Longrightarrow> kp' \<noteq> kp \<Longrightarrow>
           mk_Decapsulate M (ek_PrivateKey kp') (ct\<lparr>ct_DEKCiphertexts := [ct_DEKCiphertexts ct ! i]\<rparr>) = None"
    and kp: "key_pair M kp"
    unfolding request_to_def by auto
  let ?ct = "ct\<lparr>ct_DEKCiphertexts := [ct_DEKCiphertexts ct ! i]\<rparr>"
  have eph: "ct_EphemeralPublicKey ct = mk_public M sk" using mkem_okD(1) [OF M enc(1)] by simp
  have dec: "mk_Decapsulate M (ek_PrivateKey kp) ?ct = Some (b @ zeros pad)"
    by (rule mkem_okD(2) [OF M enc(1,2)]) (use enc(3) kp in \<open>simp add: key_pair_def\<close>)
  have ct: "?ct = \<lparr>ct_EphemeralPublicKey = mk_public M sk, ct_DEKCiphertexts = [rm_DEK msg], ct_Envelope = rm_Ciphertext msg\<rparr>"
    using eph by (cases ct) (simp add: msg)
  have "\<exists>ep'. try_epochs M keys ?ct NoKeysInWindow (window_epochs epoch) = Ok (b @ zeros pad, kp, ep')"
    by (rule try_epochs_finds [OF ep dec]) (use only in blast)
  then obtain ep' where "try_epochs M keys ?ct NoKeysInWindow (window_epochs epoch) = Ok (b @ zeros pad, kp, ep')" ..
  moreover have "mk_UnmarshalPublicKey M (rm_SenderEPubKey msg) = Some (mk_public M sk)"
    using mkem_okD(5) [OF M] eph by (simp add: msg)
  ultimately show ?thesis
    using that [of "b @ zeros pad" ep'] rim_parse_padded [OF b] by (simp add: tryDecapsulateAcrossEpochWindow_def ct)
qed

section \<open>Sealed replies\<close>

text \<open>
  What the client makes of a reply: the fields around it, an envelope of the one size that all replies have, and the
  message inside.
\<close>

definition opens_to ::
  "('sk, 'pk, 'rnd) mkem \<Rightarrow> ext_sizes \<Rightarrow> PGeometry \<Rightarrow> 'pk \<Rightarrow> 'sk \<Rightarrow> ReplicaMessageReply \<Rightarrow> ReplicaMessageReplyInnerMessage \<Rightarrow> bool" where
  "opens_to M x g pk sk reply inner \<longleftrightarrow>
     length (mr_EnvelopeReply reply) = CalculateEnvelopeReplySizeRead x g \<and>
     (\<exists>blob. mk_DecryptEnvelope M sk pk (mr_EnvelopeReply reply) = Some blob \<and>
        ParseReplicaMessageReplyInnerMessage blob = Ok inner)"

lemma sealed_reply_opens:
  assumes M: "mkem_ok (re_mkem E) (re_sizes E)" and x: "box_sizes (re_sizes E)" and geo: "rp_geo c = Some g" and kp: "key_pair (re_mkem E) kp"
    and b: "ReplicaMessageReplyInnerMessage_MarshalBinary inner = Ok b" "ReplicaMessageReplyInnerMessage_complete inner"
    and len: "length b \<le> 102 + CalculateBoxCiphertextLength g"
  obtains reply where "sealed_reply E c kp (mk_public (re_mkem E) sk) h code replicaID inner = Ok reply"
    "mr_ErrorCode reply = code" "mr_EnvelopeHash reply = h" "mr_ReplicaID reply = replicaID"
    "opens_to (re_mkem E) (re_sizes E) g (ek_PublicKey kp) sk reply inner"
proof -
  have size: "ReplicaReplyInnerMessageReadSize (re_sizes E) g = 102 + CalculateBoxCiphertextLength g"
    using x by (simp add: ReplicaReplyInnerMessageReadSize_def box_sizes_def pgeo_defs)
  let ?blob = "b @ zeros (102 + CalculateBoxCiphertextLength g - length b)"
  let ?reply = "\<lparr>mr_ErrorCode = code, mr_EnvelopeHash = h, mr_ReplicaID = replicaID,
    mr_EnvelopeReply = mk_EnvelopeReply (re_mkem E) (ek_PrivateKey kp) (mk_public (re_mkem E) sk) ?blob\<rparr>"
  have "PadReplyInnerMessageForEncryption (re_sizes E) inner (Some g) = Ok ?blob"
    using len b(1) by (simp add: PadReplyInnerMessageForEncryption_def ReplicaMessageReplyInnerMessage_Bytes_def PadToSize_Ok size)
  then have sealed: "sealed_reply E c kp (mk_public (re_mkem E) sk) h code replicaID inner = Ok ?reply"
    by (simp add: sealed_reply_def geo createReplicaMessageReply_def)
  have "length (mr_EnvelopeReply ?reply) = CalculateEnvelopeReplySizeRead (re_sizes E) g"
    using len x mkem_okD(4) [OF M] by (simp add: CalculateEnvelopeReplySizeRead_def box_sizes_def pgeo_defs)
  moreover have "mk_DecryptEnvelope (re_mkem E) sk (ek_PublicKey kp) (mr_EnvelopeReply ?reply) = Some ?blob"
    using mkem_okD(3) [OF M] kp by (simp add: key_pair_def)
  ultimately have "opens_to (re_mkem E) (re_sizes E) g (ek_PublicKey kp) sk ?reply inner"
    using rmi_parse_padded [OF b] unfolding opens_to_def by blast
  with sealed show ?thesis by (intro that [of ?reply]) simp_all
qed

section \<open>Boxes of the right size\<close>

definition sized :: "PGeometry \<Rightarrow> state \<Rightarrow> bool" where
  "sized g s \<longleftrightarrow> (\<forall>ep i b. stored s ep i = Some b \<longrightarrow> length (box_Payload b) \<le> CalculateBoxCiphertextLength g)"

lemma sized_empty: "sized g empty_state"
  by (simp add: sized_def empty_state_def stored_def)

lemma sized_write:
  assumes ok: "store_ok S cur s" and sz: "sized g s" and step: "box_step S cur s i (request_of S (Some g) w) code s'"
  shows "sized g s'"
proof -
  from ok obtain m where m: "db s = Some m" unfolding store_ok_def by blast
  from step consider "s' = s" | b v where "s' = stored_put cur b s" "box_BoxID b = i" "Box_MarshalBinary b = Ok v"
      "box_Payload b = [] \<or> newest s cur i = None" unfolding box_step_def by auto
  then show ?thesis
  proof cases
    case 2
    note st = stored_stored_put [OF m 2(3)]
    have "length (box_Payload b) \<le> CalculateBoxCiphertextLength g"
    proof (cases "box_Payload b = []")
      case False
      then have "register_of s cur i = Absent" using 2(4) by (simp add: register_of_def)
      moreover have "register_of s' cur i = Holds (box_Payload b) (box_Signature b)"
        using False by (simp add: register_of_def newest_def 2(1,2) st)
      ultimately have "(code, Holds (box_Payload b) (box_Signature b)) = reg_step (storageFull s) Absent (request_of S (Some g) w)"
        using step by (simp add: box_step_def)
      then show ?thesis by (auto simp: request_of_def verifies_def split: if_splits option.splits)
    qed simp
    then show ?thesis using sz by (auto simp: sized_def 2(1) st)
  qed (use sz in simp)
qed

lemma read_reply_typed:
  assumes ok: "store_ok S cur s" and sz: "sized g s" and i: "length (rr_BoxID q) = 32"
  obtains r b where "handleReplicaRead no_faults cur s q = Ok r" "ReplicaReadReply_MarshalBinary r = Ok b"
    "length b \<le> 101 + CalculateBoxCiphertextLength g"
    "(rrr_ErrorCode r, rrr_Payload r) = read_reply_of (register_of s cur (rr_BoxID q))" "rrr_BoxID r = rr_BoxID q"
proof -
  obtain r where r: "handleReplicaRead no_faults cur s q = Ok r"
      "(rrr_ErrorCode r, rrr_Payload r) = read_reply_of (register_of s cur (rr_BoxID q))" "rrr_BoxID r = rr_BoxID q"
    using handleReplicaRead_register [OF ok] by blast
  have newest_box: "length (box_Signature b) = 64 \<and> length (box_Payload b) < 2 ^ 32 \<and> length (box_Payload b) \<le> CalculateBoxCiphertextLength g"
    if nb: "newest s cur (rr_BoxID q) = Some b" for b
  proof -
    obtain ep where st: "stored s ep (rr_BoxID q) = Some b" using nb by (auto simp: newest_def split: option.splits if_splits)
    from stored_Bytes(6) [OF ok this] have "length (box_Signature b) = 64" "length (box_Payload b) = unat (box_PayloadLen b)"
      by (auto simp: Box_MarshalBinary_def Box_validate_def go_simps)
    moreover have "length (box_Payload b) \<le> CalculateBoxCiphertextLength g" using sz st by (auto simp: sized_def)
    ultimately show ?thesis using unsigned_less [of "box_PayloadLen b"] by simp
  qed
  have "length (rrr_Signature r) = 64 \<and> length (rrr_Payload r) = unat (rrr_PayloadLen r) \<and> length (rrr_Payload r) \<le> CalculateBoxCiphertextLength g"
  proof (cases "newest s cur (rr_BoxID q)")
    case None
    with r(1) show ?thesis by (auto simp: handleReplicaRead_def read_newest [OF ok] read_error_reply_def)
  next
    case (Some b)
    with r(1) newest_box [OF Some] show ?thesis
      by (auto simp: handleReplicaRead_def read_newest [OF ok] read_error_reply_def unat_of_nat split: if_splits)
  qed
  note t = this
  obtain b where b: "ReplicaReadReply_MarshalBinary r = Ok b"
    using t i r(3) by (simp add: ReplicaReadReply_defs slice_def)
  moreover have "length b \<le> 101 + CalculateBoxCiphertextLength g" using rrr_marshal_length [OF b] t by simp
  ultimately show ?thesis using that r by blast
qed

text \<open>The messages around read and write replies.\<close>

lemma read_reply_inner:
  assumes "ReplicaReadReply_MarshalBinary r = Ok b"
  shows "ReplicaMessageReplyInnerMessage_MarshalBinary \<lparr>rmi_MessageType = 0, rmi_ReadReply = Some r, rmi_WriteReply = None\<rparr> = Ok (0 # b)"
    and "ReplicaMessageReplyInnerMessage_complete \<lparr>rmi_MessageType = 0, rmi_ReadReply = Some r, rmi_WriteReply = None\<rparr>"
  using assms by (simp_all add: ReplicaMessageReplyInnerMessage_MarshalBinary_cases ReplicaMessageReplyInnerMessage_complete_def)

lemma write_reply_inner:
  "ReplicaMessageReplyInnerMessage_MarshalBinary \<lparr>rmi_MessageType = 1, rmi_ReadReply = None, rmi_WriteReply = Some r\<rparr> = Ok [1, rwr_ErrorCode r]"
  "ReplicaMessageReplyInnerMessage_complete \<lparr>rmi_MessageType = 1, rmi_ReadReply = None, rmi_WriteReply = Some r\<rparr>"
  by (simp_all add: ReplicaMessageReplyInnerMessage_MarshalBinary_cases ReplicaMessageReplyInnerMessage_complete_def rwr_marshal)

section \<open>Shards\<close>

lemma request_typed:
  "request_to M keys epoch kp sk \<lparr>rim_MessageType = 0, rim_ReadMsg = Some q, rim_WriteMsg = None\<rparr> msg \<Longrightarrow> length (rr_BoxID q) = 32"
  "request_to M keys epoch kp sk \<lparr>rim_MessageType = 1, rim_ReadMsg = None, rim_WriteMsg = Some wr\<rparr> msg \<Longrightarrow> typed_write wr"
  by (auto simp: request_to_def ReplicaInnerMessage_MarshalBinary_cases ReplicaRead_MarshalBinary_def ReplicaRead_validate_def
      ReplicaWrite_MarshalBinary_def ReplicaWrite_validate_def typed_write_def go_simps)

lemma shard_reads:
  assumes M: "mkem_ok (re_mkem E) (re_sizes E)" "box_sizes (re_sizes E)" and geo: "rp_geo c = Some g" and nf: "rp_faults c = no_faults"
    and st: "store_ok (re_sig E) (rp_epoch c) (rp_state c)" "sized g (rp_state c)"
    and req: "request_to (re_mkem E) (rp_keys c) (rp_epoch c) kp sk \<lparr>rim_MessageType = 0, rim_ReadMsg = Some q, rim_WriteMsg = None\<rparr> msg"
    and shard: "placed E c (rr_BoxID q) replicaID shards True"
  obtains reply r where "handleReplicaMessage E c msg w = Some (Ok reply, c, w)"
    "mr_EnvelopeHash reply = ReplicaMessage_EnvelopeHash (re_Sum256 E) msg" "mr_ReplicaID reply = replicaID" "mr_ErrorCode reply = rrr_ErrorCode r"
    "opens_to (re_mkem E) (re_sizes E) g (ek_PublicKey kp) sk reply \<lparr>rmi_MessageType = 0, rmi_ReadReply = Some r, rmi_WriteReply = None\<rparr>"
    "(rrr_ErrorCode r, rrr_Payload r) = read_reply_of (register_of (rp_state c) (rp_epoch c) (rr_BoxID q))"
    "\<exists>b. ReplicaReadReply_MarshalBinary r = Ok b \<and> length b \<le> 101 + CalculateBoxCiphertextLength g"
proof -
  obtain raw ep where dec: "mk_UnmarshalPublicKey (re_mkem E) (rm_SenderEPubKey msg) = Some (mk_public (re_mkem E) sk)"
    "tryDecapsulateAcrossEpochWindow (re_mkem E) (rp_keys c) \<lparr>ct_EphemeralPublicKey = mk_public (re_mkem E) sk, ct_DEKCiphertexts = [rm_DEK msg],
       ct_Envelope = rm_Ciphertext msg\<rparr> (rp_epoch c) = Ok (raw, kp, ep)"
    "ParseReplicaInnerMessage raw = Ok \<lparr>rim_MessageType = 0, rim_ReadMsg = Some q, rim_WriteMsg = None\<rparr>"
    by (rule request_decapsulates [OF M(1) req])
  obtain doc me where pl: "rp_doc c = Some doc" "rp_identity c = Some me" "GetReplicaIDByIdentityKey (Some me) doc = Ok replicaID"
      "GetShards (re_Sum256 E) (rr_BoxID q) doc = Ok shards" "shards \<noteq> []" "isShard shards me"
    using shard by (auto simp: placed_def)
  obtain r b where r: "handleReplicaRead no_faults (rp_epoch c) (rp_state c) q = Ok r" "ReplicaReadReply_MarshalBinary r = Ok b"
      "length b \<le> 101 + CalculateBoxCiphertextLength g"
      "(rrr_ErrorCode r, rrr_Payload r) = read_reply_of (register_of (rp_state c) (rp_epoch c) (rr_BoxID q))"
    by (rule read_reply_typed [OF st request_typed(1) [OF req]])
  let ?inner = "\<lparr>rmi_MessageType = 0, rmi_ReadReply = Some r, rmi_WriteReply = None\<rparr>"
  have m: "ReplicaMessageReplyInnerMessage_MarshalBinary ?inner = Ok (0 # b)" "ReplicaMessageReplyInnerMessage_complete ?inner"
      "length (0 # b) \<le> 102 + CalculateBoxCiphertextLength g"
    using read_reply_inner [OF r(2)] r(3) by simp_all
  have kp: "key_pair (re_mkem E) kp" using req by (simp add: request_to_def)
  let ?h = "ReplicaMessage_EnvelopeHash (re_Sum256 E) msg"
  obtain reply where rep: "sealed_reply E c kp (mk_public (re_mkem E) sk) ?h (rrr_ErrorCode r) replicaID ?inner = Ok reply"
      "mr_ErrorCode reply = rrr_ErrorCode r" "mr_EnvelopeHash reply = ?h" "mr_ReplicaID reply = replicaID"
      "opens_to (re_mkem E) (re_sizes E) g (ek_PublicKey kp) sk reply ?inner"
    by (rule sealed_reply_opens [OF M geo kp m])
  have "handleReplicaMessage E c msg w = Some (Ok reply, c, w)"
    using pl nf r(1) rep(1) by (simp add: handleReplicaMessage_def Let_def dec)
  then show ?thesis using that [of reply r] rep(2-5) r(2-4) by blast
qed

lemma shard_writes:
  assumes M: "mkem_ok (re_mkem E) (re_sizes E)" "box_sizes (re_sizes E)" and geo: "rp_geo c = Some g" "geo_fits (Some g)" and nf: "rp_faults c = no_faults"
    and st: "store_ok (re_sig E) (rp_epoch c) (rp_state c)" "sized g (rp_state c)"
    and req: "request_to (re_mkem E) (rp_keys c) (rp_epoch c) kp sk \<lparr>rim_MessageType = 1, rim_ReadMsg = None, rim_WriteMsg = Some wr\<rparr> msg"
    and shard: "placed E c (trw_BoxID wr) replicaID shards True"
  obtains reply r s' where "handleReplicaMessage E c msg w = Some (Ok reply, c\<lparr>rp_state := s', rp_replicated := rp_replicated c @
      (if rwr_ErrorCode r = ReplicaSuccess then [the (TrunnelReplicaWriteToWireCommand (Some wr))] else [])\<rparr>, w)"
    "mr_EnvelopeHash reply = ReplicaMessage_EnvelopeHash (re_Sum256 E) msg" "mr_ReplicaID reply = replicaID" "mr_ErrorCode reply = rwr_ErrorCode r"
    "opens_to (re_mkem E) (re_sizes E) g (ek_PublicKey kp) sk reply \<lparr>rmi_MessageType = 1, rmi_ReadReply = None, rmi_WriteReply = Some r\<rparr>"
    "box_step (re_sig E) (rp_epoch c) (rp_state c) (trw_BoxID wr) (request_of (re_sig E) (Some g) wr) (rwr_ErrorCode r) s'"
    "store_ok (re_sig E) (rp_epoch c) s'" "sized g s'"
proof -
  obtain raw ep where dec: "mk_UnmarshalPublicKey (re_mkem E) (rm_SenderEPubKey msg) = Some (mk_public (re_mkem E) sk)"
    "tryDecapsulateAcrossEpochWindow (re_mkem E) (rp_keys c) \<lparr>ct_EphemeralPublicKey = mk_public (re_mkem E) sk, ct_DEKCiphertexts = [rm_DEK msg],
       ct_Envelope = rm_Ciphertext msg\<rparr> (rp_epoch c) = Ok (raw, kp, ep)"
    "ParseReplicaInnerMessage raw = Ok \<lparr>rim_MessageType = 1, rim_ReadMsg = None, rim_WriteMsg = Some wr\<rparr>"
    by (rule request_decapsulates [OF M(1) req])
  obtain doc me where pl: "rp_doc c = Some doc" "rp_identity c = Some me" "GetReplicaIDByIdentityKey (Some me) doc = Ok replicaID"
      "GetShards (re_Sum256 E) (trw_BoxID wr) doc = Ok shards" "shards \<noteq> []" "isShard shards me"
    using shard by (auto simp: placed_def)
  obtain r s' where wr: "handleReplicaWrite (re_sig E) (Some g) no_faults (rp_epoch c) (rp_state c) wr = (r, s')" by fastforce
  have step: "box_step (re_sig E) (rp_epoch c) (rp_state c) (trw_BoxID wr) (request_of (re_sig E) (Some g) wr) (rwr_ErrorCode r) s'"
    using handleReplicaWrite_step [OF st(1) request_typed(2) [OF req] geo(2) wr] by simp
  let ?inner = "\<lparr>rmi_MessageType = 1, rmi_ReadReply = None, rmi_WriteReply = Some r\<rparr>"
  let ?c = "c\<lparr>rp_state := s', rp_replicated := rp_replicated c @
      (if rwr_ErrorCode r = ReplicaSuccess then [the (TrunnelReplicaWriteToWireCommand (Some wr))] else [])\<rparr>"
  have m: "ReplicaMessageReplyInnerMessage_MarshalBinary ?inner = Ok [1, rwr_ErrorCode r]" "ReplicaMessageReplyInnerMessage_complete ?inner"
      "length [1, rwr_ErrorCode r] \<le> 102 + CalculateBoxCiphertextLength g"
    using write_reply_inner [of r] by simp_all
  have kp: "key_pair (re_mkem E) kp" using req by (simp add: request_to_def)
  let ?h = "ReplicaMessage_EnvelopeHash (re_Sum256 E) msg"
  have g: "rp_geo ?c = Some g" using geo(1) by simp
  obtain reply where rep: "sealed_reply E ?c kp (mk_public (re_mkem E) sk) ?h (rwr_ErrorCode r) replicaID ?inner = Ok reply"
      "mr_ErrorCode reply = rwr_ErrorCode r" "mr_EnvelopeHash reply = ?h" "mr_ReplicaID reply = replicaID"
      "opens_to (re_mkem E) (re_sizes E) g (ek_PublicKey kp) sk reply ?inner"
    by (rule sealed_reply_opens [OF M g kp m])
  have "handleReplicaMessage E c msg w = Some (Ok reply, ?c, w)"
    using pl nf wr rep(1) geo(1)
    by (auto simp: handleReplicaMessage_def Let_def dec TrunnelReplicaWriteToWireCommand_def)
  then show ?thesis using that [of reply r s'] rep(2-5) step box_step_ok(1) [OF st(1) step] sized_write [OF st step] by blast
qed

text \<open>
  C36. A shard serves every request that reaches it. A message of a courier whose envelope a client sealed with any
  key of the replica's epoch window is answered, for a read with the contents of the box register and for a write
  with the result of the register step, which is also what the state then holds; a successful write is given to
  replication. The client opens the answer with the key it used, and every answer, to a read that succeeds, finds
  a tombstone or finds nothing and to a write that succeeds or fails, has an envelope of the same size.
\<close>

theorem replica_serves_requests:
  assumes "mkem_ok (re_mkem E) (re_sizes E)" "box_sizes (re_sizes E)" "rp_geo c = Some g" "geo_fits (Some g)" "rp_faults c = no_faults"
    and "store_ok (re_sig E) (rp_epoch c) (rp_state c)" "sized g (rp_state c)"
  shows "(request_to (re_mkem E) (rp_keys c) (rp_epoch c) kp sk \<lparr>rim_MessageType = 0, rim_ReadMsg = Some q, rim_WriteMsg = None\<rparr> msg \<and>
      placed E c (rr_BoxID q) replicaID shards True \<longrightarrow>
      (\<exists>reply r. handleReplicaMessage E c msg w = Some (Ok reply, c, w) \<and>
         mr_EnvelopeHash reply = ReplicaMessage_EnvelopeHash (re_Sum256 E) msg \<and> mr_ErrorCode reply = rrr_ErrorCode r \<and>
         opens_to (re_mkem E) (re_sizes E) g (ek_PublicKey kp) sk reply \<lparr>rmi_MessageType = 0, rmi_ReadReply = Some r, rmi_WriteReply = None\<rparr> \<and>
         (rrr_ErrorCode r, rrr_Payload r) = read_reply_of (register_of (rp_state c) (rp_epoch c) (rr_BoxID q)))) \<and>
    (request_to (re_mkem E) (rp_keys c) (rp_epoch c) kp sk \<lparr>rim_MessageType = 1, rim_ReadMsg = None, rim_WriteMsg = Some wr\<rparr> msg \<and>
      placed E c (trw_BoxID wr) replicaID shards True \<longrightarrow>
      (\<exists>reply r s'. handleReplicaMessage E c msg w = Some (Ok reply, c\<lparr>rp_state := s', rp_replicated := rp_replicated c @
           (if rwr_ErrorCode r = ReplicaSuccess then [the (TrunnelReplicaWriteToWireCommand (Some wr))] else [])\<rparr>, w) \<and>
         mr_EnvelopeHash reply = ReplicaMessage_EnvelopeHash (re_Sum256 E) msg \<and> mr_ErrorCode reply = rwr_ErrorCode r \<and>
         opens_to (re_mkem E) (re_sizes E) g (ek_PublicKey kp) sk reply \<lparr>rmi_MessageType = 1, rmi_ReadReply = None, rmi_WriteReply = Some r\<rparr> \<and>
         (rwr_ErrorCode r, register_of s' (rp_epoch c) (trw_BoxID wr)) =
           reg_step (storageFull (rp_state c)) (register_of (rp_state c) (rp_epoch c) (trw_BoxID wr)) (request_of (re_sig E) (Some g) wr) \<and>
         store_ok (re_sig E) (rp_epoch c) s' \<and> sized g s'))"
proof (intro conjI impI)
  assume "request_to (re_mkem E) (rp_keys c) (rp_epoch c) kp sk \<lparr>rim_MessageType = 0, rim_ReadMsg = Some q, rim_WriteMsg = None\<rparr> msg \<and>
      placed E c (rr_BoxID q) replicaID shards True"
  then show "\<exists>reply r. handleReplicaMessage E c msg w = Some (Ok reply, c, w) \<and>
         mr_EnvelopeHash reply = ReplicaMessage_EnvelopeHash (re_Sum256 E) msg \<and> mr_ErrorCode reply = rrr_ErrorCode r \<and>
         opens_to (re_mkem E) (re_sizes E) g (ek_PublicKey kp) sk reply \<lparr>rmi_MessageType = 0, rmi_ReadReply = Some r, rmi_WriteReply = None\<rparr> \<and>
         (rrr_ErrorCode r, rrr_Payload r) = read_reply_of (register_of (rp_state c) (rp_epoch c) (rr_BoxID q))"
    using shard_reads [OF assms(1-3,5-7)] by metis
next
  assume "request_to (re_mkem E) (rp_keys c) (rp_epoch c) kp sk \<lparr>rim_MessageType = 1, rim_ReadMsg = None, rim_WriteMsg = Some wr\<rparr> msg \<and>
      placed E c (trw_BoxID wr) replicaID shards True"
  then obtain reply r s' where "handleReplicaMessage E c msg w = Some (Ok reply, c\<lparr>rp_state := s', rp_replicated := rp_replicated c @
      (if rwr_ErrorCode r = ReplicaSuccess then [the (TrunnelReplicaWriteToWireCommand (Some wr))] else [])\<rparr>, w)"
    "mr_EnvelopeHash reply = ReplicaMessage_EnvelopeHash (re_Sum256 E) msg" "mr_ErrorCode reply = rwr_ErrorCode r"
    "opens_to (re_mkem E) (re_sizes E) g (ek_PublicKey kp) sk reply \<lparr>rmi_MessageType = 1, rmi_ReadReply = None, rmi_WriteReply = Some r\<rparr>"
    "box_step (re_sig E) (rp_epoch c) (rp_state c) (trw_BoxID wr) (request_of (re_sig E) (Some g) wr) (rwr_ErrorCode r) s'"
    "store_ok (re_sig E) (rp_epoch c) s'" "sized g s'"
    using shard_writes [OF assms] by metis
  then show "\<exists>reply r s'. handleReplicaMessage E c msg w = Some (Ok reply, c\<lparr>rp_state := s', rp_replicated := rp_replicated c @
           (if rwr_ErrorCode r = ReplicaSuccess then [the (TrunnelReplicaWriteToWireCommand (Some wr))] else [])\<rparr>, w) \<and>
         mr_EnvelopeHash reply = ReplicaMessage_EnvelopeHash (re_Sum256 E) msg \<and> mr_ErrorCode reply = rwr_ErrorCode r \<and>
         opens_to (re_mkem E) (re_sizes E) g (ek_PublicKey kp) sk reply \<lparr>rmi_MessageType = 1, rmi_ReadReply = None, rmi_WriteReply = Some r\<rparr> \<and>
         (rwr_ErrorCode r, register_of s' (rp_epoch c) (trw_BoxID wr)) =
           reg_step (storageFull (rp_state c)) (register_of (rp_state c) (rp_epoch c) (trw_BoxID wr)) (request_of (re_sig E) (Some g) wr) \<and>
         store_ok (re_sig E) (rp_epoch c) s' \<and> sized g s'"
    unfolding box_step_def by blast
qed

section \<open>Intermediates\<close>

text \<open>
  The way from an intermediate to a shard of a box: the intermediate has a key of its own for the current epoch, its
  random words choose the shard \<open>shards ! idx\<close>, and the document has the envelope key of that shard.
\<close>

definition route ::
  "('sk, 'pk, 'rnd, 'k, 'w) replica_env \<Rightarrow> ('sk, 'pk) replica \<Rightarrow> ReplicaDescriptor list \<Rightarrow> nat \<Rightarrow> ('sk, 'pk) EnvelopeKey \<Rightarrow> 'pk \<Rightarrow> 'w \<Rightarrow> bool" where
  "route E c shards idx own pk w \<longleftrightarrow> GetKeypair (rp_keys c) (rp_epoch c) = Some own \<and> key_pair (re_mkem E) own \<and>
     (\<exists>used. CryptoRandIndex (re_words E w) (int (length shards)) 0 = Some (Ok (idx, used))) \<and>
     (\<exists>kb. rd_EnvelopeKeys (shards ! idx) (rp_epoch c) = Some kb \<and> mk_UnmarshalPublicKey (re_mkem E) kb = Some pk)"

text \<open>
  The replica \<open>c'\<close> at the end of it: the network hands it every message for the shard and brings its reply back, it
  holds the private key, and no two keys of its window open the same envelope.
\<close>

definition reachable_shard ::
  "('sk, 'pk, 'rnd, 'k, 'w) replica_env \<Rightarrow> 64 word \<Rightarrow> ReplicaDescriptor \<Rightarrow> 'pk
     \<Rightarrow> ('sk, 'pk, 'rnd, 'k2, 'w2) replica_env \<Rightarrow> ('sk, 'pk) replica \<Rightarrow> 'w2 \<Rightarrow> bool" where
  "reachable_shard E epoch desc pk E' c' v \<longleftrightarrow>
     (\<forall>u m reply c2 v2. handleReplicaMessage E' c' m v = Some (Ok reply, c2, v2) \<longrightarrow>
        fst (re_send E u m (re_Sum256 E (key_bytes desc))) = Some reply) \<and>
     epoch \<in> set (window_epochs (rp_epoch c')) \<and>
     (\<exists>kp. GetKeypair (rp_keys c') epoch = Some kp \<and> key_pair (re_mkem E') kp \<and> ek_PublicKey kp = pk \<and>
        (\<forall>ep kp' ct m. ep \<in> set (window_epochs (rp_epoch c')) \<and> GetKeypair (rp_keys c') ep = Some kp' \<and> kp' \<noteq> kp \<and>
           mk_Decapsulate (re_mkem E') (ek_PrivateKey kp) ct = Some m \<longrightarrow> mk_Decapsulate (re_mkem E') (ek_PrivateKey kp') ct = None))"

lemma proxy_send_reaches:
  assumes M: "mkem_ok (re_mkem E) (re_sizes E)" and E': "re_mkem E' = re_mkem E"
    and place: "placed E c boxID replicaID shards False"
    and rt: "route E c shards idx own pk w" and sh: "reachable_shard E (rp_epoch c) (shards ! idx) pk E' c' v"
    and req: "request_to (re_mkem E) keys ep0 kp0 sk0 inner msg0"
    and answers: "\<And>kp sk msg. request_to (re_mkem E) (rp_keys c') (rp_epoch c') kp sk inner msg \<Longrightarrow> ek_PublicKey kp = pk \<Longrightarrow>
      \<exists>reply c2 v2. handleReplicaMessage E' c' msg v = Some (Ok reply, c2, v2) \<and> P reply sk"
  obtains reply sk w' where "proxy_send E c boxID inner h w = Some (Ok (Inr (own, sk, pk, reply, replicaID)), w')" "P reply sk"
proof -
  obtain b where b: "ReplicaInnerMessage_MarshalBinary inner = Ok b" "ReplicaInnerMessage_complete inner"
    using req by (auto simp: request_to_def)
  obtain doc where pl: "rp_doc c = Some doc" "GetReplicaIDByIdentityKey (rp_identity c) doc = Ok replicaID"
      "GetShards (re_Sum256 E) boxID doc = Ok shards"
    using place by (auto simp: placed_def)
  obtain used kb where r: "GetKeypair (rp_keys c) (rp_epoch c) = Some own"
      "CryptoRandIndex (re_words E w) (int (length shards)) 0 = Some (Ok (idx, used))"
      "rd_EnvelopeKeys (shards ! idx) (rp_epoch c) = Some kb" "mk_UnmarshalPublicKey (re_mkem E) kb = Some pk"
    using rt by (auto simp: route_def)
  obtain kp where kp: "rp_epoch c \<in> set (window_epochs (rp_epoch c'))" "GetKeypair (rp_keys c') (rp_epoch c) = Some kp"
      "key_pair (re_mkem E) kp" "ek_PublicKey kp = pk"
    and only: "\<And>ep kp' ct m. ep \<in> set (window_epochs (rp_epoch c')) \<Longrightarrow> GetKeypair (rp_keys c') ep = Some kp' \<Longrightarrow> kp' \<noteq> kp \<Longrightarrow>
        mk_Decapsulate (re_mkem E) (ek_PrivateKey kp) ct = Some m \<Longrightarrow> mk_Decapsulate (re_mkem E) (ek_PrivateKey kp') ct = None"
    using sh unfolding reachable_shard_def E' by metis
  obtain rnd w1 where ent: "re_entropy E (re_used E w used) = (rnd, w1)" by fastforce
  obtain sk ct where enc: "mk_Encapsulate (re_mkem E) rnd [pk] b = (sk, ct)" by fastforce
  have "length (ct_DEKCiphertexts ct) = 1" using mkem_okD(1) [OF M enc] by simp
  then obtain dek where dek: "ct_DEKCiphertexts ct = [dek]" by (cases "ct_DEKCiphertexts ct") auto
  let ?msg = "\<lparr>rm_SenderEPubKey = mk_PublicBytes (re_mkem E) (ct_EphemeralPublicKey ct), rm_DEK = dek, rm_Ciphertext = ct_Envelope ct\<rparr>"
  have dec: "mk_Decapsulate (re_mkem E) (ek_PrivateKey kp) (ct\<lparr>ct_DEKCiphertexts := [ct_DEKCiphertexts ct ! 0]\<rparr>) = Some b"
    by (rule mkem_okD(2) [OF M enc]) (use kp(3,4) in \<open>simp_all add: key_pair_def\<close>)
  have "request_to (re_mkem E) (rp_keys c') (rp_epoch c') kp sk inner ?msg"
    unfolding request_to_def
    by (intro conjI kp(3) exI [of _ "rp_epoch c"] exI [of _ rnd] exI [of _ "[pk]"] exI [of _ ct] exI [of _ 0] exI [of _ b])
      (use kp b enc dek only [OF _ _ _ dec] in auto)
  from answers [OF this kp(4)] obtain reply c2 v2 where
    rep: "handleReplicaMessage E' c' ?msg v = Some (Ok reply, c2, v2)" "P reply sk" by blast
  obtain w2 where send: "re_send E w1 ?msg (re_Sum256 E (key_bytes (shards ! idx))) = (Some reply, w2)"
    using sh rep(1) unfolding reachable_shard_def by (metis prod.collapse)
  have "ReplicaInnerMessage_Bytes inner = b" by (simp add: ReplicaInnerMessage_Bytes_def b(1))
  then have "proxy_send E c boxID inner h w = Some (Ok (Inr (own, sk, pk, reply, replicaID)), w2)"
    using pl r by (simp add: proxy_send_def Let_def ent enc dek send)
  with rep(2) show ?thesis using that by blast
qed

lemma intermediate_handles:
  assumes M: "mkem_ok (re_mkem E) x"
  shows "request_to (re_mkem E) (rp_keys c) (rp_epoch c) kp sk \<lparr>rim_MessageType = 0, rim_ReadMsg = Some q, rim_WriteMsg = None\<rparr> msg \<Longrightarrow>
      placed E c (rr_BoxID q) replicaID shards False \<Longrightarrow>
      handleReplicaMessage E c msg w = map_option (\<lambda>(reply, w). (reply, c, w))
        (proxyReadRequest E c q (mk_public (re_mkem E) sk) (ReplicaMessage_EnvelopeHash (re_Sum256 E) msg) w)"
    and "request_to (re_mkem E) (rp_keys c) (rp_epoch c) kp sk \<lparr>rim_MessageType = 1, rim_ReadMsg = None, rim_WriteMsg = Some wr\<rparr> msg \<Longrightarrow>
      placed E c (trw_BoxID wr) replicaID shards False \<Longrightarrow>
      handleReplicaMessage E c msg w = map_option (\<lambda>(reply, w). (reply, c, w))
        (proxyWriteRequest E c wr (mk_public (re_mkem E) sk) (ReplicaMessage_EnvelopeHash (re_Sum256 E) msg) w)"
  by (erule request_decapsulates [OF M], auto simp: placed_def handleReplicaMessage_def Let_def)+

lemma opens_to_nonempty: "opens_to M x g pk sk reply inner \<Longrightarrow> 0 < length (mr_EnvelopeReply reply)"
  by (simp add: opens_to_def CalculateEnvelopeReplySizeRead_def pgeo_defs)

lemma relayed_read:
  assumes M: "mkem_ok (re_mkem E) (re_sizes E)" "box_sizes (re_sizes E)" and geo: "rp_geo c = Some g" and own: "key_pair (re_mkem E) own"
    and ps: "proxy_send E c (rr_BoxID q) \<lparr>rim_MessageType = 0, rim_ReadMsg = Some q, rim_WriteMsg = None\<rparr> h w =
      Some (Ok (Inr (own, sk1, pk, reply, replicaID)), w')"
    and op: "opens_to (re_mkem E) (re_sizes E) g pk sk1 reply \<lparr>rmi_MessageType = 0, rmi_ReadReply = Some r, rmi_WriteReply = None\<rparr>"
    and b: "ReplicaReadReply_MarshalBinary r = Ok b" "length b \<le> 101 + CalculateBoxCiphertextLength g"
  obtains out where "proxyReadRequest E c q (mk_public (re_mkem E) sk) h w = Some (Ok out, w')"
    "mr_EnvelopeHash out = h" "mr_ReplicaID out = replicaID" "mr_ErrorCode out = rrr_ErrorCode r"
    "opens_to (re_mkem E) (re_sizes E) g (ek_PublicKey own) sk out \<lparr>rmi_MessageType = 0, rmi_ReadReply = Some r, rmi_WriteReply = None\<rparr>"
proof -
  let ?out = "\<lparr>rmi_MessageType = 0, rmi_ReadReply = Some r, rmi_WriteReply = None\<rparr>"
  obtain out where out: "sealed_reply E c own (mk_public (re_mkem E) sk) h (rrr_ErrorCode r) replicaID ?out = Ok out"
      "mr_ErrorCode out = rrr_ErrorCode r" "mr_EnvelopeHash out = h" "mr_ReplicaID out = replicaID"
      "opens_to (re_mkem E) (re_sizes E) g (ek_PublicKey own) sk out ?out"
    by (rule sealed_reply_opens [OF M geo own read_reply_inner(1) [OF b(1)] read_reply_inner(2) [OF b(1)], of sk h "rrr_ErrorCode r" replicaID])
      (use b(2) in simp_all)
  obtain blob where "mk_DecryptEnvelope (re_mkem E) sk1 pk (mr_EnvelopeReply reply) = Some blob"
      "ParseReplicaMessageReplyInnerMessage blob = Ok ?out" using op by (auto simp: opens_to_def)
  then have "proxyReadRequest E c q (mk_public (re_mkem E) sk) h w = Some (Ok out, w')"
    using opens_to_nonempty [OF op] by (simp add: proxyReadRequest_def ps out(1) Let_def)
  then show ?thesis using that out(2-5) by blast
qed

lemma relayed_write:
  assumes M: "mkem_ok (re_mkem E) (re_sizes E)" "box_sizes (re_sizes E)" and geo: "rp_geo c = Some g" and own: "key_pair (re_mkem E) own"
    and ps: "proxy_send E c (trw_BoxID wr) \<lparr>rim_MessageType = 1, rim_ReadMsg = None, rim_WriteMsg = Some wr\<rparr> h w =
      Some (Ok (Inr (own, sk1, pk, reply, replicaID)), w')"
    and op: "opens_to (re_mkem E) (re_sizes E) g pk sk1 reply \<lparr>rmi_MessageType = 1, rmi_ReadReply = None, rmi_WriteReply = Some r\<rparr>"
  obtains out where "proxyWriteRequest E c wr (mk_public (re_mkem E) sk) h w = Some (Ok out, w')"
    "mr_EnvelopeHash out = h" "mr_ReplicaID out = replicaID" "mr_ErrorCode out = rwr_ErrorCode r"
    "opens_to (re_mkem E) (re_sizes E) g (ek_PublicKey own) sk out \<lparr>rmi_MessageType = 1, rmi_ReadReply = None, rmi_WriteReply = Some r\<rparr>"
proof -
  let ?out = "\<lparr>rmi_MessageType = 1, rmi_ReadReply = None, rmi_WriteReply = Some r\<rparr>"
  obtain out where out: "sealed_reply E c own (mk_public (re_mkem E) sk) h (rwr_ErrorCode r) replicaID ?out = Ok out"
      "mr_ErrorCode out = rwr_ErrorCode r" "mr_EnvelopeHash out = h" "mr_ReplicaID out = replicaID"
      "opens_to (re_mkem E) (re_sizes E) g (ek_PublicKey own) sk out ?out"
    by (rule sealed_reply_opens [OF M geo own write_reply_inner [of r]]) simp_all
  obtain blob where "mk_DecryptEnvelope (re_mkem E) sk1 pk (mr_EnvelopeReply reply) = Some blob"
      "ParseReplicaMessageReplyInnerMessage blob = Ok ?out" using op by (auto simp: opens_to_def)
  then have "proxyWriteRequest E c wr (mk_public (re_mkem E) sk) h w = Some (Ok out, w')"
    using opens_to_nonempty [OF op] by (simp add: proxyWriteRequest_def ps out(1) Let_def)
  then show ?thesis using that out(2-5) by blast
qed

lemma read_through_intermediate:
  assumes M: "mkem_ok (re_mkem E) (re_sizes E)" "box_sizes (re_sizes E)" and E': "re_mkem E' = re_mkem E" "re_sizes E' = re_sizes E"
    and geo: "rp_geo c = Some g" "rp_geo c' = Some g" "geo_fits (Some g)" and nf: "rp_faults c' = no_faults"
    and st: "store_ok (re_sig E') (rp_epoch c') (rp_state c')" "sized g (rp_state c')"
    and rt: "route E c shards idx own pk w" and sh: "reachable_shard E (rp_epoch c) (shards ! idx) pk E' c' v"
    and req: "request_to (re_mkem E) (rp_keys c) (rp_epoch c) kp sk \<lparr>rim_MessageType = 0, rim_ReadMsg = Some q, rim_WriteMsg = None\<rparr> msg"
    and pl: "placed E c (rr_BoxID q) replicaID shards False" "placed E' c' (rr_BoxID q) replicaID' shards' True"
  obtains reply r w' where "handleReplicaMessage E c msg w = Some (Ok reply, c, w')"
    "mr_EnvelopeHash reply = ReplicaMessage_EnvelopeHash (re_Sum256 E) msg" "mr_ReplicaID reply = replicaID" "mr_ErrorCode reply = rrr_ErrorCode r"
    "opens_to (re_mkem E) (re_sizes E) g (ek_PublicKey own) sk reply \<lparr>rmi_MessageType = 0, rmi_ReadReply = Some r, rmi_WriteReply = None\<rparr>"
    "(rrr_ErrorCode r, rrr_Payload r) = read_reply_of (register_of (rp_state c') (rp_epoch c') (rr_BoxID q))"
proof -
  let ?inner = "\<lparr>rim_MessageType = 0, rim_ReadMsg = Some q, rim_WriteMsg = None\<rparr>"
  let ?h = "ReplicaMessage_EnvelopeHash (re_Sum256 E) msg"
  let ?P = "\<lambda>reply sk. \<exists>r b. opens_to (re_mkem E) (re_sizes E) g pk sk reply \<lparr>rmi_MessageType = 0, rmi_ReadReply = Some r, rmi_WriteReply = None\<rparr> \<and>
    (rrr_ErrorCode r, rrr_Payload r) = read_reply_of (register_of (rp_state c') (rp_epoch c') (rr_BoxID q)) \<and>
    ReplicaReadReply_MarshalBinary r = Ok b \<and> length b \<le> 101 + CalculateBoxCiphertextLength g"
  have answers: "\<exists>reply c2 v2. handleReplicaMessage E' c' m v = Some (Ok reply, c2, v2) \<and> ?P reply sk1"
    if "request_to (re_mkem E) (rp_keys c') (rp_epoch c') kp1 sk1 ?inner m" "ek_PublicKey kp1 = pk" for kp1 sk1 m
    using shard_reads [of E' c' g kp1 sk1 q m replicaID' shards' v] M E' geo(2) nf st that pl(2) by metis
  obtain reply sk1 w' where ps: "proxy_send E c (rr_BoxID q) ?inner ?h w = Some (Ok (Inr (own, sk1, pk, reply, replicaID)), w')" "?P reply sk1"
    by (rule proxy_send_reaches [OF M(1) E'(1) pl(1) rt sh req answers]) simp_all
  then obtain r b where r: "opens_to (re_mkem E) (re_sizes E) g pk sk1 reply \<lparr>rmi_MessageType = 0, rmi_ReadReply = Some r, rmi_WriteReply = None\<rparr>"
      "(rrr_ErrorCode r, rrr_Payload r) = read_reply_of (register_of (rp_state c') (rp_epoch c') (rr_BoxID q))"
      "ReplicaReadReply_MarshalBinary r = Ok b" "length b \<le> 101 + CalculateBoxCiphertextLength g" by blast
  have own: "key_pair (re_mkem E) own" using rt by (simp add: route_def)
  obtain out where out: "proxyReadRequest E c q (mk_public (re_mkem E) sk) ?h w = Some (Ok out, w')"
      "mr_EnvelopeHash out = ?h" "mr_ReplicaID out = replicaID" "mr_ErrorCode out = rrr_ErrorCode r"
      "opens_to (re_mkem E) (re_sizes E) g (ek_PublicKey own) sk out \<lparr>rmi_MessageType = 0, rmi_ReadReply = Some r, rmi_WriteReply = None\<rparr>"
    by (rule relayed_read [OF M geo(1) own ps(1) r(1,3,4)])
  have "handleReplicaMessage E c msg w = Some (Ok out, c, w')" using intermediate_handles(1) [OF M(1) req pl(1), of w] out(1) by simp
  then show ?thesis using that out(2-5) r(2) by blast
qed

lemma write_through_intermediate:
  assumes M: "mkem_ok (re_mkem E) (re_sizes E)" "box_sizes (re_sizes E)" and E': "re_mkem E' = re_mkem E" "re_sizes E' = re_sizes E"
    and geo: "rp_geo c = Some g" "rp_geo c' = Some g" "geo_fits (Some g)" and nf: "rp_faults c' = no_faults"
    and st: "store_ok (re_sig E') (rp_epoch c') (rp_state c')" "sized g (rp_state c')"
    and rt: "route E c shards idx own pk w" and sh: "reachable_shard E (rp_epoch c) (shards ! idx) pk E' c' v"
    and req: "request_to (re_mkem E) (rp_keys c) (rp_epoch c) kp sk \<lparr>rim_MessageType = 1, rim_ReadMsg = None, rim_WriteMsg = Some wr\<rparr> msg"
    and pl: "placed E c (trw_BoxID wr) replicaID shards False" "placed E' c' (trw_BoxID wr) replicaID' shards' True"
  obtains reply r w' m relayed c2 where "handleReplicaMessage E c msg w = Some (Ok reply, c, w')"
    "mr_EnvelopeHash reply = ReplicaMessage_EnvelopeHash (re_Sum256 E) msg" "mr_ReplicaID reply = replicaID" "mr_ErrorCode reply = rwr_ErrorCode r"
    "opens_to (re_mkem E) (re_sizes E) g (ek_PublicKey own) sk reply \<lparr>rmi_MessageType = 1, rmi_ReadReply = None, rmi_WriteReply = Some r\<rparr>"
    "handleReplicaMessage E' c' m v = Some (Ok relayed, c2, v)"
    "(rwr_ErrorCode r, register_of (rp_state c2) (rp_epoch c') (trw_BoxID wr)) =
       reg_step (storageFull (rp_state c')) (register_of (rp_state c') (rp_epoch c') (trw_BoxID wr)) (request_of (re_sig E') (Some g) wr)"
proof -
  let ?inner = "\<lparr>rim_MessageType = 1, rim_ReadMsg = None, rim_WriteMsg = Some wr\<rparr>"
  let ?h = "ReplicaMessage_EnvelopeHash (re_Sum256 E) msg"
  let ?P = "\<lambda>reply sk. \<exists>r m c2. opens_to (re_mkem E) (re_sizes E) g pk sk reply \<lparr>rmi_MessageType = 1, rmi_ReadReply = None, rmi_WriteReply = Some r\<rparr> \<and>
    handleReplicaMessage E' c' m v = Some (Ok reply, c2, v) \<and>
    box_step (re_sig E') (rp_epoch c') (rp_state c') (trw_BoxID wr) (request_of (re_sig E') (Some g) wr) (rwr_ErrorCode r) (rp_state c2)"
  have answers: "\<exists>reply c2 v2. handleReplicaMessage E' c' m v = Some (Ok reply, c2, v2) \<and> ?P reply sk1"
    if kp1: "request_to (re_mkem E) (rp_keys c') (rp_epoch c') kp1 sk1 ?inner m" "ek_PublicKey kp1 = pk" for kp1 sk1 m
  proof -
    obtain reply r s' where w: "handleReplicaMessage E' c' m v = Some (Ok reply, c'\<lparr>rp_state := s', rp_replicated := rp_replicated c' @
        (if rwr_ErrorCode r = ReplicaSuccess then [the (TrunnelReplicaWriteToWireCommand (Some wr))] else [])\<rparr>, v)"
      "opens_to (re_mkem E) (re_sizes E) g pk sk1 reply \<lparr>rmi_MessageType = 1, rmi_ReadReply = None, rmi_WriteReply = Some r\<rparr>"
      "box_step (re_sig E') (rp_epoch c') (rp_state c') (trw_BoxID wr) (request_of (re_sig E') (Some g) wr) (rwr_ErrorCode r) s'"
      using shard_writes [of E' c' g kp1 sk1 wr m replicaID' shards' v] M E' geo(2,3) nf st kp1 pl(2) by metis
    let ?c2 = "c'\<lparr>rp_state := s', rp_replicated := rp_replicated c' @
        (if rwr_ErrorCode r = ReplicaSuccess then [the (TrunnelReplicaWriteToWireCommand (Some wr))] else [])\<rparr>"
    have "rp_state ?c2 = s'" by simp
    then show ?thesis using w by metis
  qed
  obtain reply sk1 w' where ps: "proxy_send E c (trw_BoxID wr) ?inner ?h w = Some (Ok (Inr (own, sk1, pk, reply, replicaID)), w')" "?P reply sk1"
    by (rule proxy_send_reaches [OF M(1) E'(1) pl(1) rt sh req answers]) simp_all
  then obtain r m c2 where r: "opens_to (re_mkem E) (re_sizes E) g pk sk1 reply \<lparr>rmi_MessageType = 1, rmi_ReadReply = None, rmi_WriteReply = Some r\<rparr>"
      "handleReplicaMessage E' c' m v = Some (Ok reply, c2, v)"
      "(rwr_ErrorCode r, register_of (rp_state c2) (rp_epoch c') (trw_BoxID wr)) =
           reg_step (storageFull (rp_state c')) (register_of (rp_state c') (rp_epoch c') (trw_BoxID wr)) (request_of (re_sig E') (Some g) wr)"
    unfolding box_step_def by blast
  have own: "key_pair (re_mkem E) own" using rt by (simp add: route_def)
  obtain out where out: "proxyWriteRequest E c wr (mk_public (re_mkem E) sk) ?h w = Some (Ok out, w')"
      "mr_EnvelopeHash out = ?h" "mr_ReplicaID out = replicaID" "mr_ErrorCode out = rwr_ErrorCode r"
      "opens_to (re_mkem E) (re_sizes E) g (ek_PublicKey own) sk out \<lparr>rmi_MessageType = 1, rmi_ReadReply = None, rmi_WriteReply = Some r\<rparr>"
    by (rule relayed_write [OF M geo(1) own ps(1) r(1)])
  have "handleReplicaMessage E c msg w = Some (Ok out, c, w')" using intermediate_handles(2) [OF M(1) req pl(1), of w] out(1) by simp
  then show ?thesis using that out(2-5) r(2,3) by blast
qed

text \<open>
  C37. Requests through an intermediate reach a shard: when the replica that gets the message of the courier is not a
  shard of the box, it asks one with a request of its own, opens the answer and seals it again for the client. A read
  gives the client the contents of the box at the shard, a write the result of the register step that the shard made.
  The envelope has the size of every other reply. It is sealed with the key that the intermediate has for the current
  epoch, also when the client had used the key of another epoch.
\<close>

theorem proxied_requests:
  assumes M: "mkem_ok (re_mkem E) (re_sizes E)" "box_sizes (re_sizes E)" and E': "re_mkem E' = re_mkem E" "re_sizes E' = re_sizes E"
    and geo: "rp_geo c = Some g" "rp_geo c' = Some g" "geo_fits (Some g)" and nf: "rp_faults c' = no_faults"
    and st: "store_ok (re_sig E') (rp_epoch c') (rp_state c')" "sized g (rp_state c')"
    and rt: "route E c shards idx own pk w" and sh: "reachable_shard E (rp_epoch c) (shards ! idx) pk E' c' v"
  shows "(request_to (re_mkem E) (rp_keys c) (rp_epoch c) kp sk \<lparr>rim_MessageType = 0, rim_ReadMsg = Some q, rim_WriteMsg = None\<rparr> msg \<and>
      placed E c (rr_BoxID q) replicaID shards False \<and> placed E' c' (rr_BoxID q) replicaID' shards' True \<longrightarrow>
      (\<exists>reply r w'. handleReplicaMessage E c msg w = Some (Ok reply, c, w') \<and>
         mr_EnvelopeHash reply = ReplicaMessage_EnvelopeHash (re_Sum256 E) msg \<and> mr_ReplicaID reply = replicaID \<and> mr_ErrorCode reply = rrr_ErrorCode r \<and>
         opens_to (re_mkem E) (re_sizes E) g (ek_PublicKey own) sk reply \<lparr>rmi_MessageType = 0, rmi_ReadReply = Some r, rmi_WriteReply = None\<rparr> \<and>
         (rrr_ErrorCode r, rrr_Payload r) = read_reply_of (register_of (rp_state c') (rp_epoch c') (rr_BoxID q)))) \<and>
    (request_to (re_mkem E) (rp_keys c) (rp_epoch c) kp sk \<lparr>rim_MessageType = 1, rim_ReadMsg = None, rim_WriteMsg = Some wr\<rparr> msg \<and>
      placed E c (trw_BoxID wr) replicaID shards False \<and> placed E' c' (trw_BoxID wr) replicaID' shards' True \<longrightarrow>
      (\<exists>reply r w' m relayed c2. handleReplicaMessage E c msg w = Some (Ok reply, c, w') \<and>
         mr_EnvelopeHash reply = ReplicaMessage_EnvelopeHash (re_Sum256 E) msg \<and> mr_ReplicaID reply = replicaID \<and> mr_ErrorCode reply = rwr_ErrorCode r \<and>
         opens_to (re_mkem E) (re_sizes E) g (ek_PublicKey own) sk reply \<lparr>rmi_MessageType = 1, rmi_ReadReply = None, rmi_WriteReply = Some r\<rparr> \<and>
         handleReplicaMessage E' c' m v = Some (Ok relayed, c2, v) \<and>
         (rwr_ErrorCode r, register_of (rp_state c2) (rp_epoch c') (trw_BoxID wr)) =
           reg_step (storageFull (rp_state c')) (register_of (rp_state c') (rp_epoch c') (trw_BoxID wr)) (request_of (re_sig E') (Some g) wr)))"
proof (intro conjI impI, goal_cases)
  case 1
  then have "request_to (re_mkem E) (rp_keys c) (rp_epoch c) kp sk \<lparr>rim_MessageType = 0, rim_ReadMsg = Some q, rim_WriteMsg = None\<rparr> msg"
    "placed E c (rr_BoxID q) replicaID shards False" "placed E' c' (rr_BoxID q) replicaID' shards' True" by auto
  then show ?case by (rule read_through_intermediate [OF assms]) blast
next
  case 2
  then have "request_to (re_mkem E) (rp_keys c) (rp_epoch c) kp sk \<lparr>rim_MessageType = 1, rim_ReadMsg = None, rim_WriteMsg = Some wr\<rparr> msg"
    "placed E c (trw_BoxID wr) replicaID shards False" "placed E' c' (trw_BoxID wr) replicaID' shards' True" by auto
  then show ?case by (rule write_through_intermediate [OF assms]) blast
qed

section \<open>A small network\<close>

text \<open>
  Three replicas, of which 1 and 2 are the shards of the box. Keys are bytes, an envelope is opened by the key that
  it names, and a reply names both parties.
\<close>

definition toy_seal :: "(byte, byte, byte) mkem" where
  "toy_seal = \<lparr>mk_Encapsulate = \<lambda>rnd pks m. (rnd, \<lparr>ct_EphemeralPublicKey = rnd, ct_DEKCiphertexts = map (\<lambda>pk. [pk]) pks, ct_Envelope = m\<rparr>),
     mk_Decapsulate = \<lambda>k ct. if ct_DEKCiphertexts ct = [[k]] then Some (ct_Envelope ct) else None,
     mk_EnvelopeReply = \<lambda>k pk m. [k, pk] @ m,
     mk_DecryptEnvelope = \<lambda>k pk b. if take 2 b = [pk, k] then Some (drop 2 b) else None,
     mk_public = \<lambda>k. k, mk_PublicBytes = \<lambda>pk. [pk], mk_UnmarshalPublicKey = \<lambda>b. (case b of [x] \<Rightarrow> Some x | _ \<Rightarrow> None)\<rparr>"

definition toy_seal_sizes :: ext_sizes where
  "toy_seal_sizes = \<lparr>BoxIDSize = 32, SignatureSize = 64, DEKSize = 60, NonceSize = 1, Overhead = 1\<rparr>"

definition toy_storage :: "byte \<Rightarrow> ReplicaDescriptor" where
  "toy_storage i = (toy_replica i)\<lparr>rd_EnvelopeKeys := [5 \<mapsto> [i]]\<rparr>"

definition toy_storage_document :: Document where
  "toy_storage_document = \<lparr>doc_Epoch = 0, StorageReplicas = Some [toy_storage 1, toy_storage 2, toy_storage 3],
     ConfiguredReplicaIdentityKeys = Some [[1], [2], [3]]\<rparr>"

definition toy_server :: "byte \<Rightarrow> state \<Rightarrow> (byte, byte) replica" where
  "toy_server i s = \<lparr>rp_geo = Some toy_box_geometry, rp_identity = Some [i], rp_doc = Some toy_storage_document, rp_epoch = 5,
     rp_faults = no_faults, rp_keys = \<lparr>ks_keys = [4 \<mapsto> \<lparr>ek_PrivateKey = i + 10, ek_PublicKey = i + 10\<rparr>, 5 \<mapsto> \<lparr>ek_PrivateKey = i, ek_PublicKey = i\<rparr>],
       ks_files = Map.empty\<rparr>, rp_state = s, rp_replicated = []\<rparr>"

definition toy_env :: "(ReplicaMessage \<Rightarrow> ReplicaMessageReply option) \<Rightarrow> (byte, byte, byte, bytes, unit) replica_env" where
  "toy_env deliver = \<lparr>re_mkem = toy_seal, re_sizes = toy_seal_sizes, re_sig = toy_sig, re_Sum256 = toy_sum,
     re_send = \<lambda>w m h. (deliver m, w), re_entropy = \<lambda>w. (9, w), re_words = \<lambda>w k. Some 0, re_used = \<lambda>w k. w\<rparr>"

lemma toy_seal_ok: "mkem_ok toy_seal toy_seal_sizes" "box_sizes toy_seal_sizes"
  by (auto simp: mkem_ok_def toy_seal_def toy_seal_sizes_def box_sizes_def)

lemma toy_storage_shards: "GetShards toy_sum (zeros 32) toy_storage_document = Ok [toy_storage 1, toy_storage 2]"
proof -
  have "toy_sum ([i] @ zeros 32) = i # zeros 31" for i by (simp add: toy_sum_def)
  then have "Shard2 toy_sum (zeros 32) [[1], [2], [3]] = [[1], [2]]"
    by (subst Shard2_sorted) (simp_all add: length_toy_sum)
  then show ?thesis
    by (simp add: GetShards_def GetConfiguredReplicaKeys_def K_def replicas_def toy_storage_document_def
        GetReplicaNodeByKeyHash_def toy_storage_def toy_replica_def toy_sum_short)
qed

lemma toy_placed:
  "placed (toy_env d) (toy_server 1 s) (zeros 32) 1 [toy_storage 1, toy_storage 2] True"
  "placed (toy_env d) (toy_server 3 s) (zeros 32) 3 [toy_storage 1, toy_storage 2] False"
proof -
  have k: "key_bytes (toy_storage i) = [i]" "rd_ReplicaID (toy_storage i) = i" for i
    by (simp_all add: key_bytes_def toy_storage_def toy_replica_def)
  have "GetReplicaIDByIdentityKey (Some [1]) toy_storage_document = Ok 1" "GetReplicaIDByIdentityKey (Some [3]) toy_storage_document = Ok 3"
    by (simp_all add: GetReplicaIDByIdentityKey_def toy_storage_document_def replicas_def k)
  then show "placed (toy_env d) (toy_server 1 s) (zeros 32) 1 [toy_storage 1, toy_storage 2] True"
      "placed (toy_env d) (toy_server 3 s) (zeros 32) 3 [toy_storage 1, toy_storage 2] False"
    by (simp_all add: placed_def toy_env_def toy_server_def toy_storage_shards isShard_def k)
qed

lemma toy_window: "set (window_epochs 5) = {4, 5, 6}"
  by (auto simp: window_epochs_def ValidEnvelopeEpochWindow_def)

lemma toy_request:
  assumes "ReplicaInnerMessage_MarshalBinary inner = Ok b" "ReplicaInnerMessage_complete inner"
  shows "request_to toy_seal (rp_keys (toy_server i s)) 5 \<lparr>ek_PrivateKey = i, ek_PublicKey = i\<rparr> 7 inner
    \<lparr>rm_SenderEPubKey = [7], rm_DEK = [i], rm_Ciphertext = b\<rparr>"
  unfolding request_to_def
  by (intro conjI exI [of _ 5] exI [of _ 7] exI [of _ "[i]"] exI [of _ "\<lparr>ct_EphemeralPublicKey = 7, ct_DEKCiphertexts = [[i]], ct_Envelope = b\<rparr>"]
      exI [of _ 0] exI [of _ b] exI [of _ "0 :: nat"])
    (use assms in \<open>auto simp: key_pair_def toy_seal_def toy_window toy_server_def GetKeypair_def\<close>)

lemma toy_read_inner:
  obtains b where "ReplicaInnerMessage_MarshalBinary \<lparr>rim_MessageType = 0, rim_ReadMsg = Some \<lparr>rr_BoxID = zeros 32\<rparr>, rim_WriteMsg = None\<rparr> = Ok b"
    "ReplicaInnerMessage_complete \<lparr>rim_MessageType = 0, rim_ReadMsg = Some \<lparr>rr_BoxID = zeros 32\<rparr>, rim_WriteMsg = None\<rparr>"
  by (simp add: ReplicaInnerMessage_MarshalBinary_cases ReplicaInnerMessage_complete_def ReplicaRead_defs slice_def)

lemma toy_server_state:
  obtains s where "store_ok toy_sig 5 s" "register_of s 5 (zeros 32) = Holds (replicate 21 7) (zeros 64)" "sized toy_box_geometry s"
proof -
  obtain reply :: ReplicaWriteReply and s where "store_ok toy_sig 5 s" "register_of s 5 (zeros 32) = Holds (replicate 21 7) (zeros 64)"
      "box_step toy_sig 5 empty_state (zeros 32) (request_of toy_sig (Some toy_box_geometry) toy_write) (rwr_ErrorCode reply) s"
    by (rule toy_stored)
  then show ?thesis using that sized_write [OF store_ok_empty sized_empty] by blast
qed

theorem replica_serves_requests_witness:
  "\<exists>s msg reply r. handleReplicaMessage (toy_env (\<lambda>_. None)) (toy_server 1 s) msg () = Some (Ok reply, toy_server 1 s, ()) \<and>
     opens_to toy_seal toy_seal_sizes toy_box_geometry 1 7 reply \<lparr>rmi_MessageType = 0, rmi_ReadReply = Some r, rmi_WriteReply = None\<rparr> \<and>
     rrr_ErrorCode r = ReplicaSuccess \<and> rrr_Payload r = replicate 21 7"
proof -
  obtain s where s: "store_ok toy_sig 5 s" "register_of s 5 (zeros 32) = Holds (replicate 21 7) (zeros 64)" "sized toy_box_geometry s"
    by (rule toy_server_state)
  let ?inner = "\<lparr>rim_MessageType = 0, rim_ReadMsg = Some \<lparr>rr_BoxID = zeros 32\<rparr>, rim_WriteMsg = None\<rparr>"
  obtain b where b: "ReplicaInnerMessage_MarshalBinary ?inner = Ok b" "ReplicaInnerMessage_complete ?inner" by (rule toy_read_inner)
  let ?E = "toy_env (\<lambda>_. None)" and ?c = "toy_server 1 s"
  let ?msg = "\<lparr>rm_SenderEPubKey = [7], rm_DEK = [1], rm_Ciphertext = b\<rparr>"
  have f: "re_mkem ?E = toy_seal" "re_sizes ?E = toy_seal_sizes" "re_sig ?E = toy_sig" "rp_geo ?c = Some toy_box_geometry"
      "rp_faults ?c = no_faults" "rp_epoch ?c = 5" "rp_state ?c = s" by (simp_all add: toy_env_def toy_server_def)
  have req: "request_to toy_seal (rp_keys ?c) 5 \<lparr>ek_PrivateKey = 1, ek_PublicKey = 1\<rparr> 7 ?inner ?msg" by (rule toy_request [OF b])
  have "placed ?E ?c (rr_BoxID \<lparr>rr_BoxID = zeros 32\<rparr>) 1 [toy_storage 1, toy_storage 2] True" using toy_placed(1) by simp
  with replica_serves_requests [of ?E ?c toy_box_geometry "\<lparr>ek_PrivateKey = 1, ek_PublicKey = 1\<rparr>" 7 "\<lparr>rr_BoxID = zeros 32\<rparr>" ?msg 1
      "[toy_storage 1, toy_storage 2]", unfolded f, OF toy_seal_ok refl toy_typed(3) refl s(1,3), THEN conjunct1] req s(2)
  show ?thesis by auto
qed

theorem proxied_requests_witness:
  "\<exists>s msg reply r deliver. handleReplicaMessage (toy_env deliver) (toy_server 3 empty_state) msg () = Some (Ok reply, toy_server 3 empty_state, ()) \<and>
     opens_to toy_seal toy_seal_sizes toy_box_geometry 3 7 reply \<lparr>rmi_MessageType = 0, rmi_ReadReply = Some r, rmi_WriteReply = None\<rparr> \<and>
     register_of s 5 (zeros 32) = Holds (replicate 21 7) (zeros 64) \<and> rrr_ErrorCode r = ReplicaSuccess \<and> rrr_Payload r = replicate 21 7"
proof -
  obtain s where s: "store_ok toy_sig 5 s" "register_of s 5 (zeros 32) = Holds (replicate 21 7) (zeros 64)" "sized toy_box_geometry s"
    by (rule toy_server_state)
  let ?inner = "\<lparr>rim_MessageType = 0, rim_ReadMsg = Some \<lparr>rr_BoxID = zeros 32\<rparr>, rim_WriteMsg = None\<rparr>"
  obtain b where b: "ReplicaInnerMessage_MarshalBinary ?inner = Ok b" "ReplicaInnerMessage_complete ?inner" by (rule toy_read_inner)
  let ?E' = "toy_env (\<lambda>_. None)" and ?c' = "toy_server 1 s" and ?c = "toy_server 3 empty_state"
  let ?d = "\<lambda>m. case handleReplicaMessage ?E' ?c' m () of Some (Ok reply, _) \<Rightarrow> Some reply | _ \<Rightarrow> None"
  let ?E = "toy_env ?d" and ?msg = "\<lparr>rm_SenderEPubKey = [7], rm_DEK = [3], rm_Ciphertext = b\<rparr>"
  let ?own = "\<lparr>ek_PrivateKey = 3, ek_PublicKey = 3\<rparr> :: (byte, byte) EnvelopeKey"
  have f: "re_mkem ?E = toy_seal" "re_sizes ?E = toy_seal_sizes" "rp_geo ?c = Some toy_box_geometry" "rp_epoch ?c = 5"
      "re_mkem ?E' = toy_seal" "re_sizes ?E' = toy_seal_sizes" "re_sig ?E' = toy_sig" "rp_geo ?c' = Some toy_box_geometry"
      "rp_faults ?c' = no_faults" "rp_epoch ?c' = 5" "rp_state ?c' = s" by (simp_all add: toy_env_def toy_server_def)
  have req: "request_to toy_seal (rp_keys ?c) 5 ?own 7 ?inner ?msg" by (rule toy_request [OF b])
  have pl: "placed ?E ?c (rr_BoxID \<lparr>rr_BoxID = zeros 32\<rparr>) 3 [toy_storage 1, toy_storage 2] False"
      "placed ?E' ?c' (rr_BoxID \<lparr>rr_BoxID = zeros 32\<rparr>) 1 [toy_storage 1, toy_storage 2] True" using toy_placed by simp_all
  have "CryptoRandIndex (\<lambda>k. Some 0) 2 0 = Some (Ok (0, 1))"
    by (simp add: CryptoRandIndex_def sample_index.simps [of _ 2] accepts_def reject_bound_def)
  then have rt: "route ?E ?c [toy_storage 1, toy_storage 2] 0 ?own 1 ()"
    by (auto simp: route_def key_pair_def toy_env_def toy_server_def GetKeypair_def toy_seal_def toy_storage_def)
  have sh: "reachable_shard ?E 5 ([toy_storage 1, toy_storage 2] ! 0) 1 ?E' ?c' ()"
    by (auto simp: reachable_shard_def key_pair_def toy_env_def toy_server_def GetKeypair_def toy_seal_def toy_window)
  from proxied_requests [of ?E ?E' ?c toy_box_geometry ?c' "[toy_storage 1, toy_storage 2]" 0 ?own 1 "()" "()" ?own 7 "\<lparr>rr_BoxID = zeros 32\<rparr>" ?msg 3 1
      "[toy_storage 1, toy_storage 2]", unfolded f, OF toy_seal_ok refl refl refl refl toy_typed(3) refl s(1,3) rt sh, THEN conjunct1] req pl s(2)
  show ?thesis by auto
qed

end
