(* ===== verification/Replica_Connector.thy ===== *)
theory Replica_Connector
  imports Replica_Handlers
begin

text \<open>
  Replication between storage replicas: the retry queue, \<open>doReplication\<close> and the table of connections of
  \<open>src/replica/connector.go\<close>, the classification of replies in \<open>src/replica/replication_reply.go\<close>, and the channel of a
  connection, its clean-up and the treatment of responses (\<open>dispatchCommand\<close>, \<open>worker\<close>, \<open>sendAndRecv\<close>) of
  \<open>src/replica/outgoing_conn.go\<close>. \<open>connector_step\<close> interleaves these operations as the locks of the code allow: a
  connection is looked up and given a command in one step, and sending a command and reading its response is one
  step. An operation reads the clock once; the period of \<open>retryTTL\<close> is an argument. Not modelled are the shutdown of
  the replica, the bound of a channel (a full one only delays the sender) and a nil command.
\<close>

section \<open>The retry queue\<close>

datatype replica_command = RWrite wire_ReplicaWrite | RMessage ReplicaMessage | RDecoy

record retryCommand =
  rc_cmd :: replica_command
  rc_idHash :: bytes
  rc_ident :: bytes
  rc_hasIdent :: bool
  rc_attempts :: int
  rc_firstSeen :: int
  rc_lastTry :: int

text \<open>
  A connection serves the commands of its channel until its worker returns; then the deferred clean-up drains the
  channel, finds it empty, and takes the connection out of the table.
\<close>

datatype conn_phase = Serving | Draining | Drained

record outgoingConn =
  oc_phase :: conn_phase
  oc_ch :: "replica_command list"

record Connector =
  cn_conns :: "bytes \<rightharpoonup> outgoingConn"
  cn_retryQueue :: "retryCommand list"

definition dispatchCommand :: "replica_command \<Rightarrow> outgoingConn \<Rightarrow> outgoingConn" where
  "dispatchCommand cmd c = c\<lparr>oc_ch := oc_ch c @ [cmd]\<rparr>"

definition maxRetryQueuePerPeer :: nat where "maxRetryQueuePerPeer = 2000"

definition retryTTL :: "int \<Rightarrow> int" where "retryTTL Period = 3 * Period"

definition cmdIdentity :: "(bytes \<Rightarrow> bytes) \<Rightarrow> replica_command \<Rightarrow> bytes \<times> bool" where
  "cmdIdentity Sum256 cmd =
     (case cmd of
        RWrite c \<Rightarrow> (ww_BoxID c, True)
      | RMessage c \<Rightarrow> (ReplicaMessage_EnvelopeHash Sum256 c, True)
      | RDecoy \<Rightarrow> (zeros 32, False))"

text \<open>The loop moves the entries that stay to the front, in place; \<open>n\<close> entries are still to be looked at.\<close>

fun prune_loop :: "int \<Rightarrow> int \<Rightarrow> retryCommand list \<Rightarrow> nat \<Rightarrow> nat \<Rightarrow> nat \<Rightarrow> retryCommand list \<times> nat" where
  "prune_loop ttl now q i j 0 = (q, j)"
| "prune_loop ttl now q i j (Suc n) =
     (let rc = q ! i in
      if now - rc_firstSeen rc > ttl then prune_loop ttl now q (Suc i) j n
      else prune_loop ttl now (if i \<noteq> j then q[j := rc] else q) (Suc i) (Suc j) n)"

definition pruneRetryQueueLocked :: "int \<Rightarrow> int \<Rightarrow> retryCommand list \<Rightarrow> retryCommand list" where
  "pruneRetryQueueLocked ttl now q =
     (if length q = 0 then q else let (q, j) = prune_loop ttl now q 0 0 (length q) in take j q)"

text \<open>The scan for an entry with the same identity: its index, or else the number of entries for the peer.\<close>

fun scan_queue :: "bytes \<Rightarrow> bytes \<Rightarrow> bool \<Rightarrow> nat \<Rightarrow> nat \<Rightarrow> retryCommand list \<Rightarrow> nat + nat" where
  "scan_queue idHash ident hasIdent peerCount i [] = Inr peerCount"
| "scan_queue idHash ident hasIdent peerCount i (rc # q) =
     (if rc_idHash rc \<noteq> idHash then scan_queue idHash ident hasIdent peerCount (Suc i) q
      else if hasIdent \<and> rc_hasIdent rc \<and> rc_ident rc = ident then Inl i
      else scan_queue idHash ident hasIdent (Suc peerCount) (Suc i) q)"

fun evict_oldest :: "bytes \<Rightarrow> retryCommand list \<Rightarrow> retryCommand list" where
  "evict_oldest idHash [] = []"
| "evict_oldest idHash (rc # q) = (if rc_idHash rc = idHash then q else rc # evict_oldest idHash q)"

definition QueueForRetry ::
  "(bytes \<Rightarrow> bytes) \<Rightarrow> int \<Rightarrow> int \<Rightarrow> retryCommand list \<Rightarrow> replica_command \<Rightarrow> bytes \<Rightarrow> retryCommand list" where
  "QueueForRetry Sum256 ttl now q cmd idHash =
     (let q = pruneRetryQueueLocked ttl now q; (ident, hasIdent) = cmdIdentity Sum256 cmd in
      case scan_queue idHash ident hasIdent 0 0 q of
        Inl i \<Rightarrow> q[i := (q ! i)\<lparr>rc_cmd := cmd, rc_lastTry := now, rc_attempts := rc_attempts (q ! i) + 1\<rparr>]
      | Inr peerCount \<Rightarrow>
          let q = (if peerCount \<ge> maxRetryQueuePerPeer then evict_oldest idHash q else q)
          in q @ [\<lparr>rc_cmd = cmd, rc_idHash = idHash, rc_ident = ident, rc_hasIdent = hasIdent, rc_attempts = 1,
                   rc_firstSeen = now, rc_lastTry = now\<rparr>])"

text \<open>The loop from the last entry to the first; \<open>n\<close> entries are still to be looked at.\<close>

fun process_loop :: "nat \<Rightarrow> Connector \<Rightarrow> Connector" where
  "process_loop 0 co = co"
| "process_loop (Suc i) co =
     (let retryCmd = cn_retryQueue co ! i in
      case cn_conns co (rc_idHash retryCmd) of
        Some c \<Rightarrow>
          process_loop i (co\<lparr>cn_conns := (cn_conns co)(rc_idHash retryCmd \<mapsto> dispatchCommand (rc_cmd retryCmd) c),
            cn_retryQueue := take i (cn_retryQueue co) @ drop (Suc i) (cn_retryQueue co)\<rparr>)
      | None \<Rightarrow> process_loop i co)"

definition processRetryQueue :: "int \<Rightarrow> int \<Rightarrow> Connector \<Rightarrow> Connector" where
  "processRetryQueue ttl now co =
     (let co = co\<lparr>cn_retryQueue := pruneRetryQueueLocked ttl now (cn_retryQueue co)\<rparr> in
      if length (cn_retryQueue co) = 0 then co else process_loop (length (cn_retryQueue co)) co)"

definition DispatchCommand :: "(bytes \<Rightarrow> bytes) \<Rightarrow> int \<Rightarrow> int \<Rightarrow> Connector \<Rightarrow> replica_command \<Rightarrow> bytes \<Rightarrow> Connector" where
  "DispatchCommand Sum256 ttl now co cmd idHash =
     (case cn_conns co idHash of
        Some c \<Rightarrow> co\<lparr>cn_conns := (cn_conns co)(idHash \<mapsto> dispatchCommand cmd c)\<rparr>
      | None \<Rightarrow> co\<lparr>cn_retryQueue := QueueForRetry Sum256 ttl now (cn_retryQueue co) cmd idHash\<rparr>)"

text \<open>\<open>peers\<close> are the replicas of the PKI document, by the hash of their identity key.\<close>

definition newOutgoingConn :: outgoingConn where
  "newOutgoingConn = \<lparr>oc_phase = Serving, oc_ch = []\<rparr>"

definition spawnNewConns :: "bytes list \<Rightarrow> Connector \<Rightarrow> Connector" where
  "spawnNewConns peers co =
     co\<lparr>cn_conns := (\<lambda>h. case cn_conns co h of Some c \<Rightarrow> Some c | None \<Rightarrow> if h \<in> set peers then Some newOutgoingConn else None)\<rparr>"

definition OnClosedConn :: "bytes \<Rightarrow> Connector \<Rightarrow> Connector" where
  "OnClosedConn idHash co = co\<lparr>cn_conns := (cn_conns co)(idHash := None)\<rparr>"

text \<open>One step of the deferred clean-up of a connection's worker.\<close>

definition worker_cleanup :: "(bytes \<Rightarrow> bytes) \<Rightarrow> int \<Rightarrow> int \<Rightarrow> bytes \<Rightarrow> outgoingConn \<Rightarrow> Connector \<Rightarrow> Connector" where
  "worker_cleanup Sum256 ttl now idHash c co =
     (case oc_phase c of
        Serving \<Rightarrow> co\<lparr>cn_conns := (cn_conns co)(idHash \<mapsto> c\<lparr>oc_phase := Draining\<rparr>)\<rparr>
      | Draining \<Rightarrow>
          (case oc_ch c of
             cmd # ch \<Rightarrow> co\<lparr>cn_conns := (cn_conns co)(idHash \<mapsto> c\<lparr>oc_ch := ch\<rparr>),
               cn_retryQueue := QueueForRetry Sum256 ttl now (cn_retryQueue co) cmd idHash\<rparr>
           | [] \<Rightarrow> co\<lparr>cn_conns := (cn_conns co)(idHash \<mapsto> c\<lparr>oc_phase := Drained\<rparr>)\<rparr>)
      | Drained \<Rightarrow> OnClosedConn idHash co)"

section \<open>Replication\<close>

fun replicate_to :: "(bytes \<Rightarrow> bytes) \<Rightarrow> int \<Rightarrow> int \<Rightarrow> bytes \<Rightarrow> wire_ReplicaWrite \<Rightarrow> ReplicaDescriptor list \<Rightarrow> Connector \<Rightarrow> Connector" where
  "replicate_to Sum256 ttl now myIdHash cmd [] co = co"
| "replicate_to Sum256 ttl now myIdHash cmd (desc # shards) co =
     (let idHash = Sum256 (key_bytes desc) in
      if idHash = myIdHash then replicate_to Sum256 ttl now myIdHash cmd shards co
      else replicate_to Sum256 ttl now myIdHash cmd shards (DispatchCommand Sum256 ttl now co (RWrite cmd) idHash))"

text \<open>A panic of \<open>GetShards\<close> is not handled here, it ends the program.\<close>

definition doReplication ::
  "(bytes \<Rightarrow> bytes) \<Rightarrow> int \<Rightarrow> int \<Rightarrow> Document option \<Rightarrow> bytes option \<Rightarrow> Connector \<Rightarrow> wire_ReplicaWrite \<Rightarrow> (unit, Connector) outcome" where
  "doReplication Sum256 ttl now doc identity co cmd =
     (case doc of
        None \<Rightarrow> Ok co
      | Some doc \<Rightarrow>
          (case identity of
             None \<Rightarrow> Ok co
           | Some myIdBytes \<Rightarrow>
               (case GetShards Sum256 (ww_BoxID cmd) doc of
                  Ok allShards \<Rightarrow>
                    if length allShards = 0 then Ok co
                    else Ok (replicate_to Sum256 ttl now (Sum256 myIdBytes) cmd allShards co)
                | Err _ \<Rightarrow> Ok co
                | Panic \<Rightarrow> Panic)))"

datatype replicationReplyAction = replicationReplyOK | replicationReplyRetry | replicationReplyDrop

definition classifyReplicationReply :: "byte \<Rightarrow> replicationReplyAction" where
  "classifyReplicationReply code =
     (if code \<in> {ReplicaSuccess, ReplicaErrorBoxAlreadyExists} then replicationReplyOK
      else if code \<in> {ReplicaErrorDatabaseFailure, ReplicaErrorInternalError} then replicationReplyRetry
      else replicationReplyDrop)"

text \<open>What comes back for a command: a failure of the session, or a response of the peer.\<close>

datatype peer_response =
  SessionFailed | GotNoOp | GotDisconnect | GotReplicaDecoy | GotReplicaWriteReply byte | GotReplicaMessageReply ReplicaMessageReply
| GotUnexpected

text \<open>Whether the connection goes on, the retry queue, and the reply for the proxy manager.\<close>

definition sendAndRecv ::
  "(bytes \<Rightarrow> bytes) \<Rightarrow> int \<Rightarrow> int \<Rightarrow> retryCommand list \<Rightarrow> replica_command \<Rightarrow> bytes \<Rightarrow> peer_response
     \<Rightarrow> bool \<times> retryCommand list \<times> ReplicaMessageReply option" where
  "sendAndRecv Sum256 ttl now q cmd idHash response =
     (case response of
        SessionFailed \<Rightarrow> (False, if cmd \<noteq> RDecoy then QueueForRetry Sum256 ttl now q cmd idHash else q, None)
      | GotNoOp \<Rightarrow> (True, q, None)
      | GotDisconnect \<Rightarrow> (False, q, None)
      | GotReplicaDecoy \<Rightarrow> (True, q, None)
      | GotReplicaWriteReply code \<Rightarrow>
          (True, case classifyReplicationReply code of
               replicationReplyRetry \<Rightarrow>
                 (case cmd of RWrite _ \<Rightarrow> QueueForRetry Sum256 ttl now q cmd idHash | _ \<Rightarrow> q)
             | _ \<Rightarrow> q, None)
      | GotReplicaMessageReply reply \<Rightarrow> (True, q, Some reply)
      | GotUnexpected \<Rightarrow> (False, q, None))"

text \<open>
  A step at time \<open>now\<close>. \<open>Exchanged\<close> is a command taken from a channel, or a decoy of the idle timer, with its response;
  \<open>Closed\<close> is the end of a connection with what its channel holds.
\<close>

datatype connector_label = Silent | Exchanged bytes replica_command peer_response | Closed bytes "replica_command list"

inductive connector_step ::
  "(bytes \<Rightarrow> bytes) \<Rightarrow> int \<Rightarrow> int \<Rightarrow> Connector \<Rightarrow> connector_label \<Rightarrow> Connector \<Rightarrow> bool" for Sum256 ttl now where
  dispatch: "connector_step Sum256 ttl now co Silent (DispatchCommand Sum256 ttl now co cmd h)"
| spawn: "connector_step Sum256 ttl now co Silent (spawnNewConns peers co)"
| retry: "connector_step Sum256 ttl now co Silent (processRetryQueue ttl now co)"
| exchange: "cn_conns co h = Some c \<Longrightarrow> oc_phase c = Serving \<Longrightarrow> oc_ch c = cmd # ch \<Longrightarrow>
     sendAndRecv Sum256 ttl now (cn_retryQueue co) cmd h response = (True, q, reply) \<Longrightarrow>
     connector_step Sum256 ttl now co (Exchanged h cmd response)
       (co\<lparr>cn_conns := (cn_conns co)(h \<mapsto> c\<lparr>oc_ch := ch\<rparr>), cn_retryQueue := q\<rparr>)"
| exchange_end: "cn_conns co h = Some c \<Longrightarrow> oc_phase c = Serving \<Longrightarrow> oc_ch c = cmd # ch \<Longrightarrow>
     sendAndRecv Sum256 ttl now (cn_retryQueue co) cmd h response = (False, q, reply) \<Longrightarrow>
     connector_step Sum256 ttl now co (Exchanged h cmd response)
       (co\<lparr>cn_conns := (cn_conns co)(h \<mapsto> c\<lparr>oc_ch := ch, oc_phase := Draining\<rparr>), cn_retryQueue := q\<rparr>)"
| decoy: "cn_conns co h = Some c \<Longrightarrow> oc_phase c = Serving \<Longrightarrow>
     sendAndRecv Sum256 ttl now (cn_retryQueue co) RDecoy h response = (True, q, reply) \<Longrightarrow>
     connector_step Sum256 ttl now co (Exchanged h RDecoy response) (co\<lparr>cn_retryQueue := q\<rparr>)"
| cleanup: "cn_conns co h = Some c \<Longrightarrow> oc_phase c \<noteq> Drained \<Longrightarrow>
     connector_step Sum256 ttl now co Silent (worker_cleanup Sum256 ttl now h c co)"
| closed: "cn_conns co h = Some c \<Longrightarrow> oc_phase c = Drained \<Longrightarrow>
     connector_step Sum256 ttl now co (Closed h (oc_ch c)) (worker_cleanup Sum256 ttl now h c co)"

inductive connector_run :: "(bytes \<Rightarrow> bytes) \<Rightarrow> int \<Rightarrow> Connector \<Rightarrow> bool" for Sum256 ttl where
  start: "connector_run Sum256 ttl \<lparr>cn_conns = Map.empty, cn_retryQueue = []\<rparr>"
| step: "connector_run Sum256 ttl co \<Longrightarrow> connector_step Sum256 ttl now co l co' \<Longrightarrow> connector_run Sum256 ttl co'"

section \<open>The loops\<close>

abbreviation young :: "int \<Rightarrow> int \<Rightarrow> retryCommand \<Rightarrow> bool" where
  "young ttl now rc \<equiv> now - rc_firstSeen rc \<le> ttl"

lemma prune_loop_filter:
  "i + n = length q \<Longrightarrow> j \<le> i \<Longrightarrow>
     (let (q', j') = prune_loop ttl now q i j n in take j' q') = take j q @ filter (young ttl now) (drop i q)"
proof (induction n arbitrary: q i j)
  case (Suc n)
  then have i: "i < length q" by simp
  then have d: "drop i q = q ! i # drop (Suc i) q" by (simp add: Cons_nth_drop_Suc)
  show ?case
  proof (cases "young ttl now (q ! i)")
    case True
    let ?q = "if i \<noteq> j then q[j := q ! i] else q"
    have l: "length ?q = length q" "drop (Suc i) ?q = drop (Suc i) q" using Suc.prems by auto
    have t: "take (Suc j) ?q = take j q @ [q ! i]" using Suc.prems i by (auto simp: take_Suc_conv_app_nth)
    have "(let (q', j') = prune_loop ttl now ?q (Suc i) (Suc j) n in take j' q') =
        take (Suc j) ?q @ filter (young ttl now) (drop (Suc i) ?q)"
      using Suc.prems l(1) by (intro Suc.IH) simp_all
    then show ?thesis unfolding l(2) t using True d by (simp add: Let_def)
  next
    case False
    then show ?thesis using Suc.IH [of "Suc i" q j] Suc.prems d by simp
  qed
qed simp

lemma prune_filter: "pruneRetryQueueLocked ttl now q = filter (young ttl now) q"
  using prune_loop_filter [of 0 "length q" q 0 ttl now] by (auto simp: pruneRetryQueueLocked_def)

lemma scan_queue_cases:
  "(\<exists>k. scan_queue h ident hasIdent n i q = Inl (i + k) \<and> k < length q \<and> rc_idHash (q ! k) = h \<and> hasIdent \<and>
       rc_hasIdent (q ! k) \<and> rc_ident (q ! k) = ident) \<or>
   (scan_queue h ident hasIdent n i q = Inr (n + length (filter (\<lambda>rc. rc_idHash rc = h) q)) \<and>
      (\<forall>rc\<in>set q. \<not> (rc_idHash rc = h \<and> hasIdent \<and> rc_hasIdent rc \<and> rc_ident rc = ident)))"
proof (induction q arbitrary: n i)
  case (Cons rc q)
  have shift: "\<exists>k. scan_queue h ident hasIdent m i (rc # q) = Inl (i + k) \<and> k < length (rc # q) \<and> rc_idHash ((rc # q) ! k) = h \<and> hasIdent \<and>
       rc_hasIdent ((rc # q) ! k) \<and> rc_ident ((rc # q) ! k) = ident"
    if "scan_queue h ident hasIdent m i (rc # q) = Inl (Suc i + k)" "k < length q" "rc_idHash (q ! k) = h" "hasIdent"
       "rc_hasIdent (q ! k)" "rc_ident (q ! k) = ident" for k m
    using that by (intro exI [of _ "Suc k"]) simp
  show ?case
  proof (cases "rc_idHash rc = h \<and> hasIdent \<and> rc_hasIdent rc \<and> rc_ident rc = ident")
    case True
    then show ?thesis by (intro disjI1 exI [of _ 0]) simp
  next
    case False
    then show ?thesis using Cons.IH [of n "Suc i"] Cons.IH [of "Suc n" "Suc i"] shift [of n] by (cases "rc_idHash rc = h") auto
  qed
qed simp

text \<open>The loop over the retry queue, in terms of the lists that go to each channel.\<close>

definition handed :: "(bytes \<rightharpoonup> outgoingConn) \<Rightarrow> retryCommand list \<Rightarrow> bytes \<rightharpoonup> outgoingConn" where
  "handed conns q h = map_option
     (\<lambda>c. c\<lparr>oc_ch := oc_ch c @ map rc_cmd (rev (filter (\<lambda>rc. rc_idHash rc = h) q))\<rparr>) (conns h)"

lemma process_loop_filter:
  "process_loop (length p) \<lparr>cn_conns = conns, cn_retryQueue = p @ r\<rparr> =
     \<lparr>cn_conns = handed conns p, cn_retryQueue = filter (\<lambda>rc. conns (rc_idHash rc) = None) p @ r\<rparr>"
proof (induction p arbitrary: r conns rule: rev_induct)
  case Nil
  then show ?case by (auto simp: handed_def option.map_ident)
next
  case (snoc rc p)
  show ?case
  proof (cases "conns (rc_idHash rc)")
    case None
    then have "handed conns (p @ [rc]) = handed conns p" by (auto simp: handed_def fun_eq_iff)
    then show ?thesis using snoc.IH [of conns "rc # r"] None by (simp add: nth_append)
  next
    case (Some c)
    let ?conns = "conns(rc_idHash rc \<mapsto> dispatchCommand (rc_cmd rc) c)"
    have h: "handed ?conns p = handed conns (p @ [rc])"
      using Some by (auto simp: handed_def fun_eq_iff dispatchCommand_def)
    have f: "filter (\<lambda>rc. ?conns (rc_idHash rc) = None) p = filter (\<lambda>rc. conns (rc_idHash rc) = None) p"
      using Some by (intro filter_cong) auto
    have "process_loop (length (p @ [rc])) \<lparr>cn_conns = conns, cn_retryQueue = (p @ [rc]) @ r\<rparr> =
        process_loop (length p) \<lparr>cn_conns = ?conns, cn_retryQueue = p @ r\<rparr>"
      using Some by (simp add: nth_append)
    then show ?thesis unfolding snoc.IH h f using Some by simp
  qed
qed

lemma processRetryQueue_spec:
  "processRetryQueue ttl now co = co\<lparr>
     cn_conns := handed (cn_conns co) (filter (young ttl now) (cn_retryQueue co)),
     cn_retryQueue := filter (\<lambda>rc. young ttl now rc \<and> cn_conns co (rc_idHash rc) = None) (cn_retryQueue co)\<rparr>"
proof -
  obtain conns q where co: "co = \<lparr>cn_conns = conns, cn_retryQueue = q\<rparr>" by (cases co) simp
  let ?q = "filter (young ttl now) q"
  have "processRetryQueue ttl now co = process_loop (length ?q) \<lparr>cn_conns = conns, cn_retryQueue = ?q\<rparr>"
    by (simp add: processRetryQueue_def prune_filter co Let_def)
  then show ?thesis using process_loop_filter [of ?q conns "[]"] by (simp add: co conj_commute)
qed

section \<open>The queue invariant\<close>

abbreviation of_peer :: "bytes \<Rightarrow> retryCommand \<Rightarrow> bool" where
  "of_peer h rc \<equiv> rc_idHash rc = h"

definition queue_ok :: "(bytes \<Rightarrow> bytes) \<Rightarrow> retryCommand list \<Rightarrow> bool" where
  "queue_ok Sum256 q \<longleftrightarrow>
     (\<forall>h. length (filter (of_peer h) q) \<le> maxRetryQueuePerPeer) \<and>
     (\<forall>rc\<in>set q. cmdIdentity Sum256 (rc_cmd rc) = (rc_ident rc, rc_hasIdent rc)) \<and>
     distinct (map (\<lambda>rc. (rc_idHash rc, rc_ident rc)) (filter rc_hasIdent q))"

lemma queue_ok_filter:
  assumes "queue_ok Sum256 q"
  shows "queue_ok Sum256 (filter P q)"
proof -
  have "length (filter (of_peer h) (filter P q)) \<le> maxRetryQueuePerPeer" for h
  proof -
    have "length (filter P (filter (of_peer h) q)) \<le> length (filter (of_peer h) q)" by (rule length_filter_le)
    also have "\<dots> \<le> maxRetryQueuePerPeer" using assms by (simp add: queue_ok_def)
    finally show ?thesis by (simp add: conj_commute)
  qed
  moreover have "distinct (map (\<lambda>rc. (rc_idHash rc, rc_ident rc)) (filter P (filter rc_hasIdent q)))"
    using assms distinct_map_filter [of "\<lambda>rc. (rc_idHash rc, rc_ident rc)" "filter rc_hasIdent q" P]
    unfolding queue_ok_def by blast
  ultimately show ?thesis using assms by (simp add: queue_ok_def conj_commute)
qed

text \<open>An update that keeps the fields of the key keeps the invariant.\<close>

abbreviation retry_key :: "retryCommand \<Rightarrow> bytes \<times> bytes \<times> bool" where
  "retry_key rc \<equiv> (rc_idHash rc, rc_ident rc, rc_hasIdent rc)"

lemma queue_ok_keys:
  "queue_ok Sum256 q \<longleftrightarrow>
     (\<forall>h. length (filter (\<lambda>(a, b, c). a = h) (map retry_key q)) \<le> maxRetryQueuePerPeer) \<and>
     (\<forall>rc\<in>set q. cmdIdentity Sum256 (rc_cmd rc) = (rc_ident rc, rc_hasIdent rc)) \<and>
     distinct (map (\<lambda>(a, b, c). (a, b)) (filter (\<lambda>(a, b, c). c) (map retry_key q)))"
  by (simp add: queue_ok_def filter_map o_def)

lemma queue_ok_update:
  assumes "queue_ok Sum256 q" "k < length q" "retry_key rc = retry_key (q ! k)"
    "cmdIdentity Sum256 (rc_cmd rc) = (rc_ident rc, rc_hasIdent rc)"
  shows "queue_ok Sum256 (q[k := rc])"
proof -
  have "map retry_key (q[k := rc]) = map retry_key q"
    using assms(2,3) by (simp add: map_update list_update_same_conv)
  moreover have "set (q[k := rc]) \<subseteq> insert rc (set q)" by (rule set_update_subset_insert)
  ultimately show ?thesis using assms(1,4) unfolding queue_ok_keys by auto
qed

lemma evict_oldest_split:
  assumes "0 < length (filter (of_peer h) q)"
  obtains p rc r where "q = p @ rc # r" "rc_idHash rc = h" "evict_oldest h q = p @ r"
proof -
  have "\<exists>p rc r. q = p @ rc # r \<and> rc_idHash rc = h \<and> evict_oldest h q = p @ r"
    using assms
  proof (induction q)
    case (Cons a q)
    show ?case
    proof (cases "rc_idHash a = h")
      case True
      then show ?thesis by (intro exI [of _ "[]"]) simp
    next
      case False
      then obtain p rc r where "q = p @ rc # r \<and> rc_idHash rc = h \<and> evict_oldest h q = p @ r" using Cons by auto
      then have "a # q = (a # p) @ rc # r \<and> rc_idHash rc = h \<and> evict_oldest h (a # q) = (a # p) @ r"
        using False by auto
      then show ?thesis by blast
    qed
  qed simp
  then show thesis using that by blast
qed

text \<open>The two outcomes of \<open>QueueForRetry\<close> on the pruned queue.\<close>

lemma QueueForRetry_cases:
  assumes "cmdIdentity Sum256 cmd = (ident, hasIdent)" "p = filter (young ttl now) q"
  obtains (Update) k where "k < length p" "rc_idHash (p ! k) = h" "hasIdent" "rc_hasIdent (p ! k)" "rc_ident (p ! k) = ident"
      "QueueForRetry Sum256 ttl now q cmd h =
         p[k := (p ! k)\<lparr>rc_cmd := cmd, rc_lastTry := now, rc_attempts := rc_attempts (p ! k) + 1\<rparr>]"
    | (Append) p' where "p' = p \<and> length (filter (of_peer h) p) < maxRetryQueuePerPeer \<or>
        p' = evict_oldest h p \<and> maxRetryQueuePerPeer \<le> length (filter (of_peer h) p)"
      "\<forall>rc\<in>set p. \<not> (rc_idHash rc = h \<and> hasIdent \<and> rc_hasIdent rc \<and> rc_ident rc = ident)"
      "QueueForRetry Sum256 ttl now q cmd h =
         p' @ [\<lparr>rc_cmd = cmd, rc_idHash = h, rc_ident = ident, rc_hasIdent = hasIdent, rc_attempts = 1,
                rc_firstSeen = now, rc_lastTry = now\<rparr>]"
  using scan_queue_cases [of h ident hasIdent 0 0 p]
proof (elim disjE exE conjE)
  fix k assume k: "scan_queue h ident hasIdent 0 0 p = Inl (0 + k)" "k < length p" "rc_idHash (p ! k) = h" "hasIdent"
    "rc_hasIdent (p ! k)" "rc_ident (p ! k) = ident"
  show thesis
    using k assms by (intro Update [of k]) (simp_all add: QueueForRetry_def prune_filter Let_def)
next
  assume a: "scan_queue h ident hasIdent 0 0 p = Inr (0 + length (filter (of_peer h) p))"
    "\<forall>rc\<in>set p. \<not> (rc_idHash rc = h \<and> hasIdent \<and> rc_hasIdent rc \<and> rc_ident rc = ident)"
  let ?p = "if maxRetryQueuePerPeer \<le> length (filter (of_peer h) p) then evict_oldest h p else p"
  show thesis
    using a assms by (intro Append [of ?p]) (auto simp: QueueForRetry_def prune_filter Let_def)
qed

lemma queue_ok_append:
  assumes "queue_ok Sum256 q" "length (filter (of_peer (rc_idHash rc)) q) < maxRetryQueuePerPeer"
    "cmdIdentity Sum256 (rc_cmd rc) = (rc_ident rc, rc_hasIdent rc)"
    "\<forall>x\<in>set q. \<not> (rc_idHash x = rc_idHash rc \<and> rc_hasIdent rc \<and> rc_hasIdent x \<and> rc_ident x = rc_ident rc)"
  shows "queue_ok Sum256 (q @ [rc])"
  using assms by (auto simp: queue_ok_def)

lemma queue_ok_evict:
  assumes "queue_ok Sum256 q" "maxRetryQueuePerPeer \<le> length (filter (of_peer h) q)"
  shows "queue_ok Sum256 (evict_oldest h q)"
    and "length (filter (of_peer h) (evict_oldest h q)) < maxRetryQueuePerPeer"
    and "set (evict_oldest h q) \<subseteq> set q"
proof -
  obtain p rc r where q: "q = p @ rc # r" "rc_idHash rc = h" "evict_oldest h q = p @ r"
    using assms(2) by (auto simp: maxRetryQueuePerPeer_def intro: evict_oldest_split [of h q])
  have le: "length (filter (of_peer k) q) \<le> maxRetryQueuePerPeer" for k using assms(1) by (simp add: queue_ok_def)
  have "length (filter (of_peer k) (p @ r)) \<le> maxRetryQueuePerPeer" for k
    using le [of k] by (simp add: q(1) split: if_splits)
  then show "queue_ok Sum256 (evict_oldest h q)"
    using assms(1) unfolding queue_ok_def q(3) by (auto simp: q(1) split: if_splits)
  show "length (filter (of_peer h) (evict_oldest h q)) < maxRetryQueuePerPeer"
    using le [of h] q(2) by (simp add: q(1) q(3)[unfolded q(1)])
  show "set (evict_oldest h q) \<subseteq> set q" unfolding q(3) by (auto simp: q(1))
qed

lemma QueueForRetry_ok:
  assumes ok: "queue_ok Sum256 q"
  shows "queue_ok Sum256 (QueueForRetry Sum256 ttl now q cmd h)"
proof -
  obtain ident hasIdent where id: "cmdIdentity Sum256 cmd = (ident, hasIdent)" by (cases "cmdIdentity Sum256 cmd")
  let ?p = "filter (young ttl now) q"
  have p: "queue_ok Sum256 ?p" using ok by (rule queue_ok_filter)
  from id refl show ?thesis
  proof (cases rule: QueueForRetry_cases [where q = q and ttl = ttl and now = now and h = h])
    case (Update k)
    then show ?thesis using id by (auto intro: queue_ok_update [OF p])
  next
    case (Append p')
    from Append(1) have "queue_ok Sum256 p' \<and> length (filter (of_peer h) p') < maxRetryQueuePerPeer \<and> set p' \<subseteq> set ?p"
      using p queue_ok_evict [OF p] by auto
    then show ?thesis unfolding Append(3) using Append(2) id by (intro queue_ok_append) auto
  qed
qed

lemma sendAndRecv_ok:
  assumes "queue_ok Sum256 q" "sendAndRecv Sum256 ttl now q cmd h response = (goes_on, q', reply)"
  shows "queue_ok Sum256 q'"
  using assms QueueForRetry_ok [OF assms(1)]
  by (auto simp: sendAndRecv_def split: peer_response.splits replicationReplyAction.splits replica_command.splits if_splits)

lemma connector_step_ok:
  assumes "connector_step Sum256 ttl now co l co'" "queue_ok Sum256 (cn_retryQueue co)"
  shows "queue_ok Sum256 (cn_retryQueue co')"
  using assms
proof (cases rule: connector_step.cases)
  case (cleanup h c)
  then show ?thesis using assms(2) QueueForRetry_ok [OF assms(2)]
    by (auto simp: worker_cleanup_def OnClosedConn_def split: conn_phase.splits list.splits)
qed (auto simp: DispatchCommand_def spawnNewConns_def processRetryQueue_spec worker_cleanup_def OnClosedConn_def
    intro: QueueForRetry_ok queue_ok_filter sendAndRecv_ok split: option.splits)

lemma connector_run_ok: "connector_run Sum256 ttl co \<Longrightarrow> queue_ok Sum256 (cn_retryQueue co)"
proof (induction rule: connector_run.induct)
  case start
  then show ?case by (simp add: queue_ok_def)
next
  case (step co now l co')
  then show ?case by (blast intro: connector_step_ok)
qed

section \<open>What becomes of a command\<close>

definition queued :: "(bytes \<Rightarrow> bytes) \<Rightarrow> retryCommand list \<Rightarrow> bytes \<Rightarrow> bytes \<Rightarrow> bool" where
  "queued Sum256 q h ident \<longleftrightarrow> (\<exists>rc\<in>set q. rc_idHash rc = h \<and> cmdIdentity Sum256 (rc_cmd rc) = (ident, True))"

definition in_channel :: "(bytes \<Rightarrow> bytes) \<Rightarrow> Connector \<Rightarrow> bytes \<Rightarrow> bytes \<Rightarrow> bool" where
  "in_channel Sum256 co h ident \<longleftrightarrow>
     (\<exists>c cmd. cn_conns co h = Some c \<and> cmd \<in> set (oc_ch c) \<and> cmdIdentity Sum256 cmd = (ident, True))"

text \<open>A command for the peer \<open>h\<close> is on its way, as an entry of the retry queue or in the channel of a connection.\<close>

definition pending :: "(bytes \<Rightarrow> bytes) \<Rightarrow> Connector \<Rightarrow> bytes \<Rightarrow> bytes \<Rightarrow> bool" where
  "pending Sum256 co h ident \<longleftrightarrow> queued Sum256 (cn_retryQueue co) h ident \<or> in_channel Sum256 co h ident"

text \<open>A response after which the sender is done with the command.\<close>

definition settles :: "replica_command \<Rightarrow> peer_response \<Rightarrow> bool" where
  "settles cmd response \<longleftrightarrow>
     response \<noteq> SessionFailed \<and>
     (\<forall>w code. cmd = RWrite w \<longrightarrow> response = GotReplicaWriteReply code \<longrightarrow> classifyReplicationReply code \<noteq> replicationReplyRetry)"

definition expired :: "(bytes \<Rightarrow> bytes) \<Rightarrow> int \<Rightarrow> int \<Rightarrow> retryCommand list \<Rightarrow> bytes \<Rightarrow> bytes \<Rightarrow> bool" where
  "expired Sum256 ttl now q h ident \<longleftrightarrow>
     (\<exists>rc\<in>set q. rc_idHash rc = h \<and> cmdIdentity Sum256 (rc_cmd rc) = (ident, True) \<and> now - rc_firstSeen rc > ttl)"

lemma QueueForRetry_queues:
  assumes "cmdIdentity Sum256 cmd = (ident, True)"
  shows "queued Sum256 (QueueForRetry Sum256 ttl now q cmd h) h ident"
  using assms refl
proof (cases rule: QueueForRetry_cases [where q = q and ttl = ttl and now = now and h = h])
  case (Update k)
  then show ?thesis using assms set_update_memI [OF Update(1)] unfolding queued_def Update(6)
    by (intro bexI [OF _ set_update_memI [OF Update(1)]]) simp
qed (use assms in \<open>auto simp: queued_def\<close>)

lemma evict_oldest_other: "rc \<in> set q \<Longrightarrow> rc_idHash rc \<noteq> h \<Longrightarrow> rc \<in> set (evict_oldest h q)"
  by (induction q) auto

text \<open>Queueing another command keeps a young entry, unless the queue of its peer is full.\<close>

lemma QueueForRetry_keeps:
  assumes ok: "queue_ok Sum256 q" and q: "queued Sum256 q h ident" "\<not> expired Sum256 ttl now q h ident"
    and room: "length (filter (of_peer h) q) < maxRetryQueuePerPeer"
  shows "queued Sum256 (QueueForRetry Sum256 ttl now q cmd h') h ident"
proof -
  let ?p = "filter (young ttl now) q"
  obtain rc where rc: "rc \<in> set ?p" "rc_idHash rc = h" "cmdIdentity Sum256 (rc_cmd rc) = (ident, True)"
    using q unfolding queued_def expired_def by (auto simp: not_less)
  have fewer: "length (filter (of_peer h) ?p) < maxRetryQueuePerPeer"
    using length_filter_le [of "young ttl now" "filter (of_peer h) q"] room by (simp add: conj_commute)
  obtain i hi where id: "cmdIdentity Sum256 cmd = (i, hi)" by (cases "cmdIdentity Sum256 cmd")
  from id refl show ?thesis
  proof (cases rule: QueueForRetry_cases [where q = q and ttl = ttl and now = now and h = h'])
    case (Update k)
    obtain j where j: "j < length ?p" "?p ! j = rc" using rc(1) unfolding in_set_conv_nth by blast
    show ?thesis
    proof (cases "j = k")
      case True
      have "(rc_ident rc, rc_hasIdent rc) = (ident, True)"
        using queue_ok_filter [OF ok, of "young ttl now"] rc(1,3) by (simp add: queue_ok_def)
      then have "h' = h" "cmdIdentity Sum256 cmd = (ident, True)" using True j Update rc(2) id by auto
      then show ?thesis by (simp add: QueueForRetry_queues)
    next
      case False
      then have "rc \<in> set (QueueForRetry Sum256 ttl now q cmd h')"
        unfolding Update(6) in_set_conv_nth using j by (intro exI [of _ j]) simp
      then show ?thesis using rc by (auto simp: queued_def)
    qed
  next
    case (Append p')
    then have "rc \<in> set p'" using rc fewer by (cases "h' = h") (auto intro: evict_oldest_other)
    then show ?thesis using rc unfolding queued_def Append(3) by auto
  qed
qed

lemma sendAndRecv_keeps:
  assumes "sendAndRecv Sum256 ttl now q cmd h' response = (goes_on, q', reply)"
    "queue_ok Sum256 q" "queued Sum256 q h ident" "\<not> expired Sum256 ttl now q h ident"
    "length (filter (of_peer h) q) < maxRetryQueuePerPeer"
  shows "queued Sum256 q' h ident"
  using assms(1,3) QueueForRetry_keeps [OF assms(2-5)]
  by (auto simp: sendAndRecv_def split: peer_response.splits replicationReplyAction.splits replica_command.splits if_splits)

lemma sendAndRecv_requeues:
  assumes "sendAndRecv Sum256 ttl now q cmd h response = (goes_on, q', reply)" "\<not> settles cmd response"
    "cmdIdentity Sum256 cmd = (ident, True)"
  shows "queued Sum256 q' h ident"
  using assms QueueForRetry_queues [OF assms(3)]
  by (auto simp: sendAndRecv_def settles_def cmdIdentity_def
      split: peer_response.splits replicationReplyAction.splits replica_command.splits if_splits)

text \<open>The channels, after each operation.\<close>

lemma in_channel_queue: "in_channel Sum256 (co\<lparr>cn_retryQueue := q\<rparr>) h ident = in_channel Sum256 co h ident"
  by (simp add: in_channel_def)

lemma in_channel_dispatch:
  "in_channel Sum256 co h ident \<Longrightarrow> in_channel Sum256 (DispatchCommand Sum256 ttl now co cmd h') h ident"
  by (auto simp: in_channel_def DispatchCommand_def dispatchCommand_def split: option.splits)

lemma in_channel_spawn: "in_channel Sum256 co h ident \<Longrightarrow> in_channel Sum256 (spawnNewConns peers co) h ident"
  by (auto simp: in_channel_def spawnNewConns_def)

lemma in_channel_retry: "in_channel Sum256 co h ident \<Longrightarrow> in_channel Sum256 (processRetryQueue ttl now co) h ident"
  by (fastforce simp: in_channel_def processRetryQueue_spec handed_def)

lemma in_channel_taken:
  assumes "in_channel Sum256 co h ident" "cn_conns co h' = Some c" "oc_ch c = cmd # ch"
  shows "in_channel Sum256 (co\<lparr>cn_conns := (cn_conns co)(h' \<mapsto> c\<lparr>oc_ch := ch\<rparr>), cn_retryQueue := q\<rparr>) h ident \<or>
     h' = h \<and> cmdIdentity Sum256 cmd = (ident, True)"
  using assms by (auto simp: in_channel_def split: if_splits)

lemma in_channel_phase:
  "in_channel Sum256 (co\<lparr>cn_conns := (cn_conns co)(h' \<mapsto> c\<lparr>oc_phase := ph\<rparr>), cn_retryQueue := q\<rparr>) h ident =
   in_channel Sum256 (co\<lparr>cn_conns := (cn_conns co)(h' \<mapsto> c), cn_retryQueue := q\<rparr>) h ident"
  by (auto simp: in_channel_def)

text \<open>Processing the queue hands a young entry over to the connection of its peer, if there is one.\<close>

lemma queued_handed:
  assumes "queued Sum256 (cn_retryQueue co) h ident" "\<not> expired Sum256 ttl now (cn_retryQueue co) h ident"
  shows "cn_conns co h = None \<longrightarrow> queued Sum256 (cn_retryQueue (processRetryQueue ttl now co)) h ident"
    and "cn_conns co h \<noteq> None \<longrightarrow> in_channel Sum256 (processRetryQueue ttl now co) h ident"
proof -
  obtain rc where rc: "rc \<in> set (cn_retryQueue co)" "rc_idHash rc = h" "cmdIdentity Sum256 (rc_cmd rc) = (ident, True)"
    "young ttl now rc"
    using assms unfolding queued_def expired_def by (auto simp: not_less)
  then show "cn_conns co h = None \<longrightarrow> queued Sum256 (cn_retryQueue (processRetryQueue ttl now co)) h ident"
    by (auto simp: queued_def processRetryQueue_spec)
  have "rc_cmd rc \<in> set (map rc_cmd (rev (filter (of_peer h) (filter (young ttl now) (cn_retryQueue co)))))"
    using rc by auto
  then show "cn_conns co h \<noteq> None \<longrightarrow> in_channel Sum256 (processRetryQueue ttl now co) h ident"
    using rc(3) by (auto simp: in_channel_def processRetryQueue_spec handed_def simp del: set_map set_rev set_filter)
qed

lemma queued_step:
  assumes st: "connector_step Sum256 ttl now co l co'" and ok: "queue_ok Sum256 (cn_retryQueue co)"
    and q: "queued Sum256 (cn_retryQueue co) h ident" "\<not> expired Sum256 ttl now (cn_retryQueue co) h ident"
      "length (filter (of_peer h) (cn_retryQueue co)) < maxRetryQueuePerPeer"
  shows "pending Sum256 co' h ident"
  using st
proof (cases rule: connector_step.cases)
  case (dispatch cmd h')
  then show ?thesis using q(1) QueueForRetry_keeps [OF ok q]
    by (auto simp: pending_def DispatchCommand_def split: option.splits)
next
  case (retry)
  then show ?thesis using queued_handed [OF q(1,2)] unfolding pending_def by blast
next
  case (cleanup h' c)
  then show ?thesis using q(1) QueueForRetry_keeps [OF ok q]
    by (auto simp: pending_def worker_cleanup_def OnClosedConn_def split: conn_phase.splits list.splits)
qed (use q(1) sendAndRecv_keeps [OF _ ok q] in
    \<open>auto simp: pending_def spawnNewConns_def worker_cleanup_def OnClosedConn_def\<close>)

lemma in_channel_step:
  assumes st: "connector_step Sum256 ttl now co l co'" and ch: "in_channel Sum256 co h ident"
  shows "pending Sum256 co' h ident \<or>
    (\<exists>cmd response. l = Exchanged h cmd response \<and> cmdIdentity Sum256 cmd = (ident, True) \<and> settles cmd response) \<or>
    (\<exists>rest cmd. l = Closed h rest \<and> cmd \<in> set rest \<and> cmdIdentity Sum256 cmd = (ident, True))"
  using st
proof (cases rule: connector_step.cases)
  case (exchange h' c cmd rest response q reply)
  then show ?thesis using in_channel_taken [OF ch exchange(3,5), of q] sendAndRecv_requeues [OF exchange(6)]
    by (auto simp: pending_def)
next
  case (exchange_end h' c cmd rest response q reply)
  then show ?thesis using in_channel_taken [OF ch exchange_end(3,5), of q] sendAndRecv_requeues [OF exchange_end(6)]
    by (auto simp: pending_def in_channel_phase)
next
  case (cleanup h' c)
  show ?thesis
  proof (cases "oc_phase c = Draining \<and> oc_ch c \<noteq> []")
    case True
    then obtain cmd rest where c: "oc_ch c = cmd # rest" by (cases "oc_ch c") auto
    then show ?thesis
      using cleanup True in_channel_taken [OF ch cleanup(3) c, of "QueueForRetry Sum256 ttl now (cn_retryQueue co) cmd h'"]
        QueueForRetry_queues [of Sum256 cmd ident ttl now "cn_retryQueue co" h]
      by (auto simp: pending_def worker_cleanup_def)
  next
    case False
    then have "in_channel Sum256 co' h ident"
      using cleanup ch by (auto simp: worker_cleanup_def in_channel_def split: conn_phase.splits list.splits)
    then show ?thesis by (simp add: pending_def)
  qed
next
  case (closed h' c)
  then show ?thesis using ch by (cases "h' = h") (auto simp: pending_def worker_cleanup_def OnClosedConn_def in_channel_def)
next
  case dispatch
  then show ?thesis using in_channel_dispatch [OF ch] by (simp add: pending_def)
next
  case spawn
  then show ?thesis using in_channel_spawn [OF ch] by (simp add: pending_def)
next
  case retry
  then show ?thesis using in_channel_retry [OF ch] by (simp add: pending_def)
next
  case decoy
  then show ?thesis using ch by (simp add: pending_def in_channel_queue)
qed

text \<open>
  Another dispatch at the same time of a command with the same identity keeps it: the entry is young, and it is the one
  that is updated when the peers are the same.
\<close>

definition pending_now :: "(bytes \<Rightarrow> bytes) \<Rightarrow> int \<Rightarrow> int \<Rightarrow> Connector \<Rightarrow> bytes \<Rightarrow> bytes \<Rightarrow> bool" where
  "pending_now Sum256 ttl now co h ident \<longleftrightarrow>
     (\<exists>rc\<in>set (cn_retryQueue co). rc_idHash rc = h \<and> cmdIdentity Sum256 (rc_cmd rc) = (ident, True) \<and> young ttl now rc) \<or>
     in_channel Sum256 co h ident"

lemma QueueForRetry_young:
  assumes "0 \<le> ttl" "cmdIdentity Sum256 cmd = (ident, True)"
  shows "\<exists>rc\<in>set (QueueForRetry Sum256 ttl now q cmd h). rc_idHash rc = h \<and> cmdIdentity Sum256 (rc_cmd rc) = (ident, True) \<and> young ttl now rc"
  using assms(2) refl
proof (cases rule: QueueForRetry_cases [where q = q and ttl = ttl and now = now and h = h])
  case (Update k)
  have "young ttl now (filter (young ttl now) q ! k)" using nth_mem [OF Update(1)] by simp
  then show ?thesis using assms Update(2) unfolding Update(6)
    by (intro bexI [OF _ set_update_memI [OF Update(1)]]) simp
qed (use assms in auto)

lemma QueueForRetry_others:
  assumes "rc \<in> set q" "young ttl now rc" "rc_idHash rc \<noteq> h"
  shows "rc \<in> set (QueueForRetry Sum256 ttl now q cmd h)"
proof -
  let ?p = "filter (young ttl now) q"
  obtain i hi where id: "cmdIdentity Sum256 cmd = (i, hi)" by (cases "cmdIdentity Sum256 cmd")
  have rc: "rc \<in> set ?p" using assms by simp
  from id refl show ?thesis
  proof (cases rule: QueueForRetry_cases [where q = q and ttl = ttl and now = now and h = h])
    case (Update k)
    obtain j where j: "j < length ?p" "?p ! j = rc" using rc unfolding in_set_conv_nth by blast
    then have "j \<noteq> k" using Update(2) assms(3) by auto
    then show ?thesis unfolding Update(6) in_set_conv_nth using j by (intro exI [of _ j]) simp
  next
    case (Append p')
    then show ?thesis using rc assms(3) by (auto intro: evict_oldest_other)
  qed
qed

lemma pending_now_dispatch:
  assumes "0 \<le> ttl" "cmdIdentity Sum256 cmd = (ident, True)"
  shows "pending_now Sum256 ttl now (DispatchCommand Sum256 ttl now co cmd h) h ident"
    and "pending_now Sum256 ttl now co h' ident \<Longrightarrow> pending_now Sum256 ttl now (DispatchCommand Sum256 ttl now co cmd h) h' ident"
proof -
  show new: "pending_now Sum256 ttl now (DispatchCommand Sum256 ttl now co cmd h) h ident"
    using QueueForRetry_young [OF assms] assms(2)
    by (auto simp: pending_now_def DispatchCommand_def in_channel_def dispatchCommand_def split: option.splits)
  assume p: "pending_now Sum256 ttl now co h' ident"
  show "pending_now Sum256 ttl now (DispatchCommand Sum256 ttl now co cmd h) h' ident"
  proof (cases "h' = h")
    case False
    from p show ?thesis unfolding pending_now_def
    proof (elim disjE bexE)
      fix rc assume rc: "rc \<in> set (cn_retryQueue co)" "rc_idHash rc = h' \<and> cmdIdentity Sum256 (rc_cmd rc) = (ident, True) \<and> young ttl now rc"
      then have "rc \<in> set (cn_retryQueue (DispatchCommand Sum256 ttl now co cmd h))"
        using False QueueForRetry_others by (auto simp: DispatchCommand_def split: option.splits)
      then show "(\<exists>rc\<in>set (cn_retryQueue (DispatchCommand Sum256 ttl now co cmd h)). rc_idHash rc = h' \<and>
          cmdIdentity Sum256 (rc_cmd rc) = (ident, True) \<and> young ttl now rc) \<or>
        in_channel Sum256 (DispatchCommand Sum256 ttl now co cmd h) h' ident" using rc by blast
    qed (simp add: in_channel_dispatch)
  qed (use new in simp)
qed

lemma replicate_to_pending:
  assumes "0 \<le> ttl"
  shows "(pending_now Sum256 ttl now co h (ww_BoxID cmd) \<longrightarrow>
      pending_now Sum256 ttl now (replicate_to Sum256 ttl now self cmd shards co) h (ww_BoxID cmd)) \<and>
    (h \<noteq> self \<longrightarrow> h \<in> (\<lambda>desc. Sum256 (key_bytes desc)) ` set shards \<longrightarrow>
      pending_now Sum256 ttl now (replicate_to Sum256 ttl now self cmd shards co) h (ww_BoxID cmd))"
proof (induction shards arbitrary: co)
  case (Cons desc shards)
  have id: "cmdIdentity Sum256 (RWrite cmd) = (ww_BoxID cmd, True)" by (simp add: cmdIdentity_def)
  show ?case using Cons.IH pending_now_dispatch [OF assms id] by (auto simp: Let_def)
qed simp

lemma replicate_to_run:
  "connector_run Sum256 ttl co \<Longrightarrow> connector_run Sum256 ttl (replicate_to Sum256 ttl now self cmd shards co)"
  by (induction shards arbitrary: co) (auto simp: Let_def intro: connector_run.step connector_step.dispatch)

lemma first_connection:
  "connector_step Sum256 ttl now \<lparr>cn_conns = Map.empty, cn_retryQueue = []\<rparr> Silent
     \<lparr>cn_conns = [h \<mapsto> \<lparr>oc_phase = Serving, oc_ch = []\<rparr>], cn_retryQueue = []\<rparr>"
proof -
  have "spawnNewConns [h] \<lparr>cn_conns = Map.empty, cn_retryQueue = []\<rparr> =
      \<lparr>cn_conns = [h \<mapsto> \<lparr>oc_phase = Serving, oc_ch = []\<rparr>], cn_retryQueue = []\<rparr>"
    by (auto simp: spawnNewConns_def newOutgoingConn_def)
  then show ?thesis using connector_step.spawn [of Sum256 ttl now "\<lparr>cn_conns = Map.empty, cn_retryQueue = []\<rparr>" "[h]"] by simp
qed

text \<open>Two ways of losing a write that the peer has not answered.\<close>

lemma write_lost_after_drain:
  "\<exists>co co' co''. connector_run Sum256 ttl co \<and> connector_step Sum256 ttl now co Silent co' \<and> pending Sum256 co' h (ww_BoxID w) \<and>
     connector_step Sum256 ttl now co' (Closed h [RWrite w]) co'' \<and> \<not> pending Sum256 co'' h (ww_BoxID w)"
proof -
  let ?co = "\<lambda>ph ch. \<lparr>cn_conns = [h \<mapsto> \<lparr>oc_phase = ph, oc_ch = ch\<rparr>], cn_retryQueue = []\<rparr>"
  have "connector_step Sum256 ttl now \<lparr>cn_conns = Map.empty, cn_retryQueue = []\<rparr> Silent (?co Serving [])"
    by (rule first_connection)
  moreover have "connector_step Sum256 ttl now (?co Serving []) Silent (?co Draining [])"
    "connector_step Sum256 ttl now (?co Draining []) Silent (?co Drained [])"
    using connector_step.cleanup [of "?co Serving []" h "\<lparr>oc_phase = Serving, oc_ch = []\<rparr>" Sum256 ttl now]
      connector_step.cleanup [of "?co Draining []" h "\<lparr>oc_phase = Draining, oc_ch = []\<rparr>" Sum256 ttl now]
    by (simp_all add: worker_cleanup_def)
  ultimately have run: "connector_run Sum256 ttl (?co Drained [])" by (blast intro: connector_run.intros)
  have st: "connector_step Sum256 ttl now (?co Drained []) Silent (?co Drained [RWrite w])"
    using connector_step.dispatch [of Sum256 ttl now "?co Drained []" "RWrite w" h]
    by (simp add: DispatchCommand_def dispatchCommand_def)
  have cl: "connector_step Sum256 ttl now (?co Drained [RWrite w]) (Closed h [RWrite w]) \<lparr>cn_conns = Map.empty, cn_retryQueue = []\<rparr>"
    using connector_step.closed [of "?co Drained [RWrite w]" h "\<lparr>oc_phase = Drained, oc_ch = [RWrite w]\<rparr>" Sum256 ttl now]
    by (simp add: worker_cleanup_def OnClosedConn_def)
  have "pending Sum256 (?co Drained [RWrite w]) h (ww_BoxID w)" by (simp add: pending_def in_channel_def cmdIdentity_def)
  moreover have "\<not> pending Sum256 \<lparr>cn_conns = Map.empty, cn_retryQueue = []\<rparr> h (ww_BoxID w)"
    by (simp add: pending_def in_channel_def queued_def)
  ultimately show ?thesis using run st cl by blast
qed

lemma write_lost_on_disconnect:
  "\<exists>co co'. connector_run Sum256 ttl co \<and> pending Sum256 co h (ww_BoxID w) \<and>
     connector_step Sum256 ttl now co (Exchanged h (RWrite w) GotDisconnect) co' \<and> \<not> pending Sum256 co' h (ww_BoxID w)"
proof -
  let ?co = "\<lambda>ph ch. \<lparr>cn_conns = [h \<mapsto> \<lparr>oc_phase = ph, oc_ch = ch\<rparr>], cn_retryQueue = []\<rparr>"
  have "connector_step Sum256 ttl now \<lparr>cn_conns = Map.empty, cn_retryQueue = []\<rparr> Silent (?co Serving [])"
    by (rule first_connection)
  moreover have "connector_step Sum256 ttl now (?co Serving []) Silent (?co Serving [RWrite w])"
    using connector_step.dispatch [of Sum256 ttl now "?co Serving []" "RWrite w" h]
    by (simp add: DispatchCommand_def dispatchCommand_def)
  ultimately have run: "connector_run Sum256 ttl (?co Serving [RWrite w])" by (blast intro: connector_run.intros)
  have ex: "connector_step Sum256 ttl now (?co Serving [RWrite w]) (Exchanged h (RWrite w) GotDisconnect) (?co Draining [])"
    using connector_step.exchange_end [of "?co Serving [RWrite w]" h "\<lparr>oc_phase = Serving, oc_ch = [RWrite w]\<rparr>" "RWrite w" "[]"
        Sum256 ttl now GotDisconnect "[]" None] by (simp add: sendAndRecv_def)
  have "pending Sum256 (?co Serving [RWrite w]) h (ww_BoxID w)" by (simp add: pending_def in_channel_def cmdIdentity_def)
  moreover have "\<not> pending Sum256 (?co Draining []) h (ww_BoxID w)" by (simp add: pending_def in_channel_def queued_def)
  ultimately show ?thesis using run ex by blast
qed



end
