(* ===== verification/Wire_Commands.thy ===== *)
theory Wire_Commands
  imports Pigeonhole_Geo Sphinx_Crypto
begin

text \<open>
  \<open>src/core/wire/commands\<close>: the commands of the link protocol and their serialisation. A command is a
  constructor with the fields of its Go struct; the \<open>Cmds\<close> field, a pointer to the shared \<open>Commands\<close>
  object, is the argument \<open>cmds\<close> of the methods (\<open>None\<close> for nil). Serialising returns no error, so
  \<open>None\<close> is a panic there. Signature public keys belong to the scheme \<open>S\<close>, a parameter; of the
  replica NIKE scheme only the public key size is used. \<open>x\<close> holds the sizes of other packages.
\<close>

section \<open>constants.go\<close>

definition cmdOverhead :: nat where "cmdOverhead = 1 + 1 + 4"
definition retreiveMessageLength :: nat where "retreiveMessageLength = 4"
definition messageBaseLength :: nat where "messageBaseLength = 1 + 1 + 4"
definition getConsensusLength :: nat where "getConsensusLength = 8"
definition consensusBaseLength :: nat where "consensusBaseLength = 1"
definition consensus2BaseLength :: nat where "consensus2BaseLength = 1 + 4 + 4"
definition postDescriptorStatusLength :: nat where "postDescriptorStatusLength = 1"
definition postDescriptorLength :: nat where "postDescriptorLength = 8"
definition certStatusLength :: nat where "certStatusLength = 1"
definition revealStatusLength :: nat where "revealStatusLength = 1"
definition sigStatusLength :: nat where "sigStatusLength = 1"
definition voteStatusLength :: nat where "voteStatusLength = 1"
definition replicaMessageReplyLength :: nat where "replicaMessageReplyLength = 1"
definition replicaWriteReplyLength :: nat where "replicaWriteReplyLength = 1"

definition messageTypeMessage :: byte where "messageTypeMessage = 0"
definition messageTypeACK :: byte where "messageTypeACK = 1"
definition messageTypeEmpty :: byte where "messageTypeEmpty = 2"

definition noOp :: byte where "noOp = 0"
definition disconnect :: byte where "disconnect = 1"
definition sendRetrievePacket :: byte where "sendRetrievePacket = 3"
definition sendRetrievePacketReply :: byte where "sendRetrievePacketReply = 4"
definition postReplicaDescriptorStatus :: byte where "postReplicaDescriptorStatus = 10"
definition postReplicaDescriptor :: byte where "postReplicaDescriptor = 11"
definition replicaMessage :: byte where "replicaMessage = 8"
definition replicaMessageReply :: byte where "replicaMessageReply = 9"
definition replicaWrite :: byte where "replicaWrite = 12"
definition replicaWriteReply :: byte where "replicaWriteReply = 13"
definition replicaDecoy :: byte where "replicaDecoy = 33"
definition retreiveMessage :: byte where "retreiveMessage = 16"
definition message :: byte where "message = 17"
definition sendPacket :: byte where "sendPacket = 2"
definition getConsensus :: byte where "getConsensus = 18"
definition consensus :: byte where "consensus = 19"
definition consensus2 :: byte where "consensus2 = 31"
definition getConsensus2 :: byte where "getConsensus2 = 32"
definition postDescriptor :: byte where "postDescriptor = 20"
definition postDescriptorStatus :: byte where "postDescriptorStatus = 21"
definition vote :: byte where "vote = 22"
definition voteStatus :: byte where "voteStatus = 23"
definition getVote :: byte where "getVote = 24"
definition reveal :: byte where "reveal = 25"
definition revealStatus :: byte where "revealStatus = 26"
definition sig :: byte where "sig = 27"
definition sigStatus :: byte where "sigStatus = 28"
definition certificate :: byte where "certificate = 29"
definition certStatus :: byte where "certStatus = 30"

definition DescriptorErrorToString :: "byte \<Rightarrow> string" where
  "DescriptorErrorToString code =
     (if code = 0 then ''Ok'' else if code = 1 then ''Invalid'' else if code = 2 then ''Conflict''
      else if code = 3 then ''Forbidden'' else ''Unknown'')"

lemmas wire_lengths [simp] =
  cmdOverhead_def retreiveMessageLength_def messageBaseLength_def getConsensusLength_def consensusBaseLength_def
  consensus2BaseLength_def postDescriptorStatusLength_def postDescriptorLength_def certStatusLength_def
  revealStatusLength_def sigStatusLength_def voteStatusLength_def replicaMessageReplyLength_def
  replicaWriteReplyLength_def

lemmas wire_ids =
  messageTypeMessage_def messageTypeACK_def messageTypeEmpty_def noOp_def disconnect_def sendRetrievePacket_def
  sendRetrievePacketReply_def postReplicaDescriptorStatus_def postReplicaDescriptor_def replicaMessage_def
  replicaMessageReply_def replicaWrite_def replicaWriteReply_def replicaDecoy_def retreiveMessage_def message_def
  sendPacket_def getConsensus_def consensus_def consensus2_def getConsensus2_def postDescriptor_def
  postDescriptorStatus_def vote_def voteStatus_def getVote_def reveal_def revealStatus_def sig_def sigStatus_def
  certificate_def certStatus_def

section \<open>Commands\<close>

record 'spk sign_scheme =
  sign_PublicKeySize :: nat
  sign_UnmarshalBinaryPublicKey :: "bytes \<Rightarrow> 'spk option"
  sign_MarshalBinary :: "'spk \<Rightarrow> bytes option"

datatype 'spk Command =
    NoOp
  | Disconnect
  | SendPacket (SphinxPacket: bytes)
  | RetrieveMessage "32 word"
  | MessageACK (ack_Geo: "Geometry option") (ack_QueueSizeHint: byte) (ack_Sequence: "32 word") (ack_ID: bytes) (ack_Payload: bytes)
  | Message (msg_Geo: "Geometry option") (msg_QueueSizeHint: byte) (msg_Sequence: "32 word") (msg_Payload: bytes)
  | MessageEmpty "32 word"
  | SendRetrievePacket (srp_Geo: "Geometry option") (srp_SphinxPacket: bytes)
  | SendRetrievePacketReply (srr_Geo: "Geometry option") (srr_SURBID: bytes) (srr_Payload: bytes)
  | GetConsensus2 "64 word"
  | Consensus2 byte "32 word" "32 word" bytes
  | GetConsensus "64 word" (MixnetTransmission: bool)
  | Consensus byte bytes
  | PostDescriptor "64 word" bytes
  | PostDescriptorStatus byte
  | PostReplicaDescriptor "64 word" bytes
  | PostReplicaDescriptorStatus byte
  | GetVote "64 word" 'spk
  | Vote "64 word" 'spk bytes
  | VoteStatus byte
  | Reveal "64 word" 'spk bytes
  | RevealStatus byte
  | Cert "64 word" 'spk bytes
  | CertStatus byte
  | Sig "64 word" 'spk bytes
  | SigStatus byte
  | ReplicaWrite (rw_Geo: "PGeometry option") (rw_BoxID: "bytes option") (rw_Signature: "bytes option") (rw_Payload: bytes)
  | ReplicaWriteReply byte
  | ReplicaDecoy
  | ReplicaMessage (rm_Geo: "PGeometry option") (rm_Scheme: "nat option") (rm_SenderEPubKey: bytes) (rm_DEK: "bytes option") (rm_Ciphertext: bytes)
  | ReplicaMessageReply (rmr_Geo: "PGeometry option") (rmr_ErrorCode: byte) (rmr_EnvelopeHash: "bytes option") (rmr_ReplicaID: byte) (rmr_EnvelopeReply: bytes)

record 'spk Commands =
  c_geo :: "Geometry option"
  c_pkiSignatureScheme :: "'spk sign_scheme option"
  c_replicaNikeScheme :: "nat option"
  clientToServerCommands :: "'spk Command list"
  serverToClientCommands :: "'spk Command list"
  MaxMessageLenServerToClient :: nat
  MaxMessageLenClientToServer :: nat
  shouldPad :: bool

section \<open>Lengths and constructors of the Commands object\<close>

definition HybridKeySize :: "nat option \<Rightarrow> nat option" where
  "HybridKeySize scheme = scheme"

definition ReplicaWrite_Length :: "ext_sizes \<Rightarrow> PGeometry option \<Rightarrow> bytes \<Rightarrow> nat" where
  "ReplicaWrite_Length x pg payload =
     (let payloadSize = (case pg of Some g \<Rightarrow> CalculateBoxCiphertextLength g | None \<Rightarrow> length payload)
      in cmdOverhead + BoxIDSize x + SignatureSize x + payloadSize)"

definition ReplicaMessage_Length :: "ext_sizes \<Rightarrow> PGeometry option \<Rightarrow> nat option \<Rightarrow> nat option" where
  "ReplicaMessage_Length x pg scheme =
     Option.bind pg (\<lambda>g. Option.bind (HybridKeySize scheme) (\<lambda>hk.
       Some (cmdOverhead + DEKSize x + hk + CalculateCourierEnvelopeCiphertextSizeWrite x g)))"

definition ReplicaMessageReply_Length :: "ext_sizes \<Rightarrow> PGeometry option \<Rightarrow> nat option" where
  "ReplicaMessageReply_Length x pg =
     Option.bind pg (\<lambda>g. Some (cmdOverhead + 1 + 32 + 1 + CalculateEnvelopeReplySizeRead x g))"

fun Command_Length :: "ext_sizes \<Rightarrow> 'spk Commands \<Rightarrow> 'spk Command \<Rightarrow> nat option" where
  "Command_Length x cmds NoOp = Some cmdOverhead"
| "Command_Length x cmds Disconnect = Some cmdOverhead"
| "Command_Length x cmds (SendPacket _) = Option.bind (c_geo cmds) (\<lambda>g. Some (cmdOverhead + PacketLength g))"
| "Command_Length x cmds (RetrieveMessage _) = Some (cmdOverhead + 4)"
| "Command_Length x cmds (MessageACK geo _ _ _ _) =
     Option.bind geo (\<lambda>g. Some (cmdOverhead + 1 + 4 + SURBIDLength + PacketLength g))"
| "Command_Length x cmds (Message geo _ _ _) = Option.bind geo (\<lambda>g. Some (cmdOverhead + 1 + 4 + PacketLength g))"
| "Command_Length x cmds (MessageEmpty _) = Option.bind (c_geo cmds) (\<lambda>g. Some (cmdOverhead + 4 + PacketLength g))"
| "Command_Length x cmds (SendRetrievePacket geo _) = Option.bind geo (\<lambda>g. Some (cmdOverhead + PacketLength g))"
| "Command_Length x cmds (SendRetrievePacketReply geo _ _) =
     Option.bind geo (\<lambda>g. Some (cmdOverhead + SURBIDLength + UserForwardPayloadLength g))"
| "Command_Length x cmds (GetConsensus2 _) = Some (cmdOverhead + getConsensusLength)"
| "Command_Length x cmds (GetConsensus _ _) = Some (cmdOverhead + getConsensusLength)"
| "Command_Length x cmds (GetVote _ _) =
     Option.bind (c_pkiSignatureScheme cmds) (\<lambda>s. Some (cmdOverhead + 8 + sign_PublicKeySize s))"
| "Command_Length x cmds (ReplicaWrite pg _ _ payload) = Some (ReplicaWrite_Length x pg payload)"
| "Command_Length x cmds (ReplicaWriteReply _) = Some (cmdOverhead + replicaWriteReplyLength)"
| "Command_Length x cmds ReplicaDecoy = Some cmdOverhead"
| "Command_Length x cmds (ReplicaMessage pg scheme _ _ _) = ReplicaMessage_Length x pg scheme"
| "Command_Length x cmds (ReplicaMessageReply pg _ _ _ _) = ReplicaMessageReply_Length x pg"
| "Command_Length x cmds _ = Some 0"

fun calcMax :: "ext_sizes \<Rightarrow> 'spk Commands \<Rightarrow> nat \<Rightarrow> 'spk Command list \<Rightarrow> nat option" where
  "calcMax x cmds m [] = Some m"
| "calcMax x cmds m (c # cs) =
     Option.bind (Command_Length x cmds c) (\<lambda>l. calcMax x cmds (if l > m then l else m) cs)"

definition calcMaxMessageLenServerToClient :: "ext_sizes \<Rightarrow> 'spk Commands \<Rightarrow> nat option" where
  "calcMaxMessageLenServerToClient x c = calcMax x c 0 (serverToClientCommands c)"

definition calcMaxMessageLenClientToServer :: "ext_sizes \<Rightarrow> 'spk Commands \<Rightarrow> nat option" where
  "calcMaxMessageLenClientToServer x c = calcMax x c 0 (clientToServerCommands c)"

definition with_max_lengths :: "ext_sizes \<Rightarrow> 'spk Commands \<Rightarrow> 'spk Commands option" where
  "with_max_lengths x c =
     Option.bind (calcMaxMessageLenClientToServer x c) (\<lambda>up.
     Option.bind (calcMaxMessageLenServerToClient x c) (\<lambda>down.
     Some (c\<lparr>MaxMessageLenClientToServer := up, MaxMessageLenServerToClient := down\<rparr>)))"

definition NewMixnetCommands :: "ext_sizes \<Rightarrow> Geometry \<Rightarrow> 'spk Commands option" where
  "NewMixnetCommands x g =
     with_max_lengths x
       \<lparr>c_geo = Some g, c_pkiSignatureScheme = None, c_replicaNikeScheme = None,
        clientToServerCommands =
          [NoOp, SendPacket [], Disconnect, RetrieveMessage 0, GetConsensus 0 False, GetConsensus2 0,
           SendRetrievePacket (Some g) []],
        serverToClientCommands =
          [Consensus 0 [], Consensus2 0 0 0 [], Message (Some g) 0 0 [], MessageACK (Some g) 0 0 (zeros SURBIDLength) [],
           MessageEmpty 0, SendRetrievePacketReply (Some g) (zeros SURBIDLength) []],
        MaxMessageLenServerToClient = 0, MaxMessageLenClientToServer = 0, shouldPad = True\<rparr>"

definition NewStorageReplicaCommands ::
  "ext_sizes \<Rightarrow> (string \<Rightarrow> ('nsk, 'npk) nike_scheme option) \<Rightarrow> Geometry \<Rightarrow> ('nsk, 'npk) nike_scheme
     \<Rightarrow> 'spk Commands option" where
  "NewStorageReplicaCommands x nikeByName g scheme =
     (case NewGeometryFromSphinx x nikeByName g scheme of
        Ok pg \<Rightarrow>
          let hk = nike_PublicKeySize scheme;
              cs = [ReplicaMessage (Some pg) (Some hk) (zeros hk) (Some (zeros (DEKSize x))) (zeros (PacketLength g)),
                    ReplicaMessageReply (Some pg) 0 None 0 [], ReplicaWrite (Some pg) None None [],
                    ReplicaWriteReply 0, ReplicaDecoy, NoOp, Disconnect]
          in with_max_lengths x
               \<lparr>c_geo = Some g, c_pkiSignatureScheme = None, c_replicaNikeScheme = Some hk,
                clientToServerCommands = cs, serverToClientCommands = cs,
                MaxMessageLenServerToClient = 0, MaxMessageLenClientToServer = 0, shouldPad = True\<rparr>
      | _ \<Rightarrow> None)"

definition NewPKICommands :: "'spk sign_scheme option \<Rightarrow> 'spk Commands" where
  "NewPKICommands pkiSignatureScheme =
     \<lparr>c_geo = None, c_pkiSignatureScheme = pkiSignatureScheme, c_replicaNikeScheme = None,
      clientToServerCommands = [], serverToClientCommands = [],
      MaxMessageLenServerToClient = 50000000, MaxMessageLenClientToServer = 50000000, shouldPad = False\<rparr>"

definition MaxCommandSize :: "'spk Commands \<Rightarrow> nat" where
  "MaxCommandSize c =
     (if MaxMessageLenServerToClient c > MaxMessageLenClientToServer c then MaxMessageLenServerToClient c
      else MaxMessageLenClientToServer c)"

definition padToMaxCommandSize :: "'spk Commands \<Rightarrow> bytes \<Rightarrow> bool \<Rightarrow> bytes" where
  "padToMaxCommandSize c data isUpstream =
     (let maxMessageLen = (if isUpstream then MaxMessageLenClientToServer c else MaxMessageLenServerToClient c)
      in if maxMessageLen = 0 then data
         else if maxMessageLen \<le> length data then data
         else data @ zeros (maxMessageLen - length data))"

lemma padToMaxCommandSize_eq:
  "padToMaxCommandSize c data up =
     data @ zeros ((if up then MaxMessageLenClientToServer c else MaxMessageLenServerToClient c) - length data)"
  by (simp add: padToMaxCommandSize_def Let_def)

end
