(* ===== verification/Wire_Codec.thy ===== *)
theory Wire_Codec
  imports Wire_Commands
begin

text \<open>
  \<open>ToBytes\<close> and \<open>FromBytes\<close> of every command of \<open>src/core/wire/commands\<close>
  (\<open>commands.go\<close>, \<open>old_client_commands.go\<close>, \<open>pki_commands.go\<close>, \<open>storage_replica_commands.go\<close>), one
  definition for each method. \<open>cmds\<close> is the command's \<open>Cmds\<close> field and \<open>S\<close> the scheme of its public key.
\<close>

text \<open>The common header: command, reserved byte, 32-bit length.\<close>

definition cmd_header :: "byte \<Rightarrow> nat \<Rightarrow> bytes" where
  "cmd_header i n = [i, 0] @ PutUint32 (of_nat n)"

text \<open>The method on the pointer \<open>cmds\<close>, which dereferences it.\<close>

definition pad_via :: "'spk Commands option \<Rightarrow> bytes \<Rightarrow> bool \<Rightarrow> bytes option" where
  "pad_via cmds b up = Option.bind cmds (\<lambda>c. Some (padToMaxCommandSize c b up))"

text \<open>The same for the commands that are serialised without padding when \<open>cmds\<close> is nil.\<close>

definition pad_optional :: "'spk Commands option \<Rightarrow> bytes \<Rightarrow> bool \<Rightarrow> bytes" where
  "pad_optional cmds b up = (case cmds of None \<Rightarrow> b | Some c \<Rightarrow> padToMaxCommandSize c b up)"

section \<open>Serialisation\<close>

definition NoOp_ToBytes :: "'spk Commands option \<Rightarrow> bytes option" where
  "NoOp_ToBytes cmds = pad_via cmds (cmd_header noOp 0) True"

definition Disconnect_ToBytes :: "'spk Commands option \<Rightarrow> bytes option" where
  "Disconnect_ToBytes cmds = pad_via cmds (cmd_header disconnect 0) True"

definition SendRetrievePacket_ToBytes :: "'spk Commands option \<Rightarrow> Geometry option \<Rightarrow> bytes \<Rightarrow> bytes option" where
  "SendRetrievePacket_ToBytes cmds geo pkt =
     Option.bind geo (\<lambda>g.
       if length pkt \<noteq> PacketLength g then None
       else pad_via cmds (cmd_header sendRetrievePacket (length pkt) @ pkt) True)"

definition SendRetrievePacketReply_ToBytes :: "'spk Commands option \<Rightarrow> bytes \<Rightarrow> bytes \<Rightarrow> bytes option" where
  "SendRetrievePacketReply_ToBytes cmds surbID payload =
     pad_via cmds (cmd_header sendRetrievePacketReply (SURBIDLength + length payload) @
       go_copy (zeros SURBIDLength) surbID @ payload) False"

definition messageMsgPaddingLength :: "'spk Commands \<Rightarrow> nat option" where
  "messageMsgPaddingLength c = Option.bind (c_geo c) (\<lambda>g.
     Some (SURBIDLength + SphinxPlaintextHeaderLength g + SURBLength g + PayloadTagLength g))"

definition messageMsgLength :: "'spk Commands \<Rightarrow> nat option" where
  "messageMsgLength c = Option.bind (messageMsgPaddingLength c) (\<lambda>n. Some (messageBaseLength + n))"

definition messageACKLength :: nat where
  "messageACKLength = messageBaseLength + SURBIDLength"

definition messageEmptyLength :: "'spk Commands \<Rightarrow> nat option" where
  "messageEmptyLength c = Option.bind (c_geo c) (\<lambda>g.
     Some (messageACKLength + PayloadTagLength g + ForwardPayloadLength g))"

definition SendPacket_ToBytes :: "'spk Commands option \<Rightarrow> bytes \<Rightarrow> bytes option" where
  "SendPacket_ToBytes cmds pkt = pad_via cmds (cmd_header sendPacket (length pkt) @ pkt) True"

definition RetrieveMessage_ToBytes :: "'spk Commands option \<Rightarrow> 32 word \<Rightarrow> bytes option" where
  "RetrieveMessage_ToBytes cmds seq =
     pad_via cmds (cmd_header retreiveMessage retreiveMessageLength @ PutUint32 seq) True"

definition MessageACK_ToBytes ::
  "'spk Commands option \<Rightarrow> Geometry option \<Rightarrow> byte \<Rightarrow> 32 word \<Rightarrow> bytes \<Rightarrow> bytes \<Rightarrow> bytes option" where
  "MessageACK_ToBytes cmds geo hint seq i payload =
     Option.bind geo (\<lambda>g.
       if length payload \<noteq> PayloadTagLength g + ForwardPayloadLength g then None
       else pad_via cmds
         (cmd_header message (messageACKLength + length payload) @ [messageTypeACK, hint] @ PutUint32 seq @
          go_copy (zeros SURBIDLength) i @ payload) False)"

definition Message_ToBytes ::
  "'spk Commands option \<Rightarrow> Geometry option \<Rightarrow> byte \<Rightarrow> 32 word \<Rightarrow> bytes \<Rightarrow> bytes option" where
  "Message_ToBytes cmds geo hint seq payload =
     Option.bind geo (\<lambda>g.
       if length payload \<noteq> UserForwardPayloadLength g then None
       else Option.bind cmds (\<lambda>c. Option.bind (messageMsgPaddingLength c) (\<lambda>padding.
            Option.bind (messageMsgLength c) (\<lambda>l.
            pad_via cmds
              (cmd_header message (l + length payload) @ [messageTypeMessage, hint] @ PutUint32 seq @
               payload @ zeros padding) False))))"

definition MessageEmpty_ToBytes :: "'spk Commands option \<Rightarrow> 32 word \<Rightarrow> bytes option" where
  "MessageEmpty_ToBytes cmds seq =
     Option.bind cmds (\<lambda>c. Option.bind (messageEmptyLength c) (\<lambda>l.
       pad_via cmds (cmd_header message l @ [messageTypeEmpty, 0] @ PutUint32 seq @ zeros (l - messageBaseLength)) False))"

definition GetConsensus2_ToBytes :: "'spk Commands option \<Rightarrow> 64 word \<Rightarrow> bytes option" where
  "GetConsensus2_ToBytes cmds epoch =
     pad_via cmds (cmd_header getConsensus2 getConsensusLength @ PutUint64 epoch) True"

definition Consensus2_ToBytes ::
  "'spk Commands option \<Rightarrow> byte \<Rightarrow> 32 word \<Rightarrow> 32 word \<Rightarrow> bytes \<Rightarrow> bytes option" where
  "Consensus2_ToBytes cmds e chunkNum chunkTotal payload =
     pad_via cmds (cmd_header consensus2 (consensus2BaseLength + length payload) @ [e] @
       PutUint32 chunkNum @ PutUint32 chunkTotal @ payload) False"

definition PostReplicaDescriptorStatus_ToBytes :: "byte \<Rightarrow> bytes" where
  "PostReplicaDescriptorStatus_ToBytes e = cmd_header postReplicaDescriptorStatus postDescriptorStatusLength @ [e]"

definition PostReplicaDescriptor_ToBytes :: "64 word \<Rightarrow> bytes \<Rightarrow> bytes" where
  "PostReplicaDescriptor_ToBytes epoch payload =
     cmd_header postReplicaDescriptor (postDescriptorLength + length payload) @ PutUint64 epoch @ payload"

definition voteOverhead :: "'spk sign_scheme \<Rightarrow> nat" where "voteOverhead S = 8 + sign_PublicKeySize S"
definition revealOverhead :: "'spk sign_scheme \<Rightarrow> nat" where "revealOverhead S = 8 + sign_PublicKeySize S"
definition certOverhead :: "'spk sign_scheme \<Rightarrow> nat" where "certOverhead S = 8 + sign_PublicKeySize S"
definition sigOverhead :: "'spk sign_scheme \<Rightarrow> nat" where "sigOverhead S = 8 + sign_PublicKeySize S"

lemmas overhead_defs = voteOverhead_def revealOverhead_def certOverhead_def sigOverhead_def

definition GetConsensus_ToBytes :: "'spk Commands option \<Rightarrow> 64 word \<Rightarrow> bool \<Rightarrow> bytes option" where
  "GetConsensus_ToBytes cmds epoch mixnetTransmission =
     (let out = cmd_header getConsensus getConsensusLength @ PutUint64 epoch
      in if mixnetTransmission then pad_via cmds out True else Some out)"

definition GetVote_ToBytes :: "'spk sign_scheme \<Rightarrow> 64 word \<Rightarrow> 'spk \<Rightarrow> bytes option" where
  "GetVote_ToBytes S epoch pub =
     Option.bind (sign_MarshalBinary S pub) (\<lambda>blob.
       Some (cmd_header getVote (voteOverhead S) @ PutUint64 epoch @ blob))"

text \<open>The capacity \<open>cmdOverhead + consensusLength\<close> is computed in 32 bits and may not be below the length.\<close>

definition Consensus_ToBytes :: "byte \<Rightarrow> bytes \<Rightarrow> bytes option" where
  "Consensus_ToBytes e payload =
     (let consensusLength = of_nat (consensusBaseLength + length payload) :: 32 word
      in if unat (of_nat cmdOverhead + consensusLength) < cmdOverhead + consensusBaseLength then None
         else Some (cmd_header consensus (consensusBaseLength + length payload) @ [e] @ payload))"

definition PostDescriptor_ToBytes :: "64 word \<Rightarrow> bytes \<Rightarrow> bytes" where
  "PostDescriptor_ToBytes epoch payload =
     cmd_header postDescriptor (postDescriptorLength + length payload) @ PutUint64 epoch @ payload"

definition PostDescriptorStatus_ToBytes :: "byte \<Rightarrow> bytes" where
  "PostDescriptorStatus_ToBytes e = cmd_header postDescriptorStatus postDescriptorStatusLength @ [e]"

definition Reveal_ToBytes :: "'spk sign_scheme \<Rightarrow> 64 word \<Rightarrow> 'spk \<Rightarrow> bytes \<Rightarrow> bytes option" where
  "Reveal_ToBytes S epoch pub payload =
     Option.bind (sign_MarshalBinary S pub) (\<lambda>blob.
       Some (cmd_header reveal (revealOverhead S + length payload) @ PutUint64 epoch @
             go_copy (zeros (sign_PublicKeySize S)) blob @ payload))"

definition RevealStatus_ToBytes :: "byte \<Rightarrow> bytes" where
  "RevealStatus_ToBytes e = cmd_header revealStatus revealStatusLength @ [e]"

definition Vote_ToBytes :: "'spk sign_scheme \<Rightarrow> 64 word \<Rightarrow> 'spk \<Rightarrow> bytes \<Rightarrow> bytes option" where
  "Vote_ToBytes S epoch pub payload =
     Option.bind (sign_MarshalBinary S pub) (\<lambda>blob.
       Some (cmd_header vote (voteOverhead S + length payload) @ PutUint64 epoch @ blob @ payload))"

definition VoteStatus_ToBytes :: "byte \<Rightarrow> bytes" where
  "VoteStatus_ToBytes e = cmd_header voteStatus voteStatusLength @ [e]"

definition Cert_ToBytes :: "'spk sign_scheme \<Rightarrow> 64 word \<Rightarrow> 'spk \<Rightarrow> bytes \<Rightarrow> bytes option" where
  "Cert_ToBytes S epoch pub payload =
     Option.bind (sign_MarshalBinary S pub) (\<lambda>blob.
       Some (cmd_header certificate (certOverhead S + length payload) @ PutUint64 epoch @ blob @ payload))"

definition CertStatus_ToBytes :: "byte \<Rightarrow> bytes" where
  "CertStatus_ToBytes e = cmd_header certStatus certStatusLength @ [e]"

definition Sig_ToBytes :: "'spk sign_scheme \<Rightarrow> 64 word \<Rightarrow> 'spk \<Rightarrow> bytes \<Rightarrow> bytes option" where
  "Sig_ToBytes S epoch pub payload =
     Option.bind (sign_MarshalBinary S pub) (\<lambda>blob.
       Some (cmd_header sig (sigOverhead S + length payload) @ PutUint64 epoch @ blob @ payload))"

definition SigStatus_ToBytes :: "byte \<Rightarrow> bytes" where
  "SigStatus_ToBytes e = cmd_header sigStatus sigStatusLength @ [e]"

definition ReplicaWrite_ToBytes ::
  "ext_sizes \<Rightarrow> 'spk Commands option \<Rightarrow> bytes option \<Rightarrow> bytes option \<Rightarrow> bytes \<Rightarrow> bytes option" where
  "ReplicaWrite_ToBytes x cmds boxID signature payload =
     (let cmdLen = BoxIDSize x + SignatureSize x + length payload
      in Option.bind boxID (\<lambda>i. Option.bind signature (\<lambda>s.
         Some (pad_optional cmds (cmd_header replicaWrite cmdLen @ i @ s @ payload) True))))"

definition ReplicaWriteReply_ToBytes :: "'spk Commands option \<Rightarrow> byte \<Rightarrow> bytes" where
  "ReplicaWriteReply_ToBytes cmds e = pad_optional cmds (cmd_header replicaWriteReply replicaWriteReplyLength @ [e]) True"

definition ReplicaDecoy_ToBytes :: "'spk Commands option \<Rightarrow> bytes" where
  "ReplicaDecoy_ToBytes cmds = pad_optional cmds (cmd_header replicaDecoy 0) True"

definition ReplicaMessage_ToBytes ::
  "ext_sizes \<Rightarrow> 'spk Commands option \<Rightarrow> bytes \<Rightarrow> bytes option \<Rightarrow> bytes \<Rightarrow> bytes option" where
  "ReplicaMessage_ToBytes x cmds senderEPubKey dek ciphertext =
     Option.bind dek (\<lambda>d.
       let totalLen = length senderEPubKey + DEKSize x + length ciphertext
       in pad_via cmds (cmd_header replicaMessage totalLen @ senderEPubKey @ d @ ciphertext) True)"

definition ReplicaMessageReply_ToBytes ::
  "'spk Commands option \<Rightarrow> byte \<Rightarrow> bytes option \<Rightarrow> byte \<Rightarrow> bytes \<Rightarrow> bytes option" where
  "ReplicaMessageReply_ToBytes cmds e envelopeHash replicaID envelopeReply =
     Option.bind envelopeHash (\<lambda>h.
       Some (pad_optional cmds (cmd_header replicaMessageReply (1 + 32 + 1 + length envelopeReply) @
               [e] @ h @ [replicaID] @ envelopeReply) False))"

fun ToBytes :: "ext_sizes \<Rightarrow> 'spk sign_scheme \<Rightarrow> 'spk Commands option \<Rightarrow> 'spk Command \<Rightarrow> bytes option" where
  "ToBytes x S cmds NoOp = NoOp_ToBytes cmds"
| "ToBytes x S cmds Disconnect = Disconnect_ToBytes cmds"
| "ToBytes x S cmds (SendPacket pkt) = SendPacket_ToBytes cmds pkt"
| "ToBytes x S cmds (RetrieveMessage seq) = RetrieveMessage_ToBytes cmds seq"
| "ToBytes x S cmds (MessageACK geo hint seq i payload) = MessageACK_ToBytes cmds geo hint seq i payload"
| "ToBytes x S cmds (Message geo hint seq payload) = Message_ToBytes cmds geo hint seq payload"
| "ToBytes x S cmds (MessageEmpty seq) = MessageEmpty_ToBytes cmds seq"
| "ToBytes x S cmds (SendRetrievePacket geo pkt) = SendRetrievePacket_ToBytes cmds geo pkt"
| "ToBytes x S cmds (SendRetrievePacketReply geo i payload) = SendRetrievePacketReply_ToBytes cmds i payload"
| "ToBytes x S cmds (GetConsensus2 epoch) = GetConsensus2_ToBytes cmds epoch"
| "ToBytes x S cmds (Consensus2 e n t payload) = Consensus2_ToBytes cmds e n t payload"
| "ToBytes x S cmds (GetConsensus epoch mix) = GetConsensus_ToBytes cmds epoch mix"
| "ToBytes x S cmds (Consensus e payload) = Consensus_ToBytes e payload"
| "ToBytes x S cmds (PostDescriptor epoch payload) = Some (PostDescriptor_ToBytes epoch payload)"
| "ToBytes x S cmds (PostDescriptorStatus e) = Some (PostDescriptorStatus_ToBytes e)"
| "ToBytes x S cmds (PostReplicaDescriptor epoch payload) = Some (PostReplicaDescriptor_ToBytes epoch payload)"
| "ToBytes x S cmds (PostReplicaDescriptorStatus e) = Some (PostReplicaDescriptorStatus_ToBytes e)"
| "ToBytes x S cmds (GetVote epoch pub) = GetVote_ToBytes S epoch pub"
| "ToBytes x S cmds (Vote epoch pub payload) = Vote_ToBytes S epoch pub payload"
| "ToBytes x S cmds (VoteStatus e) = Some (VoteStatus_ToBytes e)"
| "ToBytes x S cmds (Reveal epoch pub payload) = Reveal_ToBytes S epoch pub payload"
| "ToBytes x S cmds (RevealStatus e) = Some (RevealStatus_ToBytes e)"
| "ToBytes x S cmds (Cert epoch pub payload) = Cert_ToBytes S epoch pub payload"
| "ToBytes x S cmds (CertStatus e) = Some (CertStatus_ToBytes e)"
| "ToBytes x S cmds (Sig epoch pub payload) = Sig_ToBytes S epoch pub payload"
| "ToBytes x S cmds (SigStatus e) = Some (SigStatus_ToBytes e)"
| "ToBytes x S cmds (ReplicaWrite pg i s payload) = ReplicaWrite_ToBytes x cmds i s payload"
| "ToBytes x S cmds (ReplicaWriteReply e) = Some (ReplicaWriteReply_ToBytes cmds e)"
| "ToBytes x S cmds ReplicaDecoy = Some (ReplicaDecoy_ToBytes cmds)"
| "ToBytes x S cmds (ReplicaMessage pg sch k d c) = ReplicaMessage_ToBytes x cmds k d c"
| "ToBytes x S cmds (ReplicaMessageReply pg e h i r) = ReplicaMessageReply_ToBytes cmds e h i r"

section \<open>De-serialisation\<close>

datatype wire_error =
    errInvalidCommand
  | errWtfInvalidCommand
  | errMessageTooShort
  | errUnmarshalPublicKey

type_synonym 'spk parsed = "(wire_error, 'spk Command) outcome"

definition sendRetrievePacketFromBytes :: "bytes \<Rightarrow> 'spk Commands \<Rightarrow> 'spk parsed" where
  "sendRetrievePacketFromBytes b cmds = Ok (SendRetrievePacket (c_geo cmds) b)"

text \<open>
  \<open>b[:16]\<close> may reach past the end of \<open>b\<close> into the padding \<open>ext\<close> behind it (the capacity of the slice),
  but \<open>b[16:]\<close> may not.
\<close>

definition sendRetrievePacketReplyFromBytes :: "bytes \<Rightarrow> bytes \<Rightarrow> 'spk Commands \<Rightarrow> 'spk parsed" where
  "sendRetrievePacketReplyFromBytes b ext cmds =
     obind (slice (b @ ext) 0 SURBIDLength) (\<lambda>i.
     obind (slice_from b SURBIDLength) (\<lambda>payload.
     Ok (SendRetrievePacketReply (c_geo cmds) i payload)))"

definition sendPacketFromBytes :: "bytes \<Rightarrow> 'spk parsed" where
  "sendPacketFromBytes b = Ok (SendPacket b)"

definition retreiveMessageFromBytes :: "bytes \<Rightarrow> 'spk parsed" where
  "retreiveMessageFromBytes b =
     (if length b \<noteq> retreiveMessageLength then Err errInvalidCommand
      else obind (slice b 0 4) (\<lambda>w. Ok (RetrieveMessage (Uint32 w))))"

definition messageFromBytes :: "'spk Commands \<Rightarrow> bytes \<Rightarrow> 'spk parsed" where
  "messageFromBytes c b0 =
     (if length b0 < messageBaseLength then Err errInvalidCommand
      else
        let t = b0 ! 0;
            hint = b0 ! 1
        in
        obind (slice b0 2 6) (\<lambda>s.
        obind (slice_from b0 messageBaseLength) (\<lambda>b.
        let seq = Uint32 s
        in
        if t = messageTypeACK then
          obind (of_option (c_geo c)) (\<lambda>g.
          if length b \<noteq> SURBIDLength + PayloadTagLength g + ForwardPayloadLength g then Err errInvalidCommand
          else
            obind (slice b 0 SURBIDLength) (\<lambda>i.
            obind (slice_from b SURBIDLength) (\<lambda>payload.
            Ok (MessageACK None hint seq i payload))))
        else if t = messageTypeMessage then
          obind (of_option (c_geo c)) (\<lambda>g.
          obind (of_option (messageMsgPaddingLength c)) (\<lambda>n.
          if length b \<noteq> n + UserForwardPayloadLength g then Err errInvalidCommand
          else
            obind (slice_from b (UserForwardPayloadLength g)) (\<lambda>padding.
            if \<not> CtIsZero padding then Err errInvalidCommand
            else
              obind (slice b 0 (UserForwardPayloadLength g)) (\<lambda>payload.
              Ok (Message None hint seq payload)))))
        else if t = messageTypeEmpty then
          obind (of_option (messageEmptyLength c)) (\<lambda>n.
          if length b + messageBaseLength \<noteq> n then Err errInvalidCommand
          else if \<not> CtIsZero b then Err errInvalidCommand
          else Ok (MessageEmpty seq))
        else Err errInvalidCommand)))"

definition getConsensus2FromBytes :: "bytes \<Rightarrow> 'spk parsed" where
  "getConsensus2FromBytes b =
     (if length b \<noteq> getConsensusLength then Err errInvalidCommand
      else obind (slice b 0 8) (\<lambda>w. Ok (GetConsensus2 (Uint64 w))))"

text \<open>The guard compares with \<open>consensusBaseLength\<close>; the slices may reach into the padding \<open>ext\<close>.\<close>

definition consensus2FromBytes :: "bytes \<Rightarrow> bytes \<Rightarrow> 'spk parsed" where
  "consensus2FromBytes b ext =
     (if length b < consensusBaseLength then Err errInvalidCommand
      else
        obind (slice (b @ ext) 1 5) (\<lambda>n.
        obind (slice (b @ ext) 5 9) (\<lambda>t.
        Ok (Consensus2 (b ! 0) (Uint32 n) (Uint32 t)
              (if length b > consensus2BaseLength then drop consensus2BaseLength b else [])))))"

definition postReplicaDescriptorStatusFromBytes :: "bytes \<Rightarrow> 'spk parsed" where
  "postReplicaDescriptorStatusFromBytes b =
     (if length b \<noteq> postDescriptorStatusLength then Err errInvalidCommand else Ok (PostReplicaDescriptorStatus (b ! 0)))"

definition postReplicaDescriptorFromBytes :: "bytes \<Rightarrow> 'spk parsed" where
  "postReplicaDescriptorFromBytes b =
     (if length b < postDescriptorLength then Err errInvalidCommand
      else obind (slice b 0 8) (\<lambda>w. obind (slice_from b postDescriptorLength) (\<lambda>payload.
           Ok (PostReplicaDescriptor (Uint64 w) payload))))"

definition getConsensusFromBytes :: "bytes \<Rightarrow> 'spk parsed" where
  "getConsensusFromBytes b =
     (if length b \<noteq> getConsensusLength then Err errInvalidCommand
      else obind (slice b 0 8) (\<lambda>w. Ok (GetConsensus (Uint64 w) False)))"

text \<open>The scheme is nil in the \<open>Commands\<close> objects that are not for the PKI.\<close>

definition unmarshal_key :: "'spk sign_scheme \<Rightarrow> bytes \<Rightarrow> (wire_error, 'spk) outcome" where
  "unmarshal_key S b =
     obind (slice b 8 (8 + sign_PublicKeySize S)) (\<lambda>raw.
     case sign_UnmarshalBinaryPublicKey S raw of None \<Rightarrow> Err errUnmarshalPublicKey | Some k \<Rightarrow> Ok k)"

definition getVoteFromBytes :: "bytes \<Rightarrow> 'spk sign_scheme option \<Rightarrow> 'spk parsed" where
  "getVoteFromBytes b scheme =
     obind (of_option scheme) (\<lambda>S.
     if length b \<noteq> voteOverhead S then Err errInvalidCommand
     else obind (slice b 0 8) (\<lambda>w. obind (unmarshal_key S b) (\<lambda>k. Ok (GetVote (Uint64 w) k))))"

definition consensusFromBytes :: "bytes \<Rightarrow> 'spk parsed" where
  "consensusFromBytes b =
     (if length b < consensusBaseLength then Err errInvalidCommand
      else Ok (Consensus (b ! 0) (drop consensusBaseLength b)))"

definition postDescriptorFromBytes :: "bytes \<Rightarrow> 'spk parsed" where
  "postDescriptorFromBytes b =
     (if length b < postDescriptorLength then Err errInvalidCommand
      else obind (slice b 0 8) (\<lambda>w. obind (slice_from b postDescriptorLength) (\<lambda>payload.
           Ok (PostDescriptor (Uint64 w) payload))))"

definition postDescriptorStatusFromBytes :: "bytes \<Rightarrow> 'spk parsed" where
  "postDescriptorStatusFromBytes b =
     (if length b \<noteq> postDescriptorStatusLength then Err errInvalidCommand else Ok (PostDescriptorStatus (b ! 0)))"

definition revealFromBytes :: "bytes \<Rightarrow> 'spk sign_scheme option \<Rightarrow> 'spk parsed" where
  "revealFromBytes b scheme =
     obind (of_option scheme) (\<lambda>S.
     if length b < revealOverhead S then Err errWtfInvalidCommand
     else obind (slice b 0 8) (\<lambda>w. obind (unmarshal_key S b) (\<lambda>k.
          obind (slice_from b (revealOverhead S)) (\<lambda>payload. Ok (Reveal (Uint64 w) k payload)))))"

definition revealStatusFromBytes :: "bytes \<Rightarrow> 'spk parsed" where
  "revealStatusFromBytes b =
     (if length b \<noteq> revealStatusLength then Err errWtfInvalidCommand else Ok (RevealStatus (b ! 0)))"

definition voteFromBytes :: "bytes \<Rightarrow> 'spk sign_scheme option \<Rightarrow> 'spk parsed" where
  "voteFromBytes b scheme =
     obind (of_option scheme) (\<lambda>S.
     if length b < voteOverhead S then Err errInvalidCommand
     else obind (slice b 0 8) (\<lambda>w. obind (unmarshal_key S b) (\<lambda>k.
          obind (slice_from b (voteOverhead S)) (\<lambda>payload. Ok (Vote (Uint64 w) k payload)))))"

definition voteStatusFromBytes :: "bytes \<Rightarrow> 'spk parsed" where
  "voteStatusFromBytes b =
     (if length b \<noteq> voteStatusLength then Err errInvalidCommand else Ok (VoteStatus (b ! 0)))"

definition certFromBytes :: "bytes \<Rightarrow> 'spk sign_scheme option \<Rightarrow> 'spk parsed" where
  "certFromBytes b scheme =
     obind (of_option scheme) (\<lambda>S.
     if length b < certOverhead S then Err errInvalidCommand
     else obind (slice b 0 8) (\<lambda>w. obind (unmarshal_key S b) (\<lambda>k.
          obind (slice_from b (certOverhead S)) (\<lambda>payload. Ok (Cert (Uint64 w) k payload)))))"

definition certStatusFromBytes :: "bytes \<Rightarrow> 'spk parsed" where
  "certStatusFromBytes b =
     (if length b \<noteq> certStatusLength then Err errInvalidCommand else Ok (CertStatus (b ! 0)))"

definition sigFromBytes :: "bytes \<Rightarrow> 'spk sign_scheme option \<Rightarrow> 'spk parsed" where
  "sigFromBytes b scheme =
     obind (of_option scheme) (\<lambda>S.
     if length b < sigOverhead S then Err errInvalidCommand
     else obind (slice b 0 8) (\<lambda>w. obind (unmarshal_key S b) (\<lambda>k.
          obind (slice_from b (sigOverhead S)) (\<lambda>payload. Ok (Sig (Uint64 w) k payload)))))"

definition sigStatusFromBytes :: "bytes \<Rightarrow> 'spk parsed" where
  "sigStatusFromBytes b =
     (if length b \<noteq> sigStatusLength then Err errInvalidCommand else Ok (SigStatus (b ! 0)))"

definition replicaWriteFromBytes :: "ext_sizes \<Rightarrow> bytes \<Rightarrow> 'spk parsed" where
  "replicaWriteFromBytes x b =
     (if length b < BoxIDSize x + SignatureSize x then Err errInvalidCommand
      else
        obind (slice b 0 (BoxIDSize x)) (\<lambda>i.
        obind (slice b (BoxIDSize x) (BoxIDSize x + SignatureSize x)) (\<lambda>s.
        obind (slice_from b (BoxIDSize x + SignatureSize x)) (\<lambda>payload.
        Ok (ReplicaWrite None (Some i) (Some s) payload)))))"

definition replicaWriteReplyFromBytes :: "bytes \<Rightarrow> 'spk parsed" where
  "replicaWriteReplyFromBytes b =
     (if length b \<noteq> postDescriptorStatusLength then Err errInvalidCommand else Ok (ReplicaWriteReply (b ! 0)))"

definition replicaDecoyFromBytes :: "bytes \<Rightarrow> 'spk parsed" where
  "replicaDecoyFromBytes b = Ok ReplicaDecoy"

definition replicaMessageFromBytes :: "ext_sizes \<Rightarrow> bytes \<Rightarrow> 'spk Commands \<Rightarrow> 'spk parsed" where
  "replicaMessageFromBytes x b cmds =
     obind (of_option (HybridKeySize (c_replicaNikeScheme cmds))) (\<lambda>hkSize.
     if length b < hkSize + DEKSize x + 4 then Err errMessageTooShort
     else
       obind (slice b 0 hkSize) (\<lambda>k.
       obind (slice b hkSize (hkSize + DEKSize x)) (\<lambda>d.
       obind (slice_from b (hkSize + DEKSize x)) (\<lambda>c.
       Ok (ReplicaMessage None (c_replicaNikeScheme cmds) k (Some d) c)))))"

definition replicaMessageReplyFromBytes :: "bytes \<Rightarrow> 'spk parsed" where
  "replicaMessageReplyFromBytes b =
     (if length b < 1 + 32 + 1 then Err errInvalidCommand
      else
        obind (slice b 1 33) (\<lambda>h.
        obind (slice_from b 34) (\<lambda>r.
        Ok (ReplicaMessageReply None (b ! 0) (Some h) (b ! 33) r))))"

text \<open>The commands that require actual parsing; \<open>b\<close> is the body and \<open>ext\<close> the padding behind it.\<close>

definition body_FromBytes :: "ext_sizes \<Rightarrow> 'spk Commands \<Rightarrow> byte \<Rightarrow> bytes \<Rightarrow> bytes \<Rightarrow> 'spk parsed" where
  "body_FromBytes x c i b ext =
     (if i = consensus2 then consensus2FromBytes b ext
      else if i = postReplicaDescriptor then postReplicaDescriptorFromBytes b
      else if i = postReplicaDescriptorStatus then postReplicaDescriptorStatusFromBytes b
      else if i = replicaWrite then replicaWriteFromBytes x b
      else if i = replicaWriteReply then replicaWriteReplyFromBytes b
      else if i = replicaMessage then replicaMessageFromBytes x b c
      else if i = replicaMessageReply then replicaMessageReplyFromBytes b
      else if i = replicaDecoy then replicaDecoyFromBytes b
      else if i = sendRetrievePacket then sendRetrievePacketFromBytes b c
      else if i = sendRetrievePacketReply then sendRetrievePacketReplyFromBytes b ext c
      else if i = sendPacket then sendPacketFromBytes b
      else if i = retreiveMessage then retreiveMessageFromBytes b
      else if i = message then messageFromBytes c b
      else if i = getConsensus then getConsensusFromBytes b
      else if i = getConsensus2 then getConsensus2FromBytes b
      else if i = consensus then consensusFromBytes b
      else if i = postDescriptor then postDescriptorFromBytes b
      else if i = postDescriptorStatus then postDescriptorStatusFromBytes b
      else if i = getVote then getVoteFromBytes b (c_pkiSignatureScheme c)
      else if i = vote then voteFromBytes b (c_pkiSignatureScheme c)
      else if i = voteStatus then voteStatusFromBytes b
      else if i = certificate then certFromBytes b (c_pkiSignatureScheme c)
      else if i = certStatus then certStatusFromBytes b
      else if i = reveal then revealFromBytes b (c_pkiSignatureScheme c)
      else if i = revealStatus then revealStatusFromBytes b
      else if i = sig then sigFromBytes b (c_pkiSignatureScheme c)
      else if i = sigStatus then sigStatusFromBytes b
      else Err errInvalidCommand)"

definition FromBytes :: "ext_sizes \<Rightarrow> 'spk Commands \<Rightarrow> bytes \<Rightarrow> 'spk parsed" where
  "FromBytes x c b0 =
     (if length b0 < cmdOverhead then Err errInvalidCommand
      else
        let i = b0 ! 0
        in if b0 ! 1 \<noteq> 0 then Err errInvalidCommand
           else
             obind (slice b0 2 6) (\<lambda>l.
             obind (slice_from b0 cmdOverhead) (\<lambda>b.
             let cmdLen = Uint32 l
             in if (of_nat (length b) :: 32 word) < cmdLen then Err errInvalidCommand
                else
                  obind (slice_from b (unat cmdLen)) (\<lambda>padding.
                  if \<not> CtIsZero padding then Err errInvalidCommand
                  else if cmdLen = 0 \<and> i = noOp then Ok NoOp
                  else if cmdLen = 0 \<and> i = disconnect then Ok Disconnect
                  else if cmdLen = 0 \<and> i = replicaDecoy then Ok ReplicaDecoy
                  else if cmdLen = 0 \<and>
                          i \<notin> {sendPacket, postDescriptor, sendRetrievePacket, sendRetrievePacketReply}
                       then Err errInvalidCommand
                  else obind (slice b 0 (unat cmdLen)) (\<lambda>body. body_FromBytes x c i body padding)))))"

end
