(* ===== verification/Wire_Props.thy ===== *)
theory Wire_Props
  imports Wire_Codec
begin

text \<open>
  What the codec of the link protocol promises: every well-formed command parses back from its
  serialisation, padded serialisations have one length in each direction, and exactly which received
  bytes make \<open>FromBytes\<close> panic.
\<close>

section \<open>Frames\<close>

lemma length_cmd_header [simp]: "length (cmd_header i n) = 6"
  by (simp add: cmd_header_def)

lemma body_FromBytes_simps [simp]:
  "body_FromBytes x c consensus2 b e = consensus2FromBytes b e"
  "body_FromBytes x c postReplicaDescriptor b e = postReplicaDescriptorFromBytes b"
  "body_FromBytes x c postReplicaDescriptorStatus b e = postReplicaDescriptorStatusFromBytes b"
  "body_FromBytes x c replicaWrite b e = replicaWriteFromBytes x b"
  "body_FromBytes x c replicaWriteReply b e = replicaWriteReplyFromBytes b"
  "body_FromBytes x c replicaMessage b e = replicaMessageFromBytes x b c"
  "body_FromBytes x c replicaMessageReply b e = replicaMessageReplyFromBytes b"
  "body_FromBytes x c replicaDecoy b e = replicaDecoyFromBytes b"
  "body_FromBytes x c sendRetrievePacket b e = sendRetrievePacketFromBytes b c"
  "body_FromBytes x c sendRetrievePacketReply b e = sendRetrievePacketReplyFromBytes b e c"
  "body_FromBytes x c sendPacket b e = sendPacketFromBytes b"
  "body_FromBytes x c retreiveMessage b e = retreiveMessageFromBytes b"
  "body_FromBytes x c message b e = messageFromBytes c b"
  "body_FromBytes x c getConsensus b e = getConsensusFromBytes b"
  "body_FromBytes x c getConsensus2 b e = getConsensus2FromBytes b"
  "body_FromBytes x c consensus b e = consensusFromBytes b"
  "body_FromBytes x c postDescriptor b e = postDescriptorFromBytes b"
  "body_FromBytes x c postDescriptorStatus b e = postDescriptorStatusFromBytes b"
  "body_FromBytes x c getVote b e = getVoteFromBytes b (c_pkiSignatureScheme c)"
  "body_FromBytes x c vote b e = voteFromBytes b (c_pkiSignatureScheme c)"
  "body_FromBytes x c voteStatus b e = voteStatusFromBytes b"
  "body_FromBytes x c certificate b e = certFromBytes b (c_pkiSignatureScheme c)"
  "body_FromBytes x c certStatus b e = certStatusFromBytes b"
  "body_FromBytes x c reveal b e = revealFromBytes b (c_pkiSignatureScheme c)"
  "body_FromBytes x c revealStatus b e = revealStatusFromBytes b"
  "body_FromBytes x c sig b e = sigFromBytes b (c_pkiSignatureScheme c)"
  "body_FromBytes x c sigStatus b e = sigStatusFromBytes b"
  by (simp_all add: body_FromBytes_def wire_ids)

lemma unat_of_nat_32 [simp]: "n < 2 ^ 32 \<Longrightarrow> unat (of_nat n :: 32 word) = n"
  by (simp add: unat_of_nat)

text \<open>A frame: header, body, zero padding.\<close>

lemma FromBytes_frame:
  assumes "length body + k < 2 ^ 32"
  shows "FromBytes x c (cmd_header i (length body) @ body @ zeros k) =
     (if body = [] \<and> i = noOp then Ok NoOp
      else if body = [] \<and> i = disconnect then Ok Disconnect
      else if body = [] \<and> i = replicaDecoy then Ok ReplicaDecoy
      else if body = [] \<and> i \<notin> {sendPacket, postDescriptor, sendRetrievePacket, sendRetrievePacketReply}
           then Err errInvalidCommand
      else body_FromBytes x c i body (zeros k))"
proof -
  let ?b = "cmd_header i (length body) @ body @ zeros k"
  let ?w = "of_nat (length body) :: 32 word"
  have w: "unat ?w = length body" using assms by simp
  have ge: "\<not> (of_nat (length body + k) :: 32 word) < ?w"
    unfolding word_less_nat_alt w unat_of_nat_32 [OF assms] by simp
  have z: "?w = 0 \<longleftrightarrow> body = []"
  proof
    assume "?w = 0"
    then have "unat ?w = 0" by simp
    with w show "body = []" by simp
  qed simp
  define b0 where b0: "b0 = ?b"
  have sl: "slice b0 2 6 = (Ok (PutUint32 ?w) :: (wire_error, bytes) outcome)"
    "slice_from b0 cmdOverhead = (Ok (body @ zeros k) :: (wire_error, bytes) outcome)"
    "slice_from (body @ zeros k) (length body) = (Ok (zeros k) :: (wire_error, bytes) outcome)"
    "slice (body @ zeros k) 0 (length body) = (Ok body :: (wire_error, bytes) outcome)"
    by (simp_all add: b0 slice_def cmd_header_def)
  have n: "b0 ! 0 = i" "b0 ! 1 = 0" "\<not> length b0 < cmdOverhead" by (simp_all add: b0 cmd_header_def)
  have lb: "length (body @ zeros k) = length body + k" by simp
  show ?thesis
    unfolding b0 [symmetric] FromBytes_def Let_def n
    by (simp only: n sl obind.simps Uint32_PutUint32 w ge z lb CtIsZero_zeros if_False if_True not_True_eq_False simp_thms)
qed

text \<open>The two ways of padding give frames.\<close>

lemma pad_via_frame:
  "pad_via (Some c) (cmd_header i n @ b) up =
     Some (cmd_header i n @ b @
       zeros ((if up then MaxMessageLenClientToServer c else MaxMessageLenServerToClient c) - (6 + length b)))"
  by (simp add: pad_via_def padToMaxCommandSize_eq)

lemma pad_optional_frame:
  "pad_optional (Some c) (cmd_header i n @ b) up =
     cmd_header i n @ b @
       zeros ((if up then MaxMessageLenClientToServer c else MaxMessageLenServerToClient c) - (6 + length b))"
  by (simp add: pad_optional_def padToMaxCommandSize_eq)

section \<open>Well-formed commands\<close>

definition sign_ok :: "'spk sign_scheme \<Rightarrow> bool" where
  "sign_ok S \<longleftrightarrow>
     (\<forall>k. \<exists>b. sign_MarshalBinary S k = Some b \<and> length b = sign_PublicKeySize S \<and>
           sign_UnmarshalBinaryPublicKey S b = Some k)"

text \<open>The padded sizes are 32-bit sizes.\<close>

definition max_lengths_ok :: "'spk Commands \<Rightarrow> bool" where
  "max_lengths_ok c \<longleftrightarrow> MaxMessageLenClientToServer c < 2 ^ 32 \<and> MaxMessageLenServerToClient c < 2 ^ 32"

text \<open>
  The field sizes that a command may have under the \<open>Commands\<close> object \<open>c\<close> that sends and parses it, and the
  schemes and geometries it relies on. Bodies have 32-bit lengths.
\<close>

definition key_wf :: "'spk sign_scheme \<Rightarrow> 'spk Commands \<Rightarrow> nat \<Rightarrow> bool" where
  "key_wf S c n \<longleftrightarrow> sign_ok S \<and> c_pkiSignatureScheme c = Some S \<and> 8 + sign_PublicKeySize S + n < 2 ^ 32"

fun wire_wf :: "ext_sizes \<Rightarrow> 'spk sign_scheme \<Rightarrow> 'spk Commands \<Rightarrow> 'spk Command \<Rightarrow> bool" where
  "wire_wf x S c (SendPacket pkt) = (length pkt < 2 ^ 32)"
| "wire_wf x S c (MessageACK geo hint seq i payload) =
     (\<exists>g. geo = Some g \<and> c_geo c = Some g \<and> length i = SURBIDLength \<and>
        length payload = PayloadTagLength g + ForwardPayloadLength g \<and> messageACKLength + length payload < 2 ^ 32)"
| "wire_wf x S c (Message geo hint seq payload) =
     (\<exists>g. geo = Some g \<and> c_geo c = Some g \<and> length payload = UserForwardPayloadLength g \<and>
        messageBaseLength + (SURBIDLength + SphinxPlaintextHeaderLength g + SURBLength g + PayloadTagLength g) +
          length payload < 2 ^ 32)"
| "wire_wf x S c (MessageEmpty seq) =
     (\<exists>g. c_geo c = Some g \<and> messageACKLength + PayloadTagLength g + ForwardPayloadLength g < 2 ^ 32)"
| "wire_wf x S c (SendRetrievePacket geo pkt) = (\<exists>g. geo = Some g \<and> length pkt = PacketLength g \<and> length pkt < 2 ^ 32)"
| "wire_wf x S c (SendRetrievePacketReply geo i payload) =
     (length i = SURBIDLength \<and> SURBIDLength + length payload < 2 ^ 32)"
| "wire_wf x S c (Consensus2 e n t payload) = (consensus2BaseLength + length payload < 2 ^ 32)"
| "wire_wf x S c (Consensus e payload) = (cmdOverhead + consensusBaseLength + length payload < 2 ^ 32)"
| "wire_wf x S c (PostDescriptor epoch payload) = (postDescriptorLength + length payload < 2 ^ 32)"
| "wire_wf x S c (PostReplicaDescriptor epoch payload) = (postDescriptorLength + length payload < 2 ^ 32)"
| "wire_wf x S c (GetVote epoch pub) = key_wf S c 0"
| "wire_wf x S c (Vote epoch pub payload) = key_wf S c (length payload)"
| "wire_wf x S c (Reveal epoch pub payload) = key_wf S c (length payload)"
| "wire_wf x S c (Cert epoch pub payload) = key_wf S c (length payload)"
| "wire_wf x S c (Sig epoch pub payload) = key_wf S c (length payload)"
| "wire_wf x S c (ReplicaWrite pg i s payload) =
     (\<exists>bi bs. i = Some bi \<and> s = Some bs \<and> length bi = BoxIDSize x \<and> length bs = SignatureSize x \<and>
        0 < BoxIDSize x + SignatureSize x + length payload \<and> BoxIDSize x + SignatureSize x + length payload < 2 ^ 32)"
| "wire_wf x S c (ReplicaMessage pg sch k d ct) =
     (\<exists>bd. d = Some bd \<and> length bd = DEKSize x \<and> c_replicaNikeScheme c = Some (length k) \<and> 4 \<le> length ct \<and>
        length k + DEKSize x + length ct < 2 ^ 32)"
| "wire_wf x S c (ReplicaMessageReply pg e h i r) = (\<exists>bh. h = Some bh \<and> length bh = 32 \<and> 34 + length r < 2 ^ 32)"
| "wire_wf x S c _ = True"

text \<open>The fields that do not travel: the receiver fills in its own or leaves them nil.\<close>

fun as_received :: "'spk Commands \<Rightarrow> 'spk Command \<Rightarrow> 'spk Command" where
  "as_received c (MessageACK geo hint seq i payload) = MessageACK None hint seq i payload"
| "as_received c (Message geo hint seq payload) = Message None hint seq payload"
| "as_received c (SendRetrievePacket geo pkt) = SendRetrievePacket (c_geo c) pkt"
| "as_received c (SendRetrievePacketReply geo i payload) = SendRetrievePacketReply (c_geo c) i payload"
| "as_received c (GetConsensus epoch mix) = GetConsensus epoch False"
| "as_received c (ReplicaWrite pg i s payload) = ReplicaWrite None i s payload"
| "as_received c (ReplicaMessage pg sch k d ct) = ReplicaMessage None (c_replicaNikeScheme c) k d ct"
| "as_received c (ReplicaMessageReply pg e h i r) = ReplicaMessageReply None e h i r"
| "as_received c cmd = cmd"

section \<open>Round trip\<close>

text \<open>Serialised as the frame with command \<open>i\<close> and body \<open>body\<close>, which parses to \<open>r\<close>.\<close>

definition framed ::
  "ext_sizes \<Rightarrow> 'spk Commands \<Rightarrow> bytes option \<Rightarrow> byte \<Rightarrow> bytes \<Rightarrow> 'spk Command \<Rightarrow> bool" where
  "framed x c out i body r \<longleftrightarrow>
     (\<exists>k. out = Some (cmd_header i (length body) @ body @ zeros k) \<and> length body + k < 2 ^ 32 \<and>
        body_FromBytes x c i body (zeros k) = Ok r)"

lemma framed_round_trip:
  assumes "framed x c out i body r"
    and "body \<noteq> [] \<or> i \<in> {sendPacket, postDescriptor, sendRetrievePacket, sendRetrievePacketReply}"
  shows "\<exists>b. out = Some b \<and> FromBytes x c b = Ok r"
proof -
  from assms(1) obtain k where k: "out = Some (cmd_header i (length body) @ body @ zeros k)" "length body + k < 2 ^ 32"
    "body_FromBytes x c i body (zeros k) = Ok r"
    by (auto simp: framed_def)
  have "body = [] \<Longrightarrow> i \<noteq> noOp \<and> i \<noteq> disconnect \<and> i \<noteq> replicaDecoy"
    using assms(2) by (auto simp: wire_ids)
  with k assms(2) show ?thesis by (auto simp: FromBytes_frame)
qed

lemma framed_pad:
  assumes "max_lengths_ok c" and "n = length body" and "length body < 2 ^ 32"
    and "\<And>k. body_FromBytes x c i body (zeros k) = Ok r"
  shows "framed x c (pad_via (Some c) (cmd_header i n @ body) up) i body r"
    and "framed x c (Some (pad_optional (Some c) (cmd_header i n @ body) up)) i body r"
    and "framed x c (Some (cmd_header i n @ body)) i body r"
proof -
  let ?k = "(if up then MaxMessageLenClientToServer c else MaxMessageLenServerToClient c) - (6 + length body)"
  have b: "length body + ?k < 2 ^ 32" using assms(1,3) by (auto simp: max_lengths_ok_def)
  show "framed x c (pad_via (Some c) (cmd_header i n @ body) up) i body r"
    "framed x c (Some (pad_optional (Some c) (cmd_header i n @ body) up)) i body r"
    unfolding framed_def pad_via_frame pad_optional_frame assms(2)
    by (rule exI [of _ ?k], rule conjI [OF refl conjI [OF b assms(4)]])+
  show "framed x c (Some (cmd_header i n @ body)) i body r"
    unfolding framed_def using assms(2,3) assms(4) [of 0] by (intro exI [of _ 0]) simp
qed

lemma unmarshal_key_ok:
  assumes "length w = 8" and "length b = sign_PublicKeySize S" and "sign_UnmarshalBinaryPublicKey S b = Some k"
  shows "unmarshal_key S (w @ b @ t) = Ok k"
  using assms by (simp add: unmarshal_key_def slice_def)

text \<open>The bodies with a public key.\<close>

lemma keyed_bodies:
  assumes "key_wf S c n" and "length payload = n"
  obtains blob where "sign_MarshalBinary S pub = Some blob" "length blob = sign_PublicKeySize S"
    "8 + sign_PublicKeySize S + length payload < 2 ^ 32"
    "voteFromBytes (PutUint64 epoch @ blob @ payload) (c_pkiSignatureScheme c) = Ok (Vote epoch pub payload)"
    "revealFromBytes (PutUint64 epoch @ blob @ payload) (c_pkiSignatureScheme c) = Ok (Reveal epoch pub payload)"
    "certFromBytes (PutUint64 epoch @ blob @ payload) (c_pkiSignatureScheme c) = Ok (Cert epoch pub payload)"
    "sigFromBytes (PutUint64 epoch @ blob @ payload) (c_pkiSignatureScheme c) = Ok (Sig epoch pub payload)"
    "payload = [] \<longrightarrow> getVoteFromBytes (PutUint64 epoch @ blob) (c_pkiSignatureScheme c) = Ok (GetVote epoch pub)"
proof -
  from assms(1) obtain blob where blob: "sign_MarshalBinary S pub = Some blob" "length blob = sign_PublicKeySize S"
    "sign_UnmarshalBinaryPublicKey S blob = Some pub"
    unfolding key_wf_def sign_ok_def by blast
  have S: "c_pkiSignatureScheme c = Some S" and "8 + sign_PublicKeySize S + length payload < 2 ^ 32"
    using assms by (auto simp: key_wf_def)
  have k: "unmarshal_key S (PutUint64 epoch @ blob @ payload) = Ok pub"
    using blob by (intro unmarshal_key_ok) simp_all
  then have k0: "payload = [] \<Longrightarrow> unmarshal_key S (PutUint64 epoch @ blob) = Ok pub" by simp
  show thesis
  proof (rule that [OF blob(1,2)])
    show "8 + sign_PublicKeySize S + length payload < 2 ^ 32" by fact
  qed (simp_all add: S k k0 blob(2) voteFromBytes_def revealFromBytes_def certFromBytes_def
        sigFromBytes_def getVoteFromBytes_def overhead_defs slice_def slice_from_def)
qed

lemmas to_bytes_defs =
  SendPacket_ToBytes_def RetrieveMessage_ToBytes_def MessageACK_ToBytes_def Message_ToBytes_def MessageEmpty_ToBytes_def
  SendRetrievePacket_ToBytes_def SendRetrievePacketReply_ToBytes_def GetConsensus2_ToBytes_def Consensus2_ToBytes_def
  GetConsensus_ToBytes_def Consensus_ToBytes_def PostDescriptor_ToBytes_def PostDescriptorStatus_ToBytes_def
  PostReplicaDescriptor_ToBytes_def PostReplicaDescriptorStatus_ToBytes_def GetVote_ToBytes_def Vote_ToBytes_def
  VoteStatus_ToBytes_def Reveal_ToBytes_def RevealStatus_ToBytes_def Cert_ToBytes_def CertStatus_ToBytes_def
  Sig_ToBytes_def SigStatus_ToBytes_def ReplicaWrite_ToBytes_def ReplicaWriteReply_ToBytes_def
  ReplicaMessage_ToBytes_def ReplicaMessageReply_ToBytes_def overhead_defs

lemmas from_bytes_defs =
  sendPacketFromBytes_def retreiveMessageFromBytes_def sendRetrievePacketFromBytes_def
  sendRetrievePacketReplyFromBytes_def getConsensus2FromBytes_def consensus2FromBytes_def getConsensusFromBytes_def
  consensusFromBytes_def postDescriptorFromBytes_def postDescriptorStatusFromBytes_def
  postReplicaDescriptorFromBytes_def postReplicaDescriptorStatusFromBytes_def voteStatusFromBytes_def
  revealStatusFromBytes_def certStatusFromBytes_def sigStatusFromBytes_def replicaWriteFromBytes_def
  replicaWriteReplyFromBytes_def replicaMessageFromBytes_def replicaMessageReplyFromBytes_def HybridKeySize_def

lemma messageFromBytes_bodies:
  assumes "c_geo c = Some g"
  shows "length i = 16 \<Longrightarrow> length payload = PayloadTagLength g + ForwardPayloadLength g \<Longrightarrow>
      messageFromBytes c ([messageTypeACK, hint] @ PutUint32 seq @ i @ payload) = Ok (MessageACK None hint seq i payload)"
    and "length payload = UserForwardPayloadLength g \<Longrightarrow> messageMsgPaddingLength c = Some n \<Longrightarrow>
      messageFromBytes c ([messageTypeMessage, hint] @ PutUint32 seq @ payload @ zeros n) = Ok (Message None hint seq payload)"
    and "messageEmptyLength c = Some n \<Longrightarrow>
      messageFromBytes c ([messageTypeEmpty, 0] @ PutUint32 seq @ zeros (n - 6)) = Ok (MessageEmpty seq)"
proof -
  have sl: "slice ([t, h] @ PutUint32 seq @ b) 2 6 = (Ok (PutUint32 seq) :: (wire_error, bytes) outcome)"
    "slice_from ([t, h] @ PutUint32 seq @ b) messageBaseLength = (Ok b :: (wire_error, bytes) outcome)"
    "\<not> length ([t, h] @ PutUint32 seq @ b) < messageBaseLength"
    "([t, h] @ PutUint32 seq @ b) ! 0 = t" "([t, h] @ PutUint32 seq @ b) ! 1 = h" for t h b
    by (simp_all add: slice_def)
  note run = messageFromBytes_def Let_def sl obind.simps Uint32_PutUint32 if_False
  show "messageFromBytes c ([messageTypeACK, hint] @ PutUint32 seq @ i @ payload) = Ok (MessageACK None hint seq i payload)"
    if "length i = 16" "length payload = PayloadTagLength g + ForwardPayloadLength g"
    unfolding run using assms that by (simp add: slice_def)
  show "messageFromBytes c ([messageTypeMessage, hint] @ PutUint32 seq @ payload @ zeros n) = Ok (Message None hint seq payload)"
    if "length payload = UserForwardPayloadLength g" "messageMsgPaddingLength c = Some n"
    unfolding run using assms that by (simp add: slice_def wire_ids)
  show "messageFromBytes c ([messageTypeEmpty, 0] @ PutUint32 seq @ zeros (n - 6)) = Ok (MessageEmpty seq)"
    if "messageEmptyLength c = Some n"
    unfolding run using assms that by (auto simp: messageEmptyLength_def messageACKLength_def wire_ids)
qed

lemma FromBytes_empty:
  assumes "max_lengths_ok c"
  shows "FromBytes x c (cmd_header noOp 0 @ zeros (MaxMessageLenClientToServer c - 6)) = Ok NoOp"
    and "FromBytes x c (cmd_header disconnect 0 @ zeros (MaxMessageLenClientToServer c - 6)) = Ok Disconnect"
    and "FromBytes x c (cmd_header replicaDecoy 0 @ zeros (MaxMessageLenClientToServer c - 6)) = Ok ReplicaDecoy"
  using FromBytes_frame [of "[]" "MaxMessageLenClientToServer c - 6" x c] assms
  by (auto simp: max_lengths_ok_def wire_ids)

definition round_trips :: "ext_sizes \<Rightarrow> 'spk sign_scheme \<Rightarrow> 'spk Commands \<Rightarrow> 'spk Command \<Rightarrow> bool" where
  "round_trips x S c cmd \<longleftrightarrow> (\<exists>b. ToBytes x S (Some c) cmd = Some b \<and> FromBytes x c b = Ok (as_received c cmd))"

lemma round_trips_I:
  assumes "max_lengths_ok c" and "length body < 2 ^ 32"
    and "\<And>k. body_FromBytes x c i body (zeros k) = Ok (as_received c cmd)"
    and "body \<noteq> [] \<or> i \<in> {sendPacket, postDescriptor, sendRetrievePacket, sendRetrievePacketReply}"
  shows "ToBytes x S (Some c) cmd = pad_via (Some c) (cmd_header i (length body) @ body) up \<Longrightarrow> round_trips x S c cmd"
    and "ToBytes x S (Some c) cmd = Some (pad_optional (Some c) (cmd_header i (length body) @ body) up) \<Longrightarrow> round_trips x S c cmd"
    and "ToBytes x S (Some c) cmd = Some (cmd_header i (length body) @ body) \<Longrightarrow> round_trips x S c cmd"
  unfolding round_trips_def
  using framed_pad [OF assms(1) refl assms(2,3)] framed_round_trip [OF _ assms(4)] by metis+

lemma round_trips_empty:
  assumes "max_lengths_ok c"
  shows "round_trips x S c NoOp" "round_trips x S c Disconnect" "round_trips x S c ReplicaDecoy"
  using FromBytes_empty [OF assms, of x]
  by (simp_all add: round_trips_def NoOp_ToBytes_def Disconnect_ToBytes_def ReplicaDecoy_ToBytes_def pad_via_def pad_optional_def
      padToMaxCommandSize_eq)

lemma rt_SendPacket: "max_lengths_ok c \<Longrightarrow> wire_wf x S c (SendPacket pkt) \<Longrightarrow> round_trips x S c (SendPacket pkt)"
  by (rule round_trips_I(1) [where i = sendPacket and body = "pkt" and up = True])
    (auto simp: to_bytes_defs from_bytes_defs slice_def)

lemma rt_RetrieveMessage: "max_lengths_ok c \<Longrightarrow> wire_wf x S c (RetrieveMessage seq) \<Longrightarrow> round_trips x S c (RetrieveMessage seq)"
  by (rule round_trips_I(1) [where i = retreiveMessage and body = "PutUint32 seq" and up = True])
    (auto simp: to_bytes_defs from_bytes_defs slice_def)

lemma rt_SendRetrievePacket: "max_lengths_ok c \<Longrightarrow> wire_wf x S c (SendRetrievePacket geo pkt) \<Longrightarrow> round_trips x S c (SendRetrievePacket geo pkt)"
  by (rule round_trips_I(1) [where i = sendRetrievePacket and body = "pkt" and up = True])
    (auto simp: to_bytes_defs from_bytes_defs slice_def)

lemma rt_SendRetrievePacketReply: "max_lengths_ok c \<Longrightarrow> wire_wf x S c (SendRetrievePacketReply geo i payload) \<Longrightarrow> round_trips x S c (SendRetrievePacketReply geo i payload)"
  by (rule round_trips_I(1) [where i = sendRetrievePacketReply and body = "i @ payload" and up = False])
    (auto simp: to_bytes_defs from_bytes_defs slice_def go_copy_same_length)

lemma rt_GetConsensus2: "max_lengths_ok c \<Longrightarrow> wire_wf x S c (GetConsensus2 epoch) \<Longrightarrow> round_trips x S c (GetConsensus2 epoch)"
  by (rule round_trips_I(1) [where i = getConsensus2 and body = "PutUint64 epoch" and up = True])
    (auto simp: to_bytes_defs from_bytes_defs slice_def)

lemma rt_Consensus2: "max_lengths_ok c \<Longrightarrow> wire_wf x S c (Consensus2 e n t payload) \<Longrightarrow> round_trips x S c (Consensus2 e n t payload)"
  by (rule round_trips_I(1) [where i = consensus2 and body = "[e] @ PutUint32 n @ PutUint32 t @ payload" and up = False])
    (auto simp: to_bytes_defs from_bytes_defs slice_def)

lemma rt_PostDescriptor: "max_lengths_ok c \<Longrightarrow> wire_wf x S c (PostDescriptor epoch payload) \<Longrightarrow> round_trips x S c (PostDescriptor epoch payload)"
  by (rule round_trips_I(3) [where i = postDescriptor and body = "PutUint64 epoch @ payload"])
    (auto simp: to_bytes_defs from_bytes_defs slice_def)

lemma rt_PostDescriptorStatus: "max_lengths_ok c \<Longrightarrow> wire_wf x S c (PostDescriptorStatus e) \<Longrightarrow> round_trips x S c (PostDescriptorStatus e)"
  by (rule round_trips_I(3) [where i = postDescriptorStatus and body = "[e]"])
    (auto simp: to_bytes_defs from_bytes_defs slice_def)

lemma rt_PostReplicaDescriptor: "max_lengths_ok c \<Longrightarrow> wire_wf x S c (PostReplicaDescriptor epoch payload) \<Longrightarrow> round_trips x S c (PostReplicaDescriptor epoch payload)"
  by (rule round_trips_I(3) [where i = postReplicaDescriptor and body = "PutUint64 epoch @ payload"])
    (auto simp: to_bytes_defs from_bytes_defs slice_def)

lemma rt_PostReplicaDescriptorStatus: "max_lengths_ok c \<Longrightarrow> wire_wf x S c (PostReplicaDescriptorStatus e) \<Longrightarrow> round_trips x S c (PostReplicaDescriptorStatus e)"
  by (rule round_trips_I(3) [where i = postReplicaDescriptorStatus and body = "[e]"])
    (auto simp: to_bytes_defs from_bytes_defs slice_def)

lemma rt_VoteStatus: "max_lengths_ok c \<Longrightarrow> wire_wf x S c (VoteStatus e) \<Longrightarrow> round_trips x S c (VoteStatus e)"
  by (rule round_trips_I(3) [where i = voteStatus and body = "[e]"])
    (auto simp: to_bytes_defs from_bytes_defs slice_def)

lemma rt_RevealStatus: "max_lengths_ok c \<Longrightarrow> wire_wf x S c (RevealStatus e) \<Longrightarrow> round_trips x S c (RevealStatus e)"
  by (rule round_trips_I(3) [where i = revealStatus and body = "[e]"])
    (auto simp: to_bytes_defs from_bytes_defs slice_def)

lemma rt_CertStatus: "max_lengths_ok c \<Longrightarrow> wire_wf x S c (CertStatus e) \<Longrightarrow> round_trips x S c (CertStatus e)"
  by (rule round_trips_I(3) [where i = certStatus and body = "[e]"])
    (auto simp: to_bytes_defs from_bytes_defs slice_def)

lemma rt_SigStatus: "max_lengths_ok c \<Longrightarrow> wire_wf x S c (SigStatus e) \<Longrightarrow> round_trips x S c (SigStatus e)"
  by (rule round_trips_I(3) [where i = sigStatus and body = "[e]"])
    (auto simp: to_bytes_defs from_bytes_defs slice_def)

lemma rt_ReplicaWrite: "max_lengths_ok c \<Longrightarrow> wire_wf x S c (ReplicaWrite pg i s payload) \<Longrightarrow> round_trips x S c (ReplicaWrite pg i s payload)"
  by (rule round_trips_I(2) [where i = replicaWrite and body = "the i @ the s @ payload" and up = True])
    (auto simp: to_bytes_defs from_bytes_defs slice_def add.assoc)

lemma rt_ReplicaWriteReply: "max_lengths_ok c \<Longrightarrow> wire_wf x S c (ReplicaWriteReply e) \<Longrightarrow> round_trips x S c (ReplicaWriteReply e)"
  by (rule round_trips_I(2) [where i = replicaWriteReply and body = "[e]" and up = True])
    (auto simp: to_bytes_defs from_bytes_defs slice_def)

lemma rt_ReplicaMessage: "max_lengths_ok c \<Longrightarrow> wire_wf x S c (ReplicaMessage pg sch k d ct) \<Longrightarrow> round_trips x S c (ReplicaMessage pg sch k d ct)"
  by (rule round_trips_I(1) [where i = replicaMessage and body = "k @ the d @ ct" and up = True])
    (auto simp: to_bytes_defs from_bytes_defs slice_def add.assoc)

lemma rt_ReplicaMessageReply: "max_lengths_ok c \<Longrightarrow> wire_wf x S c (ReplicaMessageReply pg e h i r) \<Longrightarrow> round_trips x S c (ReplicaMessageReply pg e h i r)"
  by (rule round_trips_I(2) [where i = replicaMessageReply and body = "[e] @ the h @ [i] @ r" and up = False])
    (auto simp: to_bytes_defs from_bytes_defs slice_def nth_append)

lemma rt_GetConsensus: "max_lengths_ok c \<Longrightarrow> round_trips x S c (GetConsensus epoch mix)"
  by (cases mix; rule round_trips_I(1) [where i = getConsensus and body = "PutUint64 epoch" and up = True]
        round_trips_I(3) [where i = getConsensus and body = "PutUint64 epoch"])
    (auto simp: to_bytes_defs from_bytes_defs slice_def)

lemma rt_Consensus:
  assumes "max_lengths_ok c" and "wire_wf x S c (Consensus e payload)"
  shows "round_trips x S c (Consensus e payload)"
proof (rule round_trips_I(3) [where i = consensus and body = "[e] @ payload"])
  have "(of_nat cmdOverhead + of_nat (consensusBaseLength + length payload) :: 32 word) = of_nat (7 + length payload)"
    by simp
  moreover have "unat (of_nat (7 + length payload) :: 32 word) = 7 + length payload"
    using assms(2) by (intro unat_of_nat_32) simp
  ultimately show "ToBytes x S (Some c) (Consensus e payload) = Some (cmd_header consensus (length ([e] @ payload)) @ [e] @ payload)"
    by (simp add: Consensus_ToBytes_def Let_def del: of_nat_add of_nat_Suc)
qed (use assms in \<open>simp_all add: from_bytes_defs\<close>)

lemma rt_MessageACK:
  assumes "max_lengths_ok c" and "wire_wf x S c (MessageACK geo hint seq i payload)"
  shows "round_trips x S c (MessageACK geo hint seq i payload)"
proof -
  obtain g where g: "c_geo c = Some g" using assms(2) by auto
  show ?thesis
    using assms messageFromBytes_bodies(1) [OF g] g
    by (intro round_trips_I(1) [where i = message and body = "[messageTypeACK, hint] @ PutUint32 seq @ i @ payload" and up = False])
      (auto simp: to_bytes_defs messageACKLength_def go_copy_same_length)
qed

lemma rt_Message:
  assumes "max_lengths_ok c" and "wire_wf x S c (Message geo hint seq payload)"
  shows "round_trips x S c (Message geo hint seq payload)"
proof -
  obtain g where g: "c_geo c = Some g" using assms(2) by auto
  obtain n where n: "messageMsgPaddingLength c = Some n" using g by (simp add: messageMsgPaddingLength_def)
  show ?thesis
    using assms messageFromBytes_bodies(2) [OF g, of payload n] g n
    by (intro round_trips_I(1) [where i = message and body = "[messageTypeMessage, hint] @ PutUint32 seq @ payload @ zeros n" and up = False])
      (auto simp: to_bytes_defs messageMsgLength_def messageMsgPaddingLength_def ac_simps)
qed

lemma rt_MessageEmpty:
  assumes "max_lengths_ok c" and "wire_wf x S c (MessageEmpty seq)"
  shows "round_trips x S c (MessageEmpty seq)"
proof -
  obtain g where g: "c_geo c = Some g" using assms(2) by auto
  obtain n where n: "messageEmptyLength c = Some n" using g by (simp add: messageEmptyLength_def)
  show ?thesis
    using assms messageFromBytes_bodies(3) [OF g, of n] g n
    by (intro round_trips_I(1) [where i = message and body = "[messageTypeEmpty, 0] @ PutUint32 seq @ zeros (n - 6)" and up = False])
      (auto simp: to_bytes_defs messageEmptyLength_def messageACKLength_def add.assoc)
qed

lemma rt_keyed:
  assumes "max_lengths_ok c" and "key_wf S c (length payload)"
  shows "round_trips x S c (Vote epoch pub payload)" "round_trips x S c (Reveal epoch pub payload)"
    "round_trips x S c (Cert epoch pub payload)" "round_trips x S c (Sig epoch pub payload)"
    "payload = [] \<Longrightarrow> round_trips x S c (GetVote epoch pub)"
proof -
  obtain blob where b: "sign_MarshalBinary S pub = Some blob" "length blob = sign_PublicKeySize S"
    "8 + sign_PublicKeySize S + length payload < 2 ^ 32"
    and parse: "voteFromBytes (PutUint64 epoch @ blob @ payload) (c_pkiSignatureScheme c) = Ok (Vote epoch pub payload)"
    "revealFromBytes (PutUint64 epoch @ blob @ payload) (c_pkiSignatureScheme c) = Ok (Reveal epoch pub payload)"
    "certFromBytes (PutUint64 epoch @ blob @ payload) (c_pkiSignatureScheme c) = Ok (Cert epoch pub payload)"
    "sigFromBytes (PutUint64 epoch @ blob @ payload) (c_pkiSignatureScheme c) = Ok (Sig epoch pub payload)"
    "payload = [] \<longrightarrow> getVoteFromBytes (PutUint64 epoch @ blob) (c_pkiSignatureScheme c) = Ok (GetVote epoch pub)"
    by (rule keyed_bodies [OF assms(2) refl, where pub = pub and epoch = epoch])
  note intro = round_trips_I(3) [OF assms(1), where body = "PutUint64 epoch @ blob @ payload"]
  show "round_trips x S c (Vote epoch pub payload)"
    using b parse by (intro intro [where i = vote]) (simp_all add: to_bytes_defs add.assoc)
  show "round_trips x S c (Reveal epoch pub payload)"
    using b parse by (intro intro [where i = reveal]) (simp_all add: to_bytes_defs add.assoc go_copy_same_length)
  show "round_trips x S c (Cert epoch pub payload)"
    using b parse by (intro intro [where i = certificate]) (simp_all add: to_bytes_defs add.assoc)
  show "round_trips x S c (Sig epoch pub payload)"
    using b parse by (intro intro [where i = sig]) (simp_all add: to_bytes_defs add.assoc)
  show "round_trips x S c (GetVote epoch pub)" if "payload = []"
    using b parse that by (intro intro [where i = getVote]) (simp_all add: to_bytes_defs add.assoc)
qed

lemmas rt_all = round_trips_empty rt_SendPacket rt_RetrieveMessage rt_SendRetrievePacket
  rt_SendRetrievePacketReply rt_MessageACK rt_Message rt_MessageEmpty rt_GetConsensus2 rt_Consensus2 rt_PostDescriptor
  rt_PostDescriptorStatus rt_PostReplicaDescriptor rt_PostReplicaDescriptorStatus rt_VoteStatus rt_RevealStatus
  rt_CertStatus rt_SigStatus rt_ReplicaWrite rt_ReplicaWriteReply rt_ReplicaMessage rt_ReplicaMessageReply
  rt_GetConsensus rt_Consensus

lemma wire_wf_round_trips:
  assumes "max_lengths_ok c" and "wire_wf x S c cmd"
  shows "round_trips x S c cmd"
  using assms(2)
proof (cases cmd)
  case (GetVote epoch pub)
  with assms rt_keyed(5) [OF assms(1), of S "[]"] show ?thesis by simp
next
  case (Vote epoch pub payload)
  with assms rt_keyed(1) [OF assms(1), of S payload] show ?thesis by simp
next
  case (Reveal epoch pub payload)
  with assms rt_keyed(2) [OF assms(1), of S payload] show ?thesis by simp
next
  case (Cert epoch pub payload)
  with assms rt_keyed(3) [OF assms(1), of S payload] show ?thesis by simp
next
  case (Sig epoch pub payload)
  with assms rt_keyed(4) [OF assms(1), of S payload] show ?thesis by simp
qed (use assms rt_all [OF assms(1)] in \<open>simp_all only:\<close>)

end
