(* ===== verification/Wire_Safety.thy ===== *)
theory Wire_Safety
  imports Wire_Props
begin

text \<open>
  Consequences for the peers of a link: which received bytes make \<open>FromBytes\<close> panic, which commands a
  node can send again as it received them, and the sizes an observer of the link sees.
\<close>

section \<open>Received bytes\<close>

text \<open>
  The bodies on which the parser of command \<open>i\<close> panics, \<open>k\<close> being the number of padding bytes behind the
  body: a chunk shorter than its fixed fields, a reply shorter than its SURB ID, and commands that need a
  scheme or geometry the \<open>Commands\<close> object does not have.
\<close>

definition body_panics :: "'spk Commands \<Rightarrow> byte \<Rightarrow> bytes \<Rightarrow> nat \<Rightarrow> bool" where
  "body_panics c i body k \<longleftrightarrow>
     i = consensus2 \<and> body \<noteq> [] \<and> length body + k < 9 \<or>
     i = sendRetrievePacketReply \<and> length body < 16 \<or>
     i = replicaMessage \<and> body \<noteq> [] \<and> c_replicaNikeScheme c = None \<or>
     i \<in> {getVote, vote, certificate, reveal, sig} \<and> body \<noteq> [] \<and> c_pkiSignatureScheme c = None \<or>
     i = message \<and> 6 \<le> length body \<and> body ! 0 \<in> {messageTypeACK, messageTypeMessage, messageTypeEmpty} \<and> c_geo c = None"

lemma unmarshal_key_no_panic: "8 + sign_PublicKeySize S \<le> length b \<Longrightarrow> unmarshal_key S b \<noteq> Panic"
  by (simp add: unmarshal_key_def slice_def split: option.split)

lemma obind_no_panic: "m \<noteq> Panic \<Longrightarrow> (\<And>y. f y \<noteq> Panic) \<Longrightarrow> obind m f \<noteq> Panic"
  by (cases m) simp_all

lemma keyed_panics:
  "voteFromBytes b sch = Panic \<longleftrightarrow> sch = None" "revealFromBytes b sch = Panic \<longleftrightarrow> sch = None"
  "certFromBytes b sch = Panic \<longleftrightarrow> sch = None" "sigFromBytes b sch = Panic \<longleftrightarrow> sch = None"
  "getVoteFromBytes b sch = Panic \<longleftrightarrow> sch = None"
  by (cases sch; auto simp: voteFromBytes_def revealFromBytes_def certFromBytes_def sigFromBytes_def
      getVoteFromBytes_def overhead_defs slice_def dest: unmarshal_key_no_panic
      intro!: obind_no_panic unmarshal_key_no_panic elim!: notE [OF obind_no_panic, rotated -1])+

lemma message_panics:
  "messageFromBytes c b = Panic \<longleftrightarrow>
     6 \<le> length b \<and> b ! 0 \<in> {messageTypeACK, messageTypeMessage, messageTypeEmpty} \<and> c_geo c = None"
proof (cases "6 \<le> length b")
  case True
  then have s: "slice b 2 6 = (Ok (take 4 (drop 2 b)) :: (wire_error, bytes) outcome)"
    "slice_from b messageBaseLength = (Ok (drop 6 b) :: (wire_error, bytes) outcome)" "\<not> length b < messageBaseLength"
    by (simp_all add: slice_def)
  show ?thesis
  proof (cases "c_geo c")
    case None
    then show ?thesis
      unfolding messageFromBytes_def Let_def s obind.simps using True
      by (simp add: messageEmptyLength_def)
  next
    case (Some g)
    have ack: "(if length d \<noteq> SURBIDLength + p + q then Err errInvalidCommand
        else obind (slice d 0 SURBIDLength) (\<lambda>i. obind (slice_from d SURBIDLength) (\<lambda>payload.
             Ok (MessageACK None hint seq i payload)))) \<noteq> Panic" for d p q hint seq
      by (simp add: slice_def)
    have msg: "(if length d \<noteq> n + u then Err errInvalidCommand
        else obind (slice_from d u) (\<lambda>padding. if \<not> CtIsZero padding then Err errInvalidCommand
             else obind (slice d 0 u) (\<lambda>payload. Ok (Message None hint seq payload)))) \<noteq> Panic" for d n u hint seq
      by (simp add: slice_def)
    have "messageFromBytes c b \<noteq> Panic"
      unfolding messageFromBytes_def Let_def s obind.simps Some of_option.simps messageMsgPaddingLength_def
        messageEmptyLength_def bind.simps if_False
      by (simp only: ack msg split: if_split) simp
    with Some show ?thesis by simp
  qed
qed (simp add: messageFromBytes_def)

lemma consensus2_panics: "consensus2FromBytes b (zeros k) = Panic \<longleftrightarrow> b \<noteq> [] \<and> length b + k < 9"
  by (auto simp: consensus2FromBytes_def slice_def Suc_le_eq)

lemma reply_panics: "sendRetrievePacketReplyFromBytes b (zeros k) c = Panic \<longleftrightarrow> length b < 16"
  by (auto simp: sendRetrievePacketReplyFromBytes_def slice_def slice_from_def)

lemma replicaMessage_panics: "replicaMessageFromBytes x b c = Panic \<longleftrightarrow> c_replicaNikeScheme c = None"
  by (cases "c_replicaNikeScheme c") (auto simp: replicaMessageFromBytes_def HybridKeySize_def slice_def)

lemma parsers_no_panic:
  "sendPacketFromBytes b \<noteq> Panic" "retreiveMessageFromBytes b \<noteq> Panic" "sendRetrievePacketFromBytes b c \<noteq> Panic"
  "getConsensus2FromBytes b \<noteq> Panic" "getConsensusFromBytes b \<noteq> Panic" "consensusFromBytes b \<noteq> Panic"
  "postDescriptorFromBytes b \<noteq> Panic" "postDescriptorStatusFromBytes b \<noteq> Panic"
  "postReplicaDescriptorFromBytes b \<noteq> Panic" "postReplicaDescriptorStatusFromBytes b \<noteq> Panic"
  "voteStatusFromBytes b \<noteq> Panic" "revealStatusFromBytes b \<noteq> Panic" "certStatusFromBytes b \<noteq> Panic"
  "sigStatusFromBytes b \<noteq> Panic" "replicaWriteFromBytes x b \<noteq> Panic" "replicaWriteReplyFromBytes b \<noteq> Panic"
  "replicaMessageReplyFromBytes b \<noteq> Panic" "replicaDecoyFromBytes b \<noteq> Panic"
  by (simp_all add: from_bytes_defs replicaDecoyFromBytes_def slice_def)

lemmas parser_panics = keyed_panics message_panics consensus2_panics reply_panics replicaMessage_panics

lemma body_FromBytes_panics:
  assumes "body \<noteq> [] \<or> i \<in> {sendPacket, postDescriptor, sendRetrievePacket, sendRetrievePacketReply}"
  shows "body_FromBytes x c i body (zeros k) = Panic \<longleftrightarrow> body_panics c i body k"
proof (cases "i \<in> {consensus2, sendRetrievePacketReply, replicaMessage, getVote, vote, certificate, reveal, sig, message}")
  case True
  then show ?thesis
    using assms by (elim insertE; simp add: parser_panics body_panics_def) (auto simp: wire_ids)
next
  case False
  then have "\<not> body_panics c i body k" by (auto simp: body_panics_def)
  moreover have "body_FromBytes x c i body (zeros k) \<noteq> Panic"
    using False by (simp add: body_FromBytes_def parsers_no_panic)
  ultimately show ?thesis by simp
qed

lemma FromBytes_frame_or_Err:
  assumes "length b0 < 2 ^ 32"
  shows "(\<exists>i body k. b0 = cmd_header i (length body) @ body @ zeros k) \<or> FromBytes x c b0 = Err errInvalidCommand"
proof (cases "6 \<le> length b0 \<and> b0 ! 1 = 0")
  case False
  then show ?thesis by (simp add: FromBytes_def)
next
  case True
  obtain i r b1 where "b0 = i # r # b1" using True by (cases b0; cases "tl b0") auto
  with True have b1: "b0 = [i, 0] @ b1" "4 \<le> length b1" by auto
  define l b where lb: "l = take 4 b1" "b = drop 4 b1"
  then have b0: "b0 = [i, 0] @ l @ b" and l: "length l = 4" using b1 by simp_all
  let ?n = "unat (Uint32 l)"
  have s: "slice b0 2 6 = (Ok l :: (wire_error, bytes) outcome)" "slice_from b0 cmdOverhead = (Ok b :: (wire_error, bytes) outcome)"
    "\<not> length b0 < cmdOverhead" "b0 ! 1 = 0" "b0 ! 0 = i"
    using l by (simp_all add: b0 slice_def)
  have "length b < 2 ^ 32" using assms by (simp add: b0)
  then have w: "(of_nat (length b) :: 32 word) < Uint32 l \<longleftrightarrow> length b < ?n" by (simp add: word_less_nat_alt)
  show ?thesis
  proof (cases "?n \<le> length b \<and> CtIsZero (drop ?n b)")
    case False
    then have "FromBytes x c b0 = Err errInvalidCommand"
      unfolding FromBytes_def Let_def s obind.simps w by auto
    then show ?thesis ..
  next
    case n: True
    let ?body = "take ?n b"
    have "length ?body = ?n" using n by simp
    then have h: "PutUint32 (of_nat (length ?body)) = l" using l by (simp add: PutUint32_Uint32)
    have "drop ?n b = zeros (length b - ?n)" using n by (simp add: CtIsZero_iff)
    then have "b = ?body @ zeros (length b - ?n)" by (metis append_take_drop_id)
    then have "b0 = cmd_header i (length ?body) @ ?body @ zeros (length b - ?n)"
      unfolding cmd_header_def h b0 by simp
    then show ?thesis by blast
  qed
qed

section \<open>Properties\<close>

text \<open>A signature scheme with one-byte keys, to apply the theorems at.\<close>

definition toy_sign :: "byte sign_scheme" where
  "toy_sign = \<lparr>sign_PublicKeySize = 1,
     sign_UnmarshalBinaryPublicKey = (\<lambda>b. if length b = 1 then Some (hd b) else None),
     sign_MarshalBinary = (\<lambda>k. Some [k])\<rparr>"

lemma toy_sign_ok: "sign_ok toy_sign"
  by (simp add: sign_ok_def toy_sign_def)

text \<open>
  C8. Every command of the link protocol parses back: if its fields have the sizes of its command and its
  peers' \<open>Commands\<close> object has the geometry and schemes it needs, \<open>ToBytes\<close> succeeds and \<open>FromBytes\<close> on
  its result, padding included, returns the command, up to the fields that the receiver fills in itself.
\<close>

theorem commands_round_trip:
  assumes "max_lengths_ok c" and "wire_wf x S c cmd"
  shows "\<exists>b. ToBytes x S (Some c) cmd = Some b \<and> FromBytes x c b = Ok (as_received c cmd)"
  using wire_wf_round_trips [OF assms] by (simp add: round_trips_def)

theorem commands_round_trip_witness:
  "\<exists>b. ToBytes example_sizes toy_sign (Some (NewPKICommands (Some toy_sign))) (Vote 5 7 [1, 2, 3]) = Some b \<and>
     FromBytes example_sizes (NewPKICommands (Some toy_sign)) b = Ok (Vote 5 7 [1, 2, 3])"
proof -
  have "max_lengths_ok (NewPKICommands (Some toy_sign))" by (simp add: max_lengths_ok_def NewPKICommands_def)
  moreover have "wire_wf example_sizes toy_sign (NewPKICommands (Some toy_sign)) (Vote 5 7 [1, 2, 3])"
    using toy_sign_ok by (simp add: key_wf_def NewPKICommands_def toy_sign_def)
  ultimately show ?thesis using commands_round_trip by fastforce
qed

text \<open>
  C9. \<open>FromBytes\<close> panics on exactly the frames whose body \<open>body_panics\<close>: among them every
  \<open>SendRetrievePacketReply\<close> with fewer than 16 bytes, every non-empty vote, reveal, certificate, signature
  or vote request on a link without a PKI signature scheme, and the \<open>Consensus2\<close> frames with fewer than 9
  bytes behind the header.
\<close>

theorem FromBytes_panics_iff:
  assumes "length b0 < 2 ^ 32"
  shows "FromBytes x c b0 = Panic \<longleftrightarrow>
     (\<exists>i body k. b0 = cmd_header i (length body) @ body @ zeros k \<and> body_panics c i body k)"
proof -
  have frame: "FromBytes x c (cmd_header i (length body) @ body @ zeros k) = Panic \<longleftrightarrow> body_panics c i body k"
    if "length body + k < 2 ^ 32" for i body k
  proof (cases "body \<noteq> [] \<or> i \<in> {sendPacket, postDescriptor, sendRetrievePacket, sendRetrievePacketReply}")
    case True
    then show ?thesis
      unfolding FromBytes_frame [OF that] body_FromBytes_panics [OF True, of x c k, symmetric] by (auto simp: wire_ids)
  next
    case False
    then show ?thesis unfolding FromBytes_frame [OF that] by (auto simp: body_panics_def wire_ids)
  qed
  show ?thesis
  proof
    assume P: "FromBytes x c b0 = Panic"
    then obtain i body k where b0: "b0 = cmd_header i (length body) @ body @ zeros k"
      using FromBytes_frame_or_Err [OF assms, of x c] by auto
    then have "length body + k < 2 ^ 32" using assms by simp
    with P b0 frame show "\<exists>i body k. b0 = cmd_header i (length body) @ body @ zeros k \<and> body_panics c i body k" by auto
  next
    assume "\<exists>i body k. b0 = cmd_header i (length body) @ body @ zeros k \<and> body_panics c i body k"
    then obtain i body k where b0: "b0 = cmd_header i (length body) @ body @ zeros k" "body_panics c i body k" by blast
    then have "length body + k < 2 ^ 32" using assms by simp
    with b0 frame show "FromBytes x c b0 = Panic" by auto
  qed
qed

theorem FromBytes_panics_iff_witness:
  "FromBytes example_sizes (NewPKICommands (Some toy_sign)) [4, 0, 0, 0, 0, 0] = Panic"
proof -
  have "[4, 0, 0, 0, 0, 0] = cmd_header sendRetrievePacketReply (length ([] :: bytes)) @ [] @ zeros 0"
    by (simp add: cmd_header_def wire_ids zeros_def eval_nat_numeral)
  moreover have "body_panics (NewPKICommands (Some toy_sign)) sendRetrievePacketReply [] 0"
    by (simp add: body_panics_def)
  moreover have "length [4, 0, 0, 0, 0, 0 :: byte] < 2 ^ 32" by simp
  ultimately show ?thesis
    using FromBytes_panics_iff [of "[4, 0, 0, 0, 0, 0]" example_sizes "NewPKICommands (Some toy_sign)"] by blast
qed

section \<open>Sizes on the link\<close>

lemma NewMixnetCommands_eq:
  "NewMixnetCommands x g = Some c \<Longrightarrow>
     c_geo c = Some g \<and> MaxMessageLenClientToServer c = max 14 (6 + PacketLength g) \<and>
     MaxMessageLenServerToClient c = max (27 + PacketLength g) (22 + UserForwardPayloadLength g)"
  by (auto simp: NewMixnetCommands_def with_max_lengths_def calcMaxMessageLenClientToServer_def
      calcMaxMessageLenServerToClient_def max_def split: if_splits)

text \<open>The commands that a client sends over the mixnet, and their packets.\<close>

fun upstream_wf :: "Geometry \<Rightarrow> 'spk Command \<Rightarrow> bool" where
  "upstream_wf g NoOp = True"
| "upstream_wf g Disconnect = True"
| "upstream_wf g (SendPacket pkt) = (length pkt = PacketLength g)"
| "upstream_wf g (RetrieveMessage seq) = True"
| "upstream_wf g (GetConsensus2 epoch) = True"
| "upstream_wf g (GetConsensus epoch mix) = mix"
| "upstream_wf g (SendRetrievePacket geo pkt) = (geo = Some g \<and> length pkt = PacketLength g)"
| "upstream_wf g _ = False"

text \<open>
  C10. Upstream traffic is uniform: with the \<open>Commands\<close> object of a mixnet whose packets have at least 8
  bytes, a no-op, a disconnect, a Sphinx packet, a retrieval and a consensus request all serialise to the
  same number of bytes.
\<close>

theorem upstream_uniform:
  assumes "NewMixnetCommands x g = Some c" and "8 \<le> PacketLength g" and "upstream_wf g cmd"
  shows "\<exists>b. ToBytes x S (Some c) cmd = Some b \<and> length b = 6 + PacketLength g"
proof -
  have "MaxMessageLenClientToServer c = 6 + PacketLength g"
    using NewMixnetCommands_eq [OF assms(1)] assms(2) by simp
  with assms(2,3) show ?thesis
    by (cases cmd) (auto simp: to_bytes_defs NoOp_ToBytes_def Disconnect_ToBytes_def pad_via_def padToMaxCommandSize_eq)
qed

text \<open>A geometry with room for a SURB.\<close>

definition surb_geometry :: Geometry where
  "surb_geometry =
     \<lparr>PacketLength = 692, NrHops = 3, HeaderLength = 281, RoutingInfoLength = 246, PerHopRoutingInfoLength = 82,
      SURBLength = 377, SphinxPlaintextHeaderLength = 2, PayloadTagLength = 32, ForwardPayloadLength = 379,
      UserForwardPayloadLength = 0, NextNodeHopLength = 65, SPRPKeyMaterialLength = 64,
      NIKEName = ''toy'', KEMName = []\<rparr>"

lemma surb_geometry_factory:
  "GeometryFromUserForwardPayloadLength toy_nike 0 True 3 = (Ok surb_geometry :: ('e, Geometry) outcome)"
  by (simp add: nike_geometry surb_geometry_def)

lemma NewMixnetCommands_total: "\<exists>c. NewMixnetCommands x g = Some c"
  by (simp add: NewMixnetCommands_def with_max_lengths_def calcMaxMessageLenClientToServer_def
      calcMaxMessageLenServerToClient_def)

theorem upstream_uniform_witness:
  "\<exists>c b. NewMixnetCommands example_sizes surb_geometry = Some c \<and>
     ToBytes example_sizes toy_sign (Some c) (GetConsensus2 9) = Some b \<and> length b = 698"
proof -
  obtain c :: "byte Commands" where c: "NewMixnetCommands example_sizes surb_geometry = Some c"
    using NewMixnetCommands_total by blast
  from upstream_uniform [OF c, of "GetConsensus2 9" toy_sign] c show ?thesis by (simp add: surb_geometry_def)
qed

text \<open>The commands that a gateway sends to a client.\<close>

fun downstream_wf :: "Geometry \<Rightarrow> 'spk Command \<Rightarrow> bool" where
  "downstream_wf g (Message geo hint seq payload) = (geo = Some g \<and> length payload = UserForwardPayloadLength g)"
| "downstream_wf g (MessageACK geo hint seq i payload) =
     (geo = Some g \<and> length i = SURBIDLength \<and> length payload = PayloadTagLength g + ForwardPayloadLength g)"
| "downstream_wf g (MessageEmpty seq) = True"
| "downstream_wf g (SendRetrievePacketReply geo i payload) =
     (length i = SURBIDLength \<and> length payload \<le> PacketLength g + 5)"
| "downstream_wf g (Consensus2 e n t payload) = (length payload \<le> PacketLength g + 12)"
| "downstream_wf g _ = False"

text \<open>
  A consensus chunk of the size a gateway cuts the document into, the padded size itself, serialises
  to 15 bytes more than the padded size.
\<close>

lemma full_chunk_not_uniform:
  assumes "length payload = MaxMessageLenServerToClient c"
  shows "\<exists>b. ToBytes x S (Some c) (Consensus2 e n t payload) = Some b \<and> length b = MaxMessageLenServerToClient c + 15"
  using assms by (simp add: to_bytes_defs pad_via_def padToMaxCommandSize_eq)



text \<open>
  A received \<open>Message\<close> or \<open>MessageACK\<close> cannot be serialised again: the parser leaves its geometry nil
  and \<open>ToBytes\<close> dereferences it.
\<close>

lemma received_message_not_serialisable:
  assumes "FromBytes x c b = Ok cmd" and "cmd = Message geo hint seq payload \<or> cmd = MessageACK geo hint seq i payload"
  shows "ToBytes x S cmds cmd = None"
proof -
  have m: "messageFromBytes c body = Ok cmd \<Longrightarrow> geo = None" for body
    using assms(2) by (auto simp: messageFromBytes_def Let_def obind_eq_Ok split: if_splits)
  have "\<exists>j body ext. body_FromBytes x c j body ext = Ok cmd"
    using assms by (auto simp: FromBytes_def Let_def obind_eq_Ok split: if_splits)
  then obtain j body ext where "body_FromBytes x c j body ext = Ok cmd" by blast
  then have "geo = None"
    using assms(2) m [of body]
    by (auto simp: body_FromBytes_def from_bytes_defs obind_eq_Ok replicaDecoyFromBytes_def voteFromBytes_def
        revealFromBytes_def certFromBytes_def sigFromBytes_def getVoteFromBytes_def split: if_splits)
  with assms(2) show ?thesis by (auto simp: to_bytes_defs)
qed

theorem received_message_not_serialisable_witness:
  "\<exists>c b cmd. FromBytes example_sizes c b = Ok cmd \<and> cmd = Message None 1 2 [] \<and>
     ToBytes example_sizes toy_sign (Some c) cmd = None"
proof -
  obtain c :: "byte Commands" where c: "NewMixnetCommands example_sizes surb_geometry = Some c"
    using NewMixnetCommands_total by blast
  note g = NewMixnetCommands_eq [OF c]
  have "max_lengths_ok c" using g by (simp add: max_lengths_ok_def surb_geometry_def)
  moreover have "wire_wf example_sizes toy_sign c (Message (Some surb_geometry) 1 2 [])"
    using g by (simp add: surb_geometry_def)
  ultimately obtain b where "FromBytes example_sizes c b = Ok (Message None 1 2 [])"
    using wire_wf_round_trips [of c example_sizes toy_sign] by (fastforce simp: round_trips_def)
  with received_message_not_serialisable [OF this] show ?thesis by blast
qed

end
