(* ===== verification/Core_Cert.thy ===== *)
theory Core_Cert
  imports Go_Prelude "HOL-Library.AList"
begin

text \<open>
  Certificates with several signatures: \<open>src/core/cert/cert.go\<close>. The signature scheme, the hash of a public key and
  the CBOR encoding are third-party code and arguments (\<open>cert_env\<close>). The Go map \<open>Signatures\<close> is an association list in
  the order in which a range over it happens to visit its entries, an order that the decoder is free to choose. The
  current epoch is an argument.
\<close>

section \<open>Certificates\<close>

datatype cert_error =
  ErrImpossibleDecode | ErrImpossibleEncode | ErrBadSignature | ErrDuplicateSignature | ErrInvalidCertified | ErrKeyTypeMismatch
| ErrInvalidKeyType | ErrVersionMismatch | ErrCertificateExpired | ErrIdentitySignatureNotFound | ErrInvalidThreshold
| ErrThresholdNotMet

record Signature =
  sg_PublicKeySum256 :: bytes
  sg_Payload :: bytes

record Certificate =
  ct_Version :: "32 word"
  ct_Expiration :: "64 word"
  ct_KeyType :: bytes
  ct_Certified :: bytes
  ct_Signatures :: "(bytes \<times> Signature) list"

record ('sk, 'pk) cert_env =
  cx_Sign :: "'sk \<Rightarrow> bytes \<Rightarrow> bytes"
  cx_Verify :: "'pk \<Rightarrow> bytes \<Rightarrow> bytes \<Rightarrow> bool"
  cx_Name :: "'sk \<Rightarrow> bytes"
  cx_Sum256From :: "'pk \<Rightarrow> bytes"
  cx_marshal :: "Certificate \<Rightarrow> bytes"
  cx_unmarshal :: "bytes \<Rightarrow> Certificate option"

definition CertVersion :: "32 word" where "CertVersion = 0"

text \<open>The fields are written in little-endian order and one after the other.\<close>

definition cert_message :: "Certificate \<Rightarrow> bytes" where
  "cert_message c = rev (PutUint32 (ct_Version c)) @ rev (PutUint64 (ct_Expiration c)) @ ct_KeyType c @ ct_Certified c"

definition sanityCheck :: "64 word \<Rightarrow> Certificate \<Rightarrow> (cert_error, unit) outcome" where
  "sanityCheck current c =
     (if ct_Version c \<noteq> CertVersion then Err ErrVersionMismatch
      else if current \<ge> ct_Expiration c then Err ErrCertificateExpired
      else if length (ct_KeyType c) = 0 then Err ErrInvalidKeyType
      else if length (ct_Certified c) = 0 then Err ErrInvalidCertified
      else Ok ())"

definition cert_Sign :: "('sk, 'pk) cert_env \<Rightarrow> 64 word \<Rightarrow> 'sk \<Rightarrow> 'pk \<Rightarrow> bytes \<Rightarrow> 64 word \<Rightarrow> (cert_error, bytes) outcome" where
  "cert_Sign X current signer verifier data expiration =
     (let c = \<lparr>ct_Version = CertVersion, ct_Expiration = expiration, ct_KeyType = cx_Name X signer, ct_Certified = data, ct_Signatures = []\<rparr> in
      obind (sanityCheck current c) (\<lambda>_.
      let sig = cx_Sign X signer (cert_message c) in
      Ok (cx_marshal X (c\<lparr>ct_Signatures := [(cx_Sum256From X verifier,
            \<lparr>sg_PublicKeySum256 = cx_Sum256From X verifier, sg_Payload = sig\<rparr>)]\<rparr>))))"

text \<open>Decoding with the sanity check, the first lines of the operations on raw certificates.\<close>

definition decoded :: "('sk, 'pk) cert_env \<Rightarrow> 64 word \<Rightarrow> cert_error \<Rightarrow> bytes \<Rightarrow> (cert_error, Certificate) outcome" where
  "decoded X current failure rawCert =
     (case cx_unmarshal X rawCert of
        None \<Rightarrow> Err failure
      | Some c \<Rightarrow> obind (sanityCheck current c) (\<lambda>_. Ok c))"

definition GetCertified :: "('sk, 'pk) cert_env \<Rightarrow> 64 word \<Rightarrow> bytes \<Rightarrow> (cert_error, bytes) outcome" where
  "GetCertified X current rawCert = obind (decoded X current ErrImpossibleDecode rawCert) (\<lambda>c. Ok (ct_Certified c))"

definition GetSignatures :: "('sk, 'pk) cert_env \<Rightarrow> 64 word \<Rightarrow> bytes \<Rightarrow> (cert_error, Signature list) outcome" where
  "GetSignatures X current rawCert = obind (decoded X current ErrImpossibleDecode rawCert) (\<lambda>c. Ok (map snd (ct_Signatures c)))"

text \<open>The first signature in the order of the range that names the identity.\<close>

definition signature_of :: "bytes \<Rightarrow> Certificate \<Rightarrow> Signature option" where
  "signature_of identity c = find (\<lambda>s. sg_PublicKeySum256 s = identity) (map snd (ct_Signatures c))"

definition GetSignature :: "('sk, 'pk) cert_env \<Rightarrow> 64 word \<Rightarrow> bytes \<Rightarrow> bytes \<Rightarrow> (cert_error, Signature) outcome" where
  "GetSignature X current identity rawCert =
     obind (decoded X current ErrImpossibleDecode rawCert) (\<lambda>c.
     case signature_of identity c of Some s \<Rightarrow> Ok s | None \<Rightarrow> Err ErrIdentitySignatureNotFound)"

definition SignMulti :: "('sk, 'pk) cert_env \<Rightarrow> 64 word \<Rightarrow> 'sk \<Rightarrow> 'pk \<Rightarrow> bytes \<Rightarrow> (cert_error, bytes) outcome" where
  "SignMulti X current signer verifier rawCert =
     obind (decoded X current ErrImpossibleDecode rawCert) (\<lambda>c.
     if cx_Name X signer \<noteq> ct_KeyType c then Err ErrKeyTypeMismatch
     else
       let sig = cx_Sign X signer (cert_message c);
           signature = \<lparr>sg_PublicKeySum256 = cx_Sum256From X verifier, sg_Payload = sig\<rparr>
       in Ok (cx_marshal X (c\<lparr>ct_Signatures := AList.update (sg_PublicKeySum256 signature) signature (ct_Signatures c)\<rparr>)))"

definition AddSignature :: "('sk, 'pk) cert_env \<Rightarrow> 64 word \<Rightarrow> 'pk \<Rightarrow> Signature \<Rightarrow> bytes \<Rightarrow> (cert_error, bytes) outcome" where
  "AddSignature X current verifier signature rawCert =
     obind (decoded X current ErrImpossibleDecode rawCert) (\<lambda>c.
     if sg_PublicKeySum256 signature \<in> sg_PublicKeySum256 ` set (map snd (ct_Signatures c)) then Err ErrDuplicateSignature
     else if cx_Verify X verifier (cert_message c) (sg_Payload signature)
     then Ok (cx_marshal X (c\<lparr>ct_Signatures := AList.update (sg_PublicKeySum256 signature) signature (ct_Signatures c)\<rparr>))
     else Err ErrBadSignature)"

definition cert_Verify :: "('sk, 'pk) cert_env \<Rightarrow> 64 word \<Rightarrow> 'pk \<Rightarrow> bytes \<Rightarrow> (cert_error, bytes) outcome" where
  "cert_Verify X current verifier rawCert =
     obind (decoded X current ErrImpossibleEncode rawCert) (\<lambda>c.
     case signature_of (cx_Sum256From X verifier) c of
       None \<Rightarrow> Err ErrIdentitySignatureNotFound
     | Some sig \<Rightarrow>
         if cx_Verify X verifier (cert_message c) (sg_Payload sig) then Ok (ct_Certified c) else Err ErrBadSignature)"

fun verify_all :: "('sk, 'pk) cert_env \<Rightarrow> 64 word \<Rightarrow> bytes \<Rightarrow> bytes \<Rightarrow> 'pk list \<Rightarrow> (cert_error, bytes) outcome" where
  "verify_all X current rawCert certified [] = Ok certified"
| "verify_all X current rawCert certified (verifier # verifiers) =
     obind (cert_Verify X current verifier rawCert) (\<lambda>certified. verify_all X current rawCert certified verifiers)"

definition VerifyAll :: "('sk, 'pk) cert_env \<Rightarrow> 64 word \<Rightarrow> 'pk list \<Rightarrow> bytes \<Rightarrow> (cert_error, bytes) outcome" where
  "VerifyAll X current verifiers rawCert = verify_all X current rawCert [] verifiers"

fun verify_each ::
  "('sk, 'pk) cert_env \<Rightarrow> 64 word \<Rightarrow> bytes \<Rightarrow> bytes \<Rightarrow> (bytes \<times> 'pk) list \<Rightarrow> 'pk list \<Rightarrow> 'pk list \<Rightarrow> bytes \<times> (bytes \<times> 'pk) list \<times> 'pk list" where
  "verify_each X current rawCert certified good bad [] = (certified, good, bad)"
| "verify_each X current rawCert certified good bad (verifier # verifiers) =
     (case cert_Verify X current verifier rawCert of
        Ok c \<Rightarrow> verify_each X current rawCert c (AList.update (cx_Sum256From X verifier) verifier good) bad verifiers
      | _ \<Rightarrow> verify_each X current rawCert certified good (bad @ [verifier]) verifiers)"

text \<open>The certified data or an error, the verifiers that succeeded and those that failed.\<close>

definition VerifyThreshold ::
  "('sk, 'pk) cert_env \<Rightarrow> 64 word \<Rightarrow> 'pk list \<Rightarrow> nat \<Rightarrow> bytes \<Rightarrow> (cert_error, bytes) outcome \<times> 'pk list \<times> 'pk list" where
  "VerifyThreshold X current verifiers threshold rawCert =
     (if threshold > length verifiers then (Err ErrInvalidThreshold, [], [])
      else
        let (certified, good, bad) = verify_each X current rawCert [] [] [] verifiers
        in (if length good \<ge> threshold then Ok certified else Err ErrThresholdNotMet, map snd good, bad))"

section \<open>What the third-party code promises\<close>

text \<open>Decoding gives back what was encoded, with the signatures in some order.\<close>

definition same_cert :: "Certificate \<Rightarrow> Certificate \<Rightarrow> bool" where
  "same_cert c d \<longleftrightarrow> ct_Version d = ct_Version c \<and> ct_Expiration d = ct_Expiration c \<and> ct_KeyType d = ct_KeyType c \<and>
     ct_Certified d = ct_Certified c \<and> set (ct_Signatures d) = set (ct_Signatures c) \<and> distinct (map fst (ct_Signatures d))"

definition cbor_ok :: "('sk, 'pk) cert_env \<Rightarrow> bool" where
  "cbor_ok X \<longleftrightarrow> (\<forall>c. distinct (map fst (ct_Signatures c)) \<longrightarrow> (\<exists>d. cx_unmarshal X (cx_marshal X c) = Some d \<and> same_cert c d))"

definition signs_for :: "('sk, 'pk) cert_env \<Rightarrow> 'sk \<Rightarrow> 'pk \<Rightarrow> bool" where
  "signs_for X sk pk \<longleftrightarrow> (\<forall>m. cx_Verify X pk m (cx_Sign X sk m))"

section \<open>Verification\<close>

lemma same_cert_message: "same_cert c d \<Longrightarrow> cert_message d = cert_message c"
  by (simp add: same_cert_def cert_message_def)

lemma sanityCheck_iff: "sanityCheck current c = Ok () \<longleftrightarrow>
    ct_Version c = CertVersion \<and> current < ct_Expiration c \<and> ct_KeyType c \<noteq> [] \<and> ct_Certified c \<noteq> []"
  by (auto simp: sanityCheck_def not_le)

lemma same_cert_sanity: "same_cert c d \<Longrightarrow> sanityCheck current d = sanityCheck current c"
  by (simp add: same_cert_def sanityCheck_def)

lemma decoded_marshal:
  assumes "cbor_ok X" "distinct (map fst (ct_Signatures c))" "sanityCheck current c = Ok ()"
  obtains d where "decoded X current failure (cx_marshal X c) = Ok d" "same_cert c d"
proof -
  obtain d where d: "cx_unmarshal X (cx_marshal X c) = Some d" "same_cert c d"
    using assms(1,2) by (auto simp: cbor_ok_def)
  then have "decoded X current failure (cx_marshal X c) = Ok d"
    using assms(3) by (simp add: decoded_def same_cert_sanity)
  then show thesis using that d(2) by blast
qed

lemma decoded_sane: "decoded X current failure raw = Ok c \<Longrightarrow> sanityCheck current c = Ok ()"
  by (auto simp: decoded_def go_simps split: option.splits)

lemma decoded_failure: "decoded X current failure raw = Ok c \<longleftrightarrow> decoded X current failure' raw = Ok c"
  by (auto simp: decoded_def split: option.splits)

text \<open>A certificate in which every signature is filed under the key it names.\<close>

definition labelled :: "Certificate \<Rightarrow> bool" where
  "labelled c \<longleftrightarrow> distinct (map fst (ct_Signatures c)) \<and> (\<forall>(k, s)\<in>set (ct_Signatures c). sg_PublicKeySum256 s = k)"

lemma labelled_same: "labelled c \<Longrightarrow> same_cert c d \<Longrightarrow> labelled d"
  by (simp add: labelled_def same_cert_def)

lemma signature_of_labelled:
  assumes "labelled c"
  shows "signature_of k c = map_of (ct_Signatures c) k"
proof -
  have "find (\<lambda>s. sg_PublicKeySum256 s = k) (map snd xs) = map_of xs k"
    if "\<forall>(k, s)\<in>set xs. sg_PublicKeySum256 s = k" for xs :: "(bytes \<times> Signature) list"
    using that by (induction xs) auto
  then show ?thesis using assms by (simp add: labelled_def signature_of_def)
qed

lemma same_cert_map_of: "same_cert c d \<Longrightarrow> distinct (map fst (ct_Signatures c)) \<Longrightarrow> map_of (ct_Signatures d) = map_of (ct_Signatures c)"
  by (auto simp: same_cert_def intro: map_of_inject_set [THEN iffD2])

lemma cert_Verify_iff:
  "cert_Verify X current v raw = Ok b \<longleftrightarrow>
     (\<exists>c s. decoded X current ErrImpossibleDecode raw = Ok c \<and> signature_of (cx_Sum256From X v) c = Some s \<and>
        cx_Verify X v (cert_message c) (sg_Payload s) \<and> b = ct_Certified c)"
  using decoded_failure [of X current ErrImpossibleEncode raw _ ErrImpossibleDecode]
  by (fastforce simp: cert_Verify_def go_simps split: option.splits if_splits)

text \<open>What \<open>Verify\<close> says of an encoded certificate whose signatures are filed correctly.\<close>

lemma cert_Verify_marshal:
  assumes "cbor_ok X" "labelled c" "sanityCheck current c = Ok ()"
  shows "cert_Verify X current v (cx_marshal X c) =
     (case map_of (ct_Signatures c) (cx_Sum256From X v) of
        None \<Rightarrow> Err ErrIdentitySignatureNotFound
      | Some s \<Rightarrow> if cx_Verify X v (cert_message c) (sg_Payload s) then Ok (ct_Certified c) else Err ErrBadSignature)"
proof -
  have dist: "distinct (map fst (ct_Signatures c))" using assms(2) by (simp add: labelled_def)
  obtain d where d: "decoded X current ErrImpossibleEncode (cx_marshal X c) = Ok d" "same_cert c d"
    using decoded_marshal [OF assms(1) dist assms(3)] by blast
  have "signature_of k d = map_of (ct_Signatures c) k" for k
    using signature_of_labelled [OF labelled_same [OF assms(2) d(2)]] same_cert_map_of [OF d(2) dist] by simp
  moreover have "ct_Certified d = ct_Certified c" using d(2) by (simp add: same_cert_def)
  ultimately show ?thesis using d(1) same_cert_message [OF d(2)] by (simp add: cert_Verify_def split: option.split)
qed

text \<open>The verifiers that count, by the hash of their key.\<close>

definition valid_signers :: "('sk, 'pk) cert_env \<Rightarrow> Certificate \<Rightarrow> 'pk list \<Rightarrow> bytes set" where
  "valid_signers X c verifiers = cx_Sum256From X ` {v \<in> set verifiers. \<exists>s. signature_of (cx_Sum256From X v) c = Some s \<and>
     cx_Verify X v (cert_message c) (sg_Payload s)}"

lemma verify_each_good:
  assumes "verify_each X current raw b good bad vs = (b', good', bad')" "distinct (map fst good)"
  shows "distinct (map fst good') \<and>
     fst ` set good' = fst ` set good \<union> cx_Sum256From X ` {v \<in> set vs. \<exists>x. cert_Verify X current v raw = Ok x}"
  using assms
proof (induction vs arbitrary: b good bad)
  case (Cons v vs)
  show ?case
  proof (cases "\<exists>x. cert_Verify X current v raw = Ok x")
    case True
    then obtain x where x: "cert_Verify X current v raw = Ok x" by blast
    have "distinct (map fst (AList.update (cx_Sum256From X v) v good))" using Cons.prems(2) by (rule distinct_update)
    moreover have "fst ` set (AList.update (cx_Sum256From X v) v good) = insert (cx_Sum256From X v) (fst ` set good)"
      using dom_update [of "cx_Sum256From X v" v good] by (simp add: dom_map_of_conv_image_fst)
    ultimately show ?thesis using Cons.IH [of x _ bad] Cons.prems(1) x by auto
  next
    case False
    then have "verify_each X current raw b good (bad @ [v]) vs = (b', good', bad')"
      using Cons.prems(1) by (cases "cert_Verify X current v raw") simp_all
    then show ?thesis using Cons.IH Cons.prems(2) False by auto
  qed
qed simp

lemma verify_each_certified:
  assumes "verify_each X current raw b good bad vs = (b', good', bad')" "\<And>v x. cert_Verify X current v raw = Ok x \<Longrightarrow> x = y"
  shows "b' = (if \<exists>v\<in>set vs. \<exists>x. cert_Verify X current v raw = Ok x then y else b)"
  using assms(1)
proof (induction vs arbitrary: b good bad)
  case (Cons v vs)
  show ?case
  proof (cases "cert_Verify X current v raw")
    case (Ok x)
    then show ?thesis using Cons.IH [of x] Cons.prems assms(2) [OF Ok] by auto
  qed (use Cons in auto)
qed simp

lemma VerifyThreshold_iff:
  assumes t: "0 < threshold"
  shows "fst (VerifyThreshold X current vs threshold raw) = Ok b \<longleftrightarrow> threshold \<le> length vs \<and>
     (\<exists>c. decoded X current ErrImpossibleDecode raw = Ok c \<and> b = ct_Certified c \<and> threshold \<le> card (valid_signers X c vs))"
proof -
  obtain b' good bad where run: "verify_each X current raw [] [] [] vs = (b', good, bad)" by (metis prod_cases3)
  let ?G = "{v \<in> set vs. \<exists>x. cert_Verify X current v raw = Ok x}"
  have good: "distinct (map fst good)" "fst ` set good = cx_Sum256From X ` ?G"
    using verify_each_good [OF run] by simp_all
  have len: "length good = card (cx_Sum256From X ` ?G)"
    using distinct_card [OF good(1)] good(2) by simp
  have fst: "fst (VerifyThreshold X current vs threshold raw) = Ok b \<longleftrightarrow> threshold \<le> length vs \<and> threshold \<le> length good \<and> b' = b"
    by (simp add: VerifyThreshold_def run)
  show ?thesis
  proof (cases "\<exists>c. decoded X current ErrImpossibleDecode raw = Ok c")
    case True
    then obtain c where c: "decoded X current ErrImpossibleDecode raw = Ok c" by blast
    have G: "cx_Sum256From X ` ?G = valid_signers X c vs" by (simp add: valid_signers_def cert_Verify_iff c)
    have "x = ct_Certified c" if "cert_Verify X current v raw = Ok x" for v x using that by (auto simp: cert_Verify_iff c)
    then have "b' = (if \<exists>v\<in>set vs. \<exists>x. cert_Verify X current v raw = Ok x then ct_Certified c else [])"
      by (rule verify_each_certified [OF run])
    then have "b' = (if ?G \<noteq> {} then ct_Certified c else [])" by auto
    moreover have "?G \<noteq> {}" if "threshold \<le> length good"
    proof
      assume "?G = {}"
      then have "length good = 0" unfolding len by (simp only: image_empty card.empty)
      then show False using that t by simp
    qed
    ultimately show ?thesis unfolding fst len G using c t by auto
  next
    case False
    then have "?G = {}" by (simp add: cert_Verify_iff)
    then have "length good = 0" unfolding len by (simp only: image_empty card.empty)
    then show ?thesis unfolding fst using False t by auto
  qed
qed

lemma set_AList_update: "set (AList.update k v al) \<subseteq> insert (k, v) (set al)"
  by (induction al) auto

text \<open>Signing an encoded certificate once more.\<close>

lemma SignMulti_marshal:
  assumes X: "cbor_ok X" and c: "labelled c" "sanityCheck current c = Ok ()" and sk: "signs_for X sk pk" "cx_Name X sk = ct_KeyType c"
  obtains c' where "SignMulti X current sk pk (cx_marshal X c) = Ok (cx_marshal X c')" "labelled c'" "sanityCheck current c' = Ok ()"
    "ct_KeyType c' = ct_KeyType c" "ct_Certified c' = ct_Certified c" "cert_message c' = cert_message c"
    "map_of (ct_Signatures c') = (map_of (ct_Signatures c))(cx_Sum256From X pk \<mapsto>
       \<lparr>sg_PublicKeySum256 = cx_Sum256From X pk, sg_Payload = cx_Sign X sk (cert_message c)\<rparr>)"
proof -
  have dist: "distinct (map fst (ct_Signatures c))" using c(1) by (simp add: labelled_def)
  obtain d where d: "decoded X current ErrImpossibleDecode (cx_marshal X c) = Ok d" "same_cert c d"
    using decoded_marshal [OF X dist c(2)] by blast
  let ?h = "cx_Sum256From X pk"
  let ?s = "\<lparr>sg_PublicKeySum256 = ?h, sg_Payload = cx_Sign X sk (cert_message d)\<rparr>"
  let ?c = "d\<lparr>ct_Signatures := AList.update ?h ?s (ct_Signatures d)\<rparr>"
  have f: "ct_KeyType d = ct_KeyType c" "ct_Certified d = ct_Certified c" using d(2) by (simp_all add: same_cert_def)
  have m: "cert_message d = cert_message c" using d(2) by (rule same_cert_message)
  have "labelled d" using c(1) d(2) by (rule labelled_same)
  then have "labelled ?c"
    using set_AList_update [of ?h ?s "ct_Signatures d"] by (fastforce simp: labelled_def distinct_update)
  moreover have "sanityCheck current ?c = Ok ()" using same_cert_sanity [OF d(2), of current] c(2) by (simp add: sanityCheck_iff)
  moreover have "SignMulti X current sk pk (cx_marshal X c) = Ok (cx_marshal X ?c)"
    using d(1) sk(2) f(1) by (simp add: SignMulti_def Let_def)
  moreover have "map_of (AList.update ?h ?s (ct_Signatures d)) = (map_of (ct_Signatures c))(?h \<mapsto> ?s)"
    using same_cert_map_of [OF d(2) dist] by (simp add: update_conv')
  ultimately show thesis using that [of ?c] f m by (simp add: cert_message_def)
qed

text \<open>A chain of signers over one certificate.\<close>

definition sign_chain :: "('sk, 'pk) cert_env \<Rightarrow> 64 word \<Rightarrow> bytes \<Rightarrow> ('sk \<times> 'pk) list \<Rightarrow> (cert_error, bytes) outcome" where
  "sign_chain X current raw signers = foldl (\<lambda>r (sk, pk). obind r (SignMulti X current sk pk)) (Ok raw) signers"

definition signed_by :: "('sk, 'pk) cert_env \<Rightarrow> Certificate \<Rightarrow> 'pk \<Rightarrow> bool" where
  "signed_by X c pk \<longleftrightarrow> (\<exists>s. map_of (ct_Signatures c) (cx_Sum256From X pk) = Some s \<and> cx_Verify X pk (cert_message c) (sg_Payload s))"

lemma sign_chain_verifies:
  assumes X: "cbor_ok X" and c: "labelled c" "sanityCheck current c = Ok ()"
    and signers: "\<forall>(sk, pk)\<in>set signers. signs_for X sk pk \<and> cx_Name X sk = ct_KeyType c" "inj (cx_Sum256From X)"
  shows "\<exists>c'. sign_chain X current (cx_marshal X c) signers = Ok (cx_marshal X c') \<and> labelled c' \<and> sanityCheck current c' = Ok () \<and>
     ct_Certified c' = ct_Certified c \<and> (\<forall>pk. signed_by X c' pk \<longleftrightarrow> pk \<in> snd ` set signers \<or> signed_by X c pk) \<and>
     dom (map_of (ct_Signatures c')) = dom (map_of (ct_Signatures c)) \<union> cx_Sum256From X ` snd ` set signers"
  using c signers(1)
proof (induction signers arbitrary: c)
  case Nil
  then show ?case by (auto simp: sign_chain_def)
next
  case (Cons p signers)
  obtain sk pk where p: "p = (sk, pk)" by (cases p)
  obtain d where d: "SignMulti X current sk pk (cx_marshal X c) = Ok (cx_marshal X d)" "labelled d" "sanityCheck current d = Ok ()"
      "ct_KeyType d = ct_KeyType c" "ct_Certified d = ct_Certified c" "cert_message d = cert_message c"
      "map_of (ct_Signatures d) = (map_of (ct_Signatures c))(cx_Sum256From X pk \<mapsto>
         \<lparr>sg_PublicKeySum256 = cx_Sum256From X pk, sg_Payload = cx_Sign X sk (cert_message c)\<rparr>)"
    by (rule SignMulti_marshal [OF X Cons.prems(1,2), of sk pk]) (use Cons.prems(3) p in auto)
  have run: "sign_chain X current (cx_marshal X c) (p # signers) = sign_chain X current (cx_marshal X d) signers"
    by (simp add: sign_chain_def p d(1))
  have "cx_Verify X pk (cert_message c) (cx_Sign X sk (cert_message c))"
    using Cons.prems(3) p by (simp add: signs_for_def)
  then have sb: "signed_by X d pk' \<longleftrightarrow> pk' = pk \<or> signed_by X c pk'" for pk'
    using inj_eq [OF signers(2)] unfolding signed_by_def d(6,7) by auto
  have sg: "\<forall>(sk, pk)\<in>set signers. signs_for X sk pk \<and> cx_Name X sk = ct_KeyType d" using Cons.prems(3) d(4) by auto
  from Cons.IH [OF d(2,3) sg] obtain c' where c':
      "sign_chain X current (cx_marshal X d) signers = Ok (cx_marshal X c') \<and> labelled c' \<and> sanityCheck current c' = Ok () \<and>
       ct_Certified c' = ct_Certified d \<and> (\<forall>pk. signed_by X c' pk \<longleftrightarrow> pk \<in> snd ` set signers \<or> signed_by X d pk) \<and>
       dom (map_of (ct_Signatures c')) = dom (map_of (ct_Signatures d)) \<union> cx_Sum256From X ` snd ` set signers" ..
  have "dom (map_of (ct_Signatures d)) = insert (cx_Sum256From X pk) (dom (map_of (ct_Signatures c)))" by (simp add: d(7))
  then show ?case unfolding run using c' sb d(5) p by (intro exI [of _ c']) auto
qed

text \<open>A first signature.\<close>

lemma cert_Sign_marshal:
  assumes "current < expiration" "cx_Name X sk \<noteq> []" "data \<noteq> []"
  obtains c where "cert_Sign X current sk pk data expiration = Ok (cx_marshal X c)" "labelled c" "sanityCheck current c = Ok ()"
    "ct_KeyType c = cx_Name X sk" "ct_Certified c = data"
    "map_of (ct_Signatures c) = [cx_Sum256From X pk \<mapsto>
       \<lparr>sg_PublicKeySum256 = cx_Sum256From X pk, sg_Payload = cx_Sign X sk (cert_message c)\<rparr>]"
proof -
  define c where "c = \<lparr>ct_Version = CertVersion, ct_Expiration = expiration, ct_KeyType = cx_Name X sk, ct_Certified = data, ct_Signatures = []\<rparr>"
  let ?s = "\<lparr>sg_PublicKeySum256 = cx_Sum256From X pk, sg_Payload = cx_Sign X sk (cert_message c)\<rparr>"
  let ?c = "c\<lparr>ct_Signatures := [(cx_Sum256From X pk, ?s)]\<rparr>"
  have sane: "sanityCheck current c = Ok ()" using assms by (simp add: sanityCheck_iff c_def)
  moreover have "cert_message ?c = cert_message c" by (simp add: cert_message_def)
  moreover have "sanityCheck current ?c = Ok ()" using sane by (simp add: sanityCheck_iff)
  moreover have "cert_Sign X current sk pk data expiration = Ok (cx_marshal X ?c)"
    using sane by (simp add: cert_Sign_def c_def [symmetric] Let_def)
  ultimately show thesis by (intro that [of ?c]) (simp_all add: labelled_def c_def)
qed

lemma valid_signers_labelled:
  assumes "labelled c"
  shows "valid_signers X c vs = cx_Sum256From X ` {v \<in> set vs. signed_by X c v}"
  using signature_of_labelled [OF assms] by (simp add: valid_signers_def signed_by_def)

text \<open>What a chain of signers makes, from the first signature on.\<close>

lemma signed_certificate:
  assumes X: "cbor_ok X" "inj (cx_Sum256From X)" and data: "current < expiration" "cx_Name X sk \<noteq> []" "data \<noteq> []"
    and signers: "\<forall>(sk', pk')\<in>set ((sk, pk) # signers). signs_for X sk' pk' \<and> cx_Name X sk' = cx_Name X sk"
  obtains raw c where "cert_Sign X current sk pk data expiration = Ok raw" "sign_chain X current raw signers = Ok (cx_marshal X c)"
    "labelled c" "sanityCheck current c = Ok ()" "ct_Certified c = data"
    "\<And>v. signed_by X c v \<longleftrightarrow> v \<in> snd ` set ((sk, pk) # signers)"
    "dom (map_of (ct_Signatures c)) = cx_Sum256From X ` snd ` set ((sk, pk) # signers)"
proof -
  obtain c where c: "cert_Sign X current sk pk data expiration = Ok (cx_marshal X c)" "labelled c" "sanityCheck current c = Ok ()"
      "ct_KeyType c = cx_Name X sk" "ct_Certified c = data"
      "map_of (ct_Signatures c) = [cx_Sum256From X pk \<mapsto> \<lparr>sg_PublicKeySum256 = cx_Sum256From X pk, sg_Payload = cx_Sign X sk (cert_message c)\<rparr>]"
    using cert_Sign_marshal [OF data] by blast
  have "cx_Verify X pk m (cx_Sign X sk m)" for m using signers by (simp add: signs_for_def)
  then have sb: "signed_by X c v \<longleftrightarrow> v = pk" for v using inj_eq [OF X(2)] by (auto simp: signed_by_def c(6))
  have "\<forall>(sk', pk')\<in>set signers. signs_for X sk' pk' \<and> cx_Name X sk' = ct_KeyType c" using signers c(4) by auto
  from sign_chain_verifies [OF X(1) c(2,3) this X(2)] obtain c' where c':
      "sign_chain X current (cx_marshal X c) signers = Ok (cx_marshal X c') \<and> labelled c' \<and> sanityCheck current c' = Ok () \<and>
       ct_Certified c' = ct_Certified c \<and> (\<forall>pk. signed_by X c' pk \<longleftrightarrow> pk \<in> snd ` set signers \<or> signed_by X c pk) \<and>
       dom (map_of (ct_Signatures c')) = dom (map_of (ct_Signatures c)) \<union> cx_Sum256From X ` snd ` set signers" ..
  show thesis by (rule that [OF c(1), of c']) (use c' c(5,6) sb in auto)
qed

lemma valid_signers_card:
  assumes "labelled c" "same_cert c d" "inj (cx_Sum256From X)"
  shows "card (valid_signers X d vs) = card {v \<in> set vs. signed_by X c v}"
proof -
  have dist: "distinct (map fst (ct_Signatures c))" using assms(1) by (simp add: labelled_def)
  have "signed_by X d v \<longleftrightarrow> signed_by X c v" for v
    using same_cert_map_of [OF assms(2) dist] same_cert_message [OF assms(2)] by (simp add: signed_by_def)
  then show ?thesis
    using valid_signers_labelled [OF labelled_same [OF assms(1,2)], of X vs] card_image [OF inj_on_subset [OF assms(3) subset_UNIV]] by simp
qed

text \<open>
  C39. Certificates are what a threshold of signatures makes of them. \<open>VerifyThreshold\<close> succeeds, for a positive
  threshold, exactly when at least that many of the verifiers, counted by the hash of their keys, have a signature in
  the certificate that verifies its message, the certificate is in date and well formed, and the threshold is not
  larger than the number of verifiers; it then returns the certified data. A certificate that one signer made
  and others signed after it verifies for exactly these signers, whatever the order in which a decoder lists
  the signatures.
\<close>

theorem certificates_verify:
  assumes t: "0 < threshold"
  shows "(fst (VerifyThreshold X current vs threshold raw) = Ok b \<longleftrightarrow> threshold \<le> length vs \<and>
      (\<exists>c. decoded X current ErrImpossibleDecode raw = Ok c \<and> b = ct_Certified c \<and> threshold \<le> card (valid_signers X c vs))) \<and>
    (cbor_ok X \<and> inj (cx_Sum256From X) \<and> current < expiration \<and> cx_Name X sk \<noteq> [] \<and> data \<noteq> [] \<and>
      (\<forall>(sk', pk')\<in>set ((sk, pk) # signers). signs_for X sk' pk' \<and> cx_Name X sk' = cx_Name X sk) \<longrightarrow>
      (\<exists>raw1 raw2. cert_Sign X current sk pk data expiration = Ok raw1 \<and> sign_chain X current raw1 signers = Ok raw2 \<and>
        (\<forall>v. cert_Verify X current v raw2 = (if v \<in> snd ` set ((sk, pk) # signers) then Ok data else Err ErrIdentitySignatureNotFound)) \<and>
        (fst (VerifyThreshold X current vs threshold raw2) = Ok data \<longleftrightarrow>
           threshold \<le> length vs \<and> threshold \<le> card (set vs \<inter> snd ` set ((sk, pk) # signers)))))"
proof (intro conjI impI VerifyThreshold_iff [OF t], elim conjE)
  assume X: "cbor_ok X" "inj (cx_Sum256From X)" and data: "current < expiration" "cx_Name X sk \<noteq> []" "data \<noteq> []"
    and signers: "\<forall>(sk', pk')\<in>set ((sk, pk) # signers). signs_for X sk' pk' \<and> cx_Name X sk' = cx_Name X sk"
  obtain raw1 c where c: "cert_Sign X current sk pk data expiration = Ok raw1" "sign_chain X current raw1 signers = Ok (cx_marshal X c)"
      "labelled c" "sanityCheck current c = Ok ()" "ct_Certified c = data"
      "\<And>v. signed_by X c v \<longleftrightarrow> v \<in> snd ` set ((sk, pk) # signers)"
      "dom (map_of (ct_Signatures c)) = cx_Sum256From X ` snd ` set ((sk, pk) # signers)"
    by (rule signed_certificate [OF X data signers]) blast
  have "cert_Verify X current v (cx_marshal X c) = (if v \<in> snd ` set ((sk, pk) # signers) then Ok data else Err ErrIdentitySignatureNotFound)" for v
  proof (cases "v \<in> snd ` set ((sk, pk) # signers)")
    case True
    then have "signed_by X c v" using c(6) by blast
    then show ?thesis using True c(5) by (auto simp: cert_Verify_marshal [OF X(1) c(3,4)] signed_by_def)
  next
    case False
    then have "cx_Sum256From X v \<notin> dom (map_of (ct_Signatures c))" unfolding c(7) using inj_image_mem_iff [OF X(2)] by metis
    then show ?thesis unfolding cert_Verify_marshal [OF X(1) c(3,4)] using False by (simp add: domIff)
  qed
  moreover obtain d where d: "decoded X current ErrImpossibleDecode (cx_marshal X c) = Ok d" "same_cert c d"
    using decoded_marshal [OF X(1) _ c(4)] c(3) by (auto simp: labelled_def)
  have "{v \<in> set vs. signed_by X c v} = set vs \<inter> snd ` set ((sk, pk) # signers)" using c(6) by auto
  then have "card (valid_signers X d vs) = card (set vs \<inter> snd ` set ((sk, pk) # signers))"
    using valid_signers_card [OF c(3) d(2) X(2), of vs] by simp
  then have "fst (VerifyThreshold X current vs threshold (cx_marshal X c)) = Ok data \<longleftrightarrow>
      threshold \<le> length vs \<and> threshold \<le> card (set vs \<inter> snd ` set ((sk, pk) # signers))"
    using d c(5) by (auto simp: VerifyThreshold_iff [OF t] same_cert_def)
  ultimately show "\<exists>raw1 raw2. cert_Sign X current sk pk data expiration = Ok raw1 \<and> sign_chain X current raw1 signers = Ok raw2 \<and>
        (\<forall>v. cert_Verify X current v raw2 = (if v \<in> snd ` set ((sk, pk) # signers) then Ok data else Err ErrIdentitySignatureNotFound)) \<and>
        (fst (VerifyThreshold X current vs threshold raw2) = Ok data \<longleftrightarrow>
           threshold \<le> length vs \<and> threshold \<le> card (set vs \<inter> snd ` set ((sk, pk) # signers)))"
    using c(1,2) by blast
qed

text \<open>A concrete encoding and a concrete scheme: the signature of a message is the key followed by the message.\<close>

definition toy_enc :: "bytes \<Rightarrow> bytes" where
  "toy_enc b = concat (map (\<lambda>x. [1, x]) b) @ [0]"

fun toy_dec :: "bytes \<Rightarrow> (bytes \<times> bytes) option" where
  "toy_dec (t # r) = (if t = 0 then Some ([], r)
     else case r of [] \<Rightarrow> None | x # r \<Rightarrow> map_option (\<lambda>(b, rest). (x # b, rest)) (toy_dec r))"
| "toy_dec [] = None"

fun toy_enc_sigs :: "(bytes \<times> Signature) list \<Rightarrow> bytes" where
  "toy_enc_sigs [] = [0]"
| "toy_enc_sigs ((k, s) # sigs) = 1 # toy_enc k @ toy_enc (sg_PublicKeySum256 s) @ toy_enc (sg_Payload s) @ toy_enc_sigs sigs"

fun toy_dec_sigs :: "nat \<Rightarrow> bytes \<Rightarrow> (bytes \<times> Signature) list option" where
  "toy_dec_sigs (Suc n) (t # r) = (if t = 0 then Some []
     else Option.bind (toy_dec r) (\<lambda>(k, r). Option.bind (toy_dec r) (\<lambda>(h, r). Option.bind (toy_dec r) (\<lambda>(p, r).
       map_option ((#) (k, \<lparr>sg_PublicKeySum256 = h, sg_Payload = p\<rparr>)) (toy_dec_sigs n r)))))"
| "toy_dec_sigs _ _ = None"

definition toy_marshal :: "Certificate \<Rightarrow> bytes" where
  "toy_marshal c = PutUint32 (ct_Version c) @ PutUint64 (ct_Expiration c) @ toy_enc (ct_KeyType c) @ toy_enc (ct_Certified c) @
     toy_enc_sigs (ct_Signatures c)"

definition toy_unmarshal :: "bytes \<Rightarrow> Certificate option" where
  "toy_unmarshal b = Option.bind (toy_dec (drop 12 b)) (\<lambda>(t, r). Option.bind (toy_dec r) (\<lambda>(d, r).
     map_option (\<lambda>sigs. \<lparr>ct_Version = Uint32 (take 4 b), ct_Expiration = Uint64 (take 8 (drop 4 b)), ct_KeyType = t, ct_Certified = d,
       ct_Signatures = sigs\<rparr>) (toy_dec_sigs (length r) r)))"

definition toy_cert :: "(byte, byte) cert_env" where
  "toy_cert = \<lparr>cx_Sign = (#), cx_Verify = (\<lambda>pk m s. s = pk # m), cx_Name = (\<lambda>_. [75]), cx_Sum256From = (\<lambda>pk. [pk]),
     cx_marshal = toy_marshal, cx_unmarshal = toy_unmarshal\<rparr>"

lemma toy_dec_enc: "toy_dec (toy_enc b @ r) = Some (b, r)"
  by (induction b) (simp_all add: toy_enc_def)

lemma toy_dec_enc_sigs: "length sigs < n \<Longrightarrow> toy_dec_sigs n (toy_enc_sigs sigs) = Some sigs"
proof (induction sigs arbitrary: n)
  case Nil
  then show ?case by (cases n) simp_all
next
  case (Cons p sigs)
  obtain k s m where "p = (k, s)" "n = Suc m" using Cons.prems by (cases p, cases n) auto
  then show ?case using Cons by (simp add: toy_dec_enc)
qed

lemma toy_cbor_ok: "cbor_ok toy_cert"
proof -
  have "length sigs < length (toy_enc_sigs sigs)" for sigs by (induction sigs rule: toy_enc_sigs.induct) simp_all
  then have "toy_unmarshal (toy_marshal c) = Some c" for c
    by (simp add: toy_unmarshal_def toy_marshal_def toy_dec_enc toy_dec_enc_sigs)
  then show ?thesis by (auto simp: cbor_ok_def toy_cert_def same_cert_def)
qed

lemma toy_signs: "signs_for toy_cert i i" "inj (cx_Sum256From toy_cert)" "cx_Name toy_cert i = [75]"
  by (simp_all add: signs_for_def toy_cert_def inj_def)

theorem certificates_verify_witness:
  "\<exists>raw1 raw2. cert_Sign toy_cert 4 1 1 [9] 6 = Ok raw1 \<and> sign_chain toy_cert 4 raw1 [(2, 2)] = Ok raw2 \<and>
     fst (VerifyThreshold toy_cert 4 [1, 2, 3] 2 raw2) = Ok [9] \<and> cert_Verify toy_cert 4 3 raw2 = Err ErrIdentitySignatureNotFound"
proof -
  have "{1, 2, 3} \<inter> insert 1 {2} = {1, 2 :: byte}" by auto
  then show ?thesis
    using certificates_verify [of 2 toy_cert 4 "[1, 2, 3]" "[]" "[]" 6 1 "[9]" 1 "[(2, 2)]"] toy_cbor_ok toy_signs by auto
qed

text \<open>A signature of \<open>m\<close> that names another key is filed under that key.\<close>

lemma AddSignature_mislabelled:
  assumes X: "cbor_ok X" and c: "labelled c" "sanityCheck current c = Ok ()"
    and s: "cx_Verify X m (cert_message c) (sg_Payload s)" "sg_PublicKeySum256 s \<notin> dom (map_of (ct_Signatures c))"
  obtains c' where "AddSignature X current m s (cx_marshal X c) = Ok (cx_marshal X c')" "labelled c'" "sanityCheck current c' = Ok ()"
    "cert_message c' = cert_message c" "map_of (ct_Signatures c') = (map_of (ct_Signatures c))(sg_PublicKeySum256 s \<mapsto> s)"
proof -
  have dist: "distinct (map fst (ct_Signatures c))" using c(1) by (simp add: labelled_def)
  obtain d where d: "decoded X current ErrImpossibleDecode (cx_marshal X c) = Ok d" "same_cert c d"
    using decoded_marshal [OF X dist c(2)] by blast
  have ld: "labelled d" using c(1) d(2) by (rule labelled_same)
  let ?c = "d\<lparr>ct_Signatures := AList.update (sg_PublicKeySum256 s) s (ct_Signatures d)\<rparr>"
  have m: "cert_message d = cert_message c" using d(2) by (rule same_cert_message)
  have mo: "map_of (ct_Signatures d) = map_of (ct_Signatures c)" using same_cert_map_of [OF d(2) dist] .
  have "sg_PublicKeySum256 ` set (map snd (ct_Signatures d)) = dom (map_of (ct_Signatures d))"
    using ld by (force simp: labelled_def dom_map_of_conv_image_fst)
  then have "AddSignature X current m s (cx_marshal X c) = Ok (cx_marshal X ?c)"
    using d(1) s m mo by (simp add: AddSignature_def)
  moreover have "labelled ?c"
    using ld set_AList_update [of "sg_PublicKeySum256 s" s "ct_Signatures d"] by (fastforce simp: labelled_def distinct_update)
  moreover have "sanityCheck current ?c = Ok ()" using same_cert_sanity [OF d(2), of current] c(2) by (simp add: sanityCheck_iff)
  ultimately show thesis using that [of ?c] m mo by (simp add: cert_message_def update_conv')
qed

lemma AddSignature_duplicate:
  assumes X: "cbor_ok X" and c: "labelled c" "sanityCheck current c = Ok ()" "sg_PublicKeySum256 s \<in> dom (map_of (ct_Signatures c))"
  shows "AddSignature X current v s (cx_marshal X c) = Err ErrDuplicateSignature"
proof -
  have dist: "distinct (map fst (ct_Signatures c))" using c(1) by (simp add: labelled_def)
  obtain d where d: "decoded X current ErrImpossibleDecode (cx_marshal X c) = Ok d" "same_cert c d"
    using decoded_marshal [OF X dist c(2)] by blast
  have "sg_PublicKeySum256 ` set (map snd (ct_Signatures d)) = dom (map_of (ct_Signatures d))"
    using labelled_same [OF c(1) d(2)] by (force simp: labelled_def dom_map_of_conv_image_fst)
  then show ?thesis using d(1) c(3) same_cert_map_of [OF d(2) dist] by (simp add: AddSignature_def)
qed



end
