(* ===== verification/Spec2Isabelle.thy ===== *)
theory Spec2Isabelle
  imports Mix_Network Mix_Scheduler Copy_Stream Replica_Sharding Replica_Store Courier_Cache Replica_Connector Wire_Safety Core_Cert
begin

text \<open>
  A verification development for the Katzenpost mix network (\<open>src/\<close>, written in Go).

  \<^bold>\<open>The program.\<close> Clients build Sphinx packets (\<open>core/sphinx\<close>) that travel a path of mix servers. Every server
  authenticates and unwraps a packet under one of its mix keys, drops replays, and schedules it for a delay named
  in the packet (\<open>server/internal\<close>). The last hop is a service; one such service is the courier
  (\<open>courier/server\<close>), through which clients read and write boxes at storage replicas (\<open>replica\<close>) with the
  messages of \<open>pigeonhole\<close>. Links between parties carry padded commands (\<open>core/wire/commands\<close>).

  \<^bold>\<open>Conventions.\<close> \<open>Go_Prelude\<close> fixes how Go is read: bytes are 8-bit words, a fallible call returns an
  \<open>outcome\<close> (\<open>Ok\<close>, \<open>Err\<close> or \<open>Panic\<close>), slicing out of range is \<open>Panic\<close>, fixed-width integers are words.
  Cryptographic primitives, hashes, random streams, databases and clocks are arguments of the definitions;
  what the code relies on of them appears as hypotheses of the theorems, and the witnesses instantiate them.
  Loops that may not end are \<open>partial_function (option)\<close> with \<open>None\<close> for no result, and it is proved that
  they return; no other fuel is used.

  \<^bold>\<open>Packets.\<close>
  \<^item> \<open>Sphinx_Crypto\<close>, \<open>Sphinx_Geo\<close>, \<open>Sphinx_Commands\<close>: \<open>core/sphinx/internal/crypto\<close>, \<open>geo\<close> and \<open>commands\<close>.
  \<^item> \<open>Sphinx_Packet\<close>, \<open>Sphinx_Onion\<close>: what the two packet formats share, and the layered header as a locale.
  \<^item> \<open>Sphinx_NIKE\<close>, \<open>Sphinx_KEM\<close>, \<open>Sphinx_SURB\<close>, \<open>Sphinx_API\<close>: \<open>sphinx.go\<close>, \<open>kemsphinx.go\<close>, \<open>surb.go\<close>,
    \<open>new_sphinx.go\<close>. A packet reaches every hop of its path with the right commands and delivers its payload
    (C1, C2), reply blocks round trip (C3, C4), unwrapping is safe on all inputs and authenticates (C5, C6).

  \<^bold>\<open>Links.\<close>
  \<^item> \<open>Pigeonhole_Geo\<close>: \<open>pigeonhole/geo\<close> and the padded payloads of \<open>pigeonhole/helpers.go\<close> (C7).
  \<^item> \<open>Wire_Commands\<close>, \<open>Wire_Codec\<close>, \<open>Wire_Props\<close>, \<open>Wire_Safety\<close>: all link commands, round trip, the exact
    set of frames that panic, and traffic uniformity with its exceptions (C8 to C11).

  \<^bold>\<open>The mix server.\<close>
  \<^item> \<open>Queue\<close>, \<open>Timer_Queue\<close>: \<open>core/queue\<close>; the array heap refines a multiset with minimum, the worker is a step
    relation (C12 to C14).
  \<^item> \<open>Epoch_Time\<close>: \<open>core/epochtime\<close> (C15).
  \<^item> \<open>Mix_Packet\<close>, \<open>Mix_Keys\<close>, \<open>Mix_Worker\<close>, \<open>Mix_Network\<close>, \<open>Mix_Scheduler\<close>: packets, reference-counted mix
    keys, the crypto worker, its composition along a path, and the scheduler (C16 to C22).

  \<^bold>\<open>Storage.\<close>
  \<^item> \<open>Pigeonhole_Messages\<close>: \<open>pigeonhole/trunnel_messages.go\<close>, every message as an instance of the locale
    \<open>trunnel_codec\<close> (C23, C24).
  \<^item> \<open>Copy_Stream\<close>: \<open>pigeonhole/copy_stream.go\<close>, encoder and decoder with termination and round trip (C25).
  \<^item> \<open>Replica_Sharding\<close>: \<open>replica/common\<close> and \<open>pigeonhole/pki.go\<close>; shard selection, unbiased sampling, choice of
    intermediate replicas (C26 to C28).
  \<^item> \<open>Replica_Store\<close>: \<open>replica/state.go\<close> and the handlers on it; the store refines a write-once register, and
    runs of it keep boxes immutable and durable (C29, C30).
  \<^item> \<open>Pigeonhole_Helpers\<close>, \<open>Courier_Copy\<close>: padding, hashes and conversions of \<open>pigeonhole\<close>, and the copy command of
    \<open>courier/server/plugin.go\<close>; a command writes the stream that the client encoded (C31), and the tombstones
    the courier writes afterwards are refused (C32).
  \<^item> \<open>Courier_Cache\<close>: the rest of \<open>plugin.go\<close>, as a step relation over client requests, replies of replicas,
    background dispatches and copy workers; clients get only replies to their own envelopes (C33), a successful
    reply stays (C34), a copy command runs once (C35).
  \<^item> \<open>Replica_Handlers\<close>: \<open>replica/handlers.go\<close>, \<open>keys.go\<close> and \<open>envelope_epoch.go\<close>; a shard serves the requests sealed
    for a key of its epoch window, with replies of one size (C36), and an intermediate replica gives the client what
    a shard answers (C37).
  \<^item> \<open>Replica_Connector\<close>: \<open>replica/connector.go\<close>, \<open>replication_reply.go\<close> and the channels of \<open>outgoing_conn.go\<close>; writes
    reach the other shards through the retry queue, with the exact ways of losing one (C38).

  \<^bold>\<open>Certificates.\<close>
  \<^item> \<open>Core_Cert\<close>: \<open>core/cert\<close>; when a threshold of signatures verifies (C39), and what the format does not
    protect (C40).

  \<^bold>\<open>Not modelled.\<close> Network connections, the Noise handshake of \<open>core/wire\<close>, goroutine wiring, logging and metrics, configuration
  files, command line programs, the thin client protocol, directory authority servers and clients, the QUIC
  adapters, the Rust client and test network generation. These are input and output around the modelled operations
  or third-party protocols; where the modelled code depends on their results the results are arguments.
\<close>

end
